(* ===== verification/Prelude.thy ===== *)
theory Prelude
  imports Main "HOL-Library.Monad_Syntax" "HOL-Library.Sublist" "HOL-Library.Multiset"
begin

text \<open>
  What the components share: the collections of facts that carry their proofs, insertion-ordered
  Python dictionaries as association lists, the sequencing of calls that may raise
  (\<open>None\<close> is the raised exception), and prefix-counting lemmas for the binary searches.
\<close>

section \<open>Collections\<close>

named_theorems iv_simps \<open>unfolding of the operations on single intervals\<close>
named_theorems wf_intros \<open>preservation of well-formedness\<close>
named_theorems sem_simps \<open>meaning of operations as sets\<close>

section \<open>Calls that may raise\<close>

text \<open>A Python loop that calls a function which may raise on each element, in order.\<close>

fun map_opt :: "('a \<Rightarrow> 'b option) \<Rightarrow> 'a list \<Rightarrow> 'b list option" where
  "map_opt f [] = Some []"
| "map_opt f (x # xs) =
     (case f x of None \<Rightarrow> None
      | Some y \<Rightarrow> (case map_opt f xs of None \<Rightarrow> None | Some ys \<Rightarrow> Some (y # ys)))"

fun fold_opt :: "('s \<Rightarrow> 'a \<Rightarrow> 's option) \<Rightarrow> 's \<Rightarrow> 'a list \<Rightarrow> 's option" where
  "fold_opt f s [] = Some s"
| "fold_opt f s (x # xs) = (case f s x of None \<Rightarrow> None | Some s' \<Rightarrow> fold_opt f s' xs)"

lemma map_opt_cong [fundef_cong]:
  "xs = ys \<Longrightarrow> (\<And>x. x \<in> set ys \<Longrightarrow> f x = g x) \<Longrightarrow> map_opt f xs = map_opt g ys"
  by (induction ys arbitrary: xs) (auto split: option.splits)

lemma fold_opt_cong [fundef_cong]:
  "s = t \<Longrightarrow> xs = ys \<Longrightarrow> (\<And>r x. x \<in> set ys \<Longrightarrow> f r x = g r x) \<Longrightarrow>
   fold_opt f s xs = fold_opt g t ys"
  by (induction ys arbitrary: xs s t) (auto split: option.splits)

lemma map_opt_total:
  "(\<And>x. x \<in> set xs \<Longrightarrow> f x = Some (g x)) \<Longrightarrow> map_opt f xs = Some (map g xs)"
  by (induction xs) auto

lemma fold_opt_append:
  "fold_opt f s (xs @ ys) = (case fold_opt f s xs of None \<Rightarrow> None | Some t \<Rightarrow> fold_opt f t ys)"
  by (induction xs arbitrary: s) (auto split: option.splits)

text \<open>An invariant of a loop of calls that cannot raise while it holds.\<close>

lemma fold_opt_invariant:
  assumes "P s"
    and "\<And>t x. P t \<Longrightarrow> x \<in> set xs \<Longrightarrow> \<exists>t'. f t x = Some t' \<and> P t'"
  shows "\<exists>r. fold_opt f s xs = Some r \<and> P r"
  using assms
proof (induction xs arbitrary: s)
  case Nil
  then show ?case by simp
next
  case (Cons x xs)
  then obtain t where t: "f s x = Some t" "P t" by (metis list.set_intros(1))
  moreover have "\<exists>r. fold_opt f t xs = Some r \<and> P r"
    by (rule Cons.IH [OF t(2)]) (use Cons.prems(2) in auto)
  ultimately show ?case by auto
qed

section \<open>Dictionaries in insertion order\<close>

text \<open>
  A Python \<open>dict\<close> keeps its keys in the order of their first insertion; assigning to a key that
  is already there (compared by the key's own equality) replaces the value and keeps the stored
  key. The equality is a parameter because Python keys are objects with an \<open>__eq__\<close> method.
\<close>

fun dict_set :: "('k \<Rightarrow> 'k \<Rightarrow> bool) \<Rightarrow> ('k \<times> 'v) list \<Rightarrow> 'k \<Rightarrow> 'v \<Rightarrow> ('k \<times> 'v) list" where
  "dict_set eq [] k v = [(k, v)]"
| "dict_set eq ((k', v') # kvs) k v =
     (if eq k' k then (k', v) # kvs else (k', v') # dict_set eq kvs k v)"

fun dict_get :: "('k \<Rightarrow> 'k \<Rightarrow> bool) \<Rightarrow> ('k \<times> 'v) list \<Rightarrow> 'k \<Rightarrow> 'v option" where
  "dict_get eq [] k = None"
| "dict_get eq ((k', v') # kvs) k = (if eq k' k then Some v' else dict_get eq kvs k)"

definition dict_of_list :: "('k \<Rightarrow> 'k \<Rightarrow> bool) \<Rightarrow> ('k \<times> 'v) list \<Rightarrow> ('k \<times> 'v) list" where
  "dict_of_list eq kvs = foldl (\<lambda>d (k, v). dict_set eq d k v) [] kvs"

lemma dict_set_fresh:
  "\<forall>e\<in>set d. \<not> eq (fst e) k \<Longrightarrow> dict_set eq d k v = d @ [(k, v)]"
  by (induction d) auto

lemma dict_get_set: "eq k k \<Longrightarrow> dict_get eq (dict_set eq d k v) k = Some v"
  by (induction d) auto

lemma foldl_dict_set_fresh:
  assumes "sorted_wrt (\<lambda>a b. \<not> eq (fst a) (fst b)) (d @ kvs)"
  shows "foldl (\<lambda>d (k, v). dict_set eq d k v) d kvs = d @ kvs"
  using assms
proof (induction kvs arbitrary: d)
  case Nil
  then show ?case by simp
next
  case (Cons kv kvs)
  obtain k v where kv: "kv = (k, v)" by (cases kv)
  have "\<forall>x\<in>set d. \<not> eq (fst x) k"
    using Cons.prems by (simp add: sorted_wrt_append kv)
  then have "dict_set eq d k v = d @ [kv]"
    using kv by (simp add: dict_set_fresh)
  moreover have "foldl (\<lambda>d (k, v). dict_set eq d k v) (d @ [kv]) kvs = (d @ [kv]) @ kvs"
    by (rule Cons.IH) (use Cons.prems in simp)
  ultimately show ?case by (simp add: kv)
qed

lemma dict_of_list_fresh:
  "sorted_wrt (\<lambda>a b. \<not> eq (fst a) (fst b)) kvs \<Longrightarrow> dict_of_list eq kvs = kvs"
  using foldl_dict_set_fresh [of eq "[]" kvs] by (simp add: dict_of_list_def)

lemma dict_of_list_Nil [simp]: "dict_of_list eq [] = []"
  by (simp add: dict_of_list_def)

lemma map_opt_rel:
  "(\<And>x. x \<in> set xs \<Longrightarrow> \<exists>y. f x = Some y \<and> P x y) \<Longrightarrow> \<exists>ys. map_opt f xs = Some ys \<and> list_all2 P xs ys"
  by (induction xs) fastforce+

lemma map_opt_the:
  "(\<And>x. x \<in> set xs \<Longrightarrow> f x \<noteq> None) \<Longrightarrow> map_opt f xs = Some (map (\<lambda>x. the (f x)) xs)"
  by (induction xs) force+

lemma map_opt_Some_iff: "map_opt f xs = Some ys \<longleftrightarrow> list_all2 (\<lambda>x y. f x = Some y) xs ys"
proof (induction xs arbitrary: ys)
  case (Cons x xs)
  then show ?case
    by (cases ys) (auto split: option.splits, metis option.inject)
qed auto

lemma dict_get_Some: "dict_get eq kvs k = Some v \<Longrightarrow> \<exists>k'. (k', v) \<in> set kvs \<and> eq k' k"
  by (induction kvs) (auto split: if_splits)

lemma dict_get_exists: "(k', v) \<in> set kvs \<Longrightarrow> eq k' k \<Longrightarrow> \<exists>w. dict_get eq kvs k = Some w"
  by (induction kvs) auto

text \<open>With the plain equality.\<close>

lemma dict_get_set_eq:
  "dict_get (=) (dict_set (=) d k v) k' = (if k = k' then Some v else dict_get (=) d k')"
  by (induction d) auto

lemma dict_set_keys: "fst ` set (dict_set (=) d k v) = insert k (fst ` set d)"
proof (induction d)
  case (Cons e d)
  then show ?case by (cases e) (simp add: insert_commute)
qed simp

lemma dict_set_distinct: "distinct (map fst d) \<Longrightarrow> distinct (map fst (dict_set (=) d k v))"
proof (induction d)
  case (Cons e d)
  then show ?case using dict_set_keys [of d k v] by (cases e) auto
qed simp

lemma dict_get_None_iff: "dict_get (=) d k = None \<longleftrightarrow> k \<notin> fst ` set d"
proof (induction d)
  case (Cons e d)
  then show ?case by (cases e) auto
qed simp

lemma dict_get_distinct: "distinct (map fst d) \<Longrightarrow> (k, v) \<in> set d \<Longrightarrow> dict_get (=) d k = Some v"
  by (induction d) (auto simp: rev_image_eqI)

section \<open>Sets of objects\<close>

text \<open>
  A Python \<open>set\<close> compares its elements with their \<open>__eq__\<close> method. It is a list without equal
  elements here, in some order of iteration; adding an element that is there keeps the old one.
\<close>

definition set_mem :: "('a \<Rightarrow> 'a \<Rightarrow> bool) \<Rightarrow> 'a \<Rightarrow> 'a list \<Rightarrow> bool" where
  "set_mem eq x xs \<longleftrightarrow> list_ex (\<lambda>y. eq y x) xs"

definition set_add :: "('a \<Rightarrow> 'a \<Rightarrow> bool) \<Rightarrow> 'a list \<Rightarrow> 'a \<Rightarrow> 'a list" where
  "set_add eq xs x = (if set_mem eq x xs then xs else xs @ [x])"

definition set_remove :: "('a \<Rightarrow> 'a \<Rightarrow> bool) \<Rightarrow> 'a list \<Rightarrow> 'a \<Rightarrow> 'a list" where
  "set_remove eq xs x = filter (\<lambda>y. \<not> eq y x) xs"

definition set_union :: "('a \<Rightarrow> 'a \<Rightarrow> bool) \<Rightarrow> 'a list \<Rightarrow> 'a list \<Rightarrow> 'a list" where
  "set_union eq xs ys = foldl (set_add eq) xs ys"

definition set_inter :: "('a \<Rightarrow> 'a \<Rightarrow> bool) \<Rightarrow> 'a list \<Rightarrow> 'a list \<Rightarrow> 'a list" where
  "set_inter eq xs ys = filter (\<lambda>x. set_mem eq x ys) xs"

definition set_diff :: "('a \<Rightarrow> 'a \<Rightarrow> bool) \<Rightarrow> 'a list \<Rightarrow> 'a list \<Rightarrow> 'a list" where
  "set_diff eq xs ys = filter (\<lambda>x. \<not> set_mem eq x ys) xs"

definition set_equal :: "('a \<Rightarrow> 'a \<Rightarrow> bool) \<Rightarrow> 'a list \<Rightarrow> 'a list \<Rightarrow> bool" where
  "set_equal eq xs ys \<longleftrightarrow> length xs = length ys \<and> list_all (\<lambda>x. set_mem eq x ys) xs"

definition set_of :: "('a \<Rightarrow> 'a \<Rightarrow> bool) \<Rightarrow> 'a list \<Rightarrow> 'a list" where
  "set_of eq xs = set_union eq [] xs"

definition set_ok :: "('a \<Rightarrow> 'a \<Rightarrow> bool) \<Rightarrow> 'a list \<Rightarrow> bool" where
  "set_ok eq xs \<longleftrightarrow> sorted_wrt (\<lambda>x y. \<not> eq x y) xs"

text \<open>The contract of \<open>__eq__\<close>: it compares a key of the objects.\<close>

locale keyed =
  fixes eq :: "'a \<Rightarrow> 'a \<Rightarrow> bool" and key :: "'a \<Rightarrow> 'k"
  assumes eq_key: "eq x y \<longleftrightarrow> key x = key y"
begin

lemma mem_keys: "set_mem eq x xs \<longleftrightarrow> key x \<in> key ` set xs"
  unfolding set_mem_def list_ex_iff eq_key image_iff by metis

lemma ok_distinct: "set_ok eq xs \<longleftrightarrow> distinct (map key xs)"
  unfolding set_ok_def by (induction xs) (auto simp: eq_key image_iff)

lemma ok_filter: "set_ok eq xs \<Longrightarrow> set_ok eq (filter P xs)"
  unfolding ok_distinct by (rule distinct_map_filter)

lemma add_keys:
  "key ` set (set_add eq xs x) = insert (key x) (key ` set xs)"
  "set_ok eq xs \<Longrightarrow> set_ok eq (set_add eq xs x)"
  by (auto simp: set_add_def mem_keys ok_distinct)

lemma add_subset: "set (set_add eq xs x) \<subseteq> insert x (set xs)"
  by (auto simp: set_add_def)

lemma remove_keys:
  "key ` set (set_remove eq xs x) = key ` set xs - {key x}"
  "set_ok eq xs \<Longrightarrow> set_ok eq (set_remove eq xs x)"
  by (auto simp: set_remove_def eq_key ok_filter)

lemma union_keys:
  "key ` set (set_union eq xs ys) = key ` set xs \<union> key ` set ys"
  "set_ok eq xs \<Longrightarrow> set_ok eq (set_union eq xs ys)"
  by (induction ys arbitrary: xs) (auto simp: set_union_def add_keys)

lemma union_subset: "set (set_union eq xs ys) \<subseteq> set xs \<union> set ys"
proof (induction ys arbitrary: xs)
  case (Cons y ys)
  then show ?case using add_subset [of xs y] by (fastforce simp: set_union_def)
qed (simp add: set_union_def)

lemma inter_keys:
  "key ` set (set_inter eq xs ys) = key ` set xs \<inter> key ` set ys"
  "set_ok eq xs \<Longrightarrow> set_ok eq (set_inter eq xs ys)"
  by (auto simp: set_inter_def mem_keys ok_filter)

lemma diff_keys:
  "key ` set (set_diff eq xs ys) = key ` set xs - key ` set ys"
  "set_ok eq xs \<Longrightarrow> set_ok eq (set_diff eq xs ys)"
  by (auto simp: set_diff_def mem_keys ok_filter)

lemma equal_keys:
  assumes "set_ok eq xs" and "set_ok eq ys"
  shows "set_equal eq xs ys \<longleftrightarrow> key ` set xs = key ` set ys"
proof -
  have card: "card (key ` set zs) = length zs" if "set_ok eq zs" for zs
    using distinct_card [of "map key zs"] that by (simp add: ok_distinct)
  have "list_all (\<lambda>x. set_mem eq x ys) xs \<longleftrightarrow> key ` set xs \<subseteq> key ` set ys"
    by (auto simp: list_all_iff mem_keys)
  then show ?thesis
    unfolding set_equal_def using card [OF assms(1)] card [OF assms(2)]
    by (metis card_subset_eq finite_imageI finite_set order_refl)
qed

lemma of_keys: "key ` set (set_of eq xs) = key ` set xs" "set_ok eq (set_of eq xs)"
  using union_keys [of "[]" xs] by (simp_all add: set_of_def set_ok_def)

end

interpretation names: keyed "(=)" "\<lambda>x. x"
  by unfold_locales simp

section \<open>Texts\<close>

text \<open>\<open>str(n)\<close> and \<open>format(n, 'x')\<close> of numbers, and \<open>sep.join(xs)\<close>.\<close>

function digits :: "int \<Rightarrow> int \<Rightarrow> string" where
  "digits b n =
     (if b < 2 \<or> n < b then [''0123456789abcdef'' ! nat n]
      else digits b (n div b) @ [''0123456789abcdef'' ! nat (n mod b)])"
  by pat_completeness auto
termination
proof (relation "measure (\<lambda>(b, n). nat n)")
  fix b n :: int
  assume "\<not> (b < 2 \<or> n < b)"
  then have "n div b < n" "0 \<le> n div b" "0 < n"
    by (auto intro: int_div_less_self simp: pos_imp_zdiv_nonneg_iff)
  then show "((b, n div b), b, n) \<in> measure (\<lambda>(b, n). nat n)" by simp
qed simp

declare digits.simps [simp del]

definition str_of_int :: "int \<Rightarrow> string" where
  "str_of_int n = (if n < 0 then ''-'' @ digits 10 (- n) else digits 10 n)"

fun join :: "string \<Rightarrow> string list \<Rightarrow> string" where
  "join sep [] = []"
| "join sep [x] = x"
| "join sep (x # xs) = x @ sep @ join sep xs"

text \<open>Indexing and slicing with Python's negative indices.\<close>

definition py_nth :: "'a list \<Rightarrow> int \<Rightarrow> 'a option" where
  "py_nth xs i =
     (let j = (if i < 0 then i + int (length xs) else i)
      in if 0 \<le> j \<and> j < int (length xs) then Some (xs ! nat j) else None)"

definition py_take :: "'a list \<Rightarrow> int \<Rightarrow> 'a list" where
  "py_take xs i = take (nat (if i < 0 then i + int (length xs) else i)) xs"

definition py_drop :: "'a list \<Rightarrow> int \<Rightarrow> 'a list" where
  "py_drop xs i = drop (nat (if i < 0 then i + int (length xs) else i)) xs"

text \<open>\<open>s.rfind(c)\<close>: the last index of the character, or \<open>-1\<close>.\<close>

definition rfind :: "'a \<Rightarrow> 'a list \<Rightarrow> int" where
  "rfind c s = int (length s) - 1 - int (length (takeWhile (\<lambda>d. d \<noteq> c) (rev s)))"

section \<open>Lists of disjoint sets\<close>

text \<open>The sets that the elements of a list stand for are pairwise disjoint.\<close>

definition disjoint_by :: "('a \<Rightarrow> 'b set) \<Rightarrow> 'a list \<Rightarrow> bool" where
  "disjoint_by S xs \<longleftrightarrow> sorted_wrt (\<lambda>x y. S x \<inter> S y = {}) xs"

lemma disjoint_by_simps [simp]:
  "disjoint_by S []"
  "disjoint_by S (x # xs) \<longleftrightarrow> (\<forall>y\<in>set xs. S x \<inter> S y = {}) \<and> disjoint_by S xs"
  by (auto simp: disjoint_by_def)

lemma disjoint_by_append:
  "disjoint_by S (xs @ ys) \<longleftrightarrow>
     disjoint_by S xs \<and> disjoint_by S ys \<and> (\<forall>x\<in>set xs. \<forall>y\<in>set ys. S x \<inter> S y = {})"
  by (auto simp: disjoint_by_def sorted_wrt_append)

lemma disjoint_by_mset: "mset xs = mset ys \<Longrightarrow> disjoint_by S xs = disjoint_by S ys"
proof (induction xs arbitrary: ys)
  case (Cons x xs)
  then have "x \<in> set ys" by (metis list.set_intros(1) set_mset_mset)
  then obtain ys1 ys2 where ys: "ys = ys1 @ x # ys2" by (meson split_list)
  with Cons.prems have m: "mset xs = mset (ys1 @ ys2)" by simp
  then have s: "set xs = set ys1 \<union> set ys2" by (metis set_append set_mset_mset)
  show ?case
    unfolding ys disjoint_by_append disjoint_by_simps Cons.IH [OF m] s by (simp, blast)
qed simp

lemma disjoint_by_unique:
  "disjoint_by S xs \<Longrightarrow> x \<in> set xs \<Longrightarrow> y \<in> set xs \<Longrightarrow> p \<in> S x \<Longrightarrow> p \<in> S y \<Longrightarrow> x = y"
  by (induction xs) auto

lemma disjoint_by_concat:
  assumes "disjoint_by S xs"
    and "\<And>x. x \<in> set xs \<Longrightarrow> disjoint_by T (f x)"
    and "\<And>x y. x \<in> set xs \<Longrightarrow> y \<in> set (f x) \<Longrightarrow> T y \<subseteq> S x"
  shows "disjoint_by T (concat (map f xs))"
  using assms
proof (induction xs)
  case (Cons x xs)
  have "T y \<inter> T z = {}" if "y \<in> set (f x)" "z \<in> set (f x')" "x' \<in> set xs" for y z x'
  proof -
    have "T y \<subseteq> S x" "T z \<subseteq> S x'" using that Cons.prems(3) by auto
    then show ?thesis using Cons.prems(1) that(3) by fastforce
  qed
  then have cross: "\<forall>y\<in>set (f x). \<forall>z\<in>set (concat (map f xs)). T y \<inter> T z = {}" by auto
  have "disjoint_by T (f x)" using Cons.prems(2) by simp
  moreover have "disjoint_by T (concat (map f xs))"
    by (rule Cons.IH) (use Cons.prems in auto)
  ultimately show ?case
    using cross by (simp add: disjoint_by_append)
qed simp

lemma disjoint_by_distinct:
  "disjoint_by S xs \<Longrightarrow> \<forall>x\<in>set xs. S x \<noteq> {} \<Longrightarrow> distinct (map S xs)"
  by (induction xs) auto

lemma disjoint_by_map: "disjoint_by S (map f xs) = disjoint_by (S \<circ> f) xs"
  by (induction xs) auto

lemma disjoint_by_groups:
  "disjoint_by S (concat (map snd gs)) \<Longrightarrow> disjoint_by (\<lambda>(x, ks). \<Union>k\<in>set ks. S k) gs"
proof (induction gs)
  case (Cons g gs)
  obtain x ks where g: "g = (x, ks)" by (cases g)
  have "disjoint_by S (concat (map snd gs))"
    and cross: "\<forall>k\<in>set ks. \<forall>k'\<in>set (concat (map snd gs)). S k \<inter> S k' = {}"
    using Cons.prems by (simp_all add: g disjoint_by_append)
  have "(\<Union>k\<in>set ks. S k) \<inter> (\<Union>k\<in>set ks'. S k) = {}" if "(y, ks') \<in> set gs" for y ks'
  proof -
    have "set ks' \<subseteq> set (concat (map snd gs))" using that by force
    with cross show ?thesis by fastforce
  qed
  then have "\<forall>h\<in>set gs. (\<Union>k\<in>set ks. S k) \<inter> (case h of (y, ks') \<Rightarrow> \<Union>k\<in>set ks'. S k) = {}"
    by (metis (no_types, lifting) case_prod_beta prod.collapse)
  with \<open>disjoint_by S (concat (map snd gs))\<close> show ?case using Cons.IH by (simp add: g)
qed simp

lemma disjoint_by_mono:
  "disjoint_by S xs \<Longrightarrow> (\<And>x. x \<in> set xs \<Longrightarrow> T x \<subseteq> S x) \<Longrightarrow> disjoint_by T xs"
  by (induction xs) fastforce+

section \<open>Prefixes\<close>

lemma takeWhile_length_nth:
  "i < length (takeWhile P xs) \<Longrightarrow> P (xs ! i)"
  by (metis nth_mem set_takeWhileD takeWhile_nth)

lemma length_takeWhile_less: "\<exists>x\<in>set xs. \<not> P x \<Longrightarrow> length (takeWhile P xs) < length xs"
  by (induction xs) auto

lemma nth_length_takeWhile_mono:
  "length (takeWhile P xs) < length xs \<Longrightarrow> \<not> P (xs ! length (takeWhile P xs))"
  by (rule nth_length_takeWhile)

lemma length_takeWhile_eqI:
  assumes "k \<le> length xs" and "\<And>i. i < k \<Longrightarrow> P (xs ! i)"
    and "k < length xs \<Longrightarrow> \<not> P (xs ! k)"
  shows "length (takeWhile P xs) = k"
proof (rule antisym)
  show "length (takeWhile P xs) \<le> k"
  proof (rule ccontr)
    assume "\<not> length (takeWhile P xs) \<le> k"
    then have "k < length (takeWhile P xs)" by simp
    then have "P (xs ! k)" and "k < length xs"
      using takeWhile_length_nth [of k P xs] length_takeWhile_le [of P xs] by auto
    with assms(3) show False by blast
  qed
next
  show "k \<le> length (takeWhile P xs)"
  proof (rule ccontr)
    assume "\<not> k \<le> length (takeWhile P xs)"
    then have "\<not> P (xs ! length (takeWhile P xs))"
      using assms(1) by (intro nth_length_takeWhile) simp
    with \<open>\<not> k \<le> length (takeWhile P xs)\<close> assms(2) show False by simp
  qed
qed

end
