(* ===== verification/Interval_Sets.thy ===== *)
theory Interval_Sets
  imports Prelude
begin

text \<open>
  \<open>nca/CoreDS/CanonicalIntervalSet.py\<close>: sets of intervals kept as a sorted list in which no two
  intervals overlap or touch. The intervals range over any totally ordered type with
  \<open>+ 1\<close> and \<open>- 1\<close>, as the class documentation asks: integers for ports, protocols, methods and
  peer indices, IP addresses for IP blocks. The laws of the point type are the locale
  \<open>point_space\<close>; it is interpreted here on the integers and in theory \<open>Ip_Blocks\<close> on addresses.
\<close>

section \<open>A single interval\<close>

datatype 'a interval = Interval (istart: 'a) (iend: 'a)

definition iv_lt :: "('a::linorder) interval \<Rightarrow> 'a interval \<Rightarrow> bool" where
  "iv_lt a b \<longleftrightarrow> istart a < istart b \<or> (istart a = istart b \<and> iend a < iend b)"

definition iv_contains :: "('a::linorder) interval \<Rightarrow> 'a \<Rightarrow> bool" where
  "iv_contains i x \<longleftrightarrow> istart i \<le> x \<and> x \<le> iend i"

definition iv_overlaps :: "('a::linorder) interval \<Rightarrow> 'a interval \<Rightarrow> bool" where
  "iv_overlaps a b \<longleftrightarrow> istart a \<le> iend b \<and> istart b \<le> iend a"

definition iv_touches :: "('a::{linorder,plus,one}) interval \<Rightarrow> 'a interval \<Rightarrow> bool" where
  "iv_touches a b =
     (if iend b < istart a then istart a = iend b + 1
      else if iend a < istart b then istart b = iend a + 1
      else False)"

definition iv_subset :: "('a::linorder) interval \<Rightarrow> 'a interval \<Rightarrow> bool" where
  "iv_subset a b \<longleftrightarrow> istart b \<le> istart a \<and> iend a \<le> iend b"

definition iv_single :: "'a interval \<Rightarrow> bool" where
  "iv_single i \<longleftrightarrow> istart i = iend i"

text \<open>The three set operations return lists of intervals, of up to two elements.\<close>

definition iv_and :: "('a::linorder) interval \<Rightarrow> 'a interval \<Rightarrow> 'a interval list" where
  "iv_and a b =
     (let max_start = max (istart a) (istart b); min_end = min (iend a) (iend b)
      in if min_end < max_start then [] else [Interval max_start min_end])"

definition iv_or :: "('a::{linorder,plus,one}) interval \<Rightarrow> 'a interval \<Rightarrow> 'a interval list" where
  "iv_or a b =
     (if iv_subset a b then [b]
      else if iv_subset b a then [a]
      else if iv_overlaps a b \<or> iv_touches a b
      then [Interval (min (istart a) (istart b)) (max (iend a) (iend b))]
      else [a, b])"

definition iv_sub ::
  "('a::{linorder,plus,minus,one}) interval \<Rightarrow> 'a interval \<Rightarrow> 'a interval list" where
  "iv_sub a b =
     (if \<not> iv_overlaps a b then [a]
      else if iv_subset a b then []
      else if istart a < istart b \<and> iend b < iend a
      then [Interval (istart a) (istart b - 1), Interval (iend b + 1) (iend a)]
      else if istart a < istart b then [Interval (istart a) (min (iend a) (istart b - 1))]
      else [Interval (max (istart a) (iend b + 1)) (iend a)])"

instantiation interval :: (linorder) linorder
begin

definition less_interval :: "'a interval \<Rightarrow> 'a interval \<Rightarrow> bool" where
  "less_interval a b = iv_lt a b"

definition less_eq_interval :: "'a interval \<Rightarrow> 'a interval \<Rightarrow> bool" where
  "less_eq_interval a b \<longleftrightarrow> iv_lt a b \<or> a = b"

instance
proof
  fix x y z :: "'a interval"
  show "(x < y) = (x \<le> y \<and> \<not> y \<le> x)"
    by (auto simp: less_interval_def less_eq_interval_def iv_lt_def)
  show "x \<le> x" by (simp add: less_eq_interval_def)
  show "x \<le> y \<Longrightarrow> y \<le> z \<Longrightarrow> x \<le> z"
    by (auto simp: less_eq_interval_def iv_lt_def)
  show "x \<le> y \<Longrightarrow> y \<le> x \<Longrightarrow> x = y"
    by (auto simp: less_eq_interval_def iv_lt_def)
  show "x \<le> y \<or> y \<le> x"
    by (cases x; cases y) (auto simp: less_eq_interval_def iv_lt_def)
qed

end

section \<open>Interval sets\<close>

type_synonym 'a interval_set = "'a interval list"

text \<open>
  The two binary searches. The source loops while \<open>low != high\<close>; \<open>low\<close> never exceeds \<open>high\<close>
  there, so the loop condition is written \<open>low < high\<close>. The result is \<open>Inl mid\<close> for a return
  from inside the loop and \<open>Inr low\<close> when the loop ends.
\<close>

function find_left_loop ::
  "('a::{linorder,minus,one}) interval_set \<Rightarrow> 'a interval \<Rightarrow> nat \<Rightarrow> nat \<Rightarrow> nat + nat" where
  "find_left_loop xs i low high =
     (if low < high then
        (let mid = (low + high) div 2 in
         if iend (xs ! mid) < istart i - 1 then
           (if mid = length xs - 1 \<or> istart i - 1 \<le> iend (xs ! (mid + 1)) then Inl mid
            else find_left_loop xs i (mid + 1) high)
         else find_left_loop xs i low mid)
      else Inr low)"
  by pat_completeness auto
termination
  by (relation "measure (\<lambda>(xs, i, low, high). high - low)") auto

definition find_interval_left ::
  "('a::{linorder,minus,one}) interval_set \<Rightarrow> 'a interval \<Rightarrow> int" where
  "find_interval_left xs i =
     (if xs = [] then - 1
      else (case find_left_loop xs i 0 (length xs) of
              Inl mid \<Rightarrow> int mid
            | Inr low \<Rightarrow>
                (let low = (if low = length xs then low - 1 else low) in
                 if istart i - 1 \<le> iend (xs ! low) then - 1 else int low)))"

function find_right_loop ::
  "('a::{linorder,plus,one}) interval_set \<Rightarrow> 'a interval \<Rightarrow> nat \<Rightarrow> nat \<Rightarrow> nat + nat" where
  "find_right_loop xs i low high =
     (if low < high then
        (let mid = (low + high) div 2 in
         if iend i + 1 < istart (xs ! mid) then
           (if mid = 0 \<or> istart (xs ! (mid - 1)) \<le> iend i + 1 then Inl mid
            else find_right_loop xs i low mid)
         else find_right_loop xs i (mid + 1) high)
      else Inr low)"
  by pat_completeness auto
termination
  by (relation "measure (\<lambda>(xs, i, low, high). high - low)") auto

definition find_interval_right ::
  "('a::{linorder,plus,one}) interval_set \<Rightarrow> 'a interval \<Rightarrow> int" where
  "find_interval_right xs i =
     (if xs = [] then - 1
      else (case find_right_loop xs i 0 (length xs) of
              Inl mid \<Rightarrow> int mid
            | Inr low \<Rightarrow>
                (let low = (if low = length xs then low - 1 else low) in
                 if istart (xs ! low) \<le> iend i + 1 then - 1 else int low)))"

declare find_left_loop.simps [simp del] find_right_loop.simps [simp del]

definition add_interval ::
  "('a::{linorder,plus,minus,one}) interval_set \<Rightarrow> 'a interval \<Rightarrow> 'a interval_set" where
  "add_interval xs i =
     (if xs = [] then [i]
      else
       (let left = find_interval_left xs i; right = find_interval_right xs i in
        if 0 \<le> left \<and> 0 \<le> right \<and> right - left = 1
        then take (nat (left + 1)) xs @ i # drop (nat (left + 1)) xs
        else if left = - 1 \<and> right = 0 then i # xs
        else if right = - 1 \<and> left = int (length xs) - 1 then xs @ [i]
        else
          (let l = nat (left + 1);
               r = nat (if 0 \<le> right then right - 1 else int (length xs) - 1);
               left_overlaps = (iv_overlaps (xs ! l) i \<or> iv_touches (xs ! l) i);
               right_overlaps = (iv_overlaps (xs ! r) i \<or> iv_touches (xs ! r) i);
               new_start = (if left_overlaps then min (istart i) (istart (xs ! l)) else istart i);
               new_end = (if right_overlaps then max (iend i) (iend (xs ! r)) else iend i)
           in take l xs @ Interval new_start new_end # drop (r + 1) xs)))"

definition add_hole ::
  "('a::{linorder,plus,minus,one}) interval_set \<Rightarrow> 'a interval \<Rightarrow> 'a interval_set" where
  "add_hole xs hole = concat (map (\<lambda>i. iv_sub i hole) xs)"

definition get_interval_set ::
  "('a::{linorder,plus,minus,one}) \<Rightarrow> 'a \<Rightarrow> 'a interval_set" where
  "get_interval_set s e = add_interval [] (Interval s e)"

definition iset_and ::
  "('a::linorder) interval_set \<Rightarrow> 'a interval_set \<Rightarrow> 'a interval_set" where
  "iset_and xs ys = concat (map (\<lambda>i. concat (map (\<lambda>j. iv_and i j) ys)) xs)"

definition iset_or ::
  "('a::{linorder,plus,minus,one}) interval_set \<Rightarrow> 'a interval_set \<Rightarrow> 'a interval_set" where
  "iset_or xs ys = foldl add_interval xs ys"

definition iset_sub ::
  "('a::{linorder,plus,minus,one}) interval_set \<Rightarrow> 'a interval_set \<Rightarrow> 'a interval_set" where
  "iset_sub xs ys = foldl add_hole xs ys"

definition iset_contained_in ::
  "('a::{linorder,minus,one}) interval_set \<Rightarrow> 'a interval_set \<Rightarrow> bool" where
  "iset_contained_in xs ys =
     (if length xs = 1 \<and> length ys = 1 then iv_subset (xs ! 0) (ys ! 0)
      else list_all
        (\<lambda>i. let left = find_interval_left ys i in
             left \<noteq> int (length ys) - 1 \<and> iv_subset i (ys ! nat (left + 1))) xs)"

definition iset_mem ::
  "('a::{linorder,plus,minus,one}) \<Rightarrow> 'a interval_set \<Rightarrow> bool" where
  "iset_mem x xs = iset_contained_in (get_interval_set x x) xs"

definition iset_overlaps ::
  "('a::linorder) interval_set \<Rightarrow> 'a interval_set \<Rightarrow> bool" where
  "iset_overlaps xs ys = list_ex (\<lambda>i. list_ex (iv_overlaps i) ys) xs"

text \<open>\<open>rep\<close> and \<open>validate_and_get_single_value\<close> raise on a set without the value they read.\<close>

definition iset_rep :: "'a interval_set \<Rightarrow> 'a option" where
  "iset_rep xs = (case xs of [] \<Rightarrow> None | i # _ \<Rightarrow> Some (istart i))"

definition iset_single :: "'a interval_set \<Rightarrow> bool" where
  "iset_single xs \<longleftrightarrow> length xs = 1 \<and> iv_single (xs ! 0)"

definition validate_and_get_single_value :: "'a interval_set \<Rightarrow> 'a option" where
  "validate_and_get_single_value xs = (if iset_single xs then Some (istart (xs ! 0)) else None)"

text \<open>An entry of \<open>get_interval_set_list_numbers_and_ranges\<close>: a number or a range.\<close>

datatype 'a num_or_range = Number 'a | Range 'a 'a

definition numbers_and_ranges :: "'a interval_set \<Rightarrow> 'a num_or_range list" where
  "numbers_and_ranges xs =
     map (\<lambda>i. if istart i = iend i then Number (istart i) else Range (istart i) (iend i)) xs"

lemmas iv_defs [iv_simps] =
  iv_lt_def iv_contains_def iv_overlaps_def iv_touches_def iv_subset_def iv_single_def

section \<open>The binary searches\<close>

text \<open>
  \<open>lower_count xs i\<close> intervals of a sorted set end before \<open>start - 1\<close>, and \<open>upper_index xs i\<close>
  is the index of the first one that starts after \<open>end + 1\<close> (the length if there is none). The
  searches compute these two numbers.
\<close>

abbreviation lower_count :: "('a::{linorder,minus,one}) interval_set \<Rightarrow> 'a interval \<Rightarrow> nat" where
  "lower_count xs i \<equiv> length (takeWhile (\<lambda>j. iend j < istart i - 1) xs)"

abbreviation upper_index :: "('a::{linorder,plus,one}) interval_set \<Rightarrow> 'a interval \<Rightarrow> nat" where
  "upper_index xs i \<equiv> length (takeWhile (\<lambda>j. \<not> iend i + 1 < istart j) xs)"

lemma less_lower_count_iff:
  assumes "sorted_wrt (\<lambda>a b. iend a < iend b) xs" and "k < length xs"
  shows "iend (xs ! k) < istart i - 1 \<longleftrightarrow> k < lower_count xs i"
proof
  show "k < lower_count xs i \<Longrightarrow> iend (xs ! k) < istart i - 1"
    by (rule takeWhile_length_nth)
  assume k: "iend (xs ! k) < istart i - 1"
  show "k < lower_count xs i"
  proof (rule ccontr)
    assume "\<not> k < lower_count xs i"
    then have le: "lower_count xs i \<le> k" by simp
    then have "iend (xs ! lower_count xs i) \<le> iend (xs ! k)"
      using sorted_wrt_nth_less [OF assms(1) _ assms(2), of "lower_count xs i"] le
      by (cases "lower_count xs i = k") auto
    with k have "iend (xs ! lower_count xs i) < istart i - 1" by simp
    moreover have "\<not> iend (xs ! lower_count xs i) < istart i - 1"
      using nth_length_takeWhile [of "\<lambda>j. iend j < istart i - 1" xs] le assms(2) by simp
    ultimately show False by blast
  qed
qed

lemma upper_index_le_iff:
  assumes "sorted_wrt (\<lambda>a b. istart a < istart b) xs" and "k < length xs"
  shows "iend i + 1 < istart (xs ! k) \<longleftrightarrow> upper_index xs i \<le> k"
proof
  assume "iend i + 1 < istart (xs ! k)"
  then show "upper_index xs i \<le> k"
    using takeWhile_length_nth [of k "\<lambda>j. \<not> iend i + 1 < istart j" xs] by force
next
  assume le: "upper_index xs i \<le> k"
  then have "iend i + 1 < istart (xs ! upper_index xs i)"
    using nth_length_takeWhile [of "\<lambda>j. \<not> iend i + 1 < istart j" xs] assms(2) by simp
  moreover have "istart (xs ! upper_index xs i) \<le> istart (xs ! k)"
    using sorted_wrt_nth_less [OF assms(1) _ assms(2), of "upper_index xs i"] le
    by (cases "upper_index xs i = k") auto
  ultimately show "iend i + 1 < istart (xs ! k)" by simp
qed

lemma find_left_loop_correct:
  assumes "sorted_wrt (\<lambda>a b. iend a < iend b) xs"
    and "high \<le> length xs" and "low \<le> lower_count xs i" and "lower_count xs i \<le> high"
    and "low = 0 \<or> low < lower_count xs i"
  shows "case find_left_loop xs i low high of
           Inl mid \<Rightarrow> lower_count xs i = Suc mid
         | Inr l \<Rightarrow> lower_count xs i = 0 \<and> l = 0"
  using assms(2-)
proof (induction "high - low" arbitrary: low high rule: less_induct)
  case less
  note count = less_lower_count_iff [OF assms(1), of _ i]
  show ?case
  proof (cases "low < high")
    case False
    then show ?thesis using less.prems by (subst find_left_loop.simps) auto
  next
    case True
    define mid where "mid = (low + high) div 2"
    have mid: "low \<le> mid" "mid < high" using True by (auto simp: mid_def)
    then have len: "mid < length xs" using less.prems by simp
    show ?thesis
    proof (cases "mid < lower_count xs i")
      case below: True
      then have b: "iend (xs ! mid) < istart i - 1" using count len by blast
      show ?thesis
      proof (cases "Suc mid = lower_count xs i")
        case True
        then have "mid = length xs - 1 \<or> istart i - 1 \<le> iend (xs ! (mid + 1))"
          using count [of "mid + 1"] len by (cases "Suc mid < length xs") force+
        then show ?thesis
          using \<open>low < high\<close> b True by (subst find_left_loop.simps) (simp add: Let_def mid_def)
      next
        case False
        then have more: "Suc mid < lower_count xs i" using below by simp
        then have "mid \<noteq> length xs - 1 \<and> \<not> istart i - 1 \<le> iend (xs ! (mid + 1))"
          using count [of "mid + 1"] length_takeWhile_le [of "\<lambda>j. iend j < istart i - 1" xs]
          by auto
        then have "find_left_loop xs i low high = find_left_loop xs i (mid + 1) high"
          using \<open>low < high\<close> b by (subst find_left_loop.simps) (simp add: Let_def mid_def)
        then show ?thesis
          using less.hyps [of high "mid + 1"] less.prems mid more by simp
      qed
    next
      case False
      then have "\<not> iend (xs ! mid) < istart i - 1" using count len by blast
      then have "find_left_loop xs i low high = find_left_loop xs i low mid"
        using \<open>low < high\<close> by (subst find_left_loop.simps) (simp add: Let_def mid_def)
      then show ?thesis
        using less.hyps [of mid low] less.prems mid False by simp
    qed
  qed
qed

lemma find_interval_left_eq:
  assumes "sorted_wrt (\<lambda>a b. iend a < iend b) xs"
  shows "find_interval_left xs i = int (lower_count xs i) - 1"
proof (cases "xs = []")
  case True
  then show ?thesis by (simp add: find_interval_left_def)
next
  case False
  have loop: "case find_left_loop xs i 0 (length xs) of
           Inl mid \<Rightarrow> lower_count xs i = Suc mid
         | Inr l \<Rightarrow> lower_count xs i = 0 \<and> l = 0"
    using find_left_loop_correct [OF assms, of "length xs" 0 i]
      length_takeWhile_le [of "\<lambda>j. iend j < istart i - 1" xs] by simp
  have first: "istart i - 1 \<le> iend (xs ! 0)" if "lower_count xs i = 0"
    using less_lower_count_iff [OF assms, of 0 i] that False by (simp add: not_less)
  show ?thesis
  proof (cases "find_left_loop xs i 0 (length xs)")
    case (Inl mid)
    with loop False show ?thesis by (simp add: find_interval_left_def)
  next
    case (Inr l)
    with loop have "lower_count xs i = 0" "l = 0" by auto
    with Inr False first show ?thesis by (simp add: find_interval_left_def)
  qed
qed

lemma find_right_loop_correct:
  assumes "sorted_wrt (\<lambda>a b. istart a < istart b) xs"
    and "high \<le> length xs" and "low \<le> upper_index xs i" and "upper_index xs i \<le> high"
    and "high = length xs \<or> upper_index xs i < high"
  shows "case find_right_loop xs i low high of
           Inl mid \<Rightarrow> upper_index xs i = mid \<and> mid < length xs
         | Inr l \<Rightarrow> upper_index xs i = length xs \<and> l = length xs"
  using assms(2-)
proof (induction "high - low" arbitrary: low high rule: less_induct)
  case less
  note index = upper_index_le_iff [OF assms(1), of _ i]
  show ?case
  proof (cases "low < high")
    case False
    then show ?thesis using less.prems by (subst find_right_loop.simps) auto
  next
    case True
    define mid where "mid = (low + high) div 2"
    have mid: "low \<le> mid" "mid < high" using True by (auto simp: mid_def)
    then have len: "mid < length xs" using less.prems by simp
    show ?thesis
    proof (cases "upper_index xs i \<le> mid")
      case above: True
      then have b: "iend i + 1 < istart (xs ! mid)" using index len by blast
      show ?thesis
      proof (cases "upper_index xs i = mid")
        case True
        then have "mid = 0 \<or> istart (xs ! (mid - 1)) \<le> iend i + 1"
          using index [of "mid - 1"] len by (cases mid) force+
        then show ?thesis
          using \<open>low < high\<close> b True len
          by (subst find_right_loop.simps) (simp add: Let_def mid_def)
      next
        case False
        then have more: "upper_index xs i < mid" using above by simp
        then have "\<not> (mid = 0 \<or> istart (xs ! (mid - 1)) \<le> iend i + 1)"
          using index [of "mid - 1"] len by (auto simp: not_le)
        then have "find_right_loop xs i low high = find_right_loop xs i low mid"
          using \<open>low < high\<close> b by (subst find_right_loop.simps) (simp add: Let_def mid_def)
        then show ?thesis
          using less.hyps [of mid low] less.prems mid more by simp
      qed
    next
      case False
      then have "\<not> iend i + 1 < istart (xs ! mid)" using index len by blast
      then have "find_right_loop xs i low high = find_right_loop xs i (mid + 1) high"
        using \<open>low < high\<close> by (subst find_right_loop.simps) (simp add: Let_def mid_def)
      then show ?thesis
        using less.hyps [of high "mid + 1"] less.prems mid False by simp
    qed
  qed
qed

lemma find_interval_right_eq:
  assumes "sorted_wrt (\<lambda>a b. istart a < istart b) xs"
  shows "find_interval_right xs i =
           (if upper_index xs i < length xs then int (upper_index xs i) else - 1)"
proof (cases "xs = []")
  case True
  then show ?thesis by (simp add: find_interval_right_def)
next
  case False
  have loop: "case find_right_loop xs i 0 (length xs) of
           Inl mid \<Rightarrow> upper_index xs i = mid \<and> mid < length xs
         | Inr l \<Rightarrow> upper_index xs i = length xs \<and> l = length xs"
    using find_right_loop_correct [OF assms, of "length xs" 0 i]
      length_takeWhile_le [of "\<lambda>j. \<not> iend i + 1 < istart j" xs] by simp
  have last: "istart (xs ! (length xs - 1)) \<le> iend i + 1" if "upper_index xs i = length xs"
  proof -
    have "\<not> length xs \<le> length xs - 1" "length xs - 1 < length xs"
      using False by (cases xs; simp)+
    then show ?thesis
      using upper_index_le_iff [OF assms, of "length xs - 1" i] that by (metis not_less)
  qed
  show ?thesis
  proof (cases "find_right_loop xs i 0 (length xs)")
    case (Inl mid)
    with loop False show ?thesis by (simp add: find_interval_right_def)
  next
    case (Inr l)
    with loop have "upper_index xs i = length xs" "l = length xs" by auto
    with Inr False last show ?thesis by (simp add: find_interval_right_def)
  qed
qed

section \<open>Canonical sets\<close>

text \<open>
  \<open>same\<close> relates the points between which \<open>+ 1\<close> and \<open>- 1\<close> move: all integers, but only
  addresses of the same IP version. \<open>canonical same\<close> is the representation invariant of the class
  documentation: every interval is nonempty and the next one starts more than one point later.
\<close>

definition iv_valid :: "('a::linorder \<Rightarrow> 'a \<Rightarrow> bool) \<Rightarrow> 'a interval \<Rightarrow> bool" where
  "iv_valid same i \<longleftrightarrow> istart i \<le> iend i \<and> same (istart i) (iend i)"

definition canonical ::
  "('a::{linorder,plus,one} \<Rightarrow> 'a \<Rightarrow> bool) \<Rightarrow> 'a interval_set \<Rightarrow> bool" where
  "canonical same xs \<longleftrightarrow>
     list_all (iv_valid same) xs \<and> sorted_wrt (\<lambda>a b. iend a + 1 < istart b) xs"

definition iv_set :: "('a::linorder) interval \<Rightarrow> 'a set" where
  "iv_set i = {istart i .. iend i}"

definition iset_set :: "('a::linorder) interval_set \<Rightarrow> 'a set" where
  "iset_set xs = (\<Union>i\<in>set xs. iv_set i)"

lemma mem_iv_set [simp]: "x \<in> iv_set i \<longleftrightarrow> istart i \<le> x \<and> x \<le> iend i"
  by (simp add: iv_set_def)

lemma mem_iset_set: "x \<in> iset_set xs \<longleftrightarrow> (\<exists>i\<in>set xs. istart i \<le> x \<and> x \<le> iend i)"
  by (simp add: iset_set_def)

lemma iset_set_simps [simp]:
  "iset_set [] = {}" "iset_set (i # xs) = iv_set i \<union> iset_set xs"
  "iset_set (xs @ ys) = iset_set xs \<union> iset_set ys"
  by (auto simp: iset_set_def)

lemma canonical_Nil [simp]: "canonical same []"
  by (simp add: canonical_def)

lemma canonical_Cons:
  "canonical same (i # xs) \<longleftrightarrow>
     iv_valid same i \<and> (\<forall>j\<in>set xs. iend i + 1 < istart j) \<and> canonical same xs"
  by (auto simp: canonical_def)

lemma canonical_append:
  "canonical same (xs @ ys) \<longleftrightarrow>
     canonical same xs \<and> canonical same ys \<and>
     (\<forall>a\<in>set xs. \<forall>b\<in>set ys. iend a + 1 < istart b)"
  by (auto simp: canonical_def sorted_wrt_append)

lemma canonical_valid: "canonical same xs \<Longrightarrow> i \<in> set xs \<Longrightarrow> iv_valid same i"
  by (simp add: canonical_def list_all_iff)

lemma canonical_validD: "canonical same xs \<Longrightarrow> i \<in> set xs \<Longrightarrow> istart i \<le> iend i"
  by (drule (1) canonical_valid) (simp add: iv_valid_def)

section \<open>The laws of the points\<close>

locale point_space =
  fixes same :: "'a::{linorder,plus,minus,one} \<Rightarrow> 'a \<Rightarrow> bool"
  assumes same_refl: "same x x"
    and same_sym: "same x y \<Longrightarrow> same y x"
    and same_trans: "same x y \<Longrightarrow> same y z \<Longrightarrow> same x z"
    and same_convex: "x \<le> y \<Longrightarrow> y \<le> z \<Longrightarrow> same x z \<Longrightarrow> same x y"
    and same_succ: "same x (x + 1)"
    and same_pred: "same x (x - 1)"
    and le_succ: "(x::'a) \<le> x + 1"
    and pred_le: "(x::'a) - 1 \<le> x"
    and succ_least: "(x::'a) < y \<Longrightarrow> x + 1 \<le> y"
    and pred_greatest: "(x::'a) < y \<Longrightarrow> x \<le> y - 1"
    and succ_strict: "x < y \<Longrightarrow> same x y \<Longrightarrow> x < x + 1"
    and pred_strict: "x < y \<Longrightarrow> same x y \<Longrightarrow> y - 1 < y"
    and gap: "(x::'a) < y \<Longrightarrow> x + 1 < y \<longleftrightarrow> x < y - 1"
begin

lemma gap_less: "(x::'a) + 1 < y \<Longrightarrow> x < y"
  using le_succ [of x] by simp

lemma gap_pred: "(x::'a) + 1 < y \<longleftrightarrow> x < y - 1"
  using gap [of x y] gap_less [of x y] pred_le [of y] by (meson less_le_trans)

lemma less_pred_iff: "same x y \<Longrightarrow> x < y \<Longrightarrow> z < y \<longleftrightarrow> z \<le> y - 1"
  using pred_greatest [of z y] pred_strict [of x y] by auto

lemma less_succ_iff: "same x y \<Longrightarrow> x < y \<Longrightarrow> x < z \<longleftrightarrow> x + 1 \<le> z"
  using succ_least [of x z] succ_strict [of x y] by auto

lemma not_gap_same: "x < y \<Longrightarrow> \<not> x + 1 < y \<Longrightarrow> y = x + 1 \<and> same x y"
  using succ_least [of x y] same_succ [of x] by auto

lemma same_valid: "iv_valid same i \<Longrightarrow> istart i \<le> x \<Longrightarrow> x \<le> iend i \<Longrightarrow> same (istart i) x"
  by (auto simp: iv_valid_def intro: same_convex)

lemma canonical_sorted_start: "canonical same xs \<Longrightarrow> sorted_wrt (\<lambda>a b. istart a < istart b) xs"
  unfolding canonical_def
  by (elim conjE, erule sorted_wrt_mono_rel [rotated])
    (auto simp: list_all_iff iv_valid_def dest!: gap_less)

lemma canonical_sorted_end: "canonical same xs \<Longrightarrow> sorted_wrt (\<lambda>a b. iend a < iend b) xs"
  unfolding canonical_def
  by (elim conjE, erule sorted_wrt_mono_rel [rotated])
    (auto simp: list_all_iff iv_valid_def dest!: gap_less)

lemmas find_left_canonical = find_interval_left_eq [OF canonical_sorted_end]
  and find_right_canonical = find_interval_right_eq [OF canonical_sorted_start]

subsection \<open>Operations on two intervals\<close>

lemma iv_and_set: "iset_set (iv_and a b) = iv_set a \<inter> iv_set b"
  by (auto simp: iv_and_def Let_def min_def max_def split: if_splits)

lemma iv_and_canonical:
  assumes "iv_valid same a" and "iv_valid same b"
  shows "canonical same (iv_and a b)"
proof (cases "min (iend a) (iend b) < max (istart a) (istart b)")
  case True
  then show ?thesis by (simp add: iv_and_def)
next
  case False
  have "same (istart a) (istart b)"
  proof (cases "istart a \<le> istart b")
    case True
    with False assms(1) show ?thesis by (auto intro: same_valid simp: not_less)
  next
    case other: False
    with False assms(2) show ?thesis by (auto intro!: same_sym [OF same_valid] simp: not_less)
  qed
  moreover have "same (istart a) (iend a)" "same (istart b) (iend b)"
    using assms by (auto simp: iv_valid_def)
  ultimately have "same (max (istart a) (istart b)) (min (iend a) (iend b))"
    by (metis max_def min_def same_sym same_trans)
  with False show ?thesis
    by (simp add: iv_and_def Let_def canonical_Cons iv_valid_def not_less)
qed

lemma iv_and_bounds: "c \<in> set (iv_and a b) \<Longrightarrow>
   istart a \<le> istart c \<and> iend c \<le> iend a \<and> istart b \<le> istart c \<and> iend c \<le> iend b"
  by (auto simp: iv_and_def Let_def split: if_splits)

lemma iv_sub_set:
  assumes a: "iv_valid same a" and b: "iv_valid same b"
  shows "iset_set (iv_sub a b) = iv_set a - iv_set b"
proof (cases "iv_overlaps a b")
  case False
  then show ?thesis by (auto simp: iv_sub_def iv_overlaps_def)
next
  case True
  then have ov: "istart a \<le> iend b" "istart b \<le> iend a" by (auto simp: iv_overlaps_def)
  have left: "z < istart b \<longleftrightarrow> z \<le> istart b - 1" if "istart a < istart b" for z
    using less_pred_iff [of "istart a" "istart b" z] same_valid [OF a, of "istart b"] ov that by simp
  have right: "iend b < z \<longleftrightarrow> iend b + 1 \<le> z" if "iend b < iend a" for z
  proof -
    have "same (istart a) (iend b)" using same_valid [OF a, of "iend b"] ov that by simp
    then have "same (iend b) (iend a)"
      using a by (meson iv_valid_def same_sym same_trans)
    then show ?thesis using that by (rule less_succ_iff)
  qed
  show ?thesis
  proof (rule set_eqI)
    fix x
    consider "iv_subset a b" | "istart a < istart b" "iend b < iend a"
      | "istart a < istart b" "\<not> iend b < iend a" | "\<not> istart a < istart b" "iend b < iend a"
      by (meson iv_subset_def not_less)
    then show "x \<in> iset_set (iv_sub a b) \<longleftrightarrow> x \<in> iv_set a - iv_set b"
    proof cases
      case 1
      with True show ?thesis by (auto simp: iv_sub_def iv_subset_def)
    next
      case 2
      moreover have "istart b \<le> iend b" using b by (simp add: iv_valid_def)
      ultimately show ?thesis using True left [of x] right [of x]
        by (auto simp: iv_sub_def iv_subset_def not_le)
    next
      case 3
      with True left [of x] ov show ?thesis by (auto simp: iv_sub_def iv_subset_def not_le)
    next
      case 4
      with True right [of x] ov show ?thesis by (auto simp: iv_sub_def iv_subset_def not_le)
    qed
  qed
qed

lemma iv_sub_bounds:
  fixes a b :: "'a interval"
  assumes "c \<in> set (iv_sub a b)"
  shows "istart a \<le> istart c \<and> iend c \<le> iend a"
  using assms pred_le [of "istart b :: 'a"] le_succ [of "iend b"]
  by (auto simp: iv_sub_def iv_overlaps_def iv_subset_def split: if_splits)

lemma iv_sub_canonical:
  assumes a: "iv_valid same a" and b: "iv_valid same b"
  shows "canonical same (iv_sub a b)"
proof (cases "iv_overlaps a b \<and> \<not> iv_subset a b")
  case False
  then show ?thesis using a by (auto simp: iv_sub_def canonical_Cons)
next
  case True
  then have ov: "istart a \<le> iend b" "istart b \<le> iend a" by (auto simp: iv_overlaps_def)
  have val: "istart b \<le> iend b" "same (istart a) (iend a)" using a b by (auto simp: iv_valid_def)
  have left: "iv_valid same (Interval (istart a) (istart b - 1))" if "istart a < istart b"
  proof -
    have "same (istart a) (istart b)" using same_valid [OF a, of "istart b"] ov that by simp
    then have "same (istart a) (istart b - 1)" using same_pred by (rule same_trans)
    with pred_greatest [OF that] show ?thesis by (simp add: iv_valid_def)
  qed
  have right: "iv_valid same (Interval (iend b + 1) (iend a))" if "iend b < iend a"
  proof -
    have "same (istart a) (iend b)" using same_valid [OF a, of "iend b"] ov that by simp
    then have "same (iend b + 1) (iend a)"
      using val same_succ [of "iend b"] by (meson same_sym same_trans)
    with succ_least [OF that] show ?thesis by (simp add: iv_valid_def)
  qed
  have mid: "istart b - 1 + 1 < iend b + 1" if "istart a < istart b" "iend b < iend a"
  proof -
    have s: "same (istart a) (istart b)" using same_valid [OF a, of "istart b"] ov that by simp
    have "istart b - 1 + 1 \<le> istart b"
      using pred_strict [OF that(1) s] by (rule succ_least)
    moreover have "iend b < iend b + 1"
    proof (rule succ_strict [OF that(2)])
      have "same (istart a) (iend b)" using same_valid [OF a, of "iend b"] ov that by simp
      then show "same (iend b) (iend a)" using val by (meson same_sym same_trans)
    qed
    ultimately show ?thesis using val by simp
  qed
  have minL: "min (iend a) (istart b - 1) = istart b - 1"
    using order_trans [OF pred_le ov(2)] by (rule min_absorb2)
  show ?thesis
  proof (cases "istart a < istart b")
    case True
    with left right mid minL \<open>iv_overlaps a b \<and> \<not> iv_subset a b\<close> show ?thesis
      by (simp add: iv_sub_def canonical_Cons)
  next
    case False
    then have r: "iend b < iend a" using True by (auto simp: iv_subset_def)
    have "max (istart a) (iend b + 1) = iend b + 1"
      using order_trans [OF ov(1) le_succ] by (rule max_absorb2)
    with right [OF r] True False show ?thesis by (simp add: iv_sub_def canonical_Cons)
  qed
qed

text \<open>Replacing each interval of a canonical set by canonical pieces of it keeps it canonical.\<close>

lemma canonical_refine:
  assumes "canonical same xs"
    and "\<And>i. i \<in> set xs \<Longrightarrow> canonical same (f i)"
    and "\<And>i c. i \<in> set xs \<Longrightarrow> c \<in> set (f i) \<Longrightarrow> istart i \<le> istart c \<and> iend c \<le> iend i"
  shows "canonical same (concat (map f xs))"
  using assms
proof (induction xs)
  case Nil
  then show ?case by simp
next
  case (Cons i xs)
  have rest: "canonical same (concat (map f xs))"
    by (rule Cons.IH) (use Cons.prems in \<open>auto simp: canonical_Cons\<close>)
  have "iend c + 1 < istart d" if "c \<in> set (f i)" "d \<in> set (concat (map f xs))" for c d
  proof -
    from that(2) obtain j where j: "j \<in> set xs" "d \<in> set (f j)" by auto
    have "iend i < istart j - 1"
      using Cons.prems(1) j(1) gap_pred by (auto simp: canonical_Cons)
    moreover have "iend c \<le> iend i" using Cons.prems(3) [of i c] that(1) by simp
    ultimately have "iend c + 1 < istart j" by (subst gap_pred) simp
    moreover have "istart j \<le> istart d" using Cons.prems(3) [of j d] j by simp
    ultimately show ?thesis by simp
  qed
  with rest Cons.prems(2) [of i] show ?case by (simp add: canonical_append)
qed

lemma iset_set_concat: "iset_set (concat (map f xs)) = (\<Union>i\<in>set xs. iset_set (f i))"
  by (auto simp: iset_set_def)

subsection \<open>Holes, intersection, difference\<close>

lemma add_hole_canonical [wf_intros]:
  "canonical same xs \<Longrightarrow> iv_valid same h \<Longrightarrow> canonical same (add_hole xs h)"
  unfolding add_hole_def
  by (rule canonical_refine) (auto intro: iv_sub_canonical canonical_valid dest: iv_sub_bounds)

lemma add_hole_set [sem_simps]:
  "canonical same xs \<Longrightarrow> iv_valid same h \<Longrightarrow> iset_set (add_hole xs h) = iset_set xs - iv_set h"
  by (simp add: add_hole_def iset_set_concat iv_sub_set canonical_valid) (auto simp: iset_set_def)

lemma iset_sub_correct:
  assumes "canonical same xs" and "canonical same ys"
  shows "canonical same (iset_sub xs ys) \<and> iset_set (iset_sub xs ys) = iset_set xs - iset_set ys"
  using assms
proof (induction ys arbitrary: xs)
  case Nil
  then show ?case by (simp add: iset_sub_def)
next
  case (Cons h ys)
  then have h: "iv_valid same h" and ys: "canonical same ys" by (auto simp: canonical_Cons)
  have "canonical same (add_hole xs h)" by (rule add_hole_canonical [OF Cons.prems(1) h])
  from Cons.IH [OF this ys] show ?case
    using add_hole_set [OF Cons.prems(1) h] by (auto simp: iset_sub_def)
qed

lemmas iset_sub_canonical [wf_intros] = iset_sub_correct [THEN conjunct1]
  and iset_sub_set [sem_simps] = iset_sub_correct [THEN conjunct2]

lemma iset_and_canonical [wf_intros]:
  assumes "canonical same xs" and "canonical same ys"
  shows "canonical same (iset_and xs ys)"
  unfolding iset_and_def
proof (rule canonical_refine [OF assms(1)])
  fix i
  assume i: "i \<in> set xs"
  show "canonical same (concat (map (iv_and i) ys))"
    by (rule canonical_refine [OF assms(2)])
      (auto intro: iv_and_canonical canonical_valid assms i dest: iv_and_bounds)
  show "istart i \<le> istart c \<and> iend c \<le> iend i" if "c \<in> set (concat (map (iv_and i) ys))" for c
    using that by (auto dest: iv_and_bounds)
qed

lemma iset_and_set [sem_simps]: "iset_set (iset_and xs ys) = iset_set xs \<inter> iset_set ys"
  by (auto simp: iset_and_def iset_set_concat iv_and_set) (auto simp: iset_set_def)

end

definition merge_between :: "('a::linorder) interval_set \<Rightarrow> 'a interval \<Rightarrow> nat \<Rightarrow> nat \<Rightarrow> 'a interval" where
  "merge_between xs i l r =
     (if l = r then i
      else Interval (min (istart i) (istart (xs ! l))) (max (iend i) (iend (xs ! (r - 1)))))"

context point_space
begin

subsection \<open>Adding an interval\<close>

lemma near_overlaps_or_touches:
  assumes "iv_valid same a" and "iv_valid same i"
    and "\<not> iend a + 1 < istart i" and "\<not> iend i + 1 < istart a"
  shows "iv_overlaps a i \<or> iv_touches a i"
proof -
  have "istart i = iend a + 1" if "iend a < istart i"
    using not_gap_same [OF that assms(3)] by simp
  moreover have "istart a = iend i + 1" if "iend i < istart a"
    using not_gap_same [OF that assms(4)] by simp
  ultimately show ?thesis
    using assms(1,2) by (auto simp: iv_overlaps_def iv_touches_def iv_valid_def not_le)
qed

lemma near_same:
  assumes a: "iv_valid same a" and i: "iv_valid same i"
    and "\<not> iend a + 1 < istart i" and "\<not> iend i + 1 < istart a"
  shows "same (istart a) (istart i)"
proof -
  consider "iend a < istart i" | "iend i < istart a" | "istart a \<le> istart i" "istart i \<le> iend a"
    | "istart i \<le> istart a" "istart a \<le> iend i" by (meson linear not_less)
  then show ?thesis
  proof cases
    case 1
    then have "same (iend a) (istart i)" using assms(3) by (blast dest: not_gap_same)
    then show ?thesis using a by (meson iv_valid_def same_trans)
  next
    case 2
    then have "same (iend i) (istart a)" using assms(4) by (blast dest: not_gap_same)
    then show ?thesis using i by (meson iv_valid_def same_trans same_sym)
  next
    case 3
    then show ?thesis by (rule same_valid [OF a])
  next
    case 4
    then show ?thesis by (rule same_sym [OF same_valid [OF i]])
  qed
qed

lemma lower_le_upper:
  assumes "canonical same xs" and "iv_valid same i"
  shows "lower_count xs i \<le> upper_index xs i"
proof (rule ccontr)
  let ?R = "upper_index xs i"
  assume "\<not> lower_count xs i \<le> ?R"
  then have R: "?R < lower_count xs i" by simp
  then have len: "?R < length xs" using length_takeWhile_le less_le_trans by blast
  have "iend (xs ! ?R) < istart i - 1"
    using less_lower_count_iff [OF canonical_sorted_end [OF assms(1)] len] R by simp
  moreover have "iend i + 1 < istart (xs ! ?R)"
    using upper_index_le_iff [OF canonical_sorted_start [OF assms(1)] len, of i] by simp
  moreover have "istart (xs ! ?R) \<le> iend (xs ! ?R)"
    using canonical_validD [OF assms(1)] len by simp
  moreover have "istart i \<le> iend i" using assms(2) by (simp add: iv_valid_def)
  ultimately show False
    using pred_le [of "istart i"] le_succ [of "iend i"] by (meson le_less_trans less_le_trans not_less_iff_gr_or_eq)
qed

lemma lower_nth:
  assumes "canonical same xs" and "k < lower_count xs i"
  shows "iend (xs ! k) + 1 < istart i"
  using takeWhile_length_nth [OF assms(2)] by (simp only: gap_pred)

lemma upper_nth:
  assumes "canonical same xs" and "upper_index xs i \<le> k" and "k < length xs"
  shows "iend i + 1 < istart (xs ! k)"
  using upper_index_le_iff [OF canonical_sorted_start [OF assms(1)] assms(3), of i] assms(2) by simp

lemma between_near:
  assumes "canonical same xs" and "lower_count xs i \<le> k" and "k < upper_index xs i"
  shows "\<not> iend (xs ! k) + 1 < istart i" and "\<not> iend i + 1 < istart (xs ! k)"
proof -
  have len: "k < length xs" using assms(3) length_takeWhile_le less_le_trans by blast
  have "\<not> iend (xs ! k) < istart i - 1"
    using less_lower_count_iff [OF canonical_sorted_end [OF assms(1)] len, of i] assms(2) by simp
  then show "\<not> iend (xs ! k) + 1 < istart i" by (simp only: gap_pred) simp
  show "\<not> iend i + 1 < istart (xs ! k)"
    using upper_index_le_iff [OF canonical_sorted_start [OF assms(1)] len, of i] assms(3) by simp
qed

lemma add_interval_eq:
  fixes xs i
  defines "L \<equiv> lower_count xs i" and "R \<equiv> upper_index xs i"
  assumes can: "canonical same xs" and val: "iv_valid same i"
  shows "add_interval xs i = take L xs @ merge_between xs i L R # drop R xs"
proof (cases "xs = []")
  case True
  then show ?thesis by (simp add: add_interval_def merge_between_def L_def R_def)
next
  case ne: False
  have LR: "L \<le> R" unfolding L_def R_def by (rule lower_le_upper [OF can val])
  have Rlen: "R \<le> length xs" unfolding R_def by (rule length_takeWhile_le)
  have fl: "find_interval_left xs i = int L - 1"
    unfolding L_def by (rule find_left_canonical [OF can])
  have fr: "find_interval_right xs i = (if R < length xs then int R else - 1)"
    unfolding R_def by (rule find_right_canonical [OF can])
  show ?thesis
  proof (cases "L = R")
    case True
    then show ?thesis
      using ne Rlen by (cases "R = 0"; cases "R = length xs")
        (simp_all add: add_interval_def fl fr merge_between_def Let_def)
  next
    case False
    with LR have less: "L < R" by simp
    have ot: "iv_overlaps (xs ! k) i \<or> iv_touches (xs ! k) i" if "L \<le> k" "k < R" for k
      using near_overlaps_or_touches [OF _ val between_near [OF can]] canonical_valid [OF can] that Rlen
      by (simp add: L_def R_def)
    have r: "nat (if 0 \<le> find_interval_right xs i then find_interval_right xs i - 1
                  else int (length xs) - 1) = R - 1"
      using less Rlen by (auto simp: fr nat_diff_distrib')
    have l: "nat (find_interval_left xs i + 1) = L" by (simp add: fl)
    have early: "\<not> (0 \<le> find_interval_left xs i \<and> 0 \<le> find_interval_right xs i \<and>
          find_interval_right xs i - find_interval_left xs i = 1)"
      "\<not> (find_interval_left xs i = - 1 \<and> find_interval_right xs i = 0)"
      "\<not> (find_interval_right xs i = - 1 \<and> find_interval_left xs i = int (length xs) - 1)"
      using less Rlen by (auto simp: fl fr)
    show ?thesis
      using ne early less ot [of L] ot [of "R - 1"]
      by (simp only: add_interval_def Let_def l r) (simp add: merge_between_def)
  qed
qed

lemma canonical_nth_mono:
  assumes "canonical same xs" and "m \<le> n" and "n < length xs"
  shows "istart (xs ! m) \<le> istart (xs ! n) \<and> iend (xs ! m) \<le> iend (xs ! n)"
proof (cases "m = n")
  case False
  with assms have "istart (xs ! m) < istart (xs ! n)" "iend (xs ! m) < iend (xs ! n)"
    using sorted_wrt_nth_less [OF canonical_sorted_start] sorted_wrt_nth_less [OF canonical_sorted_end]
    by auto
  then show ?thesis by (intro conjI less_imp_le)
qed simp

text \<open>The intervals from \<open>L\<close> to \<open>R - 1\<close> are those that the new one has to be merged with.\<close>

lemma merge_between_valid:
  fixes xs i
  defines "L \<equiv> lower_count xs i" and "R \<equiv> upper_index xs i"
  assumes can: "canonical same xs" and val: "iv_valid same i"
  shows "iv_valid same (merge_between xs i L R)"
proof (cases "L < R")
  case False
  then have "L = R" using lower_le_upper [OF can val] by (simp add: L_def R_def)
  then show ?thesis using val by (simp add: merge_between_def)
next
  case True
  let ?l = "xs ! L" and ?r = "xs ! (R - 1)"
  have "R \<le> length xs" unfolding R_def by (rule length_takeWhile_le)
  then have valid: "iv_valid same ?l" "iv_valid same ?r" using canonical_valid [OF can] True by auto
  have same1: "same (istart ?l) (istart i)"
    using near_same [OF valid(1) val between_near [OF can]] True by (simp add: L_def R_def)
  have same2: "same (istart ?r) (istart i)"
    using near_same [OF valid(2) val between_near [OF can]] True by (simp add: L_def R_def)
  have same3: "same (istart i) (iend i)" "same (istart ?r) (iend ?r)"
    using val valid by (auto simp: iv_valid_def)
  have same4: "same (istart i) (iend ?r)"
    by (rule same_trans [OF same_sym [OF same2] same3(2)])
  have "same (istart ?l) (iend i)" by (rule same_trans [OF same1 same3(1)])
  moreover have "same (istart ?l) (iend ?r)" by (rule same_trans [OF same1 same4])
  ultimately have "same (min (istart i) (istart ?l)) (max (iend i) (iend ?r))"
    using same3 same4 by (simp add: min_def max_def)
  moreover have "istart i \<le> iend i" using val by (simp add: iv_valid_def)
  ultimately show ?thesis
    using True by (auto simp: merge_between_def iv_valid_def min_le_iff_disj le_max_iff_disj)
qed

lemma merge_between_set:
  fixes xs i
  defines "L \<equiv> lower_count xs i" and "R \<equiv> upper_index xs i"
  assumes can: "canonical same xs" and val: "iv_valid same i"
  shows "iv_set (merge_between xs i L R) = iv_set i \<union> (\<Union>k\<in>{L..<R}. iv_set (xs ! k))"
proof (cases "L < R")
  case False
  then have "L = R" using lower_le_upper [OF can val] by (simp add: L_def R_def)
  then show ?thesis by (simp add: merge_between_def)
next
  case True
  let ?l = "xs ! L" and ?r = "xs ! (R - 1)"
  have "R \<le> length xs" unfolding R_def by (rule length_takeWhile_le)
  then have len: "L < length xs" "R - 1 < length xs" using True by auto
  have near: "\<not> iend ?l + 1 < istart i" "\<not> iend i + 1 < istart ?r"
    using between_near [OF can, of i] True by (simp_all add: L_def R_def)
  have below: "x \<le> iend ?l" if "x < istart i" for x
  proof (rule ccontr)
    assume "\<not> x \<le> iend ?l"
    then have "iend ?l + 1 \<le> x" by (intro succ_least) simp
    with that near(1) show False by simp
  qed
  have above: "istart ?r \<le> x" if "iend i < x" for x
  proof (rule ccontr)
    assume "\<not> istart ?r \<le> x"
    with succ_least [OF that] near(2) show False by simp
  qed
  show ?thesis
  proof (intro equalityI Un_least UN_least subsetI)
    fix x
    assume "x \<in> iv_set (merge_between xs i L R)"
    then have "min (istart i) (istart ?l) \<le> x" "x \<le> max (iend i) (iend ?r)"
      using True by (auto simp: merge_between_def)
    then consider "x \<in> iv_set i" | "x \<in> iv_set ?l" | "x \<in> iv_set ?r"
      using below [of x] above [of x]
      by (cases "x < istart i"; cases "iend i < x")
        (auto simp: min_le_iff_disj le_max_iff_disj not_less)
    then show "x \<in> iv_set i \<union> (\<Union>k\<in>{L..<R}. iv_set (xs ! k))"
      using True by cases auto
  next
    fix x
    assume "x \<in> iv_set i"
    then show "x \<in> iv_set (merge_between xs i L R)"
      using True by (auto simp: merge_between_def min_le_iff_disj le_max_iff_disj)
  next
    fix k x
    assume k: "k \<in> {L..<R}" and x: "x \<in> iv_set (xs ! k)"
    have "istart ?l \<le> istart (xs ! k)" "iend (xs ! k) \<le> iend ?r"
      using canonical_nth_mono [OF can, of L k] canonical_nth_mono [OF can, of k "R - 1"] k len
      by auto
    with x True show "x \<in> iv_set (merge_between xs i L R)"
      by (auto simp: merge_between_def min_le_iff_disj le_max_iff_disj)
  qed
qed

lemma iset_set_nth: "iset_set xs = (\<Union>k\<in>{..<length xs}. iv_set (xs ! k))"
  by (auto simp: iset_set_def set_conv_nth)

lemma add_interval_canonical [wf_intros]:
  assumes can: "canonical same xs" and val: "iv_valid same i"
  shows "canonical same (add_interval xs i)"
proof -
  let ?L = "lower_count xs i" and ?R = "upper_index xs i"
  have LR: "?L \<le> ?R" by (rule lower_le_upper [OF can val])
  have Rlen: "?R \<le> length xs" by (rule length_takeWhile_le)
  let ?m = "merge_between xs i ?L ?R"
  have nth: "iend (xs ! a) + 1 < istart (xs ! b)" if "a < b" "b < length xs" for a b
    using sorted_wrt_nth_less [of "\<lambda>a b. iend a + 1 < istart b" xs a b] can that
    by (simp add: canonical_def)
  have low: "iend (xs ! k) + 1 < istart ?m" if "k < ?L" for k
    using lower_nth [OF can that] nth [of k ?L] that LR Rlen by (auto simp: merge_between_def)
  have high: "iend ?m + 1 < istart (xs ! k)" if "?R \<le> k" "k < length xs" for k
    using upper_nth [OF can that] nth [of "?R - 1" k] that LR
    by (auto simp: merge_between_def max_def)
  have "canonical same (take n xs @ drop n xs)" for n using can by simp
  then have "canonical same (take ?L xs)" "canonical same (drop ?R xs)"
    by (simp_all only: canonical_append)
  moreover have "iv_valid same ?m" by (rule merge_between_valid [OF can val])
  moreover have "iend a + 1 < istart b" if "a \<in> set (take ?L xs)" "b \<in> set (drop ?R xs)" for a b
  proof -
    from that obtain p q where "a = xs ! p" "p < ?L" "b = xs ! (?R + q)" "?R + q < length xs"
      by (auto simp: in_set_conv_nth)
    with nth [of p "?R + q"] LR show ?thesis by simp
  qed
  moreover have "iend a + 1 < istart ?m" if "a \<in> set (take ?L xs)" for a
    using that low by (auto simp: in_set_conv_nth)
  moreover have "iend ?m + 1 < istart b" if "b \<in> set (drop ?R xs)" for b
    using that high by (auto simp: in_set_conv_nth)
  ultimately show ?thesis
    unfolding add_interval_eq [OF can val] by (simp only: canonical_append canonical_Cons) auto
qed

lemma iset_set_take: "n \<le> length xs \<Longrightarrow> iset_set (take n xs) = (\<Union>k\<in>{..<n}. iv_set (xs ! k))"
  by (auto simp: iset_set_nth)

lemma iset_set_drop: "iset_set (drop n xs) = (\<Union>k\<in>{n..<length xs}. iv_set (xs ! k))"
proof -
  have "iset_set (drop n xs) = (\<Union>k\<in>{..<length xs - n}. iv_set (xs ! (n + k)))"
    by (auto simp: iset_set_nth)
  also have "\<dots> = (\<Union>k\<in>(+) n ` {..<length xs - n}. iv_set (xs ! k))" by simp
  also have "(+) n ` {..<length xs - n} = {n..<length xs}"
  proof (cases "n \<le> length xs")
    case True
    then show ?thesis by (simp add: image_add_atLeastLessThan lessThan_atLeast0)
  qed simp
  finally show ?thesis .
qed

lemma add_interval_set [sem_simps]:
  assumes can: "canonical same xs" and val: "iv_valid same i"
  shows "iset_set (add_interval xs i) = iset_set xs \<union> iv_set i"
proof -
  let ?L = "lower_count xs i" and ?R = "upper_index xs i"
  have LR: "?L \<le> ?R" by (rule lower_le_upper [OF can val])
  have Rlen: "?R \<le> length xs" by (rule length_takeWhile_le)
  then have "{..<length xs} = {..<?L} \<union> {?L..<?R} \<union> {?R..<length xs}" using LR by auto
  then have "iset_set xs =
      iset_set (take ?L xs) \<union> (\<Union>k\<in>{?L..<?R}. iv_set (xs ! k)) \<union> iset_set (drop ?R xs)"
    using iset_set_nth [of xs] iset_set_take [of ?L xs] iset_set_drop [of ?R xs] LR Rlen
    by (simp only: UN_Un order_trans)
  then show ?thesis
    unfolding add_interval_eq [OF can val] iset_set_simps merge_between_set [OF can val] by blast
qed

subsection \<open>Union, containment, equality\<close>

lemma iset_or_correct:
  assumes "canonical same xs" and "list_all (iv_valid same) ys"
  shows "canonical same (iset_or xs ys) \<and> iset_set (iset_or xs ys) = iset_set xs \<union> iset_set ys"
  using assms
proof (induction ys arbitrary: xs)
  case Nil
  then show ?case by (simp add: iset_or_def)
next
  case (Cons i ys)
  then have i: "iv_valid same i" and ys: "list_all (iv_valid same) ys" by auto
  have "canonical same (add_interval xs i)" by (rule add_interval_canonical [OF Cons.prems(1) i])
  from Cons.IH [OF this ys] show ?case
    using add_interval_set [OF Cons.prems(1) i] by (auto simp: iset_or_def)
qed

lemma iset_or_canonical [wf_intros]:
  "canonical same xs \<Longrightarrow> canonical same ys \<Longrightarrow> canonical same (iset_or xs ys)"
  using iset_or_correct [of xs ys] by (simp add: canonical_def)

lemma iset_or_set [sem_simps]:
  "canonical same xs \<Longrightarrow> canonical same ys \<Longrightarrow>
   iset_set (iset_or xs ys) = iset_set xs \<union> iset_set ys"
  using iset_or_correct [of xs ys] by (simp add: canonical_def)

lemma get_interval_set_correct:
  assumes "s \<le> e" and "same s e"
  shows "canonical same (get_interval_set s e)" and "iset_set (get_interval_set s e) = {s .. e}"
  using assms by (auto simp: get_interval_set_def add_interval_def canonical_Cons iv_valid_def)

lemma iset_bool_set: "canonical same xs \<Longrightarrow> xs \<noteq> [] \<longleftrightarrow> iset_set xs \<noteq> {}"
  by (cases xs) (auto simp: canonical_Cons iv_valid_def iv_set_def)

lemma iset_rep_mem:
  assumes "canonical same xs" and "xs \<noteq> []"
  shows "\<exists>x. iset_rep xs = Some x \<and> x \<in> iset_set xs"
  using assms by (cases xs) (auto simp: iset_rep_def canonical_Cons iv_valid_def)

text \<open>An interval inside a canonical set lies inside one of its intervals.\<close>

lemma subset_single:
  assumes can: "canonical same ys" and i: "iv_valid same i" and sub: "iv_set i \<subseteq> iset_set ys"
  shows "\<exists>j\<in>set ys. iv_subset i j"
proof -
  have le: "istart i \<le> iend i" using i by (simp add: iv_valid_def)
  then have "istart i \<in> iset_set ys" using sub by auto
  then obtain j where j: "j \<in> set ys" "istart j \<le> istart i" "istart i \<le> iend j"
    by (auto simp: mem_iset_set)
  have "iend i \<le> iend j"
  proof (rule ccontr)
    assume "\<not> iend i \<le> iend j"
    then have less: "iend j < iend i" by simp
    have "same (istart i) (iend j)" using same_valid [OF i, of "iend j"] j less by simp
    then have "same (iend j) (iend i)" using i by (meson iv_valid_def same_sym same_trans)
    from succ_strict [OF less this] have strict: "iend j < iend j + 1" .
    have "iend j + 1 \<in> iv_set i" using succ_least [OF less] j strict by auto
    then have "iend j + 1 \<in> iset_set ys" using sub by blast
    then obtain k where k: "k \<in> set ys" "istart k \<le> iend j + 1" "iend j + 1 \<le> iend k"
      by (auto simp: mem_iset_set)
    obtain p q where p: "p < length ys" "j = ys ! p" and q: "q < length ys" "k = ys ! q"
      using j(1) k(1) by (auto simp: in_set_conv_nth)
    have "sorted_wrt (\<lambda>a b. iend a + 1 < istart b) ys" using can by (simp add: canonical_def)
    note nth = sorted_wrt_nth_less [OF this]
    consider "p < q" | "p = q" | "q < p" by linarith
    then show False
    proof cases
      case 1
      with nth [of p q] p q k show False by simp
    next
      case 2
      with p q k strict show False by simp
    next
      case 3
      then have "iend k < iend j" using sorted_wrt_nth_less [OF canonical_sorted_end [OF can]] p q by simp
      with k strict show False by simp
    qed
  qed
  with j show ?thesis by (auto simp: iv_subset_def)
qed

lemma contained_single:
  assumes can: "canonical same ys" and i: "iv_valid same i"
  shows "find_interval_left ys i \<noteq> int (length ys) - 1 \<and>
           iv_subset i (ys ! nat (find_interval_left ys i + 1)) \<longleftrightarrow> iv_set i \<subseteq> iset_set ys"
proof -
  let ?L = "lower_count ys i"
  have fl: "find_interval_left ys i = int ?L - 1" by (rule find_left_canonical [OF can])
  have "iv_set i \<subseteq> iset_set ys" if "?L \<noteq> length ys" "iv_subset i (ys ! ?L)"
  proof -
    have "ys ! ?L \<in> set ys"
      using that(1) length_takeWhile_le [of "\<lambda>j. iend j < istart i - 1" ys] by simp
    moreover have "iv_set i \<subseteq> iv_set (ys ! ?L)" using that(2) by (auto simp: iv_subset_def)
    ultimately show ?thesis unfolding iset_set_def by blast
  qed
  moreover have "?L \<noteq> length ys \<and> iv_subset i (ys ! ?L)" if sub: "iv_set i \<subseteq> iset_set ys"
  proof -
    obtain k where k: "k < length ys" "iv_subset i (ys ! k)"
      using subset_single [OF can i sub] by (auto simp: in_set_conv_nth)
    then have start: "istart (ys ! k) \<le> istart i" "istart i \<le> iend (ys ! k)"
      using i by (auto simp: iv_subset_def iv_valid_def)
    then have "\<not> k < ?L"
      using lower_nth [OF can, of k i] le_succ [of "iend (ys ! k)"] by auto
    moreover have "\<not> ?L < k"
    proof
      assume less: "?L < k"
      have "sorted_wrt (\<lambda>a b. iend a + 1 < istart b) ys" using can by (simp add: canonical_def)
      from sorted_wrt_nth_less [OF this less k(1)] start
      have "iend (ys ! ?L) + 1 < istart i" by simp
      then have "iend (ys ! ?L) < istart i - 1" by (simp only: gap_pred)
      moreover have "?L < length ys" using less k(1) by simp
      ultimately show False using nth_length_takeWhile by blast
    qed
    ultimately have "?L = k" by simp
    with k show ?thesis by simp
  qed
  ultimately show ?thesis by (auto simp: fl)
qed

lemma iset_contained_in_iff:
  assumes xs: "canonical same xs" and ys: "canonical same ys"
  shows "iset_contained_in xs ys \<longleftrightarrow> iset_set xs \<subseteq> iset_set ys"
proof -
  have "iset_set xs \<subseteq> iset_set ys \<longleftrightarrow> (\<forall>i\<in>set xs. iv_set i \<subseteq> iset_set ys)"
    by (auto simp: iset_set_def)
  also have "\<dots> \<longleftrightarrow> list_all (\<lambda>i. let left = find_interval_left ys i in
      left \<noteq> int (length ys) - 1 \<and> iv_subset i (ys ! nat (left + 1))) xs"
    using contained_single [OF ys canonical_valid [OF xs]] by (simp add: list_all_iff Let_def)
  finally have general: "iset_set xs \<subseteq> iset_set ys \<longleftrightarrow> \<dots>" .
  show ?thesis
  proof (cases "length xs = 1 \<and> length ys = 1")
    case True
    then obtain i j where "xs = [i]" "ys = [j]" by (metis One_nat_def length_0_conv length_Suc_conv)
    moreover have "iv_set i \<subseteq> iv_set j \<longleftrightarrow> iv_subset i j"
      using xs calculation by (auto simp: iv_subset_def canonical_Cons iv_valid_def iv_set_def)
    ultimately show ?thesis by (simp add: iset_contained_in_def)
  next
    case False
    then show ?thesis unfolding iset_contained_in_def by (subst if_not_P) (simp_all only: general simp_thms)
  qed
qed

lemma iset_mem_iff:
  assumes "canonical same xs"
  shows "iset_mem x xs \<longleftrightarrow> x \<in> iset_set xs"
  using iset_contained_in_iff [OF get_interval_set_correct(1) assms, of x x]
    get_interval_set_correct(2) [of x x] same_refl [of x]
  by (simp add: iset_mem_def)

lemma iset_overlaps_iff:
  assumes "canonical same xs" and "canonical same ys"
  shows "iset_overlaps xs ys \<longleftrightarrow> iset_set xs \<inter> iset_set ys \<noteq> {}"
proof -
  have "iv_overlaps i j \<longleftrightarrow> (\<exists>x. x \<in> iv_set i \<and> x \<in> iv_set j)"
    if "i \<in> set xs" "j \<in> set ys" for i j
  proof
    assume "iv_overlaps i j"
    then have "max (istart i) (istart j) \<in> iv_set i \<and> max (istart i) (istart j) \<in> iv_set j"
      using canonical_validD [OF assms(1) that(1)] canonical_validD [OF assms(2) that(2)]
      by (auto simp: iv_overlaps_def max_def)
    then show "\<exists>x. x \<in> iv_set i \<and> x \<in> iv_set j" by blast
  next
    show "\<exists>x. x \<in> iv_set i \<and> x \<in> iv_set j \<Longrightarrow> iv_overlaps i j" by (auto simp: iv_overlaps_def)
  qed
  then show ?thesis
    unfolding iset_overlaps_def list_ex_iff iset_set_def by blast
qed

lemma canonical_disjoint:
  assumes can: "canonical same xs" and mem: "i \<in> set xs" "j \<in> set xs"
    and x: "x \<in> iv_set i" "x \<in> iv_set j"
  shows "i = j"
proof -
  obtain p q where p: "p < length xs" "i = xs ! p" and q: "q < length xs" "j = xs ! q"
    using mem by (auto simp: in_set_conv_nth)
  have gap: "iend (xs ! a) < istart (xs ! b)" if "a < b" "b < length xs" for a b
    using sorted_wrt_nth_less [of "\<lambda>a b. iend a + 1 < istart b" xs a b] can that gap_less
    by (simp add: canonical_def)
  consider "p < q" | "p = q" | "q < p" by linarith
  then show ?thesis
    using gap [of p q] gap [of q p] p q x by cases auto
qed

text \<open>Two canonical sets with the same points are the same list: comparing lists compares sets.\<close>

lemma canonical_unique:
  assumes xs: "canonical same xs" and ys: "canonical same ys" and eq: "iset_set xs = iset_set ys"
  shows "xs = ys"
proof -
  have sub: "set as \<subseteq> set bs"
    if as: "canonical same as" and bs: "canonical same bs" and eq: "iset_set as = iset_set bs" for as bs
  proof
    fix i
    assume i: "i \<in> set as"
    then have "iv_set i \<subseteq> iset_set bs" using eq by (auto simp: iset_set_def)
    then obtain j where j: "j \<in> set bs" "iv_subset i j"
      using subset_single [OF bs canonical_valid [OF as i]] by blast
    then have "iv_set j \<subseteq> iset_set as" using eq by (auto simp: iset_set_def)
    then obtain k where k: "k \<in> set as" "iv_subset j k"
      using subset_single [OF as canonical_valid [OF bs j(1)]] by blast
    have "istart i \<le> iend i" by (rule canonical_validD [OF as i])
    then have "i = k"
      using canonical_disjoint [OF as i k(1), of "istart i"] j(2) k(2)
      by (auto simp: iv_subset_def dest: order_trans)
    with j k have "i = j" by (intro interval.expand) (auto simp: iv_subset_def)
    with j show "i \<in> set bs" by simp
  qed
  have "sorted_wrt (<) zs" if "canonical same zs" for zs
    using canonical_sorted_start [OF that]
    by (rule sorted_wrt_mono_rel [rotated]) (simp add: less_interval_def iv_lt_def)
  with sub [OF xs ys eq] sub [OF ys xs eq [symmetric]] xs ys show ?thesis
    by (intro strict_sorted_equal) auto
qed

lemma iset_single_iff:
  assumes can: "canonical same xs"
  shows "iset_single xs \<longleftrightarrow> (\<exists>x. iset_set xs = {x})"
proof
  assume "iset_single xs"
  then obtain i where "xs = [i]" "istart i = iend i"
    by (auto simp: iset_single_def iv_single_def length_Suc_conv)
  then show "\<exists>x. iset_set xs = {x}" by (auto simp: iv_set_def)
next
  assume "\<exists>x. iset_set xs = {x}"
  then obtain x where "iset_set xs = {x}" by blast
  then have "xs = get_interval_set x x"
    using canonical_unique [OF can get_interval_set_correct(1)]
      get_interval_set_correct(2) [of x x] same_refl [of x] by simp
  then show "iset_single xs"
    by (simp add: get_interval_set_def add_interval_def iset_single_def iv_single_def)
qed

end

interpretation int_points: point_space "\<lambda>(_::int) _. True"
  by unfold_locales auto

abbreviation int_canonical :: "int interval_set \<Rightarrow> bool" where
  "int_canonical \<equiv> canonical (\<lambda>_ _. True)"

section \<open>Properties\<close>

text \<open>
  C35. Adding an interval to a canonical set of integers gives a canonical set: still sorted, no two
  intervals overlapping or touching. Its points are those of the set and of the interval.
\<close>

theorem add_interval_correct:
  fixes xs :: "int interval_set"
  assumes "int_canonical xs" and "istart i \<le> iend i"
  shows "int_canonical (add_interval xs i) \<and>
         iset_set (add_interval xs i) = iset_set xs \<union> {istart i .. iend i}"
  using assms int_points.add_interval_canonical [of xs i] int_points.add_interval_set [of xs i]
  by (simp add: iv_valid_def iv_set_def)

theorem add_interval_correct_witness:
  "int_canonical (add_interval [Interval 1 3, Interval 6 9] (Interval (4::int) 5)) \<and>
   iset_set (add_interval [Interval 1 3, Interval 6 9] (Interval (4::int) 5)) =
     iset_set [Interval 1 3, Interval 6 9] \<union> {4 .. 5}"
  using add_interval_correct [of "[Interval 1 3, Interval 6 9]" "Interval 4 5"]
  by (simp add: canonical_def iv_valid_def)

text \<open>
  C36. The operators \<open>&\<close>, \<open>|\<close> and \<open>-\<close> on canonical sets compute intersection, union and
  difference, and their results are canonical.
\<close>

theorem iset_algebra:
  fixes xs ys :: "int interval_set"
  assumes "int_canonical xs" and "int_canonical ys"
  shows "int_canonical (iset_and xs ys) \<and> iset_set (iset_and xs ys) = iset_set xs \<inter> iset_set ys \<and>
         int_canonical (iset_or xs ys) \<and> iset_set (iset_or xs ys) = iset_set xs \<union> iset_set ys \<and>
         int_canonical (iset_sub xs ys) \<and> iset_set (iset_sub xs ys) = iset_set xs - iset_set ys"
  using assms by (simp add: wf_intros sem_simps)

theorem iset_algebra_witness:
  "iset_set (iset_and [Interval 1 5, Interval (8::int) 9] [Interval 4 8]) = {4 .. 5} \<union> {8} \<and>
   iset_set (iset_or [Interval 1 5, Interval (8::int) 9] [Interval 6 6]) = {1 .. 6} \<union> {8 .. 9} \<and>
   iset_set (iset_sub [Interval 1 5, Interval (8::int) 9] [Interval 2 3]) = {1 .. 5} - {2 .. 3} \<union> {8 .. 9}"
  using iset_algebra [of "[Interval 1 5, Interval 8 9]" "[Interval 4 8]"]
    iset_algebra [of "[Interval 1 5, Interval 8 9]" "[Interval 6 6]"]
    iset_algebra [of "[Interval 1 5, Interval 8 9]" "[Interval 2 3]"]
  by (auto simp: canonical_def iv_valid_def mem_iset_set)

text \<open>
  \<open>contained_in\<close> decides inclusion, \<open>in\<close> decides membership and \<open>overlaps\<close> decides whether
  two canonical sets share a point.
\<close>

theorem iset_queries_decide:
  fixes xs ys :: "int interval_set"
  assumes "int_canonical xs" and "int_canonical ys"
  shows "(iset_contained_in xs ys \<longleftrightarrow> iset_set xs \<subseteq> iset_set ys) \<and>
         (iset_mem x xs \<longleftrightarrow> x \<in> iset_set xs) \<and>
         (iset_overlaps xs ys \<longleftrightarrow> iset_set xs \<inter> iset_set ys \<noteq> {})"
  using int_points.iset_contained_in_iff [OF assms] int_points.iset_mem_iff [OF assms(1)]
    int_points.iset_overlaps_iff [OF assms] by blast

theorem iset_queries_decide_witness:
  "\<not> iset_contained_in [Interval 1 (5::int)] [Interval 1 3, Interval 5 9] \<and>
   iset_mem (4::int) [Interval 1 5] \<and> iset_overlaps [Interval 1 (5::int)] [Interval 1 3, Interval 5 9]"
proof -
  have can: "int_canonical [Interval 1 5]" "int_canonical [Interval 1 3, Interval 5 9]"
    by (simp_all add: canonical_def iv_valid_def)
  have "(4::int) \<in> iset_set [Interval 1 5]" "4 \<notin> iset_set [Interval 1 3, Interval (5::int) 9]"
    "(1::int) \<in> iset_set [Interval 1 5]" "1 \<in> iset_set [Interval 1 3, Interval (5::int) 9]"
    by simp_all
  then show ?thesis using iset_queries_decide [OF can, of 4] by blast
qed

text \<open>
  The list is a canonical form: comparing two canonical sets with \<open>==\<close> compares the sets of
  points they stand for.
\<close>

theorem iset_eq_iff:
  fixes xs ys :: "int interval_set"
  assumes "int_canonical xs" and "int_canonical ys"
  shows "xs = ys \<longleftrightarrow> iset_set xs = iset_set ys"
  using int_points.canonical_unique [OF assms] by blast

theorem iset_eq_iff_witness:
  "iset_set (add_interval [Interval 1 (3::int)] (Interval 5 6)) \<noteq> iset_set [Interval 1 (3::int)]"
proof -
  have can: "int_canonical [Interval 1 3]" by (simp add: canonical_def iv_valid_def)
  have can': "int_canonical (add_interval [Interval 1 3] (Interval 5 6))"
    using int_points.add_interval_canonical [OF can, of "Interval 5 6"] by (simp add: iv_valid_def)
  have "add_interval [Interval 1 (3::int)] (Interval 5 6) \<noteq> [Interval 1 3]" by code_simp
  then show ?thesis using iset_eq_iff [OF can' can] by blast
qed

text \<open>
  The two binary searches return the index of the last interval that lies below the given one
  without touching it, and of the first one above it, or \<open>-1\<close> when there is none.
\<close>

theorem find_interval_correct:
  fixes xs :: "int interval_set"
  assumes "int_canonical xs"
  shows "(let l = find_interval_left xs i in
            - 1 \<le> l \<and> l < int (length xs) \<and>
            (\<forall>k<length xs. iend (xs ! k) + 1 < istart i \<longleftrightarrow> int k \<le> l)) \<and>
         (let r = find_interval_right xs i in
            - 1 \<le> r \<and> r < int (length xs) \<and>
            (\<forall>k<length xs. iend i + 1 < istart (xs ! k) \<longleftrightarrow> 0 \<le> r \<and> r \<le> int k))"
proof -
  have "iend (xs ! k) + 1 < istart i \<longleftrightarrow> k < lower_count xs i" if "k < length xs" for k
    using less_lower_count_iff [OF int_points.canonical_sorted_end [OF assms] that, of i]
    by (simp add: int_points.gap_pred)
  moreover have "iend i + 1 < istart (xs ! k) \<longleftrightarrow> upper_index xs i \<le> k" if "k < length xs" for k
    by (rule upper_index_le_iff [OF int_points.canonical_sorted_start [OF assms] that])
  ultimately show ?thesis
    using length_takeWhile_le [of "\<lambda>j. iend j < istart i - 1" xs]
    unfolding int_points.find_left_canonical [OF assms] int_points.find_right_canonical [OF assms]
    by (auto simp: Let_def)
qed

theorem find_interval_correct_witness:
  "find_interval_left [Interval 1 2, Interval 4 5, Interval (9::int) 9] (Interval 6 7) = 0 \<and>
   find_interval_right [Interval 1 2, Interval 4 5, Interval (9::int) 9] (Interval 6 7) = 2"
proof -
  let ?xs = "[Interval 1 2, Interval 4 5, Interval 9 9] :: int interval_set" and ?i = "Interval 6 7"
  have "int_canonical ?xs" by (simp add: canonical_def iv_valid_def)
  note c = find_interval_correct [OF this, of ?i, unfolded Let_def]
  have "0 \<le> find_interval_left ?xs ?i" "\<not> 1 \<le> find_interval_left ?xs ?i"
    using c [THEN conjunct1, THEN conjunct2, THEN conjunct2, rule_format, of 0]
      c [THEN conjunct1, THEN conjunct2, THEN conjunct2, rule_format, of 1] by simp_all
  moreover have "0 \<le> find_interval_right ?xs ?i \<and> find_interval_right ?xs ?i \<le> 2"
    "\<not> (0 \<le> find_interval_right ?xs ?i \<and> find_interval_right ?xs ?i \<le> 1)"
    using c [THEN conjunct2, THEN conjunct2, THEN conjunct2, rule_format, of 2]
      c [THEN conjunct2, THEN conjunct2, THEN conjunct2, rule_format, of 1] by simp_all
  ultimately show ?thesis by linarith
qed

end
