(* ===== verification/Min_DFA.thy ===== *)
theory Min_DFA
  imports Prelude
begin

text \<open>
  \<open>nca/CoreDS/MinDFA.py\<close>: the wrapper around the automata of the package \<open>greenery\<close>. The
  package is not part of the repository: its automata are the type \<open>'f\<close> and the functions the
  wrapper calls are the fields of the record \<open>fsm_ops\<close>. The documented behaviour of the package
  is the predicate \<open>fsm_laws\<close>. The \<open>lru_cache\<close> decorators are left out of the operations; the last
  section shows what the one that matters does.
\<close>

section \<open>The automata package\<close>

record 'f fsm_ops =
  f_accepts :: "'f \<Rightarrow> string \<Rightarrow> bool"        \<comment> \<open>\<open>string in fsm\<close>\<close>
  f_union :: "'f \<Rightarrow> 'f \<Rightarrow> 'f"             \<comment> \<open>\<open>|\<close>, reduced\<close>
  f_inter :: "'f \<Rightarrow> 'f \<Rightarrow> 'f"             \<comment> \<open>\<open>&\<close>, reduced\<close>
  f_diff :: "'f \<Rightarrow> 'f \<Rightarrow> 'f"              \<comment> \<open>\<open>-\<close>, reduced\<close>
  f_empty :: "'f \<Rightarrow> bool"                  \<comment> \<open>\<open>empty\<close>\<close>
  f_subset :: "'f \<Rightarrow> 'f \<Rightarrow> bool"          \<comment> \<open>\<open>issubset\<close>\<close>
  f_same :: "'f \<Rightarrow> 'f \<Rightarrow> bool"            \<comment> \<open>equal states, initial and final states and maps\<close>
  f_len :: "'f \<Rightarrow> nat option"              \<comment> \<open>\<open>len\<close>; \<open>None\<close> is the \<open>OverflowError\<close>\<close>
  f_strings :: "'f \<Rightarrow> nat \<Rightarrow> string list"  \<comment> \<open>the first strings of the generator \<open>strings\<close>\<close>
  f_parse :: "string \<Rightarrow> 'f option"         \<comment> \<open>\<open>parse(s).to_fsm(alphabet)\<close>, reduced; may raise\<close>

definition lang :: "'f fsm_ops \<Rightarrow> 'f \<Rightarrow> string set" where
  "lang F f = {s. f_accepts F f s}"

definition fsm_laws :: "'f fsm_ops \<Rightarrow> bool" where
  "fsm_laws F \<longleftrightarrow>
     (\<forall>f g. lang F (f_union F f g) = lang F f \<union> lang F g) \<and>
     (\<forall>f g. lang F (f_inter F f g) = lang F f \<inter> lang F g) \<and>
     (\<forall>f g. lang F (f_diff F f g) = lang F f - lang F g) \<and>
     (\<forall>f. f_empty F f \<longleftrightarrow> lang F f = {}) \<and>
     (\<forall>f g. f_subset F f g \<longleftrightarrow> lang F f \<subseteq> lang F g) \<and>
     (\<forall>f g. f_same F f g \<longleftrightarrow> lang F f = lang F g) \<and>
     (\<forall>f. f_len F f = (if finite (lang F f) then Some (card (lang F f)) else None)) \<and>
     (\<forall>f n. set (f_strings F f n) \<subseteq> lang F f \<and> distinct (f_strings F f n) \<and>
        (finite (lang F f) \<longrightarrow> length (f_strings F f n) = min n (card (lang F f))) \<and>
        (infinite (lang F f) \<longrightarrow> length (f_strings F f n) = n))"

section \<open>The wrapper\<close>

datatype ternary = TFalse | TTrue | TUnknown

datatype 'f min_dfa =
  MinDFA (fsm: 'f) (is_all_words: ternary) (complement_dfa: "'f min_dfa option") (regex_expr: string)

definition default_alphabet_regex :: string where
  "default_alphabet_regex = ''[.'' @ [CHR 0x5C] @ ''w/'' @ [CHR 0x5C] @ ''-]*''"

definition dfa_from_fsm :: "'f \<Rightarrow> 'f min_dfa" where
  "dfa_from_fsm f = MinDFA f TUnknown None ''''"

definition dfa_contains :: "'f fsm_ops \<Rightarrow> string \<Rightarrow> 'f min_dfa \<Rightarrow> bool" where
  "dfa_contains F s a = f_accepts F (fsm a) s"

definition dfa_eq :: "'f fsm_ops \<Rightarrow> 'f min_dfa \<Rightarrow> 'f min_dfa \<Rightarrow> bool" where
  "dfa_eq F a b = f_same F (fsm a) (fsm b)"

definition dfa_bool :: "'f fsm_ops \<Rightarrow> 'f min_dfa \<Rightarrow> bool" where
  "dfa_bool F a \<longleftrightarrow> \<not> f_empty F (fsm a)"

text \<open>Python's \<open>replace\<close> of all occurrences of a non-empty string, from the left.\<close>

function str_replace :: "string \<Rightarrow> string \<Rightarrow> string \<Rightarrow> string" where
  "str_replace old new s =
     (if s = [] \<or> old = [] then s
      else if take (length old) s = old then new @ str_replace old new (drop (length old) s)
      else hd s # str_replace old new (tl s))"
  by pat_completeness auto
termination by (relation "measure (\<lambda>(old, new, s). length s)") auto

declare str_replace.simps [simp del]

definition dfa_from_regex :: "'f fsm_ops \<Rightarrow> string \<Rightarrow> 'f min_dfa option" where
  "dfa_from_regex F s =
     (case f_parse F s of
        None \<Rightarrow> None
      | Some f \<Rightarrow>
          Some (MinDFA f (if CHR ''*'' \<in> set s then TUnknown else TFalse) None
                  (str_replace default_alphabet_regex ''*'' s)))"

definition dfa_all_words :: "'f fsm_ops \<Rightarrow> string \<Rightarrow> 'f min_dfa option" where
  "dfa_all_words F alphabet =
     (case dfa_from_regex F alphabet of
        None \<Rightarrow> None
      | Some a \<Rightarrow> Some (MinDFA (fsm a) TTrue (complement_dfa a) ''*''))"

definition has_finite_len :: "'f fsm_ops \<Rightarrow> 'f min_dfa \<Rightarrow> bool" where
  "has_finite_len F a \<longleftrightarrow> (if is_all_words a = TTrue then False else f_len F (fsm a) \<noteq> None)"

definition is_dfa_wll_words :: "'f fsm_ops \<Rightarrow> 'f min_dfa \<Rightarrow> 'f min_dfa \<Rightarrow> bool" where
  "is_dfa_wll_words F a all_words =
     (if is_all_words a = TTrue then True
      else if is_all_words a = TFalse then False
      else \<not> has_finite_len F a \<and> dfa_eq F a all_words)"

definition dfa_contained_in :: "'f fsm_ops \<Rightarrow> 'f min_dfa \<Rightarrow> 'f min_dfa \<Rightarrow> bool" where
  "dfa_contained_in F a b =
     (if is_all_words b = TTrue then True
      else if is_all_words a = TTrue \<and> is_all_words b = TFalse then False
      else f_subset F (fsm a) (fsm b))"

definition joined_expr :: "string \<Rightarrow> 'f min_dfa \<Rightarrow> 'f min_dfa \<Rightarrow> string" where
  "joined_expr oper a b = ''('' @ regex_expr a @ '')'' @ oper @ ''('' @ regex_expr b @ '')''"

definition dfa_or :: "'f fsm_ops \<Rightarrow> 'f min_dfa \<Rightarrow> 'f min_dfa \<Rightarrow> 'f min_dfa" where
  "dfa_or F a b =
     (if is_all_words a = TTrue then a
      else if is_all_words b = TTrue then b
      else (let f = f_union F (fsm a) (fsm b) in
            MinDFA f (if has_finite_len F (dfa_from_fsm f) then TFalse else TUnknown) None
              (if regex_expr a = regex_expr b then regex_expr a else joined_expr ''|'' a b)))"

definition dfa_and :: "'f fsm_ops \<Rightarrow> 'f min_dfa \<Rightarrow> 'f min_dfa \<Rightarrow> 'f min_dfa" where
  "dfa_and F a b =
     (if is_all_words a = TTrue then b
      else if is_all_words b = TTrue then a
      else MinDFA (f_inter F (fsm a) (fsm b))
             (if is_all_words a = TFalse \<or> is_all_words b = TFalse then TFalse else TUnknown) None
             (if regex_expr a = regex_expr b then regex_expr a else joined_expr ''&'' a b))"

text \<open>
  \<open>__sub__\<close> returns the difference and leaves a link in its right operand: subtracting from all
  words, the two are each other's complement. The link is a cache for the next subtraction from
  all words; the model keeps it as a copy of the other object at this moment.
\<close>

definition dfa_difference :: "'f fsm_ops \<Rightarrow> 'f min_dfa \<Rightarrow> 'f min_dfa \<Rightarrow> 'f min_dfa" where
  "dfa_difference F a b =
     (let f = f_diff F (fsm a) (fsm b);
          flag1 = (if is_all_words b = TTrue then TFalse
                   else if dfa_bool F b then TFalse else TUnknown);
          flag2 = (if is_all_words a = TTrue \<and> \<not> dfa_bool F b then TTrue else flag1);
          flag3 = (if flag2 \<noteq> TTrue \<and> f_len F f \<noteq> None then TFalse else flag2)
      in MinDFA f flag3 (if is_all_words a = TTrue then Some b else None) (joined_expr ''-'' a b))"

definition dfa_sub_link :: "'f fsm_ops \<Rightarrow> 'f min_dfa \<Rightarrow> 'f min_dfa \<Rightarrow> 'f min_dfa \<times> 'f min_dfa" where
  "dfa_sub_link F a b =
     (if is_all_words a = TTrue
      then (case complement_dfa b of
              Some c \<Rightarrow> (c, b)
            | None \<Rightarrow>
                (let res = dfa_difference F a b in
                 (res, MinDFA (fsm b) (is_all_words b) (Some res) (regex_expr b))))
      else (dfa_difference F a b, b))"

definition dfa_sub :: "'f fsm_ops \<Rightarrow> 'f min_dfa \<Rightarrow> 'f min_dfa \<Rightarrow> 'f min_dfa" where
  "dfa_sub F a b = fst (dfa_sub_link F a b)"

text \<open>\<open>rep\<close>: \<open>None\<close> is the \<open>NotImplemented\<close> of an automaton without words.\<close>

definition dfa_rep :: "'f fsm_ops \<Rightarrow> 'f min_dfa \<Rightarrow> string option" where
  "dfa_rep F a =
     (if \<not> dfa_bool F a then None
      else (case f_strings F (fsm a) 1 of [] \<Rightarrow> None | s # _ \<Rightarrow> Some s))"

fun join_str :: "string \<Rightarrow> string list \<Rightarrow> string" where
  "join_str sep [] = []"
| "join_str sep [s] = s"
| "join_str sep (s # ss) = s @ sep @ join_str sep ss"

definition strings_set_str :: "'f fsm_ops \<Rightarrow> 'f min_dfa \<Rightarrow> string" where
  "strings_set_str F a =
     join_str '', '' (case f_len F (fsm a) of None \<Rightarrow> [] | Some n \<Rightarrow> f_strings F (fsm a) n)"

definition dfa_str :: "'f fsm_ops \<Rightarrow> 'f min_dfa \<Rightarrow> string" where
  "dfa_str F a =
     (if has_finite_len F a then strings_set_str F a
      else if is_all_words a = TTrue then ''*''
      else regex_expr a)"

section \<open>Correctness\<close>

text \<open>
  An automaton is valid for a domain of words when its words are in the domain, its flag is not
  wrong, and the complement it remembers is its complement.
\<close>

abbreviation dlang :: "'f fsm_ops \<Rightarrow> 'f min_dfa \<Rightarrow> string set" where
  "dlang F a \<equiv> lang F (fsm a)"

definition flag_ok :: "string set \<Rightarrow> string set \<Rightarrow> ternary \<Rightarrow> bool" where
  "flag_ok D L flag = (case flag of TTrue \<Rightarrow> L = D | TFalse \<Rightarrow> L \<noteq> D | TUnknown \<Rightarrow> True)"

primrec dfa_ok :: "'f fsm_ops \<Rightarrow> string set \<Rightarrow> 'f min_dfa \<Rightarrow> bool" where
  "dfa_ok F D (MinDFA f flag c e) \<longleftrightarrow>
     lang F f \<subseteq> D \<and> flag_ok D (lang F f) flag \<and>
     (case map_option (\<lambda>a. (dlang F a, dfa_ok F D a)) c of
        None \<Rightarrow> True
      | Some (L, good) \<Rightarrow> good \<and> L = D - lang F f)"

lemma fsm_lawsD:
  assumes "fsm_laws F"
  shows "lang F (f_union F f g) = lang F f \<union> lang F g"
    and "lang F (f_inter F f g) = lang F f \<inter> lang F g"
    and "lang F (f_diff F f g) = lang F f - lang F g"
    and "f_empty F f \<longleftrightarrow> lang F f = {}"
    and "f_subset F f g \<longleftrightarrow> lang F f \<subseteq> lang F g"
    and "f_same F f g \<longleftrightarrow> lang F f = lang F g"
    and "f_len F f \<noteq> None \<longleftrightarrow> finite (lang F f)"
  using assms unfolding fsm_laws_def by (metis option.distinct(1))+

lemma dfa_okD:
  assumes "dfa_ok F D a"
  shows "dlang F a \<subseteq> D" and "is_all_words a = TTrue \<Longrightarrow> dlang F a = D"
    and "is_all_words a = TFalse \<Longrightarrow> dlang F a \<noteq> D"
    and "complement_dfa a = Some c \<Longrightarrow> dfa_ok F D c \<and> dlang F c = D - dlang F a"
  using assms by (cases a; auto simp: flag_ok_def split: ternary.splits)+

lemma dfa_bool_iff: "fsm_laws F \<Longrightarrow> dfa_bool F a \<longleftrightarrow> dlang F a \<noteq> {}"
  by (simp add: dfa_bool_def fsm_lawsD)

lemma dfa_eq_iff: "fsm_laws F \<Longrightarrow> dfa_eq F a b \<longleftrightarrow> dlang F a = dlang F b"
  by (simp add: dfa_eq_def fsm_lawsD)

lemma dfa_or_ok:
  assumes "fsm_laws F" and "infinite D" and a: "dfa_ok F D a" and b: "dfa_ok F D b"
  shows "dfa_ok F D (dfa_or F a b) \<and> dlang F (dfa_or F a b) = dlang F a \<union> dlang F b"
proof (cases "is_all_words a = TTrue \<or> is_all_words b = TTrue")
  case True
  then show ?thesis
    using a b dfa_okD(1,2) [OF a] dfa_okD(1,2) [OF b] by (auto simp: dfa_or_def)
next
  case False
  then show ?thesis
    using dfa_okD(1) [OF a] dfa_okD(1) [OF b] assms(1,2) fsm_lawsD [OF assms(1)]
    by (auto simp: dfa_or_def Let_def flag_ok_def has_finite_len_def dfa_from_fsm_def)
qed

lemma dfa_and_ok:
  assumes "fsm_laws F" and a: "dfa_ok F D a" and b: "dfa_ok F D b"
  shows "dfa_ok F D (dfa_and F a b) \<and> dlang F (dfa_and F a b) = dlang F a \<inter> dlang F b"
proof (cases "is_all_words a = TTrue \<or> is_all_words b = TTrue")
  case True
  then show ?thesis
    using a b dfa_okD(1,2) [OF a] dfa_okD(1,2) [OF b] by (auto simp: dfa_and_def)
next
  case False
  then show ?thesis
    using dfa_okD(1,3) [OF a] dfa_okD(1,3) [OF b] assms(1) fsm_lawsD(2) [OF assms(1)]
    by (auto simp: dfa_and_def flag_ok_def)
qed

lemma dfa_difference_ok:
  assumes "fsm_laws F" and "infinite D" and a: "dfa_ok F D a" and b: "dfa_ok F D b"
  shows "dfa_ok F D (dfa_difference F a b)"
    and "dlang F (dfa_difference F a b) = dlang F a - dlang F b"
proof -
  note L = fsm_lawsD [OF assms(1)]
  have bool: "dfa_bool F b \<longleftrightarrow> dlang F b \<noteq> {}" by (rule dfa_bool_iff [OF assms(1)])
  note A = dfa_okD(1,2) [OF a] and B = dfa_okD(1,2) [OF b]
  show dl: "dlang F (dfa_difference F a b) = dlang F a - dlang F b"
    by (simp add: dfa_difference_def Let_def L(3))
  have D: "D \<noteq> {}" using assms(2) by auto
  have fin: "finite (dlang F a - dlang F b) \<Longrightarrow> dlang F a - dlang F b \<noteq> D" using assms(2) by metis
  have "flag_ok D (dlang F a - dlang F b) (is_all_words (dfa_difference F a b))"
    using A B D fin bool
    by (auto simp: dfa_difference_def Let_def flag_ok_def L(3,7) simp del: not_None_eq)
  moreover have "complement_dfa (dfa_difference F a b) = (if is_all_words a = TTrue then Some b else None)"
    by (simp add: dfa_difference_def Let_def)
  ultimately show "dfa_ok F D (dfa_difference F a b)"
    using dl A b B(1) by (cases "dfa_difference F a b") auto
qed

lemma dfa_sub_link_ok:
  assumes "fsm_laws F" and "infinite D" and a: "dfa_ok F D a" and b: "dfa_ok F D b"
  shows "dfa_ok F D (fst (dfa_sub_link F a b)) \<and>
    dlang F (fst (dfa_sub_link F a b)) = dlang F a - dlang F b \<and>
    dfa_ok F D (snd (dfa_sub_link F a b)) \<and> dlang F (snd (dfa_sub_link F a b)) = dlang F b"
proof (cases "is_all_words a = TTrue")
  case False
  then show ?thesis using dfa_difference_ok [OF assms] b by (simp add: dfa_sub_link_def)
next
  case True
  then have all: "dlang F a = D" by (rule dfa_okD(2) [OF a])
  show ?thesis
  proof (cases "complement_dfa b")
    case (Some c)
    then show ?thesis using True all b dfa_okD(4) [OF b Some] by (simp add: dfa_sub_link_def)
  next
    case None
    obtain f flag e where b_eq: "b = MinDFA f flag None e" using None by (cases b) auto
    note d = dfa_difference_ok [OF assms]
    show ?thesis
      using True None all d b by (simp add: dfa_sub_link_def b_eq Let_def)
  qed
qed

text \<open>What the queries answer on valid automata.\<close>

lemma has_finite_len_iff:
  assumes "fsm_laws F" and "infinite D" and "dfa_ok F D a"
  shows "has_finite_len F a \<longleftrightarrow> finite (dlang F a)"
  using dfa_okD(2) [OF assms(3)] assms(2) fsm_lawsD(7) [OF assms(1)]
  by (auto simp: has_finite_len_def simp del: not_None_eq)

lemma is_dfa_wll_words_iff:
  assumes "fsm_laws F" and "infinite D" and "dfa_ok F D a" and "dlang F w = D"
  shows "is_dfa_wll_words F a w \<longleftrightarrow> dlang F a = D"
proof -
  have "has_finite_len F a \<longleftrightarrow> finite (dlang F a)" by (rule has_finite_len_iff [OF assms(1-3)])
  then show ?thesis
    using dfa_okD(2,3) [OF assms(3)] assms(2,4) dfa_eq_iff [OF assms(1), of a w]
    by (auto simp: is_dfa_wll_words_def)
qed

lemma dfa_contained_in_iff:
  assumes "fsm_laws F" and "dfa_ok F D a" and "dfa_ok F D b"
  shows "dfa_contained_in F a b \<longleftrightarrow> dlang F a \<subseteq> dlang F b"
  using dfa_okD(1-3) [OF assms(2)] dfa_okD(1-3) [OF assms(3)] fsm_lawsD(5) [OF assms(1)]
  by (auto simp: dfa_contained_in_def)

lemma dfa_rep_mem:
  assumes "fsm_laws F" and "dfa_bool F a"
  shows "\<exists>s. dfa_rep F a = Some s \<and> s \<in> dlang F a"
proof -
  let ?ss = "f_strings F (fsm a) 1"
  have ne: "dlang F a \<noteq> {}" using assms by (simp add: dfa_bool_iff)
  have laws: "set ?ss \<subseteq> dlang F a" "finite (dlang F a) \<Longrightarrow> length ?ss = min 1 (card (dlang F a))"
    "infinite (dlang F a) \<Longrightarrow> length ?ss = 1"
    using assms(1) unfolding fsm_laws_def by blast+
  have "length ?ss = 1"
    using laws(2,3) ne by (cases "finite (dlang F a)") (auto simp: Suc_leI card_gt_0_iff)
  then obtain s where "?ss = [s]" by (auto simp: length_Suc_conv)
  with laws(1) assms(2) show ?thesis by (simp add: dfa_rep_def)
qed

section \<open>The cache of regular expressions\<close>

text \<open>
  \<open>dfa_from_regex\<close> is decorated with \<open>lru_cache\<close>: callers with the same expression get the same
  object, and \<open>dfa_all_words\<close> writes its flag and its text into that object. So after the domain of
  a dimension was made from an expression, every automaton made from the same expression is flagged
  as all words. The functions above leave the cache out; here it is a state that is passed along,
  the newest entry first (an entry that is dropped is made anew, which the invariant allows). The
  automaton itself is the same with and without the cache; only the flag and the text can differ.
\<close>

type_synonym 'f regex_cache = "(string \<times> 'f min_dfa) list"

definition cached_from_regex ::
  "'f fsm_ops \<Rightarrow> 'f regex_cache \<Rightarrow> string \<Rightarrow> ('f min_dfa \<times> 'f regex_cache) option" where
  "cached_from_regex F cache s =
     (case map_of cache s of
        Some a \<Rightarrow> Some (a, cache)
      | None \<Rightarrow> map_option (\<lambda>a. (a, (s, a) # cache)) (dfa_from_regex F s))"

definition cached_all_words ::
  "'f fsm_ops \<Rightarrow> 'f regex_cache \<Rightarrow> string \<Rightarrow> ('f min_dfa \<times> 'f regex_cache) option" where
  "cached_all_words F cache alphabet =
     map_option (\<lambda>(a, cache). let a' = MinDFA (fsm a) TTrue (complement_dfa a) ''*'' in (a', (alphabet, a') # cache))
       (cached_from_regex F cache alphabet)"

definition cache_ok :: "'f fsm_ops \<Rightarrow> 'f regex_cache \<Rightarrow> bool" where
  "cache_ok F cache \<longleftrightarrow> (\<forall>(s, a)\<in>set cache. map_option fsm (dfa_from_regex F s) = Some (fsm a))"

lemma cached_from_regex_ok:
  assumes "cache_ok F cache"
  shows "map_option (fsm \<circ> fst) (cached_from_regex F cache s) = map_option fsm (dfa_from_regex F s)"
    and "cached_from_regex F cache s = Some (a, cache') \<Longrightarrow> cache_ok F cache'"
  using assms by (auto simp: cached_from_regex_def cache_ok_def option.map_comp comp_def dest!: map_of_SomeD
      split: option.splits)

lemma cached_all_words_ok:
  assumes "cache_ok F cache"
  shows "map_option (fsm \<circ> fst) (cached_all_words F cache s) = map_option fsm (dfa_all_words F s)"
    and "cached_all_words F cache s = Some (a, cache') \<Longrightarrow> cache_ok F cache'"
proof -
  note c = cached_from_regex_ok [OF assms, where s = s]
  show "map_option (fsm \<circ> fst) (cached_all_words F cache s) = map_option fsm (dfa_all_words F s)"
    using c(1) by (auto simp: cached_all_words_def dfa_all_words_def Let_def split: option.splits)
  assume run: "cached_all_words F cache s = Some (a, cache')"
  then obtain x cx where x: "cached_from_regex F cache s = Some (x, cx)"
    by (auto simp: cached_all_words_def)
  have "map_option fsm (dfa_from_regex F s) = Some (fsm x)" using c(1) by (simp add: x)
  then show "cache_ok F cache'"
    using run x c(2) [OF x] by (auto simp: cached_all_words_def Let_def cache_ok_def)
qed

lemma all_words_flag_is_shared:
  assumes "cached_all_words F cache s = Some (a, cache')"
  shows "cached_from_regex F cache' s = Some (a, cache') \<and> is_all_words a = TTrue"
  using assms by (auto simp: cached_all_words_def cached_from_regex_def Let_def)

text \<open>The link that a subtraction leaves in its right operand does not change what it returns.\<close>

lemma sub_again:
  "dlang F (dfa_sub F a (snd (dfa_sub_link F a b))) = dlang F (dfa_sub F a b)"
  by (auto simp: dfa_sub_def dfa_sub_link_def dfa_difference_def Let_def split: option.splits)

end
