(* ===== verification/Hyper_Cubes.thy ===== *)
theory Hyper_Cubes
  imports Prelude
begin

text \<open>
  \<open>nca/CoreDS/CanonicalHyperCubeSet.py\<close>: sets of n-dimensional points as trees of dictionaries,
  one level per active dimension. The values on a level are interval sets or automata; the code
  calls the same methods on both, so the methods are the fields of a record (the class's virtual
  methods), together with the two answers of the \<open>DimensionsManager\<close> singleton the code asks for.
  Every \<open>assert\<close>, missing key and index error of the source is \<open>None\<close>.
\<close>

section \<open>The interface of dimension values\<close>

type_synonym dim = string

record ('v, 'p) dims =
  v_and :: "'v \<Rightarrow> 'v \<Rightarrow> 'v"                  \<comment> \<open>\<open>&\<close>\<close>
  v_or :: "'v \<Rightarrow> 'v \<Rightarrow> 'v"                   \<comment> \<open>\<open>|\<close>\<close>
  v_sub :: "'v \<Rightarrow> 'v \<Rightarrow> 'v"                  \<comment> \<open>\<open>-\<close>\<close>
  v_eq :: "'v \<Rightarrow> 'v \<Rightarrow> bool"                 \<comment> \<open>\<open>==\<close>\<close>
  v_bool :: "'v \<Rightarrow> bool"                     \<comment> \<open>\<open>bool\<close>\<close>
  v_contained_in :: "'v \<Rightarrow> 'v \<Rightarrow> bool"       \<comment> \<open>\<open>contained_in\<close>\<close>
  v_mem :: "'p \<Rightarrow> 'v \<Rightarrow> bool"                \<comment> \<open>\<open>in\<close>\<close>
  v_rep :: "'v \<Rightarrow> 'p option"                \<comment> \<open>\<open>rep\<close>\<close>
  dim_domain :: "dim \<Rightarrow> 'v option"          \<comment> \<open>\<open>get_dimension_domain_by_name\<close>\<close>
  dim_is_full :: "dim \<Rightarrow> 'v \<Rightarrow> 'v \<Rightarrow> bool"   \<comment> \<open>whether a value is the given domain, by its type\<close>
  dim_item_ok :: "dim \<Rightarrow> 'p \<Rightarrow> bool"        \<comment> \<open>whether an item has the dimension's type\<close>

section \<open>The tree\<close>

text \<open>
  A tree is the shared empty interval under the last dimension or an object with its class
  (\<open>True\<close> for the subclass \<open>ConnectivityProperties\<close>), its list of all dimensions, its active
  dimensions and its \<open>layers\<close> dictionary.
\<close>

datatype 'v hcs =
    Empty_Interval
  | HC (is_props: bool) (all_dims: "dim list") (active_dims: "dim list")
       (layers: "('v \<times> 'v hcs) list")

lemma size_layer [termination_simp]:
  "(k, s) \<in> set ls \<Longrightarrow> size s < Suc (size_list (size_prod (\<lambda>_. 0) size) ls)"
  by (induction ls) auto

definition hc_new :: "dim list \<Rightarrow> bool \<Rightarrow> 'v hcs" where
  "hc_new dimensions allow_all = HC False dimensions (if allow_all then [] else dimensions) []"

fun hc_bool :: "'v hcs \<Rightarrow> bool" where
  "hc_bool Empty_Interval = False"
| "hc_bool (HC c al act ls) = (if act = [] then True else ls \<noteq> [])"

fun is_all :: "'v hcs \<Rightarrow> bool" where
  "is_all Empty_Interval = False"
| "is_all (HC c al act ls) = (act = [])"

fun hc_clear :: "'v hcs \<Rightarrow> 'v hcs" where
  "hc_clear Empty_Interval = Empty_Interval"
| "hc_clear (HC c al act ls) = HC c al al []"

fun hc_set_all :: "'v hcs \<Rightarrow> 'v hcs" where
  "hc_set_all Empty_Interval = Empty_Interval"
| "hc_set_all (HC c al act ls) = HC c al [] []"

text \<open>\<open>_override_by_other\<close>: the object keeps its class and list of all dimensions.\<close>

fun override_by :: "'v hcs \<Rightarrow> 'v hcs \<Rightarrow> 'v hcs" where
  "override_by (HC c al _ _) (HC _ _ act ls) = HC c al act ls"
| "override_by t _ = t"

text \<open>\<open>copy\<close> rebuilds the tree, each object with the constructor of its own class.\<close>

fun hc_copy :: "'v hcs \<Rightarrow> 'v hcs" where
  "hc_copy Empty_Interval = Empty_Interval"
| "hc_copy (HC c al act ls) = HC c al act (map (\<lambda>(k, s). (k, hc_copy s)) ls)"

lemma hc_copy_id [simp]: "hc_copy t = t"
proof (induction t rule: hc_copy.induct)
  case (2 c al act ls)
  then have "map (\<lambda>(k, s). (k, hc_copy s)) ls = ls"
    by (induction ls) auto
  then show ?case by simp
qed simp

text \<open>
  \<open>==\<close>. \<open>ConnectivityProperties.__eq__\<close> answers \<open>False\<close> for an object that is not itself a
  \<open>ConnectivityProperties\<close>, and Python asks the subclass first, so objects of different classes
  are never equal. Two empty objects are equal whatever their active dimensions.
\<close>

fun hc_eq :: "('v, 'p) dims \<Rightarrow> 'v hcs \<Rightarrow> 'v hcs \<Rightarrow> bool" where
  "hc_eq M Empty_Interval t = (case t of Empty_Interval \<Rightarrow> True | HC _ _ _ _ \<Rightarrow> False)"
| "hc_eq M (HC c al act ls) t =
     (case t of
        Empty_Interval \<Rightarrow> False
      | HC c' al' act' ls' \<Rightarrow>
          c = c' \<and> al = al' \<and>
          (\<not> hc_bool (HC c al act ls) \<and> \<not> hc_bool (HC c' al' act' ls') \<or>
           act = act' \<and> length ls = length ls' \<and>
           list_all (\<lambda>(k, s). case dict_get (v_eq M) ls' k of
                                None \<Rightarrow> False | Some s' \<Rightarrow> hc_eq M s s') ls))"

section \<open>Cubes\<close>

fun create_from_cube_aux :: "dim list \<Rightarrow> 'v list \<Rightarrow> dim list \<Rightarrow> 'v hcs option" where
  "create_from_cube_aux al [] dims = None"
| "create_from_cube_aux al [v] dims = Some (HC False al dims [(v, Empty_Interval)])"
| "create_from_cube_aux al (v # vs) dims =
     do { sub \<leftarrow> create_from_cube_aux al vs (tl dims); Some (HC False al dims [(v, sub)]) }"

text \<open>\<open>_reduce_cube\<close>: \<open>Some None\<close> is the answer that the cube is empty.\<close>

fun reduce_cube ::
  "('v, 'p) dims \<Rightarrow> 'v list \<Rightarrow> dim list \<Rightarrow> ('v list \<times> dim list) option option" where
  "reduce_cube M [] dims = Some (Some ([], []))"
| "reduce_cube M (v # vs) [] = None"
| "reduce_cube M (v # vs) (d # ds) =
     do { dom \<leftarrow> dim_domain M d;
          if \<not> v_bool M v then Some None
          else do { rest \<leftarrow> reduce_cube M vs ds;
                    Some (case rest of
                            None \<Rightarrow> None
                          | Some (rc, rd) \<Rightarrow>
                              Some (if dim_is_full M d dom v then (rc, rd) else (v # rc, d # rd))) } }"

definition create_from_cube ::
  "('v, 'p) dims \<Rightarrow> dim list \<Rightarrow> 'v list \<Rightarrow> dim list \<Rightarrow> 'v hcs option" where
  "create_from_cube M al cube dims =
     (if cube = [] \<or> length cube \<noteq> length dims then None
      else do { r \<leftarrow> reduce_cube M cube dims;
                case r of
                  None \<Rightarrow> Some (hc_new al False)
                | Some (rc, rd) \<Rightarrow>
                    if rc = [] then Some (hc_new al True) else create_from_cube_aux al rc rd })"

fun cubes_list :: "'v hcs \<Rightarrow> 'v list list" where
  "cubes_list Empty_Interval = []"
| "cubes_list (HC c al act ls) =
     (if length act = 1 then map (\<lambda>(k, s). [k]) ls
      else concat (map (\<lambda>(k, s). map (\<lambda>sub. k # sub) (cubes_list s)) ls))"

definition dims_by_order :: "dim list \<Rightarrow> dim list \<Rightarrow> dim list" where
  "dims_by_order al names = filter (\<lambda>d. d \<in> set names) al"

definition entire_space_cube :: "('v, 'p) dims \<Rightarrow> dim list \<Rightarrow> dim list \<Rightarrow> 'v list option" where
  "entire_space_cube M al restriction = map_opt (dim_domain M) (dims_by_order al restriction)"

fun hc_len :: "'v hcs \<Rightarrow> nat" where
  "hc_len Empty_Interval = 0"
| "hc_len (HC c al act ls) = (if act = [] then 1 else length (cubes_list (HC c al act ls)))"

definition hc_iter :: "('v, 'p) dims \<Rightarrow> 'v hcs \<Rightarrow> 'v list list option" where
  "hc_iter M t =
     (if is_all t then do { c \<leftarrow> entire_space_cube M (all_dims t) (all_dims t); Some [c] }
      else Some (cubes_list t))"

text \<open>
  \<open>_get_aligned_cube_by_new_active_dimensions\<close>: the entries of the cube at the new dimensions,
  the whole domain for a dimension the cube does not have.
\<close>

definition align_cube ::
  "(dim \<Rightarrow> 'x option) \<Rightarrow> 'x list \<Rightarrow> dim list \<Rightarrow> dim list \<Rightarrow> 'x list option" where
  "align_cube dflt cube cur new =
     (if cur = new then Some cube
      else map_opt (\<lambda>d. if d \<in> set cur then map_of (rev (zip cur cube)) d else dflt d) new)"

section \<open>Changing the active dimensions\<close>

fun build_new_active :: "('v, 'p) dims \<Rightarrow> 'v hcs \<Rightarrow> dim list \<Rightarrow> 'v hcs option" where
  "build_new_active M Empty_Interval new = None"
| "build_new_active M (HC c al act ls) [] =
     (if act = [] then Some (HC c al act ls) else None)"
| "build_new_active M (HC c al act ls) (d # ds) =
     (if \<not> set act \<subseteq> set (d # ds) then None
      else if act = d # ds then Some (HC c al act ls)
      else (case act of
              [] \<Rightarrow> None
            | a # as \<Rightarrow>
                if a = d then
                  (if as \<noteq> [] then
                     do { ls' \<leftarrow> map_opt (\<lambda>(k, s). do { s' \<leftarrow> build_new_active M s ds; Some (k, s') }) ls;
                          Some (HC c al (d # ds) ls') }
                   else
                     (case ds of
                        [] \<Rightarrow> None
                      | e # es \<Rightarrow>
                          do { dom \<leftarrow> dim_domain M e;
                               sub \<leftarrow> build_new_active M (HC False al [e] [(dom, Empty_Interval)]) ds;
                               Some (HC c al (d # ds) (map (\<lambda>(k, s). (k, sub)) ls)) }))
                else
                  do { dom \<leftarrow> dim_domain M d;
                       sub \<leftarrow> build_new_active M (hc_copy (HC c al act ls)) ds;
                       Some (HC c al (d # ds) [(dom, sub)]) }))"

definition set_active :: "('v, 'p) dims \<Rightarrow> 'v hcs \<Rightarrow> dim list \<Rightarrow> 'v hcs option" where
  "set_active M t names =
     (case t of
        Empty_Interval \<Rightarrow> None
      | HC c al act ls \<Rightarrow>
          if set names \<subseteq> set act then Some t
          else (let new = dims_by_order al (act @ names) in
                if act = [] then
                  do { cube \<leftarrow> entire_space_cube M al new;
                       r \<leftarrow> create_from_cube_aux al cube new;
                       Some (HC c al new (layers r)) }
                else build_new_active M t new))"

text \<open>\<open>_prepare_common_active_dimensions\<close>: the changed object and the operand to use with it.\<close>

definition prepare_common ::
  "('v, 'p) dims \<Rightarrow> 'v hcs \<Rightarrow> 'v hcs \<Rightarrow> ('v hcs \<times> 'v hcs) option" where
  "prepare_common M t u =
     (if active_dims t = active_dims u then Some (t, u)
      else (let required = active_dims t @ active_dims u in
            do { t' \<leftarrow> set_active M t required;
                 if set (active_dims u) = set required then Some (t', u)
                 else do { u' \<leftarrow> set_active M (hc_copy u) required; Some (t', u') } }))"

lemma length_tl_less: "x \<in> set xs \<Longrightarrow> length xs - Suc 0 < length xs"
  by (cases xs) auto

function remove_some_active :: "('v, 'p) dims \<Rightarrow> 'v hcs \<Rightarrow> dim list \<Rightarrow> 'v hcs option" where
  "remove_some_active M t new =
     (case t of
        Empty_Interval \<Rightarrow> None
      | HC c al act ls \<Rightarrow>
          if \<not> set new \<subseteq> set act \<or> new = [] then None
          else if act = new then Some t
          else if hd act = hd new then
            (if tl new \<noteq> [] then
               do { ls' \<leftarrow> map_opt (\<lambda>(k, s). do { s' \<leftarrow> remove_some_active M s (tl new); Some (k, s') }) ls;
                    Some (HC c al new ls') }
             else Some (HC c al new (map (\<lambda>(k, s). (k, Empty_Interval)) ls)))
          else remove_some_active M
                 (HC c al (tl act) (dict_of_list (v_eq M) (concat (map (\<lambda>(k, s). layers s) ls)))) new)"
  by pat_completeness auto
termination
  by (relation "measures [\<lambda>(M, t, new). length new,
                          \<lambda>(M, t, new). case t of Empty_Interval \<Rightarrow> 0 | HC c al act ls \<Rightarrow> length act]")
    (auto simp: neq_Nil_conv intro: length_tl_less)

declare remove_some_active.simps [simp del]

definition set_inactive :: "('v, 'p) dims \<Rightarrow> 'v hcs \<Rightarrow> dim list \<Rightarrow> 'v hcs option" where
  "set_inactive M t names =
     (case t of
        Empty_Interval \<Rightarrow> None
      | HC c al act ls \<Rightarrow>
          (let new = dims_by_order al (filter (\<lambda>d. d \<notin> set names) act) in
           if new = [] then Some (HC c al [] []) else remove_some_active M t new))"

text \<open>\<open>_get_values_sets_per_active_dimension\<close>, the value sets as lists.\<close>

fun merge_values :: "(dim \<times> 'v list) list \<Rightarrow> (dim \<times> 'v list) list \<Rightarrow> (dim \<times> 'v list) list" where
  "merge_values res [] = res"
| "merge_values res ((d, vs) # rest) =
     merge_values (dict_set (=) res d (case dict_get (=) res d of None \<Rightarrow> vs | Some us \<Rightarrow> us @ vs)) rest"

fun values_per_dim :: "'v hcs \<Rightarrow> (dim \<times> 'v list) list" where
  "values_per_dim Empty_Interval = []"
| "values_per_dim (HC c al act ls) =
     (case act of
        [] \<Rightarrow> []
      | d # ds \<Rightarrow>
          if ds = [] then [(d, map fst ls)]
          else foldl merge_values [(d, map fst ls)] (map (\<lambda>(k, s). values_per_dim s) ls))"

definition dims_to_reduce :: "('v, 'p) dims \<Rightarrow> (dim \<times> 'v list) list \<Rightarrow> dim list option" where
  "dims_to_reduce M vals =
     do { rs \<leftarrow> map_opt (\<lambda>(d, vs). do { dom \<leftarrow> dim_domain M d;
                                       Some (if vs \<noteq> [] \<and> list_all (v_eq M dom) vs then [d] else []) }) vals;
          Some (concat rs) }"

definition reduce_active :: "('v, 'p) dims \<Rightarrow> 'v hcs \<Rightarrow> 'v hcs option" where
  "reduce_active M t =
     (if \<not> hc_bool t \<or> active_dims t = [] then Some t
      else do { names \<leftarrow> dims_to_reduce M (values_per_dim t);
                set_inactive M t (dims_by_order (all_dims t) names) })"

section \<open>The set operations\<close>

text \<open>
  \<open>_apply_layer_elements_union\<close>: the layers are grouped by their sub-cube, the groups in the order
  of their first member, and the values of a group are joined.
\<close>

fun add_to_class ::
  "('v, 'p) dims \<Rightarrow> ('v hcs \<times> 'v list) list \<Rightarrow> 'v \<times> 'v hcs \<Rightarrow> ('v hcs \<times> 'v list) list" where
  "add_to_class M [] (k, s) = [(s, [k])]"
| "add_to_class M ((s', ks) # cls) (k, s) =
     (if hc_eq M s' s then (s', ks @ [k]) # cls else (s', ks) # add_to_class M cls (k, s))"

definition layer_elements_union :: "('v, 'p) dims \<Rightarrow> ('v \<times> 'v hcs) list \<Rightarrow> ('v \<times> 'v hcs) list" where
  "layer_elements_union M ls =
     dict_of_list (v_eq M)
       (map (\<lambda>(s, ks). (foldl (v_or M) (hd ks) (tl ks), s)) (foldl (add_to_class M) [] ls))"

text \<open>What is left of a value after the parts it shares with each of the others are removed.\<close>

definition remaining_self :: "('v, 'p) dims \<Rightarrow> 'v \<Rightarrow> 'v list \<Rightarrow> 'v" where
  "remaining_self M k others =
     foldl (\<lambda>r k'. let c = v_and M k k' in if v_bool M c then v_sub M r c else r) k others"

definition remaining_other :: "('v, 'p) dims \<Rightarrow> 'v \<Rightarrow> 'v list \<Rightarrow> 'v" where
  "remaining_other M k' selves =
     foldl (\<lambda>r k. let c = v_and M k k' in if v_bool M c then v_sub M r c else r) k' selves"

definition keep_remaining :: "('v, 'p) dims \<Rightarrow> 'v \<Rightarrow> 'v hcs \<Rightarrow> ('v \<times> 'v hcs) list" where
  "keep_remaining M r s = (if v_bool M r then [(r, hc_copy s)] else [])"

fun and_aux :: "('v, 'p) dims \<Rightarrow> 'v hcs \<Rightarrow> 'v hcs \<Rightarrow> 'v hcs option" where
  "and_aux M (HC c al act ls) (HC c' al' act' ls') =
     (if act \<noteq> act' then None
      else do {
        parts \<leftarrow> map_opt (\<lambda>(k, s). map_opt (\<lambda>(k', s').
            let common = v_and M k k' in
            if \<not> v_bool M common then Some []
            else if length act = 1 then Some [(common, Empty_Interval)]
            else do { n \<leftarrow> and_aux M s s'; Some (if hc_bool n then [(common, n)] else []) }) ls') ls;
        Some (HC False al act
          (layer_elements_union M (dict_of_list (v_eq M) (concat (map concat parts))))) })"
| "and_aux M _ _ = None"

fun or_aux :: "('v, 'p) dims \<Rightarrow> 'v hcs \<Rightarrow> 'v hcs \<Rightarrow> 'v hcs option" where
  "or_aux M (HC c al act ls) (HC c' al' act' ls') =
     (if act \<noteq> act' then None
      else do {
        parts \<leftarrow> map_opt (\<lambda>(k, s). do {
            commons \<leftarrow> map_opt (\<lambda>(k', s').
              let common = v_and M k k' in
              if \<not> v_bool M common then Some []
              else if length act = 1 then Some [(common, Empty_Interval)]
              else do { n \<leftarrow> or_aux M s s'; Some [(common, n)] }) ls';
            Some (concat commons @ keep_remaining M (remaining_self M k (map fst ls')) s) }) ls;
        Some (HC False al act
          (layer_elements_union M (dict_of_list (v_eq M)
            (concat parts @
             concat (map (\<lambda>(k', s'). keep_remaining M (remaining_other M k' (map fst ls)) s') ls'))))) })"
| "or_aux M _ _ = None"

fun sub_aux :: "('v, 'p) dims \<Rightarrow> 'v hcs \<Rightarrow> 'v hcs \<Rightarrow> 'v hcs option" where
  "sub_aux M (HC c al act ls) (HC c' al' act' ls') =
     (if act \<noteq> act' then None
      else do {
        parts \<leftarrow> map_opt (\<lambda>(k, s). do {
            commons \<leftarrow> map_opt (\<lambda>(k', s').
              let common = v_and M k k' in
              if \<not> v_bool M common then Some []
              else if length act = 1 then Some []
              else do { n \<leftarrow> sub_aux M s s'; Some (if hc_bool n then [(common, n)] else []) }) ls';
            Some (concat commons @ keep_remaining M (remaining_self M k (map fst ls')) s) }) ls;
        Some (HC False al act
          (layer_elements_union M (dict_of_list (v_eq M) (concat parts)))) })"
| "sub_aux M _ _ = None"

definition hc_iand :: "('v, 'p) dims \<Rightarrow> 'v hcs \<Rightarrow> 'v hcs \<Rightarrow> 'v hcs option" where
  "hc_iand M t u =
     (if is_all u then Some t
      else if \<not> hc_bool u \<or> \<not> hc_bool t then Some (hc_clear t)
      else if is_all t then Some (override_by t (hc_copy u))
      else do { (t', u') \<leftarrow> prepare_common M t u;
                r \<leftarrow> and_aux M t' u';
                reduce_active M (override_by t' r) })"

definition hc_ior :: "('v, 'p) dims \<Rightarrow> 'v hcs \<Rightarrow> 'v hcs \<Rightarrow> 'v hcs option" where
  "hc_ior M t u =
     (if is_all u \<or> is_all t then Some (hc_set_all t)
      else if \<not> hc_bool u then Some t
      else if \<not> hc_bool t then Some (override_by t (hc_copy u))
      else do { (t', u') \<leftarrow> prepare_common M t u;
                r \<leftarrow> or_aux M t' u';
                reduce_active M (override_by t' r) })"

definition hc_isub :: "('v, 'p) dims \<Rightarrow> 'v hcs \<Rightarrow> 'v hcs \<Rightarrow> 'v hcs option" where
  "hc_isub M t u =
     (let t = (if is_all u then hc_clear t else t) in
      if \<not> hc_bool u then Some t
      else do { (t', u') \<leftarrow> prepare_common M t u;
                r \<leftarrow> sub_aux M t' u';
                reduce_active M (override_by t' r) })"

definition hc_and :: "('v, 'p) dims \<Rightarrow> 'v hcs \<Rightarrow> 'v hcs \<Rightarrow> 'v hcs option" where
  "hc_and M t u = hc_iand M (hc_copy t) u"

definition hc_or :: "('v, 'p) dims \<Rightarrow> 'v hcs \<Rightarrow> 'v hcs \<Rightarrow> 'v hcs option" where
  "hc_or M t u = hc_ior M (hc_copy t) u"

definition hc_sub :: "('v, 'p) dims \<Rightarrow> 'v hcs \<Rightarrow> 'v hcs \<Rightarrow> 'v hcs option" where
  "hc_sub M t u = hc_isub M (hc_copy t) u"

definition hc_add_cube ::
  "('v, 'p) dims \<Rightarrow> 'v hcs \<Rightarrow> 'v list \<Rightarrow> dim list option \<Rightarrow> 'v hcs option" where
  "hc_add_cube M t cube dims =
     (let ds = (case dims of None \<Rightarrow> take (length cube) (all_dims t) | Some ds \<Rightarrow> ds) in
      if cube = [] \<or> list_ex (\<lambda>v. \<not> v_bool M v) cube then Some t
      else do { c \<leftarrow> create_from_cube M (all_dims t) cube ds;
                r \<leftarrow> hc_or M t c;
                Some (override_by t r) })"

definition hc_add_hole ::
  "('v, 'p) dims \<Rightarrow> 'v hcs \<Rightarrow> 'v list \<Rightarrow> dim list option \<Rightarrow> 'v hcs option" where
  "hc_add_hole M t hole dims =
     (let ds = (case dims of None \<Rightarrow> take (length hole) (all_dims t) | Some ds \<Rightarrow> ds) in
      if hole = [] \<or> list_ex (\<lambda>v. \<not> v_bool M v) hole then Some t
      else do { c \<leftarrow> create_from_cube M (all_dims t) hole ds;
                r \<leftarrow> hc_sub M t c;
                Some (override_by t r) })"

section \<open>Membership and containment\<close>

text \<open>
  \<open>__contains__\<close> goes into the sub-cube of the first layer that has the item's value. An item
  that is too short or has a value of the wrong type raises.
\<close>

definition item_ok :: "('v, 'p) dims \<Rightarrow> dim list \<Rightarrow> 'p list \<Rightarrow> bool" where
  "item_ok M al item \<longleftrightarrow>
     length al \<le> length item \<and> list_all (\<lambda>(d, x). dim_item_ok M d x) (zip al item)"

lemma find_layer_size:
  "find P ls = Some (k, s) \<Longrightarrow> size s < Suc (size_list (size_prod (\<lambda>_. 0) size) ls)"
  by (metis find_Some_iff nth_mem size_layer)

function hc_contains :: "('v, 'p) dims \<Rightarrow> 'p list \<Rightarrow> 'v hcs \<Rightarrow> bool option" where
  "hc_contains M item t =
     (case t of
        Empty_Interval \<Rightarrow> None
      | HC c al act ls \<Rightarrow>
          if \<not> item_ok M al item then None
          else if act = [] then Some True
          else if ls = [] then Some False
          else (case align_cube (\<lambda>_. None) item al act of
                  None \<Rightarrow> None
                | Some rel \<Rightarrow>
                    (case find (\<lambda>(k, s). v_mem M (hd rel) k) ls of
                       None \<Rightarrow> Some False
                     | Some (k, s) \<Rightarrow> if length act = 1 then Some True else hc_contains M item s)))"
  by pat_completeness auto
termination
  by (relation "measure (\<lambda>(M, item, t). size t)") (auto dest: find_layer_size)

declare hc_contains.simps [simp del]

text \<open>\<open>_get_last_dim_cube_value\<close> asserts that there is one layer.\<close>

fun last_dim_value :: "'v hcs \<Rightarrow> 'v option" where
  "last_dim_value (HC c al [d] [(k, s)]) = Some k"
| "last_dim_value _ = None"

definition is_entire_sub_space :: "('v, 'p) dims \<Rightarrow> 'v hcs \<Rightarrow> bool option" where
  "is_entire_sub_space M t =
     (case t of
        Empty_Interval \<Rightarrow> None
      | HC c al act ls \<Rightarrow>
          do { cube \<leftarrow> entire_space_cube M al act;
               obj \<leftarrow> create_from_cube_aux al cube act;
               Some (hc_eq M obj t) })"

datatype cover = Refuted | Uncovered | Covered

text \<open>
  The loop of \<open>_contained_in_aux\<close> over the layers of the other object: what is left of the
  current value shrinks until it is covered; a failing sub-cube refutes the containment.
\<close>

fun cover_loop ::
  "('v, 'p) dims \<Rightarrow> ('v hcs \<Rightarrow> bool option) \<Rightarrow> 'v \<Rightarrow> ('v \<times> 'v hcs) list \<Rightarrow> cover option" where
  "cover_loop M chk cur [] = Some Uncovered"
| "cover_loop M chk cur ((k', s') # ls') =
     (let common = v_and M cur k' in
      if \<not> v_bool M common then cover_loop M chk cur ls'
      else do { good \<leftarrow> chk s';
                if \<not> good then Some Refuted
                else (let remaining = v_sub M cur common in
                      if v_bool M remaining then cover_loop M chk remaining ls' else Some Covered) })"

fun all_covered :: "('a \<Rightarrow> cover option) \<Rightarrow> 'a list \<Rightarrow> bool option" where
  "all_covered f [] = Some True"
| "all_covered f (x # xs) =
     do { c \<leftarrow> f x;
          if c = Refuted then Some False
          else do { r \<leftarrow> all_covered f xs; Some (c = Covered \<and> r) } }"

text \<open>The loop for a dimension that only the other object has: the union of its values.\<close>

fun joint_loop ::
  "('v, 'p) dims \<Rightarrow> ('v hcs \<Rightarrow> bool option) \<Rightarrow> dim \<Rightarrow> 'v option \<Rightarrow> ('v \<times> 'v hcs) list \<Rightarrow> bool option"
where
  "joint_loop M chk d cov [] =
     do { c \<leftarrow> cov; dom \<leftarrow> dim_domain M d; Some (v_eq M c dom) }"
| "joint_loop M chk d cov ((k, s) # ls) =
     do { good \<leftarrow> chk s;
          if \<not> good then Some False
          else joint_loop M chk d (Some (case cov of None \<Rightarrow> k | Some c \<Rightarrow> v_or M c k)) ls }"

fun contained_in_aux :: "('v, 'p) dims \<Rightarrow> 'v hcs \<Rightarrow> 'v hcs \<Rightarrow> dim list \<Rightarrow> bool option" where
  "contained_in_aux M t u [] = None"
| "contained_in_aux M t u (d # ds) =
     (case t of Empty_Interval \<Rightarrow> None | HC c al act ls \<Rightarrow>
      (case u of Empty_Interval \<Rightarrow> None | HC c' al' act' ls' \<Rightarrow>
        if d \<notin> set act' then
          (if length act = 1 then
             (if d # ds = act then Some True else is_entire_sub_space M u)
           else do { rs \<leftarrow> map_opt (\<lambda>(k, s). contained_in_aux M s u ds) ls;
                     Some (list_all id rs) })
        else if d \<notin> set act then
          (if length act' = 1 then is_entire_sub_space M u
           else if ls' = [] then None
           else joint_loop M (\<lambda>s'. contained_in_aux M t s' ds) d None ls')
        else if length act = 1 \<and> length act' = 1 then
          do { v \<leftarrow> last_dim_value t; w \<leftarrow> last_dim_value u; Some (v_contained_in M v w) }
        else
          all_covered
            (\<lambda>(k, s). cover_loop M
               (\<lambda>s'. if length act \<noteq> 1 \<and> length act' \<noteq> 1 then contained_in_aux M s s' ds
                     else if length act = 1 \<and> length act' \<noteq> 1 then is_entire_sub_space M s'
                     else Some True)
               k ls')
            ls))"

definition hc_contained_in :: "('v, 'p) dims \<Rightarrow> 'v hcs \<Rightarrow> 'v hcs \<Rightarrow> bool option" where
  "hc_contained_in M t u =
     (if is_all u \<or> \<not> hc_bool t then Some True
      else if \<not> hc_bool u \<or> is_all t then Some False
      else contained_in_aux M t u (dims_by_order (all_dims t) (active_dims t @ active_dims u)))"

text \<open>\<open>get_first_item\<close>; \<open>Some None\<close> is Python's \<open>NotImplemented\<close>.\<close>

definition get_first_item ::
  "('v, 'p) dims \<Rightarrow> 'v hcs \<Rightarrow> dim list option \<Rightarrow> 'p list option option" where
  "get_first_item M t relevant =
     (if \<not> hc_bool t then Some None
      else do {
        cube \<leftarrow> (if is_all t then entire_space_cube M (all_dims t) (all_dims t)
                  else (case cubes_list t of [] \<Rightarrow> None | c # _ \<Rightarrow> Some c));
        full \<leftarrow> align_cube (dim_domain M) cube (active_dims t) (all_dims t);
        reps \<leftarrow> map_opt (\<lambda>(d, v). v_rep M v)
                  (filter (\<lambda>(d, v). case relevant of None \<Rightarrow> True | Some ds \<Rightarrow> d \<in> set ds)
                    (zip (all_dims t) full));
        Some (Some reps) })"

definition is_active_dimension :: "'v hcs \<Rightarrow> dim \<Rightarrow> bool" where
  "is_active_dimension t d \<longleftrightarrow> d \<in> set (active_dims t)"

text \<open>\<open>_check_active_dimensions\<close>: the debug check that the sub-cubes have the same dimensions.\<close>

fun same_active :: "dim list \<Rightarrow> 'v hcs list \<Rightarrow> bool" where
  "same_active act [] = True"
| "same_active act (Empty_Interval # ss) = same_active act ss"
| "same_active act (HC c al act' ls # ss) =
     (if act \<noteq> [] then act = act' \<and> same_active act ss else same_active act' ss)"

fun check_active :: "'v hcs \<Rightarrow> bool" where
  "check_active Empty_Interval = True"
| "check_active (HC c al act ls) =
     (list_all (\<lambda>(k, s). check_active s) ls \<and> same_active [] (map snd ls))"

section \<open>Meaning and well-formedness\<close>

text \<open>
  A point gives every dimension an item; a tree holds the points whose item is, at each active
  dimension, in the key of the layer that is followed. Inactive dimensions allow every item.
\<close>

fun hc_sem :: "('v, 'p) dims \<Rightarrow> (dim \<Rightarrow> 'p) \<Rightarrow> 'v hcs \<Rightarrow> bool" where
  "hc_sem M p Empty_Interval = True"
| "hc_sem M p (HC c al act ls) =
     (case act of [] \<Rightarrow> True
      | d # ds \<Rightarrow> list_ex (\<lambda>(k, s). v_mem M (p d) k \<and> hc_sem M p s) ls)"

text \<open>
  The keys of a node are valid values of its dimension, not empty and pairwise disjoint
  (property 1 of the class documentation). Below the root no node is empty.
\<close>

definition keys_ok :: "('v, 'p) dims \<Rightarrow> (dim \<Rightarrow> 'v \<Rightarrow> bool) \<Rightarrow> dim \<Rightarrow> 'v list \<Rightarrow> bool" where
  "keys_ok M ok d ks \<longleftrightarrow>
     list_all (\<lambda>k. ok d k \<and> v_bool M k) ks \<and>
     sorted_wrt (\<lambda>a b. \<not> v_bool M (v_and M a b)) ks"

definition sub_nonempty :: "'v hcs \<Rightarrow> bool" where
  "sub_nonempty t = (case t of Empty_Interval \<Rightarrow> True | HC c al act ls \<Rightarrow> ls \<noteq> [])"

fun hc_ok ::
  "('v, 'p) dims \<Rightarrow> (dim \<Rightarrow> 'v \<Rightarrow> bool) \<Rightarrow> dim list \<Rightarrow> dim list \<Rightarrow> 'v hcs \<Rightarrow> bool" where
  "hc_ok M ok al [] t = (case t of Empty_Interval \<Rightarrow> True | HC _ _ _ _ \<Rightarrow> False)"
| "hc_ok M ok al (d # ds) t =
     (case t of
        Empty_Interval \<Rightarrow> False
      | HC c al' act ls \<Rightarrow>
          al' = al \<and> act = d # ds \<and> keys_ok M ok d (map fst ls) \<and>
          list_all (\<lambda>(k, s). hc_ok M ok al ds s \<and> sub_nonempty s) ls)"

definition hc_wf :: "('v, 'p) dims \<Rightarrow> (dim \<Rightarrow> 'v \<Rightarrow> bool) \<Rightarrow> 'v hcs \<Rightarrow> bool" where
  "hc_wf M ok t =
     (case t of
        Empty_Interval \<Rightarrow> False
      | HC c al act ls \<Rightarrow>
          al \<noteq> [] \<and> distinct al \<and> list_all (\<lambda>d. dim_domain M d \<noteq> None) al \<and> act = dims_by_order al act \<and>
          (if act = [] then ls = [] else hc_ok M ok al act t))"

text \<open>
  Canonical trees: the values are within their domains, the sub-cubes of a node are objects of the
  base class and no two are equal (property 2 of the class documentation). A reduced tree has no
  active dimension with the whole domain in every cube.
\<close>

definition is_base :: "'v hcs \<Rightarrow> bool" where
  "is_base t = (case t of Empty_Interval \<Rightarrow> True | HC c al act ls \<Rightarrow> \<not> c)"

definition within_domain :: "('v, 'p) dims \<Rightarrow> dim \<Rightarrow> 'v \<Rightarrow> bool" where
  "within_domain M d k = (case dim_domain M d of None \<Rightarrow> False | Some w \<Rightarrow> v_contained_in M k w)"

fun hc_canon :: "('v, 'p) dims \<Rightarrow> 'v hcs \<Rightarrow> bool" where
  "hc_canon M Empty_Interval = True"
| "hc_canon M (HC c al act ls) =
     ((case act of [] \<Rightarrow> True | d # _ \<Rightarrow> list_all (\<lambda>(k, s). within_domain M d k) ls) \<and>
      sorted_wrt (\<lambda>a b. \<not> hc_eq M (snd a) (snd b)) ls \<and>
      list_all (\<lambda>(k, s). is_base s \<and> hc_canon M s) ls)"

definition hc_reduced :: "('v, 'p) dims \<Rightarrow> 'v hcs \<Rightarrow> bool" where
  "hc_reduced M t \<longleftrightarrow>
     \<not> hc_bool t \<or> active_dims t = [] \<or> dims_to_reduce M (values_per_dim t) = Some []"

text \<open>The items a value stands for, and the points of the space the domains span.\<close>

definition dset :: "('v, 'p) dims \<Rightarrow> 'v \<Rightarrow> 'p set" where
  "dset M v = {x. v_mem M x v}"

definition in_space :: "('v, 'p) dims \<Rightarrow> dim list \<Rightarrow> (dim \<Rightarrow> 'p) \<Rightarrow> bool" where
  "in_space M al p \<longleftrightarrow>
     list_all (\<lambda>d. case dim_domain M d of None \<Rightarrow> True | Some v \<Rightarrow> v_mem M (p d) v) al"

lemma mem_dset [simp]: "x \<in> dset M v \<longleftrightarrow> v_mem M x v"
  by (simp add: dset_def)

text \<open>
  The contract that dimension values keep: what the methods of \<open>CanonicalIntervalSet\<close> and
  \<open>MinDFA\<close> promise to the cube sets, for values that are valid for their dimension.
\<close>

locale dim_values =
  fixes M :: "('v, 'p) dims" and ok :: "dim \<Rightarrow> 'v \<Rightarrow> bool"
  assumes and_ok: "ok d a \<Longrightarrow> ok d b \<Longrightarrow> ok d (v_and M a b)"
    and or_ok: "ok d a \<Longrightarrow> ok d b \<Longrightarrow> ok d (v_or M a b)"
    and sub_ok: "ok d a \<Longrightarrow> ok d b \<Longrightarrow> ok d (v_sub M a b)"
    and and_dset: "ok d a \<Longrightarrow> ok d b \<Longrightarrow> dset M (v_and M a b) = dset M a \<inter> dset M b"
    and or_dset: "ok d a \<Longrightarrow> ok d b \<Longrightarrow> dset M (v_or M a b) = dset M a \<union> dset M b"
    and sub_dset: "ok d a \<Longrightarrow> ok d b \<Longrightarrow> dset M (v_sub M a b) = dset M a - dset M b"
    and bool_law: "ok d a \<Longrightarrow> v_bool M a \<longleftrightarrow> dset M a \<noteq> {}"
    and eq_law: "ok d a \<Longrightarrow> ok d b \<Longrightarrow> v_eq M a b \<longleftrightarrow> dset M a = dset M b"
    and contained_law: "ok d a \<Longrightarrow> ok d b \<Longrightarrow> v_contained_in M a b \<longleftrightarrow> dset M a \<subseteq> dset M b"
    and rep_law: "ok d a \<Longrightarrow> v_bool M a \<Longrightarrow> \<exists>x. v_rep M a = Some x \<and> v_mem M x a"
    and domain_ok: "dim_domain M d = Some w \<Longrightarrow> ok d w \<and> v_bool M w"
    and full_law: "dim_domain M d = Some w \<Longrightarrow> ok d v \<Longrightarrow>
      dim_is_full M d w v \<longleftrightarrow> dset M v = dset M w"

text \<open>The operations on trees do not invent dimensions.\<close>

lemma dims_by_order_set: "set (dims_by_order al names) = set al \<inter> set names"
  by (auto simp: dims_by_order_def)

lemma dims_by_order_cong:
  "set al \<inter> set a = set al \<inter> set b \<Longrightarrow> dims_by_order al a = dims_by_order al b"
  unfolding dims_by_order_def by (rule filter_cong) auto

lemma distinct_dims_by_order: "distinct al \<Longrightarrow> distinct (dims_by_order al names)"
  by (simp add: dims_by_order_def)

lemma dims_by_order_idem [simp]: "dims_by_order al (dims_by_order al names) = dims_by_order al names"
  by (rule dims_by_order_cong) (auto simp: dims_by_order_set)

lemma dims_by_order_subseq:
  assumes "set al \<inter> set a \<subseteq> set b"
  shows "subseq (dims_by_order al a) (dims_by_order al b)"
  using assms
proof (induction al)
  case (Cons d al)
  then have "subseq (dims_by_order al a) (dims_by_order al b)" by auto
  then show ?case
    using Cons.prems by (auto simp: dims_by_order_def)
qed (simp add: dims_by_order_def)

lemma size_hcs_layer: "(k, s) \<in> set ls \<Longrightarrow> size s < size (HC c al act ls)"
  using size_layer by force

end
