(* ===== verification/Hyper_Cube_Algebra.thy ===== *)
theory Hyper_Cube_Algebra
  imports Hyper_Cubes
begin

text \<open>
  The operations of \<open>CanonicalHyperCubeSet\<close> mean what they say: under the contract
  \<open>dim_values\<close> of the dimension values, no operation on well-formed trees raises, the results
  are well-formed, and their points are the intersection, union and difference of the operands'.
\<close>

context dim_values
begin

lemma keys_ok_iff:
  "keys_ok M ok d ks \<longleftrightarrow>
     (\<forall>k\<in>set ks. ok d k \<and> dset M k \<noteq> {}) \<and> disjoint_by (dset M) ks"
proof -
  have "sorted_wrt (\<lambda>a b. \<not> v_bool M (v_and M a b)) ks = disjoint_by (dset M) ks"
    if "\<forall>k\<in>set ks. ok d k"
    using that
  proof (induction ks)
    case (Cons k ks)
    have "\<not> v_bool M (v_and M k k') \<longleftrightarrow> dset M k \<inter> dset M k' = {}" if "k' \<in> set ks" for k'
      using Cons.prems that and_ok [of d k k'] and_dset [of d k k'] bool_law [of d "v_and M k k'"]
      by simp
    moreover have "sorted_wrt (\<lambda>a b. \<not> v_bool M (v_and M a b)) ks = disjoint_by (dset M) ks"
      using Cons.IH Cons.prems by simp
    ultimately show ?case by simp
  qed simp
  then show ?thesis
    unfolding keys_ok_def list_all_iff using bool_law by blast
qed

text \<open>A node's layers, and the points they hold.\<close>

definition lay_ok :: "dim list \<Rightarrow> dim \<Rightarrow> dim list \<Rightarrow> ('v \<times> 'v hcs) list \<Rightarrow> bool" where
  "lay_ok al d ds ls \<longleftrightarrow>
     keys_ok M ok d (map fst ls) \<and> (\<forall>(k, s)\<in>set ls. hc_ok M ok al ds s \<and> sub_nonempty s)"

definition lay_sem :: "dim \<Rightarrow> (dim \<Rightarrow> 'p) \<Rightarrow> ('v \<times> 'v hcs) list \<Rightarrow> bool" where
  "lay_sem d p ls \<longleftrightarrow> (\<exists>(k, s)\<in>set ls. v_mem M (p d) k \<and> hc_sem M p s)"

lemma hc_ok_Cons:
  "hc_ok M ok al (d # ds) t \<longleftrightarrow> (\<exists>c ls. t = HC c al (d # ds) ls \<and> lay_ok al d ds ls)"
  by (cases t) (auto simp: lay_ok_def list_all_iff)

lemma hc_ok_Nil [simp]: "hc_ok M ok al [] t \<longleftrightarrow> t = Empty_Interval"
  by (cases t) auto

lemma hc_ok_HC [simp]:
  "hc_ok M ok al (d # ds) (HC c al' act ls) \<longleftrightarrow> al' = al \<and> act = d # ds \<and> lay_ok al d ds ls"
  by (auto simp: lay_ok_def list_all_iff)

lemma hc_sem_HC [simp]: "hc_sem M p (HC c al (d # ds) ls) \<longleftrightarrow> lay_sem d p ls"
  by (auto simp: lay_sem_def list_ex_iff)

declare hc_ok.simps [simp del] hc_sem.simps(2) [simp del]

lemma hc_sem_all [simp]: "hc_sem M p (HC c al [] ls)"
  by (simp add: hc_sem.simps)

lemma lay_ok_Nil [simp]: "lay_ok al d ds []"
  by (simp add: lay_ok_def keys_ok_def)

lemma lay_sem_Nil [simp]: "\<not> lay_sem d p []"
  by (simp add: lay_sem_def)

lemma lay_sem_append: "lay_sem d p (ls @ ls') \<longleftrightarrow> lay_sem d p ls \<or> lay_sem d p ls'"
  by (auto simp: lay_sem_def)

lemma lay_sem_concat: "lay_sem d p (concat lss) \<longleftrightarrow> (\<exists>ls\<in>set lss. lay_sem d p ls)"
  by (auto simp: lay_sem_def)

lemma lay_sem_Cons [simp]:
  "lay_sem d p ((k, s) # ls) \<longleftrightarrow> v_mem M (p d) k \<and> hc_sem M p s \<or> lay_sem d p ls"
  by (auto simp: lay_sem_def)

lemma lay_ok_iff:
  "lay_ok al d ds ls \<longleftrightarrow>
     (\<forall>(k, s)\<in>set ls. ok d k \<and> dset M k \<noteq> {} \<and> hc_ok M ok al ds s \<and> sub_nonempty s) \<and>
     disjoint_by (dset M \<circ> fst) ls"
  unfolding lay_ok_def keys_ok_iff disjoint_by_map by auto

lemma lay_ok_memD:
  assumes "lay_ok al d ds ls" and "(k, s) \<in> set ls"
  shows "ok d k" "dset M k \<noteq> {}" "v_bool M k" "hc_ok M ok al ds s" "sub_nonempty s"
  using assms bool_law [of d k] by (auto simp: lay_ok_iff)

lemma lay_unique:
  assumes "lay_ok al d ds ls" and "(k, s) \<in> set ls" and "(k', s') \<in> set ls"
    and "v_mem M x k" and "v_mem M x k'"
  shows "k = k' \<and> s = s'"
  using assms disjoint_by_unique [of "dset M \<circ> fst" ls "(k, s)" "(k', s')" x]
  by (simp add: lay_ok_iff)

lemma lay_semI: "(k, s) \<in> set ls \<Longrightarrow> v_mem M (p d) k \<Longrightarrow> hc_sem M p s \<Longrightarrow> lay_sem d p ls"
  by (auto simp: lay_sem_def)

lemma lay_sem_ex: "lay_sem d p ls \<longleftrightarrow> (\<exists>k s. (k, s) \<in> set ls \<and> v_mem M (p d) k \<and> hc_sem M p s)"
  by (auto simp: lay_sem_def)

lemma lay_semE:
  assumes "lay_sem d p ls"
  obtains k s where "(k, s) \<in> set ls" "v_mem M (p d) k" "hc_sem M p s"
  using assms by (auto simp: lay_sem_def)

lemma lay_distinct: "lay_ok al d ds ls \<Longrightarrow> distinct (map (dset M \<circ> fst) ls)"
  by (rule disjoint_by_distinct) (auto simp: lay_ok_iff)

lemma not_eq_keys:
  assumes "keys_ok M ok d ks"
  shows "sorted_wrt (\<lambda>a b. \<not> v_eq M a b) ks"
proof -
  have "sorted_wrt (\<lambda>a b. dset M a \<inter> dset M b = {}) ks"
    using assms by (simp add: keys_ok_iff disjoint_by_def)
  then show ?thesis
  proof (rule sorted_wrt_mono_rel [rotated])
    fix a b
    assume "a \<in> set ks" "b \<in> set ks" "dset M a \<inter> dset M b = {}"
    then show "\<not> v_eq M a b"
      using assms eq_law [of d a b] by (auto simp: keys_ok_iff)
  qed
qed

text \<open>Keys that are disjoint are new to the dictionary.\<close>

lemma dict_of_layers:
  assumes "keys_ok M ok d (map fst ls)"
  shows "dict_of_list (v_eq M) ls = ls"
proof (rule dict_of_list_fresh)
  have "sorted_wrt (\<lambda>a b. \<not> v_eq M a b) (map fst ls)"
    by (rule not_eq_keys [OF assms])
  then show "sorted_wrt (\<lambda>a b. \<not> v_eq M (fst a) (fst b)) ls"
    by (simp add: sorted_wrt_map)
qed

lemma sub_nonempty_sem:
  assumes "hc_ok M ok al ds s" and "sub_nonempty s" and "distinct ds"
  shows "\<exists>p. hc_sem M p s"
  using assms
proof (induction ds arbitrary: s)
  case Nil
  then show ?case by (simp add: hc_ok_Nil)
next
  case (Cons d ds)
  then obtain c ls where s: "s = HC c al (d # ds) ls" "lay_ok al d ds ls"
    by (auto simp: hc_ok_Cons)
  then have "ls \<noteq> []" using Cons.prems(2) by (simp add: sub_nonempty_def)
  then obtain k s' where m: "(k, s') \<in> set ls" by (cases ls) auto
  then obtain p where p: "hc_sem M p s'"
    using Cons.IH [of s'] lay_ok_memD [OF s(2) m] Cons.prems(3) by auto
  obtain x where x: "v_mem M x k" using lay_ok_memD(2) [OF s(2) m] by auto
  have upd: "hc_sem M (p(d := x)) t" if "hc_ok M ok al es t" "d \<notin> set es" "hc_sem M p t" for es t
    using that
  proof (induction es arbitrary: t)
    case Nil
    then show ?case by (simp add: hc_ok_Nil)
  next
    case (Cons e es)
    then obtain c' ls' where t: "t = HC c' al (e # es) ls'" "lay_ok al e es ls'"
      by (auto simp: hc_ok_Cons)
    with Cons.prems obtain k' u where u: "(k', u) \<in> set ls'" "v_mem M (p e) k'" "hc_sem M p u"
      by (auto simp: lay_sem_def)
    have "hc_sem M (p(d := x)) u"
      by (rule Cons.IH [OF lay_ok_memD(4) [OF t(2) u(1)]]) (use Cons.prems u in auto)
    with u(1,2) Cons.prems(2) have "lay_sem e (p(d := x)) ls'"
      by (intro lay_semI [of k' u]) auto
    then show ?case by (simp only: t hc_sem_HC)
  qed
  have "hc_sem M (p(d := x)) s'"
    using upd [OF lay_ok_memD(4) [OF s(2) m]] p Cons.prems(3) by simp
  with x m have "lay_sem d (p(d := x)) ls" by (intro lay_semI [of k s']) auto
  then have "hc_sem M (p(d := x)) s" by (simp only: s hc_sem_HC)
  then show ?case by blast
qed

text \<open>\<open>==\<close> of two trees over the same dimensions is sound: equal trees hold the same points.\<close>

lemma hc_eq_sem:
  assumes "hc_ok M ok al ds s" and "hc_ok M ok al ds t" and "hc_eq M s t"
  shows "hc_sem M p s = hc_sem M p t"
  using assms
proof (induction ds arbitrary: s t)
  case Nil
  then show ?case by (simp add: hc_ok_Nil)
next
  case (Cons d ds)
  then obtain c ls c' ls' where
    s: "s = HC c al (d # ds) ls" "lay_ok al d ds ls" and
    t: "t = HC c' al (d # ds) ls'" "lay_ok al d ds ls'"
    by (auto simp: hc_ok_Cons)
  consider "ls = []" "ls' = []"
    | "length ls = length ls'"
      "\<forall>(k, u)\<in>set ls. \<exists>u'. dict_get (v_eq M) ls' k = Some u' \<and> hc_eq M u u'"
    using Cons.prems(3) by (auto simp: s t list_all_iff split: option.splits) fastforce+
  then show ?case
  proof cases
    case 1
    then show ?thesis by (simp add: s t)
  next
    case 2
    have match: "\<exists>k' u'. (k', u') \<in> set ls' \<and> dset M k' = dset M k \<and>
        hc_sem M p u = hc_sem M p u'" if m: "(k, u) \<in> set ls" for k u
    proof -
      obtain k' u' where g: "dict_get (v_eq M) ls' k = Some u'" "hc_eq M u u'"
        using 2(2) m by auto
      obtain k' where k': "(k', u') \<in> set ls'" "v_eq M k' k"
        using dict_get_Some [OF g(1)] by auto
      have "dset M k' = dset M k"
        using k' eq_law lay_ok_memD(1) [OF s(2) m] lay_ok_memD(1) [OF t(2) k'(1)] by blast
      moreover have "hc_sem M p u = hc_sem M p u'"
        using Cons.IH lay_ok_memD(4) [OF s(2) m] lay_ok_memD(4) [OF t(2) k'(1)] g(2) by blast
      ultimately show ?thesis using k' by blast
    qed
    let ?D = "\<lambda>ls. map (dset M \<circ> fst) ls"
    have dist: "distinct (?D ls)" "distinct (?D ls')"
      using lay_distinct s(2) t(2) by auto
    have "set (?D ls) \<subseteq> set (?D ls')"
    proof
      fix X
      assume "X \<in> set (?D ls)"
      then obtain k u where "(k, u) \<in> set ls" "X = dset M k" by auto
      then show "X \<in> set (?D ls')" using match [of k u] by force
    qed
    moreover have "card (set (?D ls)) = card (set (?D ls'))"
      using 2(1) dist by (metis distinct_card length_map)
    ultimately have keys: "set (?D ls) = set (?D ls')" by (simp add: card_subset_eq)
    have "hc_sem M p t" if l: "lay_sem d p ls"
    proof -
      obtain k u where m: "(k, u) \<in> set ls" "v_mem M (p d) k" "hc_sem M p u"
        using l by (auto simp: lay_sem_def)
      then obtain k' u' where "(k', u') \<in> set ls'" "dset M k' = dset M k" "hc_sem M p u'"
        using match by blast
      with m(2) show ?thesis by (auto simp: t lay_sem_def set_eq_iff)
    qed
    moreover have "lay_sem d p ls" if l: "lay_sem d p ls'"
    proof -
      obtain k' u' where m: "(k', u') \<in> set ls'" "v_mem M (p d) k'" "hc_sem M p u'"
        using l by (auto simp: lay_sem_def)
      have "dset M k' \<in> set (?D ls)" unfolding keys using m(1) by force
      then obtain k u where k: "(k, u) \<in> set ls" "dset M k = dset M k'" by auto
      then obtain k'' u'' where k'': "(k'', u'') \<in> set ls'" "dset M k'' = dset M k"
        "hc_sem M p u = hc_sem M p u''"
        using match by blast
      have "v_mem M (p d) k''" using k''(2) k(2) m(2) by (simp add: dset_def set_eq_iff)
      then have "u'' = u'" using lay_unique [OF t(2) k''(1) m(1) _ m(2)] by simp
      with k k'' m show ?thesis by (auto simp: lay_sem_def set_eq_iff)
    qed
    ultimately show ?thesis by (auto simp: s t)
  qed
qed

section \<open>Merging layers with equal sub-cubes\<close>

abbreviation class_keys :: "('v hcs \<times> 'v list) list \<Rightarrow> 'v list" where
  "class_keys cls \<equiv> concat (map snd cls)"

definition class_sem :: "dim \<Rightarrow> (dim \<Rightarrow> 'p) \<Rightarrow> ('v hcs \<times> 'v list) list \<Rightarrow> bool" where
  "class_sem d p cls \<longleftrightarrow> (\<exists>(s, ks)\<in>set cls. hc_sem M p s \<and> (\<exists>k\<in>set ks. v_mem M (p d) k))"

lemma add_to_class_keys: "mset (class_keys (add_to_class M cls (k, s))) = mset (class_keys cls) + {#k#}"
  by (induction M cls "(k, s)" rule: add_to_class.induct) auto

lemma add_to_class_subs:
  "(\<forall>(s', ks)\<in>set cls. Q s' \<and> ks \<noteq> []) \<Longrightarrow> Q s \<Longrightarrow>
   \<forall>(s', ks)\<in>set (add_to_class M cls (k, s)). Q s' \<and> ks \<noteq> []"
  by (induction M cls "(k, s)" rule: add_to_class.induct) auto

lemma add_to_class_sem:
  assumes "\<forall>(s', ks)\<in>set cls. hc_ok M ok al ds s'" and "hc_ok M ok al ds s"
  shows "class_sem d p (add_to_class M cls (k, s)) \<longleftrightarrow>
         class_sem d p cls \<or> v_mem M (p d) k \<and> hc_sem M p s"
  using assms
proof (induction cls)
  case Nil
  then show ?case by (auto simp: class_sem_def)
next
  case (Cons c cls)
  obtain s' ks where c: "c = (s', ks)" by (cases c)
  show ?case
  proof (cases "hc_eq M s' s")
    case True
    then have "hc_sem M p s' = hc_sem M p s"
      using hc_eq_sem [of al ds s' s p] Cons.prems c by simp
    with True show ?thesis by (auto simp: c class_sem_def)
  next
    case False
    moreover have "class_sem d p (add_to_class M cls (k, s)) \<longleftrightarrow>
         class_sem d p cls \<or> v_mem M (p d) k \<and> hc_sem M p s"
      using Cons by simp
    ultimately show ?thesis by (auto simp: c class_sem_def)
  qed
qed

lemma foldl_or:
  assumes "ok d k" and "\<forall>k\<in>set ks. ok d k"
  shows "ok d (foldl (v_or M) k ks)"
    and "dset M (foldl (v_or M) k ks) = dset M k \<union> (\<Union>k\<in>set ks. dset M k)"
  using assms
proof (induction ks arbitrary: k)
  case (Cons k' ks)
  {
    case 1
    then show ?case using Cons.IH(1) or_ok by simp
  next
    case 2
    then have "dset M (foldl (v_or M) (v_or M k k') ks) =
        dset M (v_or M k k') \<union> (\<Union>k\<in>set ks. dset M k)"
      using Cons.IH(2) or_ok by simp
    with 2 show ?case using or_dset [of d k k'] by auto
  }
qed auto

lemma classes_invariant:
  fixes ls
  defines "cls \<equiv> foldl (add_to_class M) [] ls"
  assumes "\<forall>(k, s)\<in>set ls. hc_ok M ok al ds s \<and> sub_nonempty s"
  shows "mset (class_keys cls) = mset (map fst ls)"
    and "\<forall>(s, ks)\<in>set cls. (hc_ok M ok al ds s \<and> sub_nonempty s) \<and> ks \<noteq> []"
    and "class_sem d p cls \<longleftrightarrow> lay_sem d p ls"
  using assms(2) unfolding cls_def
proof (induction ls rule: rev_induct)
  case Nil
  { case 1 show ?case by simp next case 2 show ?case by simp next
    case 3 show ?case by (simp add: class_sem_def) }
next
  case (snoc e ls)
  obtain k s where e: "e = (k, s)" by (cases e)
  {
    case 1
    then show ?case using snoc.IH(1) by (simp add: e add_to_class_keys)
  next
    case 2
    then show ?case
      using add_to_class_subs [of "foldl (add_to_class M) [] ls"
          "\<lambda>s. hc_ok M ok al ds s \<and> sub_nonempty s" s k] snoc.IH(2) by (simp add: e)
  next
    case 3
    then have "\<forall>(s, ks)\<in>set (foldl (add_to_class M) [] ls). hc_ok M ok al ds s"
      using snoc.IH(2) by fastforce
    then show ?case
      using 3 snoc.IH(3) add_to_class_sem [of "foldl (add_to_class M) [] ls" al ds s d p k]
      by (simp add: e lay_sem_append)
  }
qed

lemma layer_elements_union_ok:
  assumes "lay_ok al d ds ls"
  shows "lay_ok al d ds (layer_elements_union M ls)"
    and "lay_sem d p (layer_elements_union M ls) = lay_sem d p ls"
    and "layer_elements_union M ls = [] \<longleftrightarrow> ls = []"
proof -
  define cls where "cls = foldl (add_to_class M) [] ls"
  define joined where
    "joined = map (\<lambda>(s, ks). (foldl (v_or M) (hd ks) (tl ks), s)) cls"
  have subs: "\<forall>(k, s)\<in>set ls. hc_ok M ok al ds s \<and> sub_nonempty s"
    using assms by (auto simp: lay_ok_iff)
  note inv = classes_invariant [OF subs, folded cls_def]
  have keys: "set (class_keys cls) = fst ` set ls"
    using inv(1) by (metis image_set mset_eq_setD)
  have key_ok: "ok d k \<and> dset M k \<noteq> {}" if "k \<in> set (class_keys cls)" for k
    using that assms unfolding keys by (auto simp: lay_ok_iff)
  have joined_key: "ok d (foldl (v_or M) (hd ks) (tl ks)) \<and>
      dset M (foldl (v_or M) (hd ks) (tl ks)) = (\<Union>k\<in>set ks. dset M k) \<and> ks \<noteq> [] \<and>
      (\<forall>k\<in>set ks. dset M k \<noteq> {}) \<and> hc_ok M ok al ds s \<and> sub_nonempty s"
    if "(s, ks) \<in> set cls" for s ks
  proof -
    have "ks \<noteq> []" "hc_ok M ok al ds s" "sub_nonempty s" using inv(2) that by auto
    moreover from this(1) obtain k ks' where "ks = k # ks'" by (cases ks) auto
    moreover have "\<forall>k\<in>set ks. ok d k \<and> dset M k \<noteq> {}"
    proof
      fix k
      assume "k \<in> set ks"
      with that have "k \<in> set (class_keys cls)" by force
      then show "ok d k \<and> dset M k \<noteq> {}" by (rule key_ok)
    qed
    ultimately show ?thesis using foldl_or [of d k ks'] by auto
  qed
  have "disjoint_by (dset M) (map fst ls)"
    using assms by (simp add: lay_ok_iff disjoint_by_map)
  then have "disjoint_by (dset M) (class_keys cls)"
    using disjoint_by_mset inv(1) by metis
  then have "disjoint_by (\<lambda>(s, ks). \<Union>k\<in>set ks. dset M k) cls"
    by (rule disjoint_by_groups)
  then have "disjoint_by (dset M \<circ> (\<lambda>(s, ks). foldl (v_or M) (hd ks) (tl ks))) cls"
    by (rule disjoint_by_mono) (use joined_key in auto)
  then have disj: "disjoint_by (dset M \<circ> fst) joined"
    unfolding joined_def disjoint_by_map by (simp add: comp_def case_prod_unfold)
  have ok: "lay_ok al d ds joined"
    unfolding lay_ok_iff
  proof (intro conjI ballI disj)
    fix e
    assume "e \<in> set joined"
    then obtain s ks where "(s, ks) \<in> set cls" "e = (foldl (v_or M) (hd ks) (tl ks), s)"
      by (auto simp: joined_def)
    with joined_key [of s ks] show "case e of (k, s) \<Rightarrow> ok d k \<and> dset M k \<noteq> {} \<and>
        hc_ok M ok al ds s \<and> sub_nonempty s"
      by (cases ks) auto
  qed
  have eq: "layer_elements_union M ls = joined"
    unfolding layer_elements_union_def cls_def [symmetric] joined_def [symmetric]
    by (rule dict_of_layers [of d]) (use ok in \<open>simp add: lay_ok_def\<close>)
  show "lay_ok al d ds (layer_elements_union M ls)" unfolding eq by (rule ok)
  have "lay_sem d p joined \<longleftrightarrow> class_sem d p cls"
  proof -
    have "v_mem M (p d) (foldl (v_or M) (hd ks) (tl ks)) \<longleftrightarrow> (\<exists>k\<in>set ks. v_mem M (p d) k)"
      if "(s, ks) \<in> set cls" for s ks
      using joined_key [OF that] by (auto simp: dset_def)
    then show ?thesis
      unfolding lay_sem_def class_sem_def joined_def by fastforce
  qed
  then show "lay_sem d p (layer_elements_union M ls) = lay_sem d p ls"
    unfolding eq using inv(3) by simp
  have "cls = [] \<longleftrightarrow> ls = []"
  proof
    assume "cls = []"
    then show "ls = []" using inv(1) by simp
  qed (simp add: cls_def)
  then show "layer_elements_union M ls = [] \<longleftrightarrow> ls = []"
    unfolding eq by (simp add: joined_def)
qed

section \<open>Combining two nodes\<close>

text \<open>
  The recursive operations make, for each pair of layers, at most one new layer under the common
  part of the two keys; what the other operand does not cover is kept with its own sub-cube.
\<close>

definition piece_ok :: "dim list \<Rightarrow> dim list \<Rightarrow> 'v \<Rightarrow> 'v \<Rightarrow> ('v \<times> 'v hcs) list \<Rightarrow> bool" where
  "piece_ok al ds k k' L \<longleftrightarrow>
     L = [] \<or> (\<exists>n. L = [(v_and M k k', n)] \<and> v_bool M (v_and M k k') \<and>
                   hc_ok M ok al ds n \<and> sub_nonempty n)"

lemma remaining_ok:
  assumes "ok d k" and "\<forall>k'\<in>set others. ok d k'"
  shows "ok d (remaining_self M k others)"
    and "dset M (remaining_self M k others) = dset M k - (\<Union>k'\<in>set others. dset M k')"
    and "ok d (remaining_other M k others)"
    and "dset M (remaining_other M k others) = dset M k - (\<Union>k'\<in>set others. dset M k')"
proof -
  let ?f = "\<lambda>g r k'. let c = g k' in if v_bool M c then v_sub M r c else r"
  have "ok d (foldl (?f g) r others) \<and>
        dset M (foldl (?f g) r others) = dset M r - (\<Union>k'\<in>set others. dset M (g k'))"
    if "ok d r" "\<forall>k'\<in>set others. ok d (g k')" for r g
    using that
  proof (induction others arbitrary: r)
    case (Cons k' others)
    then have g: "ok d (g k')" by simp
    define r' where "r' = ?f g r k'"
    have "ok d r' \<and> dset M r' = dset M r - dset M (g k')"
      using g Cons.prems(1) sub_ok [of d r "g k'"] sub_dset [of d r "g k'"] bool_law [OF g]
      by (auto simp: r'_def Let_def)
    with Cons.IH [of r'] Cons.prems show ?case by (auto simp: r'_def)
  qed simp
  note step = this
  have "\<forall>k'\<in>set others. ok d (v_and M k k') \<and> dset M (v_and M k k') = dset M k \<inter> dset M k'"
    "\<forall>k'\<in>set others. ok d (v_and M k' k) \<and> dset M (v_and M k' k) = dset M k' \<inter> dset M k"
    using assms and_ok and_dset by blast+
  with step [OF assms(1), of "v_and M k"] step [OF assms(1), of "\<lambda>k'. v_and M k' k"]
  show "ok d (remaining_self M k others)"
    and "dset M (remaining_self M k others) = dset M k - (\<Union>k'\<in>set others. dset M k')"
    and "ok d (remaining_other M k others)"
    and "dset M (remaining_other M k others) = dset M k - (\<Union>k'\<in>set others. dset M k')"
    by (auto simp: remaining_self_def remaining_other_def)
qed

lemma keep_remaining_ok:
  assumes "ok d r" and "hc_ok M ok al ds s" and "sub_nonempty s"
  shows "lay_ok al d ds (keep_remaining M r s)"
    and "\<forall>e\<in>set (keep_remaining M r s). fst e = r"
    and "lay_sem d p (keep_remaining M r s) \<longleftrightarrow> v_mem M (p d) r \<and> hc_sem M p s"
  using assms bool_law [OF assms(1)] by (auto simp: keep_remaining_def lay_ok_iff dset_def)

lemma piece_lay_ok:
  assumes "piece_ok al ds k k' L" and "ok d k" and "ok d k'"
  shows "lay_ok al d ds L" and "\<forall>e\<in>set L. dset M (fst e) = dset M k \<inter> dset M k'"
proof -
  note c = and_ok [OF assms(2,3)] and_dset [OF assms(2,3)]
  have "lay_ok al d ds L \<and> (\<forall>e\<in>set L. dset M (fst e) = dset M k \<inter> dset M k')"
  proof (cases "L = []")
    case False
    then obtain n where n: "L = [(v_and M k k', n)]" "v_bool M (v_and M k k')"
      "hc_ok M ok al ds n" "sub_nonempty n"
      using assms(1) by (auto simp: piece_ok_def)
    moreover have "dset M (v_and M k k') \<noteq> {}" using bool_law [OF c(1)] n(2) by blast
    ultimately show ?thesis using c by (simp add: lay_ok_iff)
  qed simp
  then show "lay_ok al d ds L" and "\<forall>e\<in>set L. dset M (fst e) = dset M k \<inter> dset M k'"
    by blast+
qed

text \<open>Each layer is split into layers under parts of its key.\<close>

lemma lay_ok_concat:
  assumes "lay_ok al d ds es"
    and "\<And>k s. (k, s) \<in> set es \<Longrightarrow>
      lay_ok al d ds (f (k, s)) \<and> (\<forall>x\<in>set (f (k, s)). dset M (fst x) \<subseteq> dset M k)"
  shows "lay_ok al d ds (concat (map f es))"
    and "\<forall>x\<in>set (concat (map f es)). \<exists>k\<in>fst ` set es. dset M (fst x) \<subseteq> dset M k"
proof -
  have parts: "lay_ok al d ds (f e) \<and> (\<forall>x\<in>set (f e). dset M (fst x) \<subseteq> dset M (fst e))"
    if "e \<in> set es" for e
    using assms(2) [of "fst e" "snd e"] that by simp
  have "disjoint_by (dset M \<circ> fst) (concat (map f es))"
    by (rule disjoint_by_concat [of "dset M \<circ> fst"])
      (use assms(1) parts in \<open>auto simp: lay_ok_iff\<close>)
  with parts show "lay_ok al d ds (concat (map f es))" by (fastforce simp: lay_ok_iff)
  show "\<forall>x\<in>set (concat (map f es)). \<exists>k\<in>fst ` set es. dset M (fst x) \<subseteq> dset M k"
  proof
    fix x
    assume "x \<in> set (concat (map f es))"
    then obtain e where e: "e \<in> set es" "x \<in> set (f e)" by auto
    with parts have "dset M (fst x) \<subseteq> dset M (fst e)" by blast
    with e(1) show "\<exists>k\<in>fst ` set es. dset M (fst x) \<subseteq> dset M k" by blast
  qed
qed

lemma lay_ok_append:
  "lay_ok al d ds (ls @ ls') \<longleftrightarrow> lay_ok al d ds ls \<and> lay_ok al d ds ls' \<and>
     (\<forall>e\<in>set ls. \<forall>e'\<in>set ls'. dset M (fst e) \<inter> dset M (fst e') = {})"
  by (auto simp: lay_ok_iff disjoint_by_append)

definition pieces_ok where
  "pieces_ok al d ds ls ls' g \<longleftrightarrow>
     lay_ok al d ds ls \<and> lay_ok al d ds ls' \<and>
     (\<forall>(k, s)\<in>set ls. \<forall>(k', s')\<in>set ls'. piece_ok al ds k k' (g (k, s) (k', s')))"

abbreviation row where "row g e ls' \<equiv> concat (map (g e) ls')"

abbreviation row_keep where
  "row_keep g e ls' \<equiv>
     row g e ls' @ keep_remaining M (remaining_self M (fst e) (map fst ls')) (snd e)"

lemma row_ok:
  assumes "pieces_ok al d ds ls ls' g" and "(k, s) \<in> set ls"
  shows "lay_ok al d ds (row g (k, s) ls')"
    and "\<And>x. x \<in> set (row g (k, s) ls') \<Longrightarrow>
      dset M (fst x) \<subseteq> dset M k \<and> (\<exists>k'\<in>fst ` set ls'. dset M (fst x) \<subseteq> dset M k')"
proof -
  have ls: "lay_ok al d ds ls" "lay_ok al d ds ls'" using assms(1) by (simp_all add: pieces_ok_def)
  have k: "ok d k" by (rule lay_ok_memD(1) [OF ls(1) assms(2)])
  have one: "lay_ok al d ds (g (k, s) (k', s')) \<and>
      (\<forall>x\<in>set (g (k, s) (k', s')). dset M (fst x) = dset M k \<inter> dset M k')"
    if "(k', s') \<in> set ls'" for k' s'
  proof -
    have "piece_ok al ds k k' (g (k, s) (k', s'))"
      using assms that by (auto simp: pieces_ok_def)
    then show ?thesis using piece_lay_ok k lay_ok_memD(1) [OF ls(2) that] by blast
  qed
  show "lay_ok al d ds (row g (k, s) ls')"
    by (rule lay_ok_concat(1) [OF ls(2)]) (use one in blast)
  show "dset M (fst x) \<subseteq> dset M k \<and> (\<exists>k'\<in>fst ` set ls'. dset M (fst x) \<subseteq> dset M k')"
    if x: "x \<in> set (row g (k, s) ls')" for x
  proof -
    obtain k' s' where "(k', s') \<in> set ls'" "x \<in> set (g (k, s) (k', s'))" using x by auto
    with one show ?thesis by force
  qed
qed

lemma rows_ok:
  assumes "pieces_ok al d ds ls ls' g"
  shows "lay_ok al d ds (concat (map (\<lambda>e. row g e ls') ls))"
  by (rule lay_ok_concat(1))
    (use assms row_ok [OF assms] in \<open>auto simp: pieces_ok_def simp del: set_concat\<close>)

lemma rows_keep_ok:
  assumes "pieces_ok al d ds ls ls' g"
  shows "lay_ok al d ds (concat (map (\<lambda>e. row_keep g e ls') ls))"
    and "\<forall>x\<in>set (concat (map (\<lambda>e. row_keep g e ls') ls)). \<exists>k\<in>fst ` set ls. dset M (fst x) \<subseteq> dset M k"
proof -
  have ls: "lay_ok al d ds ls" "lay_ok al d ds ls'" using assms by (simp_all add: pieces_ok_def)
  have others: "\<forall>k'\<in>set (map fst ls'). ok d k'" using ls(2) by (auto simp: lay_ok_iff)
  have one: "lay_ok al d ds (row_keep g (k, s) ls') \<and>
      (\<forall>x\<in>set (row_keep g (k, s) ls'). dset M (fst x) \<subseteq> dset M k)" if ks: "(k, s) \<in> set ls" for k s
  proof -
    let ?keep = "keep_remaining M (remaining_self M k (map fst ls')) s"
    note m = lay_ok_memD [OF ls(1) ks]
    note rem = remaining_ok [OF m(1) others]
    note keep = keep_remaining_ok [OF rem(1) m(4,5)]
    note r = row_ok [OF assms ks]
    have "dset M (fst x) \<inter> dset M (fst x') = {}"
      if x: "x \<in> set (row g (k, s) ls')" and x': "x' \<in> set ?keep" for x x'
    proof -
      obtain k' where "k' \<in> fst ` set ls'" "dset M (fst x) \<subseteq> dset M k'" using r(2) [OF x] by blast
      moreover have "fst x' = remaining_self M k (map fst ls')" using keep(2) x' by blast
      ultimately show ?thesis using rem(2) by fastforce
    qed
    then have "lay_ok al d ds (row_keep g (k, s) ls')"
      using r(1) keep(1) by (simp add: lay_ok_append)
    moreover have "dset M (fst x) \<subseteq> dset M k" if "x \<in> set (row_keep g (k, s) ls')" for x
    proof -
      consider "x \<in> set (row g (k, s) ls')" | "x \<in> set ?keep" using \<open>x \<in> _\<close> by auto
      then show ?thesis
      proof cases
        case 2
        then have "fst x = remaining_self M k (map fst ls')" using keep(2) by blast
        then show ?thesis using rem(2) by auto
      qed (use r(2) in blast)
    qed
    ultimately show ?thesis by blast
  qed
  show "lay_ok al d ds (concat (map (\<lambda>e. row_keep g e ls') ls))"
    by (rule lay_ok_concat(1) [OF ls(1) one])
  show "\<forall>x\<in>set (concat (map (\<lambda>e. row_keep g e ls') ls)). \<exists>k\<in>fst ` set ls. dset M (fst x) \<subseteq> dset M k"
    by (rule lay_ok_concat(2) [OF ls(1) one])
qed

text \<open>What the pieces mean: \<open>F\<close> is the operation on truth values that the sub-cubes compute.\<close>

definition pieces_sem where
  "pieces_sem d F ls ls' g \<longleftrightarrow>
     (\<forall>k s k' s' p. (k, s) \<in> set ls \<longrightarrow> (k', s') \<in> set ls' \<longrightarrow>
        lay_sem d p (g (k, s) (k', s')) =
        (v_mem M (p d) k \<and> v_mem M (p d) k' \<and> F (hc_sem M p s) (hc_sem M p s')))"

lemma pieces_total:
  assumes "lay_ok al d ds ls" and "lay_ok al d ds ls'"
    and f: "\<And>k s k' s'. (k, s) \<in> set ls \<Longrightarrow> (k', s') \<in> set ls' \<Longrightarrow>
      \<exists>L. f (k, s) (k', s') = Some L \<and> piece_ok al ds k k' L \<and>
          (\<forall>p. lay_sem d p L =
             (v_mem M (p d) k \<and> v_mem M (p d) k' \<and> F (hc_sem M p s) (hc_sem M p s')))"
  shows "\<exists>g. (\<forall>e\<in>set ls. map_opt (f e) ls' = Some (map (g e) ls')) \<and>
    pieces_ok al d ds ls ls' g \<and> pieces_sem d F ls ls' g"
proof (intro exI conjI ballI)
  let ?g = "\<lambda>e e'. the (f e e')"
  show "map_opt (f e) ls' = Some (map (?g e) ls')" if "e \<in> set ls" for e
    by (rule map_opt_the) (use f [of "fst e" "snd e"] that in force)
  have "piece_ok al ds k k' (?g (k, s) (k', s'))" if "(k, s) \<in> set ls" "(k', s') \<in> set ls'"
    for k s k' s'
    using f [OF that] by auto
  then show "pieces_ok al d ds ls ls' ?g"
    unfolding pieces_ok_def using assms(1,2) by auto
  show "pieces_sem d F ls ls' ?g"
    unfolding pieces_sem_def
  proof (intro allI impI)
    fix k s k' s' p
    assume "(k, s) \<in> set ls" "(k', s') \<in> set ls'"
    from f [OF this] obtain L where L: "f (k, s) (k', s') = Some L"
      "\<forall>p. lay_sem d p L =
         (v_mem M (p d) k \<and> v_mem M (p d) k' \<and> F (hc_sem M p s) (hc_sem M p s'))"
      by blast
    show "lay_sem d p (?g (k, s) (k', s')) =
        (v_mem M (p d) k \<and> v_mem M (p d) k' \<and> F (hc_sem M p s) (hc_sem M p s'))"
      unfolding L(1) option.sel by (rule L(2) [rule_format])
  qed
qed

lemma lay_sem_concat_map:
  "lay_sem d p (concat (map f es)) \<longleftrightarrow> (\<exists>k s. (k, s) \<in> set es \<and> lay_sem d p (f (k, s)))"
  by (auto simp: lay_sem_concat)

lemma row_sem:
  assumes "pieces_sem d F ls ls' g" and "(k, s) \<in> set ls"
  shows "lay_sem d p (row g (k, s) ls') \<longleftrightarrow>
    v_mem M (p d) k \<and>
    (\<exists>k' s'. (k', s') \<in> set ls' \<and> v_mem M (p d) k' \<and> F (hc_sem M p s) (hc_sem M p s'))"
proof -
  have "lay_sem d p (g (k, s) (k', s')) \<longleftrightarrow>
      v_mem M (p d) k \<and> v_mem M (p d) k' \<and> F (hc_sem M p s) (hc_sem M p s')"
    if "(k', s') \<in> set ls'" for k' s'
    using assms(1)[unfolded pieces_sem_def, rule_format, OF assms(2) that] .
  then show ?thesis unfolding lay_sem_concat_map by blast
qed

lemma rows_sem:
  assumes "pieces_sem d F ls ls' g"
  shows "lay_sem d p (concat (map (\<lambda>e. row g e ls') ls)) \<longleftrightarrow>
    (\<exists>k s k' s'. (k, s) \<in> set ls \<and> (k', s') \<in> set ls' \<and>
       v_mem M (p d) k \<and> v_mem M (p d) k' \<and> F (hc_sem M p s) (hc_sem M p s'))"
  unfolding lay_sem_concat_map [of d p _ ls] using row_sem [OF assms] by blast

lemma rows_keep_sem:
  assumes "pieces_ok al d ds ls ls' g" and "pieces_sem d F ls ls' g"
  shows "lay_sem d p (concat (map (\<lambda>e. row_keep g e ls') ls)) \<longleftrightarrow>
    (\<exists>k s. (k, s) \<in> set ls \<and> v_mem M (p d) k \<and>
       ((\<exists>k' s'. (k', s') \<in> set ls' \<and> v_mem M (p d) k' \<and> F (hc_sem M p s) (hc_sem M p s')) \<or>
        (\<forall>k' s'. (k', s') \<in> set ls' \<longrightarrow> \<not> v_mem M (p d) k') \<and> hc_sem M p s))"
proof -
  have ls: "lay_ok al d ds ls" "lay_ok al d ds ls'" using assms(1) by (simp_all add: pieces_ok_def)
  have others: "\<forall>k'\<in>set (map fst ls'). ok d k'" using ls(2) by (auto simp: lay_ok_iff)
  have keep: "lay_sem d p (keep_remaining M (remaining_self M k (map fst ls')) s) \<longleftrightarrow>
      v_mem M (p d) k \<and> (\<forall>k' s'. (k', s') \<in> set ls' \<longrightarrow> \<not> v_mem M (p d) k') \<and> hc_sem M p s"
    if "(k, s) \<in> set ls" for k s
  proof -
    note m = lay_ok_memD [OF ls(1) that]
    note rem = remaining_ok [OF m(1) others]
    have "p d \<in> dset M (remaining_self M k (map fst ls')) \<longleftrightarrow>
        p d \<in> dset M k \<and> (\<forall>k' s'. (k', s') \<in> set ls' \<longrightarrow> p d \<notin> dset M k')"
      unfolding rem(2) by force
    with keep_remaining_ok(3) [OF rem(1) m(4,5)] show ?thesis by (simp only: mem_dset) blast
  qed
  show ?thesis
    unfolding lay_sem_concat_map [of d p _ ls] lay_sem_append fst_conv snd_conv
    using row_sem [OF assms(2)] keep by blast
qed

section \<open>The recursive operations\<close>

lemma hc_bool_node [simp]: "hc_bool (HC c al (d # ds) ls) \<longleftrightarrow> ls \<noteq> []"
  by simp

lemma node_bool:
  assumes "hc_ok M ok al ds n" and "ds \<noteq> []"
  shows "hc_bool n \<longleftrightarrow> sub_nonempty n" and "\<not> hc_bool n \<Longrightarrow> \<not> hc_sem M p n"
  using assms by (cases ds; auto simp: hc_ok_Cons sub_nonempty_def)+

definition aux_result where
  "aux_result al d ds r F t u \<longleftrightarrow>
     (\<exists>ls. r = HC False al (d # ds) ls \<and> lay_ok al d ds ls) \<and>
     (\<forall>p. hc_sem M p r = F (hc_sem M p t) (hc_sem M p u))"

lemma aux_resultD:
  assumes "aux_result al d ds r F t u"
  shows "hc_ok M ok al (d # ds) r" and "hc_sem M p r = F (hc_sem M p t) (hc_sem M p u)"
  using assms by (auto simp: aux_result_def)

text \<open>The operation \<open>A\<close> computes \<open>F\<close> if it does so at a node whose sub-cubes it computes right.\<close>

definition computes where
  "computes al ds A F \<longleftrightarrow>
     (\<forall>s s'. hc_ok M ok al ds s \<longrightarrow> hc_ok M ok al ds s' \<longrightarrow>
        (\<exists>n. A s s' = Some n \<and> hc_ok M ok al ds n \<and>
             (\<forall>p. hc_sem M p n = F (hc_sem M p s) (hc_sem M p s'))))"

lemma aux_induct:
  assumes step: "\<And>d ds t u. hc_ok M ok al (d # ds) t \<Longrightarrow> hc_ok M ok al (d # ds) u \<Longrightarrow>
      distinct (d # ds) \<Longrightarrow> (ds \<noteq> [] \<Longrightarrow> computes al ds A F) \<Longrightarrow>
      \<exists>r. A t u = Some r \<and> aux_result al d ds r F t u"
    and "hc_ok M ok al (d # ds) t" and "hc_ok M ok al (d # ds) u" and "distinct (d # ds)"
  shows "\<exists>r. A t u = Some r \<and> aux_result al d ds r F t u"
  using assms(2-)
proof (induction ds arbitrary: d t u)
  case Nil
  then show ?case by (intro step) auto
next
  case (Cons d' ds)
  have "computes al (d' # ds) A F"
    unfolding computes_def
  proof (intro allI impI)
    fix s s'
    assume "hc_ok M ok al (d' # ds) s" "hc_ok M ok al (d' # ds) s'"
    then obtain n where "A s s' = Some n" "aux_result al d' ds n F s s'"
      using Cons.IH [of d' s s'] Cons.prems(3) by auto
    then show "\<exists>n. A s s' = Some n \<and> hc_ok M ok al (d' # ds) n \<and>
        (\<forall>p. hc_sem M p n = F (hc_sem M p s) (hc_sem M p s'))"
      using aux_resultD by fast
  qed
  with Cons.prems show ?case by (intro step) auto
qed

text \<open>The common part of two keys.\<close>

lemma common_key:
  assumes "ok d k" and "ok d k'"
  shows "v_mem M x (v_and M k k') \<longleftrightarrow> v_mem M x k \<and> v_mem M x k'"
    and "v_bool M (v_and M k k') \<longleftrightarrow> (\<exists>x. v_mem M x k \<and> v_mem M x k')"
  using and_dset [OF assms] bool_law [OF and_ok [OF assms]] by (auto simp: dset_def)

text \<open>One pair of layers, with empty results left out.\<close>

definition pruned_piece where
  "pruned_piece ds A F k s k' s' =
     (let common = v_and M k k' in
      if \<not> v_bool M common then Some []
      else if ds = [] then Some (if F True True then [(common, Empty_Interval)] else [])
      else do { n \<leftarrow> A s s'; Some (if hc_bool n then [(common, n)] else []) })"

lemma pruned_piece_ok:
  assumes l: "lay_ok al d ds ls" "(k, s) \<in> set ls" and l': "lay_ok al d ds ls'" "(k', s') \<in> set ls'"
    and sub: "ds \<noteq> [] \<Longrightarrow> computes al ds A F"
  shows "\<exists>L. pruned_piece ds A F k s k' s' = Some L \<and> piece_ok al ds k k' L \<and>
    (\<forall>p. lay_sem d p L =
       (v_mem M (p d) k \<and> v_mem M (p d) k' \<and> F (hc_sem M p s) (hc_sem M p s')))"
proof -
  note k = lay_ok_memD [OF l] and k' = lay_ok_memD [OF l']
  note mem = common_key(1) [OF k(1) k'(1)] and bool = common_key(2) [OF k(1) k'(1)]
  consider "\<not> v_bool M (v_and M k k')" | "v_bool M (v_and M k k')" "ds = []"
    | "v_bool M (v_and M k k')" "ds \<noteq> []" by blast
  then show ?thesis
  proof cases
    case 1
    then show ?thesis using bool by (auto simp: pruned_piece_def piece_ok_def)
  next
    case 2
    then show ?thesis
      using k(4) k'(4) mem by (simp add: pruned_piece_def piece_ok_def sub_nonempty_def)
  next
    case 3
    then obtain n where n: "A s s' = Some n" "hc_ok M ok al ds n"
      "\<And>p. hc_sem M p n = F (hc_sem M p s) (hc_sem M p s')"
      using sub k(4) k'(4) unfolding computes_def by blast
    note b = node_bool [OF n(2) 3(2)]
    show ?thesis
    proof (cases "hc_bool n")
      case True
      then show ?thesis using 3 n b mem by (simp add: pruned_piece_def piece_ok_def)
    next
      case False
      then show ?thesis using 3 n b(2) mem by (auto simp: pruned_piece_def piece_ok_def)
    qed
  qed
qed

abbreviation piece_of where
  "piece_of ds A F \<equiv> \<lambda>(k, s) (k', s'). pruned_piece ds A F k s k' s'"

lemma pieces_of_total:
  assumes "lay_ok al d ds ls" and "lay_ok al d ds ls'"
    and "ds \<noteq> [] \<Longrightarrow> computes al ds A F"
  shows "\<exists>g. (\<forall>e\<in>set ls. map_opt (piece_of ds A F e) ls' = Some (map (g e) ls')) \<and>
    pieces_ok al d ds ls ls' g \<and> pieces_sem d F ls ls' g"
proof -
  have "\<exists>L. piece_of ds A F (k, s) (k', s') = Some L \<and> piece_ok al ds k k' L \<and>
      (\<forall>p. lay_sem d p L =
         (v_mem M (p d) k \<and> v_mem M (p d) k' \<and> F (hc_sem M p s) (hc_sem M p s')))"
    if "(k, s) \<in> set ls" "(k', s') \<in> set ls'" for k s k' s'
    using pruned_piece_ok [OF assms(1) that(1) assms(2) that(2) assms(3)] by simp
  from pieces_total [OF assms(1,2) this] show ?thesis .
qed

lemma and_node:
  assumes t: "hc_ok M ok al (d # ds) t" and u: "hc_ok M ok al (d # ds) u"
    and dist: "distinct (d # ds)"
    and sub: "ds \<noteq> [] \<Longrightarrow> computes al ds (and_aux M) (\<and>)"
  shows "\<exists>r. and_aux M t u = Some r \<and> aux_result al d ds r (\<and>) t u"
proof -
  obtain c ls c' ls' where tu: "t = HC c al (d # ds) ls" "u = HC c' al (d # ds) ls'"
    and l: "lay_ok al d ds ls" and l': "lay_ok al d ds ls'"
    using t u by (auto simp: hc_ok_Cons)
  obtain g where g: "\<forall>e\<in>set ls. map_opt (piece_of ds (and_aux M) (\<and>) e) ls' = Some (map (g e) ls')"
    "pieces_ok al d ds ls ls' g" "pieces_sem d (\<and>) ls ls' g"
    using pieces_of_total [OF l l' sub] by blast
  have parts: "map_opt (\<lambda>e. map_opt (piece_of ds (and_aux M) (\<and>) e) ls') ls =
      Some (map (\<lambda>e. map (g e) ls') ls)"
    by (rule map_opt_total) (rule g(1) [rule_format])
  let ?R = "concat (map (\<lambda>e. row g e ls') ls)"
  note R = rows_ok [OF g(2)]
  have "dict_of_list (v_eq M) ?R = ?R"
    by (rule dict_of_layers [of d]) (use R in \<open>simp add: lay_ok_def\<close>)
  with parts have "and_aux M t u = Some (HC False al (d # ds) (layer_elements_union M ?R))"
    by (simp add: tu case_prod_unfold comp_def pruned_piece_def Let_def cong: if_cong)
  moreover have "lay_sem d p ?R = (lay_sem d p ls \<and> lay_sem d p ls')" for p
    unfolding rows_sem [OF g(3)] by (auto simp: lay_sem_def)
  ultimately show ?thesis
    using layer_elements_union_ok [OF R] by (simp add: aux_result_def tu)
qed

lemmas and_aux_correct = aux_induct [of _ "and_aux M" "(\<and>)", OF and_node]

lemma sub_node:
  assumes t: "hc_ok M ok al (d # ds) t" and u: "hc_ok M ok al (d # ds) u"
    and dist: "distinct (d # ds)"
    and sub: "ds \<noteq> [] \<Longrightarrow> computes al ds (sub_aux M) (\<lambda>a b. a \<and> \<not> b)"
  shows "\<exists>r. sub_aux M t u = Some r \<and> aux_result al d ds r (\<lambda>a b. a \<and> \<not> b) t u"
proof -
  let ?F = "\<lambda>a b. a \<and> \<not> b"
  obtain c ls c' ls' where tu: "t = HC c al (d # ds) ls" "u = HC c' al (d # ds) ls'"
    and l: "lay_ok al d ds ls" and l': "lay_ok al d ds ls'"
    using t u by (auto simp: hc_ok_Cons)
  obtain g where g: "\<forall>e\<in>set ls. map_opt (piece_of ds (sub_aux M) ?F e) ls' = Some (map (g e) ls')"
    "pieces_ok al d ds ls ls' g" "pieces_sem d ?F ls ls' g"
    using pieces_of_total [OF l l' sub] by blast
  have parts: "map_opt (\<lambda>e. do { commons \<leftarrow> map_opt (piece_of ds (sub_aux M) ?F e) ls';
        Some (concat commons @ keep_remaining M (remaining_self M (fst e) (map fst ls')) (snd e)) }) ls =
      Some (map (\<lambda>e. row_keep g e ls') ls)"
    by (rule map_opt_total) (simp add: g(1))
  let ?R = "concat (map (\<lambda>e. row_keep g e ls') ls)"
  note R = rows_keep_ok(1) [OF g(2)]
  have "dict_of_list (v_eq M) ?R = ?R"
    by (rule dict_of_layers [of d]) (use R in \<open>simp add: lay_ok_def\<close>)
  with parts have "sub_aux M t u = Some (HC False al (d # ds) (layer_elements_union M ?R))"
    by (simp add: tu case_prod_unfold comp_def pruned_piece_def Let_def cong: if_cong)
  moreover have "lay_sem d p ?R = (lay_sem d p ls \<and> \<not> lay_sem d p ls')" for p
    unfolding rows_keep_sem [OF g(2,3)] unfolding lay_sem_ex using lay_unique [OF l'] by blast
  ultimately show ?thesis
    using layer_elements_union_ok [OF R] by (simp add: aux_result_def tu)
qed

lemmas sub_aux_correct = aux_induct [of _ "sub_aux M" "\<lambda>a b. a \<and> \<not> b", OF sub_node]

text \<open>A union keeps every piece: none is empty.\<close>

lemma or_piece:
  assumes l: "lay_ok al d ds ls" "e \<in> set ls" and l': "lay_ok al d ds ls'" "e' \<in> set ls'"
    and dist: "distinct ds" and sub: "ds \<noteq> [] \<Longrightarrow> computes al ds A (\<or>)"
  shows "piece_of ds A (\<or>) e e' =
    (let common = v_and M (fst e) (fst e') in
     if \<not> v_bool M common then Some []
     else if ds = [] then Some [(common, Empty_Interval)]
     else do { n \<leftarrow> A (snd e) (snd e'); Some [(common, n)] })"
proof -
  obtain k s k' s' where e: "e = (k, s)" "e' = (k', s')" by (cases e; cases e')
  note s = lay_ok_memD [OF l(1) l(2) [unfolded e]] and s' = lay_ok_memD [OF l'(1) l'(2) [unfolded e]]
  have "\<exists>n. A s s' = Some n \<and> hc_bool n" if ds: "ds \<noteq> []"
  proof -
    obtain n where n: "A s s' = Some n" "hc_ok M ok al ds n"
      "\<And>p. hc_sem M p n = (hc_sem M p s \<or> hc_sem M p s')"
      using sub ds s(4) s'(4) unfolding computes_def by blast
    obtain p where "hc_sem M p s" using sub_nonempty_sem [OF s(4,5) dist] by blast
    then have "hc_bool n" using n(3) node_bool(2) [OF n(2) ds] by blast
    with n(1) show ?thesis by blast
  qed
  then show ?thesis by (auto simp: e pruned_piece_def Let_def)
qed

lemma or_node:
  assumes t: "hc_ok M ok al (d # ds) t" and u: "hc_ok M ok al (d # ds) u"
    and dist: "distinct (d # ds)"
    and sub: "ds \<noteq> [] \<Longrightarrow> computes al ds (or_aux M) (\<or>)"
  shows "\<exists>r. or_aux M t u = Some r \<and> aux_result al d ds r (\<or>) t u"
proof -
  obtain c ls c' ls' where tu: "t = HC c al (d # ds) ls" "u = HC c' al (d # ds) ls'"
    and l: "lay_ok al d ds ls" and l': "lay_ok al d ds ls'"
    using t u by (auto simp: hc_ok_Cons)
  obtain g where g: "\<forall>e\<in>set ls. map_opt (piece_of ds (or_aux M) (\<or>) e) ls' = Some (map (g e) ls')"
    "pieces_ok al d ds ls ls' g" "pieces_sem d (\<or>) ls ls' g"
    using pieces_of_total [OF l l' sub] by blast
  let ?f = "\<lambda>e e'. let common = v_and M (fst e) (fst e') in
      if \<not> v_bool M common then Some []
      else if ds = [] then Some [(common, Empty_Interval)]
      else do { n \<leftarrow> or_aux M (snd e) (snd e'); Some [(common, n)] }"
  have "map_opt (?f e) ls' = map_opt (piece_of ds (or_aux M) (\<or>) e) ls'" if "e \<in> set ls" for e
    by (rule map_opt_cong [OF refl]) (use or_piece [OF l that l' _ _ sub] dist in simp)
  then have parts: "map_opt (\<lambda>e. do { commons \<leftarrow> map_opt (?f e) ls';
        Some (concat commons @ keep_remaining M (remaining_self M (fst e) (map fst ls')) (snd e)) }) ls =
      Some (map (\<lambda>e. row_keep g e ls') ls)"
    by (intro map_opt_total) (simp add: g(1))
  let ?R = "concat (map (\<lambda>e. row_keep g e ls') ls)"
  let ?keep = "\<lambda>e. keep_remaining M (remaining_other M (fst e) (map fst ls)) (snd e)"
  let ?O = "concat (map ?keep ls')"
  note R = rows_keep_ok [OF g(2)]
  have selves: "\<forall>k\<in>set (map fst ls). ok d k" using l by (auto simp: lay_ok_iff)
  have keep: "lay_ok al d ds (?keep (k', s')) \<and>
      (\<forall>x\<in>set (?keep (k', s')). dset M (fst x) = dset M k' - (\<Union>k\<in>fst ` set ls. dset M k)) \<and>
      (lay_sem d p (?keep (k', s')) \<longleftrightarrow> v_mem M (p d) k' \<and>
         (\<forall>k s. (k, s) \<in> set ls \<longrightarrow> \<not> v_mem M (p d) k) \<and> hc_sem M p s')"
    if "(k', s') \<in> set ls'" for k' s' p
  proof -
    note m = lay_ok_memD [OF l' that]
    note rem = remaining_ok(3,4) [OF m(1) selves]
    note kr = keep_remaining_ok [OF rem(1) m(4,5)]
    have "p d \<in> dset M (remaining_other M k' (map fst ls)) \<longleftrightarrow>
        p d \<in> dset M k' \<and> (\<forall>k s. (k, s) \<in> set ls \<longrightarrow> p d \<notin> dset M k)"
      unfolding rem(2) by force
    then have "lay_sem d p (?keep (k', s')) \<longleftrightarrow> v_mem M (p d) k' \<and>
         (\<forall>k s. (k, s) \<in> set ls \<longrightarrow> \<not> v_mem M (p d) k) \<and> hc_sem M p s'"
      using kr(3) by simp
    with kr(1,2) rem(2) show ?thesis by simp
  qed
  have O: "lay_ok al d ds ?O"
    by (rule lay_ok_concat(1) [OF l']) (use keep in blast)
  have "dset M (fst x) \<inter> dset M (fst y) = {}" if x: "x \<in> set ?R" and y: "y \<in> set ?O" for x y
  proof -
    obtain k where "k \<in> fst ` set ls" "dset M (fst x) \<subseteq> dset M k" using R(2) x by blast
    moreover obtain k' s' where "(k', s') \<in> set ls'" "y \<in> set (?keep (k', s'))" using y by auto
    ultimately show ?thesis using keep [of k' s'] by blast
  qed
  then have RO: "lay_ok al d ds (?R @ ?O)" using R(1) O by (simp add: lay_ok_append)
  have "dict_of_list (v_eq M) (?R @ ?O) = ?R @ ?O"
    by (rule dict_of_layers [of d]) (use RO in \<open>simp add: lay_ok_def\<close>)
  with parts have "or_aux M t u = Some (HC False al (d # ds) (layer_elements_union M (?R @ ?O)))"
    by (simp add: tu case_prod_unfold comp_def Let_def cong: if_cong)
  moreover have "lay_sem d p (?R @ ?O) = (lay_sem d p ls \<or> lay_sem d p ls')" for p
  proof -
    have O_sem: "lay_sem d p ?O \<longleftrightarrow> (\<exists>k' s'. (k', s') \<in> set ls' \<and> v_mem M (p d) k' \<and>
        (\<forall>k s. (k, s) \<in> set ls \<longrightarrow> \<not> v_mem M (p d) k) \<and> hc_sem M p s')"
      unfolding lay_sem_concat_map [of d p _ ls'] using keep by blast
    show ?thesis
      unfolding lay_sem_append rows_keep_sem [OF g(2,3)] O_sem unfolding lay_sem_ex by blast
  qed
  ultimately show ?thesis
    using layer_elements_union_ok [OF RO] by (simp add: aux_result_def tu)
qed

lemmas or_aux_correct = aux_induct [of _ "or_aux M" "(\<or>)", OF or_node]

end

end
