(* ===== verification/Hyper_Cube_Dims.thy ===== *)
theory Hyper_Cube_Dims
  imports Hyper_Cube_Algebra
begin

text \<open>
  Active dimensions of \<open>CanonicalHyperCubeSet\<close>: making dimensions active or inactive keeps the
  points of the space (\<open>_set_active_dimensions\<close>, \<open>build_new_active_dimensions\<close>,
  \<open>_remove_some_active_dimensions\<close>, \<open>reduce_active_dimensions\<close>), and with it the public
  operations \<open>&=\<close>, \<open>|=\<close>, \<open>-=\<close>, \<open>add_cube\<close> and \<open>add_hole\<close>.
\<close>

lemma subseq_subset: "subseq xs ys \<Longrightarrow> set xs \<subseteq> set ys"
  by (metis set_nths_subset subseq_conv_nths)

lemma subseq_filter_eq:
  "distinct ys \<Longrightarrow> subseq xs ys \<Longrightarrow> filter (\<lambda>x. x \<in> set xs) ys = xs"
proof (induction ys arbitrary: xs)
  case (Cons y ys)
  show ?case
  proof (cases "xs \<noteq> [] \<and> hd xs = y")
    case True
    then obtain zs where xs: "xs = y # zs" by (cases xs) auto
    then have zs: "subseq zs ys" using Cons.prems(2) by simp
    have "filter (\<lambda>x. x = y \<or> x \<in> set zs) ys = filter (\<lambda>x. x \<in> set zs) ys"
      by (rule filter_cong) (use Cons.prems(1) in auto)
    then show ?thesis using Cons.IH [OF _ zs] Cons.prems(1) by (simp add: xs)
  next
    case False
    then have zs: "subseq xs ys" using Cons.prems(2) by (cases xs) (auto split: if_splits)
    then have "y \<notin> set xs" using Cons.prems(1) subseq_subset [OF zs] by auto
    then show ?thesis using Cons.IH [OF _ zs] Cons.prems(1) by simp
  qed
qed (auto dest: list_emb_Nil2)

lemma subseq_dims_by_order:
  assumes "distinct al" and "subseq rd ds" and "dims_by_order al ds = ds"
  shows "dims_by_order al rd = rd"
proof -
  have "subseq ds al" using assms(3) unfolding dims_by_order_def by (metis subseq_filter_left)
  with assms(2) have "subseq rd al" by (rule subseq_order.trans)
  with assms(1) show ?thesis unfolding dims_by_order_def by (rule subseq_filter_eq)
qed

text \<open>A point is in a cube when its item is in the cube's value, at each dimension of the cube.\<close>

definition in_cube :: "('v, 'p) dims \<Rightarrow> (dim \<Rightarrow> 'p) \<Rightarrow> dim list \<Rightarrow> 'v list \<Rightarrow> bool" where
  "in_cube M p ds cube \<longleftrightarrow> list_all2 (\<lambda>d k. v_mem M (p d) k) ds cube"

context dim_values
begin

definition domains_known :: "dim list \<Rightarrow> bool" where
  "domains_known al \<longleftrightarrow> (\<forall>d\<in>set al. \<exists>w. dim_domain M d = Some w)"

lemma in_space_mem:
  "in_space M al p \<Longrightarrow> d \<in> set al \<Longrightarrow> dim_domain M d = Some w \<Longrightarrow> v_mem M (p d) w"
  by (fastforce simp: in_space_def list_all_iff)

lemma domain_dset: "dim_domain M d = Some w \<Longrightarrow> ok d w" "dim_domain M d = Some w \<Longrightarrow> dset M w \<noteq> {}"
  using domain_ok bool_law by blast+

lemma lay_ok_single:
  "lay_ok al d ds [(k, s)] \<longleftrightarrow> ok d k \<and> dset M k \<noteq> {} \<and> hc_ok M ok al ds s \<and> sub_nonempty s"
  by (auto simp: lay_ok_iff)

lemma in_map_layers:
  "(k, s') \<in> set (map (\<lambda>(k, s). (k, f k s)) ls) \<longleftrightarrow> (\<exists>s. (k, s) \<in> set ls \<and> s' = f k s)"
  by force

lemma lay_ok_map:
  assumes "lay_ok al d ds ls"
    and "\<And>k s. (k, s) \<in> set ls \<Longrightarrow> hc_ok M ok al es (f k s) \<and> sub_nonempty (f k s)"
  shows "lay_ok al d es (map (\<lambda>(k, s). (k, f k s)) ls)"
proof -
  have "map fst (map (\<lambda>(k, s). (k, f k s)) ls) = map fst ls" by (simp add: comp_def case_prod_unfold)
  moreover have "\<forall>(k, s)\<in>set (map (\<lambda>(k, s). (k, f k s)) ls). hc_ok M ok al es s \<and> sub_nonempty s"
    using assms(2) by auto
  ultimately show ?thesis using assms(1) unfolding lay_ok_def by (simp only:)
qed

lemma lay_sem_map:
  "lay_sem d p (map (\<lambda>(k, s). (k, f k s)) ls) \<longleftrightarrow>
     (\<exists>k s. (k, s) \<in> set ls \<and> v_mem M (p d) k \<and> hc_sem M p (f k s))"
  unfolding lay_sem_ex in_map_layers by blast

definition same_points where
  "same_points al r t \<longleftrightarrow> (\<forall>p. in_space M al p \<longrightarrow> hc_sem M p r = hc_sem M p t)"

definition built where
  "built al new r t \<longleftrightarrow>
     hc_ok M ok al new r \<and> sub_nonempty r \<and> is_props r = is_props t \<and> same_points al r t"

lemma map_opt_layers:
  assumes "\<forall>(k, s)\<in>set ls. \<exists>s'. g s = Some s' \<and> P s' s"
  shows "\<exists>f. map_opt (\<lambda>(k, s). do { s' \<leftarrow> g s; Some (k, s') }) ls = Some (map (\<lambda>(k, s). (k, f s)) ls) \<and>
             (\<forall>(k, s)\<in>set ls. P (f s) s)"
proof (intro exI conjI)
  show "map_opt (\<lambda>(k, s). do { s' \<leftarrow> g s; Some (k, s') }) ls =
      Some (map (\<lambda>(k, s). (k, the (g s))) ls)"
    by (rule map_opt_total) (use assms in fastforce)
  show "\<forall>(k, s)\<in>set ls. P (the (g s)) s" using assms by fastforce
qed

lemma build_new_active_ok:
  assumes "domains_known al" and "set new \<subseteq> set al"
    and "hc_ok M ok al act t" and "act \<noteq> []" and "subseq act new" and "sub_nonempty t"
  shows "\<exists>r. build_new_active M t new = Some r \<and> built al new r t"
  using assms(2-)
proof (induction new arbitrary: act t)
  case Nil
  then show ?case by simp
next
  case (Cons d ds)
  obtain a as where act: "act = a # as" using Cons.prems(3) by (cases act) auto
  obtain c ls where t: "t = HC c al act ls" and l: "lay_ok al a as ls"
    using Cons.prems(2) by (auto simp: act hc_ok_Cons)
  have sub: "set act \<subseteq> set (d # ds)" by (rule subseq_subset [OF Cons.prems(4)])
  obtain w where w: "dim_domain M d = Some w"
    using assms(1) Cons.prems(1) by (auto simp: domains_known_def)
  show ?case
  proof (cases "act = d # ds")
    case True
    then show ?thesis
      using Cons.prems by (simp add: t built_def same_points_def act)
  next
    case new: False
    show ?thesis
    proof (cases "a = d")
      case False
      then have "subseq act ds" using Cons.prems(4) by (simp add: act)
      then obtain r where r: "build_new_active M t ds = Some r" "built al ds r t"
        using Cons.IH [of act t] Cons.prems by auto
      have "build_new_active M t (d # ds) = Some (HC c al (d # ds) [(w, r)])"
        using new False sub r(1) w by (simp add: t act)
      moreover have "built al (d # ds) (HC c al (d # ds) [(w, r)]) t"
        using r(2) domain_dset [OF w] in_space_mem [OF _ _ w] Cons.prems(1)
        by (simp add: built_def lay_ok_single sub_nonempty_def same_points_def t)
      ultimately show ?thesis by blast
    next
      case True
      show ?thesis
      proof (cases "as = []")
        case False
        have as: "subseq as ds" using Cons.prems(4) by (simp add: act True)
        have "\<forall>(k, s)\<in>set ls. \<exists>r. build_new_active M s ds = Some r \<and> built al ds r s"
          using Cons.IH [of as] lay_ok_memD(4,5) [OF l] as False Cons.prems(1) by fastforce
        from map_opt_layers [OF this] obtain f where
          f: "map_opt (\<lambda>(k, s). do { s' \<leftarrow> build_new_active M s ds; Some (k, s') }) ls =
              Some (map (\<lambda>(k, s). (k, f s)) ls)" "\<forall>(k, s)\<in>set ls. built al ds (f s) s"
          by blast
        let ?r = "HC c al (d # ds) (map (\<lambda>(k, s). (k, f s)) ls)"
        have "build_new_active M t (d # ds) = Some ?r"
          using new True False sub f(1) by (simp add: t act)
        moreover have "lay_ok al d ds (map (\<lambda>(k, s). (k, f s)) ls)"
          by (rule lay_ok_map) (use l f(2) True in \<open>auto simp: built_def\<close>)
        moreover have "same_points al ?r t"
          unfolding same_points_def t act True hc_sem_HC lay_sem_map
          using f(2) unfolding lay_sem_ex built_def same_points_def by blast
        ultimately show ?thesis
          using Cons.prems(5) by (auto simp: built_def t sub_nonempty_def)
      next
        case last: True
        then obtain e es where ds: "ds = e # es" using new by (cases ds) (auto simp: act True)
        obtain v where v: "dim_domain M e = Some v"
          using assms(1) Cons.prems(1) by (auto simp: domains_known_def ds)
        let ?s = "HC False al [e] [(v, Empty_Interval)]"
        have s: "hc_ok M ok al [e] ?s"
          using domain_dset [OF v] by (simp add: lay_ok_single sub_nonempty_def)
        then obtain r where r: "build_new_active M ?s ds = Some r" "built al ds r ?s"
          using Cons.IH [of "[e]" ?s] Cons.prems(1) by (auto simp: ds sub_nonempty_def)
        let ?r = "HC c al (d # ds) (map (\<lambda>(k, s). (k, r)) ls)"
        have "build_new_active M t (d # ds) = Some ?r"
          using new True last sub r(1) v by (simp add: t act ds)
        moreover have "lay_ok al d ds (map (\<lambda>(k, s). (k, r)) ls)"
          by (rule lay_ok_map) (use l r(2) True in \<open>auto simp: built_def\<close>)
        moreover have "hc_sem M p r" if "in_space M al p" for p
          using r(2) in_space_mem [OF that _ v] Cons.prems(1) that
          by (simp add: built_def same_points_def ds)
        then have "same_points al ?r t"
          unfolding same_points_def t act True hc_sem_HC lay_sem_map
          using lay_ok_memD(4) [OF l] last unfolding lay_sem_ex by fastforce
        ultimately show ?thesis
          using Cons.prems(5) r(2) by (auto simp: built_def t sub_nonempty_def)
      qed
    qed
  qed
qed

lemma create_from_cube_aux_ok:
  assumes "list_all2 (\<lambda>d k. ok d k \<and> dset M k \<noteq> {}) ds cube" and "ds \<noteq> []"
  shows "\<exists>ls. create_from_cube_aux al cube ds = Some (HC False al ds ls) \<and> ls \<noteq> [] \<and>
    hc_ok M ok al ds (HC False al ds ls) \<and>
    (\<forall>p. hc_sem M p (HC False al ds ls) = list_all2 (\<lambda>d k. v_mem M (p d) k) ds cube)"
  using assms
proof (induction ds arbitrary: cube)
  case Nil
  then show ?case by simp
next
  case (Cons d ds)
  then obtain k cube' where cube: "cube = k # cube'" "ok d k" "dset M k \<noteq> {}"
    "list_all2 (\<lambda>d k. ok d k \<and> dset M k \<noteq> {}) ds cube'"
    by (auto simp: list_all2_Cons1)
  show ?case
  proof (cases "ds = []")
    case True
    then show ?thesis using cube by (simp add: lay_ok_single sub_nonempty_def)
  next
    case False
    then obtain ls where ls: "create_from_cube_aux al cube' ds = Some (HC False al ds ls)" "ls \<noteq> []"
      "hc_ok M ok al ds (HC False al ds ls)"
      "\<forall>p. hc_sem M p (HC False al ds ls) = list_all2 (\<lambda>d k. v_mem M (p d) k) ds cube'"
      using Cons.IH [OF cube(4)] by blast
    moreover from this obtain k' cube'' where "cube' = k' # cube''"
      using False cube(4) by (cases ds; cases cube') auto
    ultimately show ?thesis
      using cube by (simp add: lay_ok_single sub_nonempty_def)
  qed
qed

lemma hc_wf_iff:
  "hc_wf M ok t \<longleftrightarrow> (\<exists>c al act ls. t = HC c al act ls \<and> al \<noteq> [] \<and> distinct al \<and> domains_known al \<and>
     act = dims_by_order al act \<and> (if act = [] then ls = [] else hc_ok M ok al act t))"
  by (cases t) (simp_all add: hc_wf_def domains_known_def list_all_iff)

lemma domains_cube:
  assumes "domains_known al" and "set ds \<subseteq> set al"
  shows "\<exists>cube. map_opt (dim_domain M) ds = Some cube \<and>
    list_all2 (\<lambda>d k. dim_domain M d = Some k) ds cube"
  by (rule map_opt_rel) (use assms in \<open>auto simp: domains_known_def\<close>)

lemma domains_cube_space:
  assumes "list_all2 (\<lambda>d k. dim_domain M d = Some k) ds cube" and "set ds \<subseteq> set al"
    and "in_space M al p"
  shows "list_all2 (\<lambda>d k. v_mem M (p d) k) ds cube"
  using assms(1) by (rule list.rel_mono_strong) (use assms(2,3) in_space_mem in blast)

definition same_cubes where
  "same_cubes r t \<longleftrightarrow> hc_wf M ok r \<and> is_props r = is_props t \<and> all_dims r = all_dims t \<and>
     (hc_bool t \<longrightarrow> hc_bool r) \<and> same_points (all_dims t) r t"

lemma hc_wf_order: "hc_wf M ok t \<Longrightarrow> dims_by_order (all_dims t) (active_dims t) = active_dims t"
  by (auto simp: hc_wf_iff)

lemma set_active_ok:
  assumes t: "hc_wf M ok t" and names: "set names \<subseteq> set (all_dims t)"
    and safe: "hc_bool t \<or> set names \<subseteq> set (active_dims t)"
  shows "\<exists>r. set_active M t names = Some r \<and> same_cubes r t \<and>
    active_dims r = dims_by_order (all_dims t) (active_dims t @ names)"
proof -
  obtain c al act ls where eq: "t = HC c al act ls" and al: "al \<noteq> []" "distinct al" "domains_known al"
    and act: "dims_by_order al act = act" and l: "if act = [] then ls = [] else hc_ok M ok al act t"
    using t by (auto simp: hc_wf_iff)
  show ?thesis
  proof (cases "set names \<subseteq> set act")
    case True
    then have "dims_by_order al (act @ names) = act"
      using dims_by_order_cong [of al "act @ names" act] act by auto
    with True t show ?thesis by (simp add: set_active_def eq same_cubes_def same_points_def)
  next
    case False
    define new where "new = dims_by_order al (act @ names)"
    have set_new: "set new = set act \<union> set names"
      using names act dims_by_order_set [of al act] by (auto simp: new_def dims_by_order_set eq)
    have new: "new \<noteq> []" "set new \<subseteq> set al" "dims_by_order al new = new"
      using False set_new names act dims_by_order_set [of al act] by (auto simp: new_def eq)
    have wf: "hc_wf M ok r" if "r = HC c al new ls'" "hc_ok M ok al new r" for r ls'
      using that al new by (simp add: hc_wf_iff)
    show ?thesis
    proof (cases "act = []")
      case True
      obtain cube where cube: "map_opt (dim_domain M) new = Some cube"
        "list_all2 (\<lambda>d k. dim_domain M d = Some k) new cube"
        using domains_cube [OF al(3) new(2)] by blast
      have "list_all2 (\<lambda>d k. ok d k \<and> dset M k \<noteq> {}) new cube"
        using cube(2) by (rule list.rel_mono_strong) (use domain_dset in blast)
      then obtain ls' where ls': "create_from_cube_aux al cube new = Some (HC False al new ls')" "ls' \<noteq> []"
        "hc_ok M ok al new (HC False al new ls')"
        "\<And>p. hc_sem M p (HC False al new ls') = list_all2 (\<lambda>d k. v_mem M (p d) k) new cube"
        using create_from_cube_aux_ok [OF _ new(1)] by blast
      obtain d ds where nd: "new = d # ds" using new(1) by (cases new) auto
      let ?r = "HC c al new ls'"
      have "set_active M t names = Some ?r"
        using False True cube(1) ls'(1) new(3)
        by (simp add: set_active_def eq new_def [symmetric] entire_space_cube_def Let_def
            del: append.append_Nil) (use True new_def in simp)
      moreover have "hc_ok M ok al new ?r" using ls'(3) by (simp add: nd)
      moreover have "hc_sem M p ?r" if "in_space M al p" for p
        using ls'(4) [of p] domains_cube_space [OF cube(2) new(2) that] by (simp add: nd)
      then have "same_points al ?r t" by (simp add: same_points_def eq True)
      ultimately show ?thesis
        using wf [of ?r ls'] ls'(2) new(1)
        by (auto simp: same_cubes_def eq new_def [symmetric])
    next
      case act_ne: False
      then have ne: "sub_nonempty t" using safe False by (auto simp: eq sub_nonempty_def)
      have "subseq act new"
        using dims_by_order_subseq [of al act "act @ names"] act by (auto simp: new_def)
      then obtain r where r: "build_new_active M t new = Some r" "built al new r t"
        using build_new_active_ok [OF al(3) new(2), of act t] l act_ne ne by auto
      then obtain ls' where r_eq: "r = HC c al new ls'"
        using new(1) by (cases new) (auto simp: built_def hc_ok_Cons eq)
      have "set_active M t names = Some r"
        using False act_ne r(1) by (simp add: set_active_def eq new_def Let_def)
      then show ?thesis
        using r(2) wf [OF r_eq] new(1)
        by (auto simp: built_def same_cubes_def r_eq eq new_def [symmetric] sub_nonempty_def)
    qed
  qed
qed

lemma same_cubes_refl: "hc_wf M ok t \<Longrightarrow> same_cubes t t"
  by (simp add: same_cubes_def same_points_def)

lemma prepare_common_ok:
  assumes t: "hc_wf M ok t" and u: "hc_wf M ok u" and al: "all_dims u = all_dims t"
    and ne: "hc_bool u" and safe: "hc_bool t \<or> set (active_dims u) \<subseteq> set (active_dims t)"
  shows "\<exists>t' u'. prepare_common M t u = Some (t', u') \<and> same_cubes t' t \<and> same_cubes u' u \<and>
    active_dims t' = dims_by_order (all_dims t) (active_dims t @ active_dims u) \<and>
    active_dims u' = active_dims t'"
proof -
  let ?al = "all_dims t" and ?at = "active_dims t" and ?au = "active_dims u"
  have order: "dims_by_order ?al ?at = ?at" "dims_by_order ?al ?au = ?au"
    using hc_wf_order [OF t] hc_wf_order [OF u] al by auto
  then have sub: "set ?at \<subseteq> set ?al" "set ?au \<subseteq> set ?al"
    using dims_by_order_set [of ?al ?at] dims_by_order_set [of ?al ?au] by auto
  show ?thesis
  proof (cases "?at = ?au")
    case True
    moreover have "dims_by_order ?al (?at @ ?au) = ?at"
      using dims_by_order_cong [of ?al "?at @ ?au" ?at] True order by auto
    ultimately show ?thesis
      using t u by (auto simp: prepare_common_def same_cubes_refl)
  next
    case False
    let ?req = "?at @ ?au"
    obtain t' where t': "set_active M t ?req = Some t'" "same_cubes t' t"
      "active_dims t' = dims_by_order ?al (?at @ ?req)"
      using set_active_ok [OF t, of ?req] sub safe by auto
    then have at': "active_dims t' = dims_by_order ?al ?req"
      using dims_by_order_cong [of ?al "?at @ ?req" ?req] by auto
    show ?thesis
    proof (cases "set ?au = set ?req")
      case True
      then have "dims_by_order ?al ?req = ?au"
        using dims_by_order_cong [of ?al ?req ?au] order by auto
      then show ?thesis
        using False True t' at' u by (auto simp: prepare_common_def same_cubes_refl Let_def)
    next
      case not_all: False
      obtain u' where u': "set_active M u ?req = Some u'" "same_cubes u' u"
        "active_dims u' = dims_by_order ?al (?au @ ?req)"
        using set_active_ok [OF u, of ?req] sub ne al by auto
      then have "active_dims u' = dims_by_order ?al ?req"
        using dims_by_order_cong [of ?al "?au @ ?req" ?req] by auto
      then show ?thesis
        using False not_all t' at' u' by (auto simp: prepare_common_def Let_def)
    qed
  qed
qed

section \<open>Making dimensions inactive\<close>

text \<open>The dimensions left out of \<open>new\<close> have their whole domain in every cube.\<close>

fun all_full :: "dim list \<Rightarrow> 'v hcs \<Rightarrow> bool" where
  "all_full new Empty_Interval = True"
| "all_full new (HC c al act ls) =
     ((case act of [] \<Rightarrow> True
       | d # _ \<Rightarrow> d \<in> set new \<or>
           (\<exists>w. dim_domain M d = Some w \<and> list_all (\<lambda>(k, s). v_eq M w k) ls)) \<and>
      list_all (\<lambda>(k, s). all_full new s) ls)"

lemma all_full_node [simp]:
  "all_full new (HC c al (d # ds) ls) \<longleftrightarrow>
     (d \<in> set new \<or> (\<exists>w. dim_domain M d = Some w \<and> (\<forall>(k, s)\<in>set ls. v_eq M w k))) \<and>
     (\<forall>(k, s)\<in>set ls. all_full new s)"
  by (simp add: list_all_iff)

declare all_full.simps(2) [simp del]

lemma full_layer_single:
  assumes "lay_ok al d ds ls" and "dim_domain M d = Some w" and "\<forall>(k, s)\<in>set ls. v_eq M w k"
    and "ls \<noteq> []"
  obtains k s where "ls = [(k, s)]" and "dset M k = dset M w"
proof -
  have full: "dset M k = dset M w" if "(k, s) \<in> set ls" for k s
    using that assms(3) lay_ok_memD(1) [OF assms(1) that] eq_law [of d w k] domain_dset [OF assms(2)]
    by auto
  obtain k s ls' where ls: "ls = (k, s) # ls'" using assms(4) by (cases ls) auto
  have "ls' = []"
  proof (rule ccontr)
    assume "ls' \<noteq> []"
    then obtain k' s' where "(k', s') \<in> set ls'" by (cases ls') auto
    note k' = this
    have "dset M k \<inter> dset M k' = {}" using assms(1) k' by (fastforce simp: ls lay_ok_iff)
    moreover have "dset M k = dset M w" "dset M k' = dset M w"
      using full [of k s] full [of k' s'] k' by (auto simp: ls)
    ultimately show False using domain_dset [OF assms(2)] by simp
  qed
  then show thesis using that ls full [of k s] by simp
qed

lemma all_full_sem:
  assumes "hc_ok M ok al act t" and "sub_nonempty t" and "all_full [] t" and "in_space M al p"
    and "set act \<subseteq> set al"
  shows "hc_sem M p t"
  using assms
proof (induction act arbitrary: t)
  case Nil
  then show ?case by simp
next
  case (Cons d ds)
  then obtain c ls where t: "t = HC c al (d # ds) ls" "lay_ok al d ds ls" by (auto simp: hc_ok_Cons)
  then obtain w where w: "dim_domain M d = Some w" "\<forall>(k, s)\<in>set ls. v_eq M w k"
    using Cons.prems(3) by auto
  obtain k s where ls: "ls = [(k, s)]" "dset M k = dset M w"
    using full_layer_single [OF t(2) w] Cons.prems(2) by (auto simp: t sub_nonempty_def)
  have "v_mem M (p d) k" using in_space_mem [OF Cons.prems(4) _ w(1)] Cons.prems(5) ls(2)
    by (auto simp: dset_def)
  moreover have "hc_sem M p s"
    using Cons.IH [of s] Cons.prems t ls(1) by (auto simp: lay_ok_single)
  ultimately show ?case by (simp add: t ls)
qed

lemma remove_some_active_ok:
  assumes "hc_ok M ok al act t" and "sub_nonempty t" and "all_full new t"
    and "subseq new act" and "new \<noteq> []" and "distinct act" and "set act \<subseteq> set al"
  shows "\<exists>r. remove_some_active M t new = Some r \<and> built al new r t"
  using assms
proof (induction act arbitrary: t new)
  case Nil
  then show ?case by simp
next
  case (Cons d ds)
  obtain c ls where t: "t = HC c al (d # ds) ls" and l: "lay_ok al d ds ls"
    using Cons.prems(1) by (auto simp: hc_ok_Cons)
  have ne: "ls \<noteq> []" using Cons.prems(2) by (simp add: t sub_nonempty_def)
  obtain n ns where new: "new = n # ns" using Cons.prems(5) by (cases new) auto
  have sub: "set new \<subseteq> set (d # ds)" by (rule subseq_subset [OF Cons.prems(4)])
  note unfold = remove_some_active.simps [of M t new]
  consider "new = d # ds" | "new \<noteq> d # ds" "n = d" "ns \<noteq> []" | "new \<noteq> d # ds" "n = d" "ns = []"
    | "n \<noteq> d" by blast
  then show ?case
  proof cases
    case 1
    then show ?thesis
      using Cons.prems unfold by (simp add: t built_def same_points_def subset_insertI)
  next
    case 2
    have ns: "subseq ns ds" using Cons.prems(4) by (simp add: new 2)
    have full: "all_full ns s" if "(k, s) \<in> set ls" for k s
    proof -
      have "all_full new s" using Cons.prems(3) that by (auto simp: t)
      moreover have "d \<notin> set ds" using Cons.prems(6) by simp
      ultimately show ?thesis using lay_ok_memD(4) [OF l that]
      proof (induction ds arbitrary: s)
        case (Cons e es)
        then obtain c' ls' where s: "s = HC c' al (e # es) ls'" "lay_ok al e es ls'"
          by (auto simp: hc_ok_Cons)
        have "all_full ns s'" if "(k', s') \<in> set ls'" for k' s'
          using Cons.IH [of s'] Cons.prems lay_ok_memD(4) [OF s(2) that] that by (auto simp: s)
        then show ?case using Cons.prems by (auto simp: s new 2)
      qed simp
    qed
    have "\<forall>(k, s)\<in>set ls. \<exists>r. remove_some_active M s ns = Some r \<and> built al ns r s"
    proof (safe)
      fix k s
      assume m: "(k, s) \<in> set ls"
      show "\<exists>r. remove_some_active M s ns = Some r \<and> built al ns r s"
        by (rule Cons.IH) (use lay_ok_memD [OF l m] full [OF m] ns 2 Cons.prems in auto)
    qed
    from map_opt_layers [OF this] obtain f where
      f: "map_opt (\<lambda>(k, s). do { s' \<leftarrow> remove_some_active M s ns; Some (k, s') }) ls =
          Some (map (\<lambda>(k, s). (k, f s)) ls)" "\<forall>(k, s)\<in>set ls. built al ns (f s) s"
      by blast
    let ?r = "HC c al new (map (\<lambda>(k, s). (k, f s)) ls)"
    have "remove_some_active M t new = Some ?r"
      using 2 f(1) sub unfold by (simp add: t new)
    moreover have "lay_ok al d ns (map (\<lambda>(k, s). (k, f s)) ls)"
      by (rule lay_ok_map) (use l f(2) in \<open>auto simp: built_def\<close>)
    moreover have "same_points al ?r t"
      unfolding same_points_def t new 2 hc_sem_HC lay_sem_map
      using f(2) unfolding lay_sem_ex built_def same_points_def by blast
    ultimately show ?thesis
      using ne by (auto simp: built_def t new 2 sub_nonempty_def)
  next
    case 3
    let ?r = "HC c al new (map (\<lambda>(k, s). (k, Empty_Interval)) ls)"
    have "remove_some_active M t new = Some ?r"
      using 3 sub unfold by (simp add: t new)
    moreover have "lay_ok al d [] (map (\<lambda>(k, s). (k, Empty_Interval)) ls)"
      using lay_ok_map [OF l, of "[]" "\<lambda>_ _. Empty_Interval"] by (simp add: sub_nonempty_def)
    moreover have "same_points al ?r t"
    proof -
      have "hc_sem M p s" if m: "(k, s) \<in> set ls" and p: "in_space M al p" for k s p
      proof (rule all_full_sem [OF lay_ok_memD(4,5) [OF l m] _ p])
        show "set ds \<subseteq> set al" using Cons.prems(7) by simp
        have "all_full [d] s" using Cons.prems(3) m by (auto simp: t new 3)
        moreover have "d \<notin> set ds" using Cons.prems(6) by simp
        ultimately show "all_full [] s" using lay_ok_memD(4) [OF l m]
        proof (induction ds arbitrary: s)
          case (Cons e es)
          then obtain c' ls' where s: "s = HC c' al (e # es) ls'" "lay_ok al e es ls'"
            by (auto simp: hc_ok_Cons)
          have "all_full [] s'" if "(k', s') \<in> set ls'" for k' s'
            using Cons.IH [of s'] Cons.prems lay_ok_memD(4) [OF s(2) that] that by (auto simp: s)
          then show ?case using Cons.prems by (auto simp: s)
        qed simp
      qed
      then have "lay_sem d p (map (\<lambda>(k, s). (k, Empty_Interval)) ls) = lay_sem d p ls"
        if "in_space M al p" for p
        unfolding lay_sem_map [of d p "\<lambda>_ _. Empty_Interval" ls] unfolding lay_sem_ex
        using that by (simp only: hc_sem.simps(1) simp_thms) blast
      then show ?thesis
        unfolding same_points_def t new 3 hc_sem_HC by blast
    qed
    ultimately show ?thesis
      using ne by (auto simp: built_def t new 3 sub_nonempty_def)
  next
    case 4
    then have ds: "subseq new ds" using Cons.prems(4) by (simp add: new)
    then have d: "d \<notin> set new" using subseq_subset [OF ds] Cons.prems(6) by auto
    obtain w where w: "dim_domain M d = Some w" "\<forall>(k, s)\<in>set ls. v_eq M w k"
      using Cons.prems(3) d by (auto simp: t)
    obtain k s where ls: "ls = [(k, s)]" "dset M k = dset M w"
      by (rule full_layer_single [OF l w ne])
    obtain e es where es: "ds = e # es" using ds new by (cases ds) auto
    obtain c' ls' where s: "s = HC c' al ds ls'" "lay_ok al e es ls'" "ls' \<noteq> []"
      using l ls by (auto simp: lay_ok_single es hc_ok_Cons sub_nonempty_def)
    have "dict_of_list (v_eq M) ls' = ls'"
      by (rule dict_of_layers [of e]) (use s(2) in \<open>simp add: lay_ok_def\<close>)
    then have "remove_some_active M t new = remove_some_active M (HC c al ds ls') new"
      using 4 sub unfold s(1) ls(1) by (simp add: t new)
    moreover obtain r where "remove_some_active M (HC c al ds ls') new = Some r"
      "built al new r (HC c al ds ls')"
      using Cons.IH [of "HC c al ds ls'" new] Cons.prems s ds
      by (auto simp: es t ls sub_nonempty_def)
    moreover have "same_points al (HC c al ds ls') t"
      using ls(2) in_space_mem [OF _ _ w(1)] Cons.prems(7)
      by (auto simp: same_points_def t ls s es dset_def)
    ultimately show ?thesis by (auto simp: built_def t same_points_def)
  qed
qed

section \<open>Which dimensions are reduced\<close>

fun keys_at :: "dim \<Rightarrow> 'v hcs \<Rightarrow> 'v set" where
  "keys_at e Empty_Interval = {}"
| "keys_at e (HC c al act ls) =
     (if act \<noteq> [] \<and> hd act = e then fst ` set ls else {}) \<union> (\<Union>(k, s)\<in>set ls. keys_at e s)"

definition dvals :: "(dim \<times> 'v list) list \<Rightarrow> dim \<Rightarrow> 'v set" where
  "dvals res e = (case dict_get (=) res e of None \<Rightarrow> {} | Some vs \<Rightarrow> set vs)"

lemma merge_values_ok:
  assumes "distinct (map fst res)" and "distinct (map fst sub)"
  shows "distinct (map fst (merge_values res sub)) \<and>
    (\<forall>e. dvals (merge_values res sub) e = dvals res e \<union> dvals sub e) \<and>
    fst ` set (merge_values res sub) = fst ` set res \<union> fst ` set sub"
  using assms
proof (induction res sub rule: merge_values.induct)
  case (2 res d vs rest)
  let ?v = "case dict_get (=) res d of None \<Rightarrow> vs | Some us \<Rightarrow> us @ vs"
  let ?res = "dict_set (=) res d ?v"
  have d: "distinct (map fst ?res)" by (rule dict_set_distinct [OF 2(2)])
  have rest: "distinct (map fst rest)" "dict_get (=) rest d = None"
    using 2(3) dict_get_None_iff [of rest d] by auto
  have "dvals ?res e \<union> dvals rest e = dvals res e \<union> dvals ((d, vs) # rest) e" for e
    using rest(2) by (auto simp: dvals_def dict_get_set_eq split: option.splits)
  with 2(1) [OF d rest(1)] show ?case by (simp add: dict_set_keys)
qed (simp add: dvals_def)

lemma values_per_dim_ok:
  assumes "hc_ok M ok al act t"
  shows "distinct (map fst (values_per_dim t)) \<and> (\<forall>e. dvals (values_per_dim t) e = keys_at e t) \<and>
    fst ` set (values_per_dim t) \<subseteq> set act"
  using assms
proof (induction act arbitrary: t)
  case Nil
  then show ?case by (simp add: dvals_def)
next
  case (Cons d ds)
  then obtain c ls where t: "t = HC c al (d # ds) ls" "lay_ok al d ds ls" by (auto simp: hc_ok_Cons)
  let ?first = "[(d, map fst ls)]"
  have first: "dvals ?first e = (if d = e then fst ` set ls else {})" for e
    by (simp add: dvals_def)
  show ?case
  proof (cases "ds = []")
    case True
    have "keys_at e s = {}" if "(k, s) \<in> set ls" for k s e
      using lay_ok_memD(4) [OF t(2) that] True by simp
    then have "(\<Union>(k, s)\<in>set ls. keys_at e s) = {}" for e by blast
    with True first show ?thesis by (simp add: t)
  next
    case False
    have sub: "distinct (map fst (values_per_dim s)) \<and>
        (\<forall>e. dvals (values_per_dim s) e = keys_at e s) \<and> fst ` set (values_per_dim s) \<subseteq> set ds"
      if "(k, s) \<in> set ls" for k s
      using Cons.IH lay_ok_memD(4) [OF t(2) that] by blast
    have "distinct (map fst (foldl merge_values res (map (\<lambda>(k, s). values_per_dim s) xs))) \<and>
        (\<forall>e. dvals (foldl merge_values res (map (\<lambda>(k, s). values_per_dim s) xs)) e =
             dvals res e \<union> (\<Union>(k, s)\<in>set xs. keys_at e s)) \<and>
        fst ` set (foldl merge_values res (map (\<lambda>(k, s). values_per_dim s) xs)) \<subseteq> set (d # ds)"
      if "distinct (map fst res)" "fst ` set res \<subseteq> set (d # ds)" "set xs \<subseteq> set ls" for res xs
      using that
    proof (induction xs arbitrary: res)
      case (Cons x xs)
      obtain k s where x: "x = (k, s)" by (cases x)
      have s: "distinct (map fst (values_per_dim s))"
        "\<forall>e. dvals (values_per_dim s) e = keys_at e s" "fst ` set (values_per_dim s) \<subseteq> set ds"
        using sub [of k s] Cons.prems(3) by (auto simp: x)
      note m = merge_values_ok [OF Cons.prems(1) s(1)]
      have "fst ` set (merge_values res (values_per_dim s)) \<subseteq> set (d # ds)"
        using m s(3) Cons.prems(2) by auto
      with Cons.IH [of "merge_values res (values_per_dim s)"] m s(2) Cons.prems(3)
      show ?case by (simp add: x Un_assoc)
    qed simp
    from this [of ?first ls] first False show ?thesis by (simp add: t)
  qed
qed

lemma dims_to_reduce_ok:
  assumes "hc_ok M ok al act t" and "domains_known al" and "set act \<subseteq> set al"
  shows "\<exists>names. dims_to_reduce M (values_per_dim t) = Some names \<and> set names \<subseteq> set act \<and>
    (\<forall>d. d \<in> set names \<longleftrightarrow>
      (\<exists>w. dim_domain M d = Some w \<and> keys_at d t \<noteq> {} \<and> (\<forall>k\<in>keys_at d t. v_eq M w k)))"
proof -
  note vals = values_per_dim_ok [OF assms(1)]
  let ?f = "\<lambda>(d, vs). if vs \<noteq> [] \<and> list_all (v_eq M (the (dim_domain M d))) vs then [d] else []"
  have known: "\<exists>w. dim_domain M d = Some w" if "(d, vs) \<in> set (values_per_dim t)" for d vs
    using that vals assms(2,3) unfolding domains_known_def by force
  have keys: "set vs = keys_at d t" if "(d, vs) \<in> set (values_per_dim t)" for d vs
  proof -
    have "dict_get (=) (values_per_dim t) d = Some vs"
      using dict_get_distinct [OF _ that] vals by blast
    then have "set vs = dvals (values_per_dim t) d" by (simp add: dvals_def)
    then show ?thesis using vals by simp
  qed
  have mem: "\<exists>vs. (d, vs) \<in> set (values_per_dim t)" if "keys_at d t \<noteq> {}" for d
    using vals that dict_get_Some [of "(=)" "values_per_dim t" d]
    by (metis dvals_def option.case_eq_if option.collapse)
  have "map_opt (\<lambda>(d, vs). do { dom \<leftarrow> dim_domain M d;
      Some (if vs \<noteq> [] \<and> list_all (v_eq M dom) vs then [d] else []) }) (values_per_dim t) =
      Some (map ?f (values_per_dim t))"
    by (rule map_opt_total) (use known in fastforce)
  then have eq: "dims_to_reduce M (values_per_dim t) = Some (concat (map ?f (values_per_dim t)))"
    unfolding dims_to_reduce_def by simp
  have in_names: "d \<in> set (concat (map ?f (values_per_dim t))) \<longleftrightarrow>
      (\<exists>vs. (d, vs) \<in> set (values_per_dim t) \<and> vs \<noteq> [] \<and> list_all (v_eq M (the (dim_domain M d))) vs)"
    for d by (auto split: if_splits)
  have "d \<in> set (concat (map ?f (values_per_dim t))) \<longleftrightarrow>
      (\<exists>w. dim_domain M d = Some w \<and> keys_at d t \<noteq> {} \<and> (\<forall>k\<in>keys_at d t. v_eq M w k))" for d
  proof
    assume "d \<in> set (concat (map ?f (values_per_dim t)))"
    then obtain vs where vs: "(d, vs) \<in> set (values_per_dim t)" "vs \<noteq> []"
      "list_all (v_eq M (the (dim_domain M d))) vs" unfolding in_names by blast
    obtain w where "dim_domain M d = Some w" using known vs(1) by blast
    with vs keys [OF vs(1)] show "\<exists>w. dim_domain M d = Some w \<and> keys_at d t \<noteq> {} \<and>
        (\<forall>k\<in>keys_at d t. v_eq M w k)" by (auto simp: list_all_iff)
  next
    assume "\<exists>w. dim_domain M d = Some w \<and> keys_at d t \<noteq> {} \<and> (\<forall>k\<in>keys_at d t. v_eq M w k)"
    then obtain w where w: "dim_domain M d = Some w" "keys_at d t \<noteq> {}"
      "\<forall>k\<in>keys_at d t. v_eq M w k" by blast
    obtain vs where "(d, vs) \<in> set (values_per_dim t)" using mem w(2) by blast
    with keys w show "d \<in> set (concat (map ?f (values_per_dim t)))"
      unfolding in_names by (force simp: list_all_iff)
  qed
  moreover have "set (concat (map ?f (values_per_dim t))) \<subseteq> set act"
    using vals in_names by fastforce
  ultimately show ?thesis using eq by blast
qed

lemma all_fullI:
  assumes "hc_ok M ok al act t"
    and "\<And>d. d \<in> set act \<Longrightarrow> d \<notin> set new \<Longrightarrow>
      \<exists>w. dim_domain M d = Some w \<and> (\<forall>k\<in>keys_at d t. v_eq M w k)"
  shows "all_full new t"
  using assms
proof (induction act arbitrary: t)
  case (Cons d ds)
  then obtain c ls where t: "t = HC c al (d # ds) ls" "lay_ok al d ds ls" by (auto simp: hc_ok_Cons)
  have "all_full new s" if m: "(k, s) \<in> set ls" for k s
  proof (rule Cons.IH [OF lay_ok_memD(4) [OF t(2) m]])
    fix e
    assume "e \<in> set ds" "e \<notin> set new"
    then obtain w where "dim_domain M e = Some w" "\<forall>k\<in>keys_at e t. v_eq M w k"
      using Cons.prems(2) [of e] by auto
    moreover have "keys_at e s \<subseteq> keys_at e t" using m by (auto simp: t)
    ultimately show "\<exists>w. dim_domain M e = Some w \<and> (\<forall>k\<in>keys_at e s. v_eq M w k)" by blast
  qed
  moreover have "\<exists>w. dim_domain M d = Some w \<and> (\<forall>(k, s)\<in>set ls. v_eq M w k)" if n: "d \<notin> set new"
  proof -
    obtain w where w: "dim_domain M d = Some w" "\<forall>k\<in>keys_at d t. v_eq M w k"
      using Cons.prems(2) [of d] n by auto
    have "fst ` set ls \<subseteq> keys_at d t" by (simp add: t)
    then have "\<forall>(k, s)\<in>set ls. v_eq M w k" using w(2) by force
    with w(1) show ?thesis by blast
  qed
  ultimately show ?case unfolding t all_full_node by blast
qed simp

lemma reduce_active_ok:
  assumes t: "hc_wf M ok t"
  shows "\<exists>r. reduce_active M t = Some r \<and> same_cubes r t"
proof (cases "hc_bool t \<and> active_dims t \<noteq> []")
  case False
  then show ?thesis using t by (auto simp: reduce_active_def same_cubes_refl)
next
  case True
  obtain c al act ls where eq: "t = HC c al act ls" and al: "al \<noteq> []" "distinct al" "domains_known al"
    and act: "dims_by_order al act = act" and l: "if act = [] then ls = [] else hc_ok M ok al act t"
    using t by (auto simp: hc_wf_iff)
  have act_ne: "act \<noteq> []" and ne: "sub_nonempty t" and ok: "hc_ok M ok al act t"
    using True l by (auto simp: eq sub_nonempty_def)
  have sub: "set act \<subseteq> set al" using dims_by_order_set [of al act] act by auto
  obtain names where names: "dims_to_reduce M (values_per_dim t) = Some names" "set names \<subseteq> set act"
    "\<forall>d. d \<in> set names \<longleftrightarrow>
      (\<exists>w. dim_domain M d = Some w \<and> keys_at d t \<noteq> {} \<and> (\<forall>k\<in>keys_at d t. v_eq M w k))"
    using dims_to_reduce_ok [OF ok al(3) sub] by blast
  define rest where "rest = filter (\<lambda>d. d \<notin> set (dims_by_order al names)) act"
  define new where "new = dims_by_order al rest"
  have set_rest: "set rest = set act - set names"
    using names(2) sub by (auto simp: rest_def dims_by_order_set)
  have set_new: "set new = set act - set names"
    using set_rest sub by (auto simp: new_def dims_by_order_set)
  have full: "all_full new t"
    by (rule all_fullI [OF ok]) (use names(3) set_new in auto)
  have red: "reduce_active M t = set_inactive M t (dims_by_order al names)"
    using True names(1) by (simp add: reduce_active_def eq)
  show ?thesis
  proof (cases "new = []")
    case True
    then have "all_full [] t" using full by simp
    then have "same_points al (HC c al [] []) t"
      using all_full_sem [OF ok ne _ _ sub] by (auto simp: same_points_def)
    moreover have "hc_wf M ok (HC c al [] [])" using al by (simp add: hc_wf_iff dims_by_order_def)
    ultimately show ?thesis
      using red True by (simp add: set_inactive_def eq new_def rest_def Let_def same_cubes_def)
  next
    case False
    have "subseq new act"
      using dims_by_order_subseq [of al rest act] act set_rest by (auto simp: new_def)
    moreover have "distinct act" using distinct_dims_by_order [OF al(2), of act] act by simp
    ultimately obtain r where r: "remove_some_active M t new = Some r" "built al new r t"
      using remove_some_active_ok [OF ok ne full _ False _ sub] by blast
    then obtain ls' where r_eq: "r = HC c al new ls'"
      using False by (cases new) (auto simp: built_def hc_ok_Cons eq)
    have "reduce_active M t = Some r"
      using red False r(1) by (simp add: set_inactive_def eq new_def rest_def Let_def)
    moreover have "dims_by_order al new = new" by (simp add: new_def)
    moreover have "hc_ok M ok al new r" using r(2) by (simp add: built_def)
    then have "hc_wf M ok r"
      unfolding hc_wf_iff using r_eq al False \<open>dims_by_order al new = new\<close> by simp
    ultimately show ?thesis
      using r(2) False by (auto simp: built_def same_cubes_def r_eq eq sub_nonempty_def)
  qed
qed

section \<open>The public operations\<close>

definition result_of where
  "result_of F r t u \<longleftrightarrow> hc_wf M ok r \<and> is_props r = is_props t \<and> all_dims r = all_dims t \<and>
     (\<forall>p. in_space M (all_dims t) p \<longrightarrow> hc_sem M p r = F (hc_sem M p t) (hc_sem M p u))"

lemma hc_wf_HC [simp]:
  "hc_wf M ok (HC c al act ls) \<longleftrightarrow> al \<noteq> [] \<and> distinct al \<and> domains_known al \<and>
     act = dims_by_order al act \<and> (if act = [] then ls = [] else hc_ok M ok al act (HC c al act ls))"
  by (auto simp: hc_wf_iff)

lemma not_bool_sem: "hc_wf M ok t \<Longrightarrow> \<not> hc_bool t \<Longrightarrow> \<not> hc_sem M p t"
  by (cases "active_dims t") (auto simp: hc_wf_iff split: if_splits)

lemma is_all_sem: "hc_wf M ok t \<Longrightarrow> is_all t \<Longrightarrow> hc_sem M p t"
  by (auto simp: hc_wf_iff)

lemma dims_by_order_all [simp]: "dims_by_order al al = al"
  by (simp add: dims_by_order_def)

lemma clear_ok:
  assumes "hc_wf M ok t"
  shows "hc_wf M ok (hc_clear t)" "\<not> hc_sem M p (hc_clear t)"
    "is_props (hc_clear t) = is_props t" "all_dims (hc_clear t) = all_dims t" "\<not> hc_bool (hc_clear t)"
    "active_dims (hc_clear t) = all_dims t"
proof -
  obtain c al act ls where t: "t = HC c al act ls" "al \<noteq> []" "distinct al" "domains_known al"
    using assms by (auto simp: hc_wf_iff)
  obtain d ds where "al = d # ds" using t(2) by (cases al) auto
  with t show "hc_wf M ok (hc_clear t)" "\<not> hc_sem M p (hc_clear t)"
    "is_props (hc_clear t) = is_props t" "all_dims (hc_clear t) = all_dims t" "\<not> hc_bool (hc_clear t)"
    "active_dims (hc_clear t) = all_dims t"
    by auto
qed

lemma override_by_other_ok:
  assumes "hc_wf M ok t" and "hc_wf M ok u" and "all_dims u = all_dims t"
  shows "hc_wf M ok (override_by t u) \<and> is_props (override_by t u) = is_props t \<and>
    all_dims (override_by t u) = all_dims t \<and> hc_sem M p (override_by t u) = hc_sem M p u \<and>
    hc_bool (override_by t u) = hc_bool u"
proof -
  obtain c al act ls c' act' ls' where t: "t = HC c al act ls" and u: "u = HC c' al act' ls'"
    using assms by (auto simp: hc_wf_iff)
  show ?thesis using assms(2) by (cases act') (auto simp: t u)
qed

text \<open>The common part of the operations: align the operands, combine, reduce.\<close>

lemma remove_some_active_dims: "remove_some_active M t new = Some r \<Longrightarrow> active_dims r = new"
proof (induction M t new rule: remove_some_active.induct)
  case (1 M t new)
  then show ?case
    by (subst (asm) (3) remove_some_active.simps) (auto split: hcs.splits if_splits bind_splits)
qed

lemma reduce_active_dims:
  assumes "reduce_active M t = Some r"
  shows "set (active_dims r) \<subseteq> set (active_dims t)"
proof -
  have "set (active_dims r) \<subseteq> set (active_dims t)" if "set_inactive M t names = Some r" for names
    using that remove_some_active_dims
    by (auto simp: set_inactive_def Let_def dims_by_order_set split: hcs.splits if_splits)
  then show ?thesis using assms by (auto simp: reduce_active_def split: if_splits bind_splits)
qed

lemma combine_ok:
  assumes t: "hc_wf M ok t" and u: "hc_wf M ok u" and al: "all_dims u = all_dims t"
    and ne: "hc_bool u" and safe: "hc_bool t \<or> set (active_dims u) \<subseteq> set (active_dims t)"
    and act: "active_dims t \<noteq> [] \<or> active_dims u \<noteq> []"
    and A: "\<And>d ds t u. hc_ok M ok (all_dims t) (d # ds) t \<Longrightarrow> hc_ok M ok (all_dims t) (d # ds) u \<Longrightarrow>
      distinct (d # ds) \<Longrightarrow> \<exists>r. A t u = Some r \<and> aux_result (all_dims t) d ds r F t u"
  shows "\<exists>r. do { (t', u') \<leftarrow> prepare_common M t u; r \<leftarrow> A t' u'; reduce_active M (override_by t' r) } = Some r \<and>
    result_of F r t u \<and> (hc_bool r \<or> set (active_dims r) = set (active_dims t) \<union> set (active_dims u)) \<and>
    set (active_dims r) \<subseteq> set (active_dims t) \<union> set (active_dims u)"
proof -
  obtain t' u' where c: "prepare_common M t u = Some (t', u')" "same_cubes t' t" "same_cubes u' u"
    "active_dims t' = dims_by_order (all_dims t) (active_dims t @ active_dims u)"
    "active_dims u' = active_dims t'"
    using prepare_common_ok [OF t u al ne safe] by blast
  have "set (active_dims t) \<subseteq> set (all_dims t)" "set (active_dims u) \<subseteq> set (all_dims t)"
    using hc_wf_order [OF t] hc_wf_order [OF u] al dims_by_order_set by (metis inf_le1)+
  then have union_act: "set (active_dims t') = set (active_dims t) \<union> set (active_dims u)"
    by (auto simp: c(4) dims_by_order_set)
  then have "active_dims t' \<noteq> []" using act by auto
  then obtain d ds where act': "active_dims t' = d # ds" by (cases "active_dims t'") auto
  have wf: "hc_wf M ok t'" "hc_wf M ok u'" "all_dims t' = all_dims t" "all_dims u' = all_dims t"
    using c(2,3) al by (auto simp: same_cubes_def)
  have ok: "hc_ok M ok (all_dims t') (d # ds) t'" "hc_ok M ok (all_dims t') (d # ds) u'"
    using wf act' c(5) by (auto simp: hc_wf_iff)
  have dist: "distinct (d # ds)"
    using c(4) act' wf(1) distinct_dims_by_order [of "all_dims t"] t by (auto simp: hc_wf_iff)
  obtain r where r: "A t' u' = Some r" "aux_result (all_dims t') d ds r F t' u'"
    using A [OF ok dist] by blast
  define s where "s = override_by t' r"
  have s: "hc_wf M ok s" "is_props s = is_props t" "all_dims s = all_dims t"
    "\<And>p. hc_sem M p s = F (hc_sem M p t') (hc_sem M p u')" "active_dims s = d # ds"
  proof -
    obtain ls where r_eq: "r = HC False (all_dims t') (d # ds) ls" "lay_ok (all_dims t') d ds ls"
      and sem: "\<And>p. hc_sem M p r = F (hc_sem M p t') (hc_sem M p u')"
      using r(2) by (auto simp: aux_result_def)
    obtain c al ls' where t'_eq: "t' = HC c al (d # ds) ls'"
      using wf(1) act' by (auto simp: hc_wf_iff)
    have al: "al \<noteq> []" "distinct al" "domains_known al" "d # ds = dims_by_order al (d # ds)"
      using wf(1) by (simp_all add: t'_eq)
    have s_eq: "s = HC c al (d # ds) ls" by (simp add: s_def t'_eq r_eq(1))
    show "hc_wf M ok s" using r_eq(2) al by (simp add: s_eq t'_eq)
    show "active_dims s = d # ds" by (simp add: s_eq)
    show "is_props s = is_props t" "all_dims s = all_dims t"
      using c(2) by (simp_all add: s_eq t'_eq same_cubes_def)
    show "hc_sem M p s = F (hc_sem M p t') (hc_sem M p u')" for p
      using sem [of p] by (simp add: s_eq r_eq(1))
  qed
  obtain r' where r': "reduce_active M s = Some r'" "same_cubes r' s"
    using reduce_active_ok [OF s(1)] by blast
  have "do { (t', u') \<leftarrow> prepare_common M t u; r \<leftarrow> A t' u'; reduce_active M (override_by t' r) } = Some r'"
    using c(1) r(1) r'(1) by (simp add: s_def)
  moreover have "result_of F r' t u"
    using r'(2) s c(2,3) al by (simp add: result_of_def same_cubes_def same_points_def)
  moreover have "set (active_dims r') \<subseteq> set (active_dims t) \<union> set (active_dims u)"
    using reduce_active_dims [OF r'(1)] union_act act' s(5) by simp
  moreover have "hc_bool r' \<or> set (active_dims r') = set (active_dims t) \<union> set (active_dims u)"
  proof (cases "hc_bool s")
    case True
    then show ?thesis using r'(2) by (simp add: same_cubes_def)
  next
    case False
    then have "r' = s" using r'(1) by (simp add: reduce_active_def)
    then show ?thesis using union_act act' s(5) by simp
  qed
  ultimately show ?thesis by blast
qed

lemma not_all_active: "hc_wf M ok t \<Longrightarrow> \<not> is_all t \<Longrightarrow> active_dims t \<noteq> []"
  by (auto simp: hc_wf_iff)

lemma hc_iand_ok:
  assumes t: "hc_wf M ok t" and u: "hc_wf M ok u" and al: "all_dims u = all_dims t"
  shows "\<exists>r. hc_iand M t u = Some r \<and> result_of (\<and>) r t u"
proof -
  consider "is_all u" | "\<not> is_all u" "\<not> hc_bool u \<or> \<not> hc_bool t"
    | "\<not> is_all u" "hc_bool u" "hc_bool t" "is_all t"
    | "\<not> is_all u" "hc_bool u" "hc_bool t" "\<not> is_all t" by blast
  then show ?thesis
  proof cases
    case 1
    then show ?thesis using t is_all_sem [OF u] by (simp add: hc_iand_def result_of_def)
  next
    case 2
    then show ?thesis
      using clear_ok [OF t] not_bool_sem [OF t] not_bool_sem [OF u]
      by (auto simp: hc_iand_def result_of_def)
  next
    case 3
    then show ?thesis
      using override_by_other_ok [OF t u al] is_all_sem [OF t]
      by (simp add: hc_iand_def result_of_def)
  next
    case 4
    then show ?thesis
      unfolding hc_iand_def
      using combine_ok [OF t u al 4(2), where A = "and_aux M" and F = "(\<and>)"] not_all_active [OF t]
        and_aux_correct
      by auto
  qed
qed

lemma set_all_ok:
  assumes "hc_wf M ok t"
  shows "hc_wf M ok (hc_set_all t) \<and> hc_sem M p (hc_set_all t) \<and>
    is_props (hc_set_all t) = is_props t \<and> all_dims (hc_set_all t) = all_dims t"
  using assms by (auto simp: hc_wf_iff dims_by_order_def)

lemma hc_ior_ok:
  assumes t: "hc_wf M ok t" and u: "hc_wf M ok u" and al: "all_dims u = all_dims t"
  shows "\<exists>r. hc_ior M t u = Some r \<and> result_of (\<or>) r t u"
proof -
  consider "is_all u \<or> is_all t" | "\<not> is_all u" "\<not> is_all t" "\<not> hc_bool u"
    | "\<not> is_all u" "\<not> is_all t" "hc_bool u" "\<not> hc_bool t"
    | "\<not> is_all u" "\<not> is_all t" "hc_bool u" "hc_bool t" by blast
  then show ?thesis
  proof cases
    case 1
    then show ?thesis
      using set_all_ok [OF t] is_all_sem [OF t] is_all_sem [OF u]
      by (auto simp: hc_ior_def result_of_def)
  next
    case 2
    then show ?thesis using t not_bool_sem [OF u] by (simp add: hc_ior_def result_of_def)
  next
    case 3
    then show ?thesis
      using override_by_other_ok [OF t u al] not_bool_sem [OF t]
      by (simp add: hc_ior_def result_of_def)
  next
    case 4
    then show ?thesis
      unfolding hc_ior_def
      using combine_ok [OF t u al 4(3), where A = "or_aux M" and F = "(\<or>)"] not_all_active [OF t]
        or_aux_correct
      by auto
  qed
qed

text \<open>
  Subtraction has no guard for an empty left operand: it must then have the dimensions of the
  right one, or making them active would give it a layer.
\<close>

lemma hc_isub_ok:
  assumes t: "hc_wf M ok t" and u: "hc_wf M ok u" and al: "all_dims u = all_dims t"
    and safe: "hc_bool t \<or> set (active_dims u) \<subseteq> set (active_dims t)"
  shows "\<exists>r. hc_isub M t u = Some r \<and> result_of (\<lambda>a b. a \<and> \<not> b) r t u"
proof -
  let ?t = "if is_all u then hc_clear t else t"
  have t': "hc_wf M ok ?t" "is_props ?t = is_props t" "all_dims ?t = all_dims t"
    "\<And>p. (hc_sem M p ?t \<and> \<not> hc_sem M p u) = (hc_sem M p t \<and> \<not> hc_sem M p u)"
    using t clear_ok [OF t] is_all_sem [OF u] by auto
  show ?thesis
  proof (cases "hc_bool u")
    case False
    then have "\<not> is_all u" using u by (auto simp: hc_wf_iff)
    then show ?thesis
      using False t not_bool_sem [OF u] by (simp add: hc_isub_def result_of_def)
  next
    case True
    have act: "active_dims ?t \<noteq> [] \<or> active_dims u \<noteq> []"
      using clear_ok(6) [OF t] t not_all_active [OF u] by (auto simp: hc_wf_iff)
    have "hc_bool ?t \<or> set (active_dims u) \<subseteq> set (active_dims ?t)"
      using safe u by (auto simp: hc_wf_iff)
    then obtain r where "do { (t', u') \<leftarrow> prepare_common M ?t u; r \<leftarrow> sub_aux M t' u';
        reduce_active M (override_by t' r) } = Some r" "result_of (\<lambda>a b. a \<and> \<not> b) r ?t u"
      using combine_ok [OF t'(1) u _ True _ act, where A = "sub_aux M" and F = "\<lambda>a b. a \<and> \<not> b"]
        al t'(3) sub_aux_correct by auto
    then show ?thesis
      using True t' by (auto simp: hc_isub_def Let_def result_of_def)
  qed
qed

text \<open>An empty difference keeps the dimensions of the right operand, so more can be subtracted.\<close>

lemma hc_isub_active:
  assumes t: "hc_wf M ok t" and u: "hc_wf M ok u" and al: "all_dims u = all_dims t"
    and safe: "hc_bool t \<or> set (active_dims u) \<subseteq> set (active_dims t)" and ne: "hc_bool u"
    and r: "hc_isub M t u = Some r"
  shows "hc_bool r \<or> set (active_dims t) \<union> set (active_dims u) \<subseteq> set (active_dims r)"
    and "\<not> is_all u \<Longrightarrow> set (active_dims r) \<subseteq> set (active_dims t) \<union> set (active_dims u)"
proof -
  let ?t = "if is_all u then hc_clear t else t"
  have t': "hc_wf M ok ?t" "all_dims ?t = all_dims t" using t clear_ok [OF t] by auto
  have act: "active_dims ?t \<noteq> [] \<or> active_dims u \<noteq> []"
    using clear_ok(6) [OF t] t not_all_active [OF u] by (auto simp: hc_wf_iff)
  have "hc_bool ?t \<or> set (active_dims u) \<subseteq> set (active_dims ?t)"
    using safe u by (auto simp: hc_wf_iff)
  then have *: "(hc_bool r \<or> set (active_dims r) = set (active_dims ?t) \<union> set (active_dims u)) \<and>
      set (active_dims r) \<subseteq> set (active_dims ?t) \<union> set (active_dims u)"
    using combine_ok [OF t'(1) u _ ne _ act, where A = "sub_aux M" and F = "\<lambda>a b. a \<and> \<not> b"]
      al t'(2) sub_aux_correct r ne by (auto simp: hc_isub_def Let_def)
  have "set (active_dims t) \<subseteq> set (all_dims t)" using hc_wf_order [OF t] dims_by_order_set by (metis inf_le1)
  moreover have "is_all u \<Longrightarrow> set (active_dims ?t) = set (all_dims t)" using clear_ok(6) [OF t] by simp
  ultimately show "hc_bool r \<or> set (active_dims t) \<union> set (active_dims u) \<subseteq> set (active_dims r)"
    using * by (cases "is_all u") auto
  show "\<not> is_all u \<Longrightarrow> set (active_dims r) \<subseteq> set (active_dims t) \<union> set (active_dims u)"
    using * by simp
qed

text \<open>Nothing is left of an empty set, or after the whole space is taken away.\<close>

lemma set_active_same:
  "t \<noteq> Empty_Interval \<Longrightarrow> set names \<subseteq> set (active_dims t) \<Longrightarrow> set_active M t names = Some t"
  by (cases t) (simp_all add: set_active_def)

lemma hc_isub_empty:
  assumes t: "hc_wf M ok t" "\<not> hc_bool t" and u: "hc_wf M ok u" and sub: "set (active_dims u) \<subseteq> set (active_dims t)"
    and r: "hc_isub M t u = Some r"
  shows "\<not> hc_bool r"
proof (cases "hc_bool u")
  case False
  then show ?thesis using t r u by (auto simp: hc_isub_def Let_def hc_wf_iff split: if_splits)
next
  case True
  define t1 where "t1 = (if is_all u then hc_clear t else t)"
  obtain c al act where t1: "t1 = HC c al act []" "act \<noteq> []"
    by (cases "is_all u") (use t that in \<open>auto simp: t1_def hc_wf_iff split: if_splits\<close>)
  have sub1: "set (active_dims u) \<subseteq> set act"
    using sub t(1) t1 dims_by_order_set [of "all_dims t" "active_dims t"] hc_wf_order [OF t(1)]
    by (cases t) (auto simp: t1_def split: if_splits)
  obtain u' where u': "prepare_common M t1 u = Some (t1, u')"
  proof (cases "active_dims t1 = active_dims u")
    case True
    then show ?thesis using that by (simp add: prepare_common_def)
  next
    case False
    have "set_active M t1 (active_dims t1 @ active_dims u) = Some t1"
      by (rule set_active_same) (use t1 sub1 in auto)
    with r True False that show ?thesis
      by (auto simp: hc_isub_def Let_def prepare_common_def t1_def [symmetric] split: if_splits bind_splits)
  qed
  then obtain w where w: "sub_aux M t1 u' = Some w" "reduce_active M (override_by t1 w) = Some r"
    using r True by (auto simp: hc_isub_def Let_def t1_def [symmetric] split: bind_splits)
  then have "w = HC False al act []"
    by (cases u') (auto simp: t1 layer_elements_union_def dict_of_list_def split: if_splits)
  then show ?thesis using w(2) t1 by (auto simp: reduce_active_def)
qed

lemma hc_ior_active:
  assumes t: "hc_wf M ok t" and u: "hc_wf M ok u" and al: "all_dims u = all_dims t"
    and r: "hc_ior M t u = Some r"
  shows "\<not> hc_bool u \<and> r = t \<or>
    set (active_dims r) \<subseteq>
      (if hc_bool t then set (active_dims t) else {}) \<union> (if hc_bool u then set (active_dims u) else {})"
proof -
  consider "is_all u \<or> is_all t" | "\<not> is_all u" "\<not> is_all t" "\<not> hc_bool u"
    | "\<not> is_all u" "\<not> is_all t" "hc_bool u" "\<not> hc_bool t"
    | "\<not> is_all u" "\<not> is_all t" "hc_bool u" "hc_bool t" by blast
  then show ?thesis
  proof cases
    case 1
    then show ?thesis using t r by (auto simp: hc_ior_def hc_wf_iff)
  next
    case 2
    then show ?thesis using r by (simp add: hc_ior_def)
  next
    case 3
    have "t \<noteq> Empty_Interval" "u \<noteq> Empty_Interval" using t u by (auto simp: hc_wf_def)
    then show ?thesis using 3 r by (cases t; cases u) (auto simp: hc_ior_def)
  next
    case 4
    then show ?thesis
      using combine_ok [OF t u al 4(3), where A = "or_aux M" and F = "(\<or>)"] not_all_active [OF t]
        or_aux_correct r
      by (auto simp: hc_ior_def)
  qed
qed

section \<open>Cubes\<close>

lemma reduce_cube_ok:
  assumes "list_all2 (\<lambda>d k. ok d k) ds cube" and "domains_known ds"
  shows "(\<exists>k\<in>set cube. dset M k = {}) \<and> reduce_cube M cube ds = Some None \<or>
    (\<exists>rc rd. reduce_cube M cube ds = Some (Some (rc, rd)) \<and> subseq rd ds \<and>
       list_all2 (\<lambda>d k. ok d k \<and> dset M k \<noteq> {}) rd rc \<and>
       (\<forall>p. in_space M ds p \<longrightarrow> in_cube M p rd rc = in_cube M p ds cube))"
  using assms
proof (induction ds arbitrary: cube)
  case Nil
  then show ?case by (simp add: in_cube_def)
next
  case (Cons d ds)
  then obtain v vs where cube: "cube = v # vs" "ok d v" "list_all2 (\<lambda>d k. ok d k) ds vs"
    by (auto simp: list_all2_Cons1)
  obtain w where w: "dim_domain M d = Some w" using Cons.prems(2) by (auto simp: domains_known_def)
  have known: "domains_known ds" using Cons.prems(2) by (simp add: domains_known_def)
  have full: "dim_is_full M d w v \<longleftrightarrow> dset M v = dset M w" by (rule full_law [OF w cube(2)])
  show ?case
  proof (cases "v_bool M v")
    case False
    then show ?thesis using w bool_law [OF cube(2)] by (auto simp: cube)
  next
    case True
    then have ne: "dset M v \<noteq> {}" using bool_law [OF cube(2)] by simp
    from Cons.IH [OF cube(3) known] show ?thesis
    proof (elim disjE exE)
      assume "(\<exists>k\<in>set vs. dset M k = {}) \<and> reduce_cube M vs ds = Some None"
      then show ?thesis using True w by (simp add: cube)
    next
      fix rc rd
      assume r: "reduce_cube M vs ds = Some (Some (rc, rd)) \<and> subseq rd ds \<and>
         list_all2 (\<lambda>d k. ok d k \<and> dset M k \<noteq> {}) rd rc \<and>
         (\<forall>p. in_space M ds p \<longrightarrow> in_cube M p rd rc = in_cube M p ds vs)"
      have "v_mem M (p d) v" if "dim_is_full M d w v" "in_space M (d # ds) p" for p
        using in_space_mem [OF that(2) _ w] that(1) full by (auto simp: dset_def)
      moreover have "in_space M ds p" if "in_space M (d # ds) p" for p
        using that by (simp add: in_space_def)
      ultimately show ?thesis
        using r True w ne cube(2) by (auto simp: cube in_cube_def)
    qed
  qed
qed

lemma create_from_cube_ok:
  assumes "al \<noteq> []" and "distinct al" and known: "domains_known al"
    and order: "dims_by_order al ds = ds" and cube: "list_all2 (\<lambda>d k. ok d k) ds cube" "cube \<noteq> []"
  shows "\<exists>r. create_from_cube M al cube ds = Some r \<and> hc_wf M ok r \<and> all_dims r = al \<and>
    is_props r = False \<and> (set (active_dims r) \<subseteq> set ds \<or> \<not> hc_bool r) \<and>
    (\<forall>p. in_space M al p \<longrightarrow> hc_sem M p r = in_cube M p ds cube)"
proof -
  have sub: "set ds \<subseteq> set al" using order dims_by_order_set [of al ds] by auto
  have known': "domains_known ds" using known sub by (auto simp: domains_known_def)
  have len: "length cube = length ds" using cube(1) by (simp add: list_all2_lengthD)
  have space: "in_space M ds p" if "in_space M al p" for p
    using that sub by (auto simp: in_space_def list_all_iff)
  have wf_new: "hc_wf M ok (hc_new al allow)" for allow
    using assms(1-3) by (cases al) (auto simp: hc_new_def dims_by_order_def)
  from reduce_cube_ok [OF cube(1) known'] show ?thesis
  proof (elim disjE exE)
    assume e: "(\<exists>k\<in>set cube. dset M k = {}) \<and> reduce_cube M cube ds = Some None"
    then obtain i where "i < length cube" "dset M (cube ! i) = {}"
      by (metis in_set_conv_nth)
    then have "\<not> in_cube M p ds cube" for p
      unfolding in_cube_def list_all2_conv_all_nth dset_def by auto
    moreover have "\<not> hc_bool (hc_new al False)" using assms(1) by (simp add: hc_new_def)
    moreover have "create_from_cube M al cube ds = Some (hc_new al False)"
      using e cube(2) len by (simp add: create_from_cube_def)
    ultimately show ?thesis
      using wf_new [of False] not_bool_sem [OF wf_new [of False]] by (simp add: hc_new_def)
  next
    fix rc rd
    assume r: "reduce_cube M cube ds = Some (Some (rc, rd)) \<and> subseq rd ds \<and>
         list_all2 (\<lambda>d k. ok d k \<and> dset M k \<noteq> {}) rd rc \<and>
         (\<forall>p. in_space M ds p \<longrightarrow> in_cube M p rd rc = in_cube M p ds cube)"
    show ?thesis
    proof (cases "rd = []")
      case True
      then have "create_from_cube M al cube ds = Some (hc_new al True)"
        using r cube(2) len by (simp add: create_from_cube_def)
      moreover have "in_cube M p ds cube" if "in_space M al p" for p
        using r True space [OF that] by (auto simp: in_cube_def)
      ultimately show ?thesis using wf_new [of True] by (simp add: hc_new_def)
    next
      case False
      then obtain ls where ls: "create_from_cube_aux al rc rd = Some (HC False al rd ls)" "ls \<noteq> []"
        "hc_ok M ok al rd (HC False al rd ls)"
        "\<And>p. hc_sem M p (HC False al rd ls) = in_cube M p rd rc"
        using create_from_cube_aux_ok [of rd rc al] r unfolding in_cube_def by blast
      have "subseq rd ds" using r by blast
      then have "dims_by_order al rd = rd"
        using subseq_dims_by_order [OF assms(2)] order by metis
      moreover have "rc \<noteq> []" using r False by auto
      then have "create_from_cube M al cube ds = Some (HC False al rd ls)"
        using r cube(2) len ls(1) by (simp add: create_from_cube_def)
      ultimately show ?thesis
        using ls False assms(1,2) known r space subseq_subset [of rd ds] by simp
    qed
  qed
qed

lemma hc_copy_or: "hc_or M t u = hc_ior M t u" and hc_copy_and: "hc_and M t u = hc_iand M t u"
  and hc_copy_sub: "hc_sub M t u = hc_isub M t u"
  by (simp_all add: hc_or_def hc_and_def hc_sub_def)

text \<open>The dimensions of a cube: the given ones, or as many of all dimensions as it has values.\<close>

abbreviation cube_dims where
  "cube_dims t cube ds \<equiv> (case ds of None \<Rightarrow> take (length cube) (all_dims t) | Some ds \<Rightarrow> ds)"

lemma in_cube_empty:
  assumes "list_all2 (\<lambda>d k. ok d k) ds cube" and "list_ex (\<lambda>v. \<not> v_bool M v) cube"
  shows "\<not> in_cube M p ds cube"
proof -
  obtain i where i: "i < length cube" "\<not> v_bool M (cube ! i)"
    using assms(2) by (auto simp: list_ex_length)
  moreover have "ok (ds ! i) (cube ! i)" "length ds = length cube"
    using assms(1) i(1) by (auto simp: list_all2_conv_all_nth)
  ultimately have "dset M (cube ! i) = {}" using bool_law by blast
  with i(1) show ?thesis by (auto simp: in_cube_def list_all2_conv_all_nth dset_def)
qed

lemma override_result:
  assumes "hc_wf M ok t" and "result_of F r t u"
  shows "override_by t r = r"
  using assms by (auto simp: result_of_def hc_wf_iff)

lemma hc_add_cube_ok:
  assumes t: "hc_wf M ok t" and ds: "ds = cube_dims t cube dims"
    and order: "dims_by_order (all_dims t) ds = ds"
    and cube: "list_all2 (\<lambda>d k. ok d k) ds cube" "cube \<noteq> []"
  shows "\<exists>r. hc_add_cube M t cube dims = Some r \<and>
    hc_wf M ok r \<and> all_dims r = all_dims t \<and> is_props r = is_props t \<and>
    (\<forall>p. in_space M (all_dims t) p \<longrightarrow> hc_sem M p r = (hc_sem M p t \<or> in_cube M p ds cube))"
proof (cases "list_ex (\<lambda>v. \<not> v_bool M v) cube")
  case True
  then show ?thesis using t in_cube_empty [OF cube(1)] by (simp add: hc_add_cube_def)
next
  case False
  have "all_dims t \<noteq> []" "distinct (all_dims t)" "domains_known (all_dims t)"
    using t by (auto simp: hc_wf_iff)
  from create_from_cube_ok [OF this order cube]
  obtain c where c: "create_from_cube M (all_dims t) cube ds = Some c" "hc_wf M ok c"
    "all_dims c = all_dims t"
    "\<And>p. in_space M (all_dims t) p \<Longrightarrow> hc_sem M p c = in_cube M p ds cube"
    by blast
  obtain r where r: "hc_ior M t c = Some r" "result_of (\<or>) r t c"
    using hc_ior_ok [OF t c(2,3)] by blast
  have "hc_add_cube M t cube dims = Some r"
    using False cube(2) c(1) r(1) override_result [OF t r(2)]
    by (simp add: hc_add_cube_def ds [symmetric] hc_copy_or del: override_by.simps)
  then show ?thesis using r(2) c(4) by (auto simp: result_of_def)
qed

lemma hc_add_hole_ok:
  assumes t: "hc_wf M ok t" and ds: "ds = cube_dims t hole dims"
    and order: "dims_by_order (all_dims t) ds = ds"
    and hole: "list_all2 (\<lambda>d k. ok d k) ds hole" "hole \<noteq> []"
    and safe: "hc_bool t \<or> set ds \<subseteq> set (active_dims t)"
  shows "\<exists>r. hc_add_hole M t hole dims = Some r \<and>
    hc_wf M ok r \<and> all_dims r = all_dims t \<and> is_props r = is_props t \<and>
    (\<forall>p. in_space M (all_dims t) p \<longrightarrow> hc_sem M p r = (hc_sem M p t \<and> \<not> in_cube M p ds hole))"
proof (cases "list_ex (\<lambda>v. \<not> v_bool M v) hole")
  case True
  then show ?thesis using t in_cube_empty [OF hole(1)] by (simp add: hc_add_hole_def)
next
  case False
  have "all_dims t \<noteq> []" "distinct (all_dims t)" "domains_known (all_dims t)"
    using t by (auto simp: hc_wf_iff)
  from create_from_cube_ok [OF this order hole]
  obtain c where c: "create_from_cube M (all_dims t) hole ds = Some c" "hc_wf M ok c"
    "all_dims c = all_dims t" "set (active_dims c) \<subseteq> set ds \<or> \<not> hc_bool c"
    "\<And>p. in_space M (all_dims t) p \<Longrightarrow> hc_sem M p c = in_cube M p ds hole"
    by blast
  have "\<exists>r. hc_isub M t c = Some r \<and> result_of (\<lambda>a b. a \<and> \<not> b) r t c"
  proof (cases "hc_bool c")
    case True
    then have "hc_bool t \<or> set (active_dims c) \<subseteq> set (active_dims t)" using c(4) safe by auto
    then show ?thesis by (rule hc_isub_ok [OF t c(2,3)])
  next
    case False
    then have "\<not> is_all c" using c(2) by (auto simp: hc_wf_iff)
    then show ?thesis
      using False t not_bool_sem [OF c(2)] by (simp add: hc_isub_def result_of_def)
  qed
  then obtain r where r: "hc_isub M t c = Some r" "result_of (\<lambda>a b. a \<and> \<not> b) r t c" by blast
  have "hc_add_hole M t hole dims = Some r"
    using False hole(2) c(1) r(1) override_result [OF t r(2)]
    by (simp add: hc_add_hole_def ds [symmetric] hc_copy_sub del: override_by.simps)
  then show ?thesis using r(2) c(5) by (auto simp: result_of_def)
qed

text \<open>A cube without full dimensions has exactly its dimensions active.\<close>

lemma reduce_cube_id:
  assumes "list_all2 (\<lambda>d k. v_bool M k \<and> (\<exists>w. dim_domain M d = Some w \<and> \<not> dim_is_full M d w k)) ds cube"
  shows "reduce_cube M cube ds = Some (Some (cube, ds))"
  using assms
proof (induction ds arbitrary: cube)
  case (Cons d ds)
  then show ?case by (auto simp: list_all2_Cons1)
qed simp

lemma create_aux_active:
  "create_from_cube_aux al cube ds = Some r \<Longrightarrow> active_dims r = ds \<and> hc_bool r"
  by (induction al cube ds arbitrary: r rule: create_from_cube_aux.induct) (auto split: bind_splits)

lemma hc_add_cube_active:
  assumes cube: "list_all2 (\<lambda>d k. v_bool M k \<and> (\<exists>w. dim_domain M d = Some w \<and> \<not> dim_is_full M d w k)) ds cube"
    "cube \<noteq> []" and t: "hc_wf M ok t" "\<not> hc_bool t" and r: "hc_add_cube M t cube (Some ds) = Some r"
  shows "active_dims r = ds \<and> hc_bool r"
proof -
  have ne: "\<not> list_ex (\<lambda>v. \<not> v_bool M v) cube" and len: "length cube = length ds"
    using cube(1) by (auto simp: list_ex_length list_all2_conv_all_nth)
  have "create_from_cube M al cube ds = create_from_cube_aux al cube ds" for al
    using cube(2) len by (simp add: create_from_cube_def reduce_cube_id [OF cube(1)])
  then obtain c s where c: "create_from_cube_aux (all_dims t) cube ds = Some c"
    and s: "hc_or M t c = Some s" and r': "r = override_by t s"
    using r ne cube(2) by (auto simp: hc_add_cube_def split: bind_splits)
  have act: "active_dims c = ds" "hc_bool c" using create_aux_active [OF c] by auto
  have "ds \<noteq> []" using cube(2) len by auto
  then obtain b al' ls where ceq: "c = HC b al' ds ls" using act by (cases c) auto
  obtain a al act' ls' where teq: "t = HC a al act' ls'" using t by (auto simp: hc_wf_iff)
  then have "act' \<noteq> []" using t(2) by auto
  have "s = override_by t c"
    using s t(2) act(2) \<open>ds \<noteq> []\<close> \<open>act' \<noteq> []\<close> by (simp add: hc_or_def hc_ior_def ceq teq)
  then show ?thesis using act(2) by (simp add: r' ceq teq)
qed

section \<open>What the callers see\<close>

lemma hc_and_points:
  assumes "hc_wf M ok t" and "hc_wf M ok u" and "all_dims u = all_dims t"
  shows "\<exists>r. hc_and M t u = Some r \<and> hc_wf M ok r \<and> all_dims r = all_dims t \<and> is_props r = is_props t \<and>
    (\<forall>p. in_space M (all_dims t) p \<longrightarrow> hc_sem M p r = (hc_sem M p t \<and> hc_sem M p u))"
  using hc_iand_ok [OF assms] unfolding result_of_def hc_copy_and by blast

lemma hc_or_points:
  assumes "hc_wf M ok t" and "hc_wf M ok u" and "all_dims u = all_dims t"
  shows "\<exists>r. hc_or M t u = Some r \<and> hc_wf M ok r \<and> all_dims r = all_dims t \<and> is_props r = is_props t \<and>
    (\<forall>p. in_space M (all_dims t) p \<longrightarrow> hc_sem M p r = (hc_sem M p t \<or> hc_sem M p u))"
  using hc_ior_ok [OF assms] unfolding result_of_def hc_copy_or by blast

lemma hc_sub_points:
  assumes "hc_wf M ok t" and "hc_wf M ok u" and "all_dims u = all_dims t"
    and "hc_bool t \<or> set (active_dims u) \<subseteq> set (active_dims t)"
  shows "\<exists>r. hc_sub M t u = Some r \<and> hc_wf M ok r \<and> all_dims r = all_dims t \<and> is_props r = is_props t \<and>
    (\<forall>p. in_space M (all_dims t) p \<longrightarrow> hc_sem M p r = (hc_sem M p t \<and> \<not> hc_sem M p u))"
  using hc_isub_ok [OF assms] unfolding result_of_def hc_copy_sub by blast

lemma set_active_points:
  assumes "hc_wf M ok t" and "set names \<subseteq> set (all_dims t)" and "hc_bool t"
  shows "\<exists>r. set_active M t names = Some r \<and> hc_wf M ok r \<and>
    active_dims r = dims_by_order (all_dims t) (active_dims t @ names) \<and>
    (\<forall>p. in_space M (all_dims t) p \<longrightarrow> hc_sem M p r = hc_sem M p t)"
  using set_active_ok [OF assms(1,2)] assms(3) unfolding same_cubes_def same_points_def by blast

lemma reduce_active_points:
  assumes "hc_wf M ok t"
  shows "\<exists>r. reduce_active M t = Some r \<and> hc_wf M ok r \<and> all_dims r = all_dims t \<and>
    (\<forall>p. in_space M (all_dims t) p \<longrightarrow> hc_sem M p r = hc_sem M p t)"
  using reduce_active_ok [OF assms] unfolding same_cubes_def same_points_def by blast

end

end
