(* ===== verification/Dimensions.thy ===== *)
theory Dimensions
  imports Interval_Sets Min_DFA Hyper_Cube_Dims
begin

text \<open>
  \<open>nca/CoreDS/DimensionsManager.py\<close>: the table of dimension names, and the values of a
  dimension: interval sets or automata. The table with the automata package gives the methods the
  cube sets call (record \<open>dims\<close>); the contract \<open>dim_values\<close> holds for every valid table.
\<close>

section \<open>Values\<close>

datatype dim_type = IntervalSet | DFA

datatype 'f dim_value = Intervals "int interval_set" | Automaton "'f min_dfa"

datatype item = Num int | Word string

text \<open>
  The operands of an operation are values of one dimension and have its type; on operands of
  different types Python raises, and the functions here return the first operand.
\<close>

fun dv_and :: "'f fsm_ops \<Rightarrow> 'f dim_value \<Rightarrow> 'f dim_value \<Rightarrow> 'f dim_value" where
  "dv_and F (Intervals a) (Intervals b) = Intervals (iset_and a b)"
| "dv_and F (Automaton a) (Automaton b) = Automaton (dfa_and F a b)"
| "dv_and F v _ = v"

fun dv_or :: "'f fsm_ops \<Rightarrow> 'f dim_value \<Rightarrow> 'f dim_value \<Rightarrow> 'f dim_value" where
  "dv_or F (Intervals a) (Intervals b) = Intervals (iset_or a b)"
| "dv_or F (Automaton a) (Automaton b) = Automaton (dfa_or F a b)"
| "dv_or F v _ = v"

fun dv_sub :: "'f fsm_ops \<Rightarrow> 'f dim_value \<Rightarrow> 'f dim_value \<Rightarrow> 'f dim_value" where
  "dv_sub F (Intervals a) (Intervals b) = Intervals (iset_sub a b)"
| "dv_sub F (Automaton a) (Automaton b) = Automaton (dfa_sub F a b)"
| "dv_sub F v _ = v"

fun dv_eq :: "'f fsm_ops \<Rightarrow> 'f dim_value \<Rightarrow> 'f dim_value \<Rightarrow> bool" where
  "dv_eq F (Intervals a) (Intervals b) = (a = b)"
| "dv_eq F (Automaton a) (Automaton b) = dfa_eq F a b"
| "dv_eq F _ _ = False"

fun dv_bool :: "'f fsm_ops \<Rightarrow> 'f dim_value \<Rightarrow> bool" where
  "dv_bool F (Intervals a) = (a \<noteq> [])"
| "dv_bool F (Automaton a) = dfa_bool F a"

fun dv_contained_in :: "'f fsm_ops \<Rightarrow> 'f dim_value \<Rightarrow> 'f dim_value \<Rightarrow> bool" where
  "dv_contained_in F (Intervals a) (Intervals b) = iset_contained_in a b"
| "dv_contained_in F (Automaton a) (Automaton b) = dfa_contained_in F a b"
| "dv_contained_in F _ _ = False"

fun dv_mem :: "'f fsm_ops \<Rightarrow> item \<Rightarrow> 'f dim_value \<Rightarrow> bool" where
  "dv_mem F (Num n) (Intervals a) = iset_mem n a"
| "dv_mem F (Word s) (Automaton a) = dfa_contains F s a"
| "dv_mem F _ _ = False"

fun dv_rep :: "'f fsm_ops \<Rightarrow> 'f dim_value \<Rightarrow> item option" where
  "dv_rep F (Intervals a) = map_option Num (iset_rep a)"
| "dv_rep F (Automaton a) = map_option Word (dfa_rep F a)"

text \<open>The test of \<open>_reduce_cube\<close> by the dimension's type.\<close>

fun dv_is_full :: "'f fsm_ops \<Rightarrow> 'f dim_value \<Rightarrow> 'f dim_value \<Rightarrow> bool" where
  "dv_is_full F (Intervals w) (Intervals a) = (w = a)"
| "dv_is_full F (Automaton w) (Automaton a) = is_dfa_wll_words F a w"
| "dv_is_full F _ _ = False"

section \<open>The table of dimensions\<close>

type_synonym 'f dim_table = "(dim \<times> (dim_type \<times> 'f dim_value \<times> 'f dim_value)) list"

definition get_dimension_type_by_name :: "'f dim_table \<Rightarrow> dim \<Rightarrow> dim_type option" where
  "get_dimension_type_by_name dt d = map_option fst (dict_get (=) dt d)"

definition get_dimension_domain_by_name :: "'f dim_table \<Rightarrow> dim \<Rightarrow> 'f dim_value option" where
  "get_dimension_domain_by_name dt d = map_option (fst \<circ> snd) (dict_get (=) dt d)"

definition get_empty_dimension_by_name :: "'f dim_table \<Rightarrow> dim \<Rightarrow> 'f dim_value option" where
  "get_empty_dimension_by_name dt d = map_option (snd \<circ> snd) (dict_get (=) dt d)"

definition default_interval_domain :: "int interval_set" where
  "default_interval_domain = get_interval_set 0 100000"

text \<open>The interval given to \<open>set_domain\<close>: a set, a pair of bounds, or nothing.\<close>

datatype interval_arg = Whole_Default | Bounds int int | Given_Set "int interval_set"

definition set_domain ::
  "'f fsm_ops \<Rightarrow> 'f dim_table \<Rightarrow> dim \<Rightarrow> dim_type \<Rightarrow> interval_arg \<Rightarrow> string option \<Rightarrow>
   'f dim_table option"
where
  "set_domain F dt d ty arg alphabet =
     (case ty of
        IntervalSet \<Rightarrow>
          (let xs = (case arg of Given_Set xs \<Rightarrow> xs
                     | Bounds lo hi \<Rightarrow> get_interval_set lo hi
                     | Whole_Default \<Rightarrow> default_interval_domain)
           in Some (dict_set (=) dt d (ty, Intervals xs, Intervals [])))
      | DFA \<Rightarrow>
          do { a \<leftarrow> dfa_all_words F (case alphabet of None \<Rightarrow> default_alphabet_regex | Some r \<Rightarrow> r);
               e \<leftarrow> dfa_from_regex F '''';
               Some (dict_set (=) dt d (ty, Automaton a, Automaton e)) })"

text \<open>
  The initial table. The peers' interval is the one \<open>BasePeerSet\<close> answers; methods are numbered
  0-8 and protocols 0-255.
\<close>

definition dfa_path_domain :: "'f fsm_ops \<Rightarrow> 'f min_dfa option" where
  "dfa_path_domain F =
     map_option (\<lambda>a. MinDFA (fsm a) TTrue (complement_dfa a) (regex_expr a))
       (dfa_from_regex F (''/'' @ default_alphabet_regex))"

definition init_dim_table :: "'f fsm_ops \<Rightarrow> int interval_set \<Rightarrow> 'f dim_table option" where
  "init_dim_table F peers =
     do { words \<leftarrow> dfa_all_words F default_alphabet_regex;
          paths \<leftarrow> dfa_path_domain F;
          e \<leftarrow> dfa_from_regex F '''';
          let ports = (IntervalSet, Intervals (get_interval_set 1 65535), Intervals []);
          let peers_dim = (IntervalSet, Intervals peers, Intervals []);
          Some (dict_of_list (=)
            [(''src_ports'', ports), (''dst_ports'', ports),
             (''methods'', (IntervalSet, Intervals (get_interval_set 0 8), Intervals [])),
             (''protocols'', (IntervalSet, Intervals (get_interval_set 0 255), Intervals [])),
             (''src_peers'', peers_dim), (''dst_peers'', peers_dim),
             (''paths'', (DFA, Automaton paths, Automaton e)),
             (''hosts'', (DFA, Automaton words, Automaton e)),
             (''icmp_type'', (IntervalSet, Intervals (get_interval_set 0 254), Intervals [])),
             (''icmp_code'', (IntervalSet, Intervals (get_interval_set 0 255), Intervals []))]) }"

text \<open>
  \<open>validate_value_by_domain\<close>: an integer is checked against an interval domain, words are not
  checked; \<open>None\<close> is the failed assertion on the type of the value.
\<close>

definition validate_value_by_domain :: "'f dim_table \<Rightarrow> item \<Rightarrow> dim \<Rightarrow> bool option" where
  "validate_value_by_domain dt v d =
     do { ty \<leftarrow> get_dimension_type_by_name dt d;
          w \<leftarrow> get_dimension_domain_by_name dt d;
          case ty of
            DFA \<Rightarrow> Some True
          | IntervalSet \<Rightarrow>
              (case (v, w) of (Num n, Intervals xs) \<Rightarrow> Some (iset_mem n xs) | _ \<Rightarrow> None) }"

text \<open>What the cube sets call.\<close>

definition dims_of :: "'f fsm_ops \<Rightarrow> 'f dim_table \<Rightarrow> ('f dim_value, item) dims" where
  "dims_of F dt =
     \<lparr>v_and = dv_and F, v_or = dv_or F, v_sub = dv_sub F, v_eq = dv_eq F, v_bool = dv_bool F,
      v_contained_in = dv_contained_in F, v_mem = dv_mem F, v_rep = dv_rep F,
      dim_domain = get_dimension_domain_by_name dt,
      dim_is_full = (\<lambda>d. dv_is_full F),
      dim_item_ok = (\<lambda>d x. case get_dimension_type_by_name dt d of
          Some DFA \<Rightarrow> (case x of Word _ \<Rightarrow> True | _ \<Rightarrow> False)
        | _ \<Rightarrow> (case x of Num _ \<Rightarrow> True | _ \<Rightarrow> False))\<rparr>"

section \<open>The contract holds\<close>

definition value_ok :: "'f fsm_ops \<Rightarrow> 'f dim_table \<Rightarrow> dim \<Rightarrow> 'f dim_value \<Rightarrow> bool" where
  "value_ok F dt d v =
     (case get_dimension_domain_by_name dt d of
        Some (Intervals w) \<Rightarrow> (case v of Intervals a \<Rightarrow> int_canonical a | _ \<Rightarrow> False)
      | Some (Automaton w) \<Rightarrow> (case v of Automaton a \<Rightarrow> dfa_ok F (dlang F w) a | _ \<Rightarrow> False)
      | None \<Rightarrow> False)"

text \<open>Every domain is a valid value that is not empty, and the words of a domain are infinitely many.\<close>

definition table_ok :: "'f fsm_ops \<Rightarrow> 'f dim_table \<Rightarrow> bool" where
  "table_ok F dt \<longleftrightarrow>
     (\<forall>(d, ty, w, e)\<in>set dt.
        (case w of
           Intervals a \<Rightarrow> ty = IntervalSet \<and> int_canonical a \<and> a \<noteq> []
         | Automaton a \<Rightarrow> ty = DFA \<and> dfa_ok F (dlang F a) a \<and> infinite (dlang F a)))"

lemma domain_in_table:
  "get_dimension_domain_by_name dt d = Some w \<Longrightarrow> \<exists>d' ty e. (d', ty, w, e) \<in> set dt"
  unfolding get_dimension_domain_by_name_def by (auto dest: dict_get_Some)

lemma table_okD:
  assumes "table_ok F dt" and "get_dimension_domain_by_name dt d = Some w"
  shows "case w of Intervals a \<Rightarrow> int_canonical a \<and> a \<noteq> []
         | Automaton a \<Rightarrow> dfa_ok F (dlang F a) a \<and> infinite (dlang F a)"
  using domain_in_table [OF assms(2)] assms(1)
  by (fastforce simp: table_ok_def split: dim_value.splits)

lemma dset_intervals:
  "int_canonical a \<Longrightarrow> dset (dims_of F dt) (Intervals a) = Num ` iset_set a"
  unfolding dset_def dims_of_def
  by (auto simp: image_iff int_points.iset_mem_iff elim: dv_mem.elims)

lemma dset_automaton: "dset (dims_of F dt) (Automaton a) = Word ` dlang F a"
  unfolding dset_def dims_of_def lang_def
  by (auto simp: image_iff dfa_contains_def elim: dv_mem.elims)

lemma dims_of_simps [simp]:
  "v_and (dims_of F dt) = dv_and F" "v_or (dims_of F dt) = dv_or F" "v_sub (dims_of F dt) = dv_sub F"
  "v_eq (dims_of F dt) = dv_eq F" "v_bool (dims_of F dt) = dv_bool F"
  "v_contained_in (dims_of F dt) = dv_contained_in F" "v_mem (dims_of F dt) = dv_mem F"
  "v_rep (dims_of F dt) = dv_rep F" "dim_domain (dims_of F dt) = get_dimension_domain_by_name dt"
  "dim_is_full (dims_of F dt) d = dv_is_full F"
  by (simp_all add: dims_of_def)

text \<open>A valid value is an interval set or an automaton, as its dimension's domain is.\<close>

lemma value_ok_cases:
  assumes "value_ok F dt d v"
  obtains (intervals) w a where "get_dimension_domain_by_name dt d = Some (Intervals w)"
      "v = Intervals a" "int_canonical a"
    | (automaton) w a where "get_dimension_domain_by_name dt d = Some (Automaton w)"
      "v = Automaton a" "dfa_ok F (dlang F w) a"
  using assms by (auto simp: value_ok_def split: option.splits dim_value.splits)

lemma value_ok_intervals:
  "get_dimension_domain_by_name dt d = Some (Intervals w) \<Longrightarrow>
   value_ok F dt d v \<longleftrightarrow> (\<exists>a. v = Intervals a \<and> int_canonical a)"
  by (auto simp: value_ok_def split: dim_value.splits)

lemma value_ok_automaton:
  "get_dimension_domain_by_name dt d = Some (Automaton w) \<Longrightarrow>
   value_ok F dt d v \<longleftrightarrow> (\<exists>a. v = Automaton a \<and> dfa_ok F (dlang F w) a)"
  by (auto simp: value_ok_def split: dim_value.splits)

lemma dims_of_values:
  assumes F: "fsm_laws F" and dt: "table_ok F dt"
  shows "dim_values (dims_of F dt) (value_ok F dt)"
proof
  let ?M = "dims_of F dt" and ?ok = "value_ok F dt"
  have bin: "?ok d (v_and ?M a b) \<and> ?ok d (v_or ?M a b) \<and> ?ok d (v_sub ?M a b) \<and>
      dset ?M (v_and ?M a b) = dset ?M a \<inter> dset ?M b \<and>
      dset ?M (v_or ?M a b) = dset ?M a \<union> dset ?M b \<and>
      dset ?M (v_sub ?M a b) = dset ?M a - dset ?M b \<and>
      v_eq ?M a b = (dset ?M a = dset ?M b) \<and>
      v_contained_in ?M a b = (dset ?M a \<subseteq> dset ?M b)"
    if a: "?ok d a" and b: "?ok d b" for d a b
    using a
  proof (cases rule: value_ok_cases)
    case (intervals w x)
    then obtain y where y: "b = Intervals y" "int_canonical y"
      using b by (auto simp: value_ok_intervals)
    note c = int_points.iset_and_canonical [OF intervals(3) y(2)]
      int_points.iset_or_canonical [OF intervals(3) y(2)]
      int_points.iset_sub_correct [OF intervals(3) y(2)]
    have "v_eq ?M a b = (dset ?M a = dset ?M b)"
      using int_points.canonical_unique [OF intervals(3) y(2)]
      by (auto simp: intervals y dset_intervals inj_image_eq_iff inj_def)
    moreover have "v_contained_in ?M a b = (dset ?M a \<subseteq> dset ?M b)"
      using int_points.iset_contained_in_iff [OF intervals(3) y(2)]
      by (simp add: intervals y dset_intervals inj_image_subset_iff inj_def)
    ultimately show ?thesis
      using c int_points.iset_and_set [of x y] int_points.iset_or_set [OF intervals(3) y(2)]
      by (simp add: intervals y value_ok_intervals dset_intervals image_Un image_Int inj_def
          image_set_diff)
  next
    case (automaton w x)
    then obtain y where y: "b = Automaton y" "dfa_ok F (dlang F w) y"
      using b by (auto simp: value_ok_automaton)
    have inf: "infinite (dlang F w)" using table_okD [OF dt automaton(1)] by simp
    note ops = dfa_and_ok [OF F automaton(3) y(2)] dfa_or_ok [OF F inf automaton(3) y(2)]
      dfa_sub_link_ok [OF F inf automaton(3) y(2)] dfa_eq_iff [OF F, of x y]
      dfa_contained_in_iff [OF F automaton(3) y(2)]
    show ?thesis
      using ops
      by (auto simp: automaton y value_ok_automaton dset_automaton dfa_sub_def image_Un image_Int
          inj_def image_set_diff inj_image_eq_iff inj_image_subset_iff)
  qed
  {
    fix d a b
    assume "?ok d a" "?ok d b"
    from bin [OF this] show "?ok d (v_and ?M a b)" "?ok d (v_or ?M a b)" "?ok d (v_sub ?M a b)"
      "dset ?M (v_and ?M a b) = dset ?M a \<inter> dset ?M b"
      "dset ?M (v_or ?M a b) = dset ?M a \<union> dset ?M b"
      "dset ?M (v_sub ?M a b) = dset ?M a - dset ?M b"
      "v_eq ?M a b \<longleftrightarrow> dset ?M a = dset ?M b"
      "v_contained_in ?M a b \<longleftrightarrow> dset ?M a \<subseteq> dset ?M b"
      by blast+
  }
  fix d a
  assume a: "?ok d a"
  then show bool: "v_bool ?M a \<longleftrightarrow> dset ?M a \<noteq> {}"
    by (cases rule: value_ok_cases)
      (auto simp: dset_intervals dset_automaton int_points.iset_bool_set dfa_bool_iff [OF F])
  show "\<exists>x. v_rep ?M a = Some x \<and> v_mem ?M x a" if ne: "v_bool ?M a"
    using a
  proof (cases rule: value_ok_cases)
    case (intervals w x)
    then obtain n where "iset_rep x = Some n" "n \<in> iset_set x"
      using int_points.iset_rep_mem [OF intervals(3)] ne intervals by auto
    then show ?thesis by (simp add: intervals int_points.iset_mem_iff)
  next
    case (automaton w x)
    then obtain s where "dfa_rep F x = Some s" "s \<in> dlang F x"
      using dfa_rep_mem [OF F, of x] ne automaton by auto
    then show ?thesis by (simp add: automaton dfa_contains_def lang_def)
  qed
next
  let ?M = "dims_of F dt" and ?ok = "value_ok F dt"
  fix d w
  assume w: "dim_domain ?M d = Some w"
  have dw: "get_dimension_domain_by_name dt d = Some w" using w by simp
  note t = table_okD [OF dt dw]
  show ok_w: "?ok d w \<and> v_bool ?M w"
  proof (cases w)
    case (Intervals a)
    then show ?thesis using t dw by (simp add: value_ok_intervals)
  next
    case (Automaton a)
    then have "dlang F a \<noteq> {}" using t by auto
    then show ?thesis using t dw Automaton by (simp add: value_ok_automaton dfa_bool_iff [OF F])
  qed
  fix v
  assume v: "?ok d v"
  show "dim_is_full ?M d w v \<longleftrightarrow> dset ?M v = dset ?M w"
  proof (cases w)
    case (Intervals a)
    then obtain b where b: "v = Intervals b" "int_canonical b"
      using v dw by (auto simp: value_ok_intervals)
    then show ?thesis
      using t int_points.canonical_unique [of a b] Intervals
      by (auto simp: dset_intervals inj_image_eq_iff inj_def)
  next
    case (Automaton a)
    then obtain b where b: "v = Automaton b" "dfa_ok F (dlang F a) b"
      using v dw by (auto simp: value_ok_automaton)
    have "infinite (dlang F a)" using t Automaton by simp
    from is_dfa_wll_words_iff [OF F this b(2) refl]
    show ?thesis
      using b Automaton
      by (simp add: dset_automaton inj_image_eq_iff inj_def)
  qed
qed

section \<open>Valid tables\<close>

text \<open>The words that the two regular expressions of the initial table describe.\<close>

definition init_regexes_ok :: "'f fsm_ops \<Rightarrow> bool" where
  "init_regexes_ok F \<longleftrightarrow>
     (\<exists>f g e. f_parse F default_alphabet_regex = Some f \<and> infinite (lang F f) \<and>
        f_parse F (''/'' @ default_alphabet_regex) = Some g \<and> infinite (lang F g) \<and>
        f_parse F '''' = Some e)"

lemma dict_set_mem:
  "x \<in> set (dict_set (=) dt d v) \<Longrightarrow> x = (d, v) \<or> x \<in> set dt"
  by (induction dt) (auto split: if_splits)

lemma table_ok_set:
  assumes "table_ok F dt" and "table_ok F [(d, v)]"
  shows "table_ok F (dict_set (=) dt d v)"
  using assms unfolding table_ok_def by (auto dest!: dict_set_mem)

lemma table_ok_dict: "table_ok F kvs \<Longrightarrow> table_ok F (dict_of_list (=) kvs)"
proof -
  have "table_ok F (foldl (\<lambda>d (k, v). dict_set (=) d k v) dt kvs)"
    if "table_ok F dt" "table_ok F kvs" for dt
    using that
  proof (induction kvs arbitrary: dt)
    case (Cons kv kvs)
    obtain d v where kv: "kv = (d, v)" by (cases kv)
    have "table_ok F (dict_set (=) dt d v)"
      by (rule table_ok_set) (use Cons.prems in \<open>auto simp: table_ok_def kv\<close>)
    moreover have "table_ok F kvs" using Cons.prems(2) by (auto simp: table_ok_def)
    ultimately show ?case using Cons.IH by (simp add: kv)
  qed simp
  note step = this
  assume "table_ok F kvs"
  moreover have "table_ok F []" by (simp add: table_ok_def)
  ultimately show ?thesis
    unfolding dict_of_list_def by (intro step)
qed

lemma interval_canonical: "(lo::int) \<le> hi \<Longrightarrow> int_canonical (get_interval_set lo hi) \<and> get_interval_set lo hi \<noteq> []"
  by (simp add: get_interval_set_def add_interval_def canonical_def iv_valid_def)

lemma dfa_all_words_ok:
  assumes "f_parse F r = Some f" and "infinite (lang F f)"
  shows "\<exists>a. dfa_all_words F r = Some a \<and> dfa_ok F (dlang F a) a \<and> infinite (dlang F a)"
  using assms by (simp add: dfa_all_words_def dfa_from_regex_def flag_ok_def)

lemma init_dim_table_ok:
  assumes "init_regexes_ok F" and "int_canonical peers" and "peers \<noteq> []"
  shows "\<exists>dt. init_dim_table F peers = Some dt \<and> table_ok F dt"
proof -
  obtain f g e where f: "f_parse F default_alphabet_regex = Some f" "infinite (lang F f)"
    and g: "f_parse F (''/'' @ default_alphabet_regex) = Some g" "infinite (lang F g)"
    and e: "f_parse F '''' = Some e"
    using assms(1) unfolding init_regexes_ok_def by blast
  obtain words where words: "dfa_all_words F default_alphabet_regex = Some words"
    "dfa_ok F (dlang F words) words" "infinite (dlang F words)"
    using dfa_all_words_ok [OF f] by blast
  obtain paths where paths: "dfa_path_domain F = Some paths"
    "dfa_ok F (dlang F paths) paths" "infinite (dlang F paths)"
    using g by (simp add: dfa_path_domain_def dfa_from_regex_def flag_ok_def)
  obtain ev where ev: "dfa_from_regex F '''' = Some ev" using e by (simp add: dfa_from_regex_def)
  show ?thesis
    unfolding init_dim_table_def words(1) paths(1) ev
    by (simp add: Let_def, rule table_ok_dict)
      (simp add: table_ok_def words paths assms(2,3) interval_canonical)
qed

lemma set_domain_ok:
  assumes "table_ok F dt"
    and "case ty of
           IntervalSet \<Rightarrow> (case arg of Given_Set xs \<Rightarrow> int_canonical xs \<and> xs \<noteq> []
                           | Bounds lo hi \<Rightarrow> lo \<le> hi | Whole_Default \<Rightarrow> True)
         | DFA \<Rightarrow> (\<exists>f e. f_parse F (case alphabet of None \<Rightarrow> default_alphabet_regex | Some r \<Rightarrow> r) = Some f \<and>
                     infinite (lang F f) \<and> f_parse F '''' = Some e)"
  shows "\<exists>dt'. set_domain F dt d ty arg alphabet = Some dt' \<and> table_ok F dt'"
proof (cases ty)
  case IntervalSet
  have "table_ok F [(d, (IntervalSet, Intervals xs, Intervals []))]"
    if "int_canonical xs \<and> xs \<noteq> []" for xs
    using that by (simp add: table_ok_def)
  then show ?thesis
    using assms IntervalSet interval_canonical [of 0 100000]
    by (auto simp: set_domain_def default_interval_domain_def interval_canonical
        intro!: table_ok_set split: interval_arg.splits)
next
  case DFA
  let ?r = "case alphabet of None \<Rightarrow> default_alphabet_regex | Some r \<Rightarrow> r"
  obtain f e where f: "f_parse F ?r = Some f" "infinite (lang F f)" "f_parse F '''' = Some e"
    using assms(2) DFA by auto
  obtain a where a: "dfa_all_words F ?r = Some a" "dfa_ok F (dlang F a) a" "infinite (dlang F a)"
    using dfa_all_words_ok [OF f(1,2)] by blast
  obtain ev where "dfa_from_regex F '''' = Some ev" using f(3) by (simp add: dfa_from_regex_def)
  moreover have "table_ok F [(d, (DFA, Automaton a, Automaton ev))]"
    using a by (simp add: table_ok_def)
  ultimately show ?thesis
    using DFA a(1) table_ok_set [OF assms(1)] by (simp add: set_domain_def)
qed

section \<open>Languages as automata\<close>

text \<open>
  An instance of the automata package for the examples: languages themselves, and words as
  regular expressions, with all words for an expression with a star.
\<close>

definition some_strings :: "string set \<Rightarrow> nat \<Rightarrow> string list" where
  "some_strings L n =
     (SOME ss. set ss \<subseteq> L \<and> distinct ss \<and>
        (finite L \<longrightarrow> length ss = min n (card L)) \<and> (infinite L \<longrightarrow> length ss = n))"

definition languages :: "string set fsm_ops" where
  "languages =
     \<lparr>f_accepts = (\<lambda>L s. s \<in> L), f_union = (\<union>), f_inter = (\<inter>), f_diff = (-),
      f_empty = (\<lambda>L. L = {}), f_subset = (\<subseteq>), f_same = (=),
      f_len = (\<lambda>L. if finite L then Some (card L) else None), f_strings = some_strings,
      f_parse = (\<lambda>s. Some (if CHR ''*'' \<in> set s then UNIV else {s}))\<rparr>"

lemma languages_lang [simp]: "lang languages L = L"
  by (simp add: lang_def languages_def)

lemma some_strings_ok:
  "set (some_strings L n) \<subseteq> L \<and> distinct (some_strings L n) \<and>
   (finite L \<longrightarrow> length (some_strings L n) = min n (card L)) \<and>
   (infinite L \<longrightarrow> length (some_strings L n) = n)"
proof -
  obtain S where S: "S \<subseteq> L" "finite S" "card S = (if finite L then min n (card L) else n)"
  proof (cases "finite L")
    case True
    then obtain S where "S \<subseteq> L" "card S = min n (card L)" "finite S"
      using obtain_subset_with_card_n [of "min n (card L)" L] by auto
    then show thesis using that True by simp
  next
    case False
    then obtain S where "finite S" "card S = n" "S \<subseteq> L"
      using infinite_arbitrarily_large by blast
    then show thesis using that False by simp
  qed
  obtain ss where "set ss = S" "distinct ss" using finite_distinct_list [OF S(2)] by blast
  then have "set ss \<subseteq> L \<and> distinct ss \<and> (finite L \<longrightarrow> length ss = min n (card L)) \<and>
      (infinite L \<longrightarrow> length ss = n)"
    using S distinct_card [of ss] by auto
  then show ?thesis unfolding some_strings_def by (rule someI)
qed

lemma languages_laws: "fsm_laws languages"
  unfolding fsm_laws_def languages_lang
  using some_strings_ok by (simp add: languages_def)

lemma languages_regexes: "init_regexes_ok languages"
proof -
  have "f_parse languages s = Some (if CHR ''*'' \<in> set s then UNIV else {s})" for s
    by (simp add: languages_def)
  then show ?thesis
    by (simp add: init_regexes_ok_def default_alphabet_regex_def infinite_UNIV_listI)
qed

end
