(* ===== verification/Hyper_Cube_Canon.thy ===== *)
theory Hyper_Cube_Canon
  imports Hyper_Cube_Dims
begin

text \<open>
  The queries of \<open>CanonicalHyperCubeSet\<close>: membership, and the claim of the class that the
  representation is canonical. Two trees with the same points are equal when their sub-cubes are
  objects of the base class, no two layers of a node have equal sub-cubes, and the values are
  within their domains.
\<close>

context dim_values
begin

section \<open>Membership\<close>

lemma hc_sem_cong:
  assumes "hc_ok M ok al ds t" and "\<And>d. d \<in> set ds \<Longrightarrow> p d = q d"
  shows "hc_sem M p t = hc_sem M q t"
  using assms
proof (induction ds arbitrary: t)
  case (Cons d ds)
  then obtain c ls where t: "t = HC c al (d # ds) ls" "lay_ok al d ds ls" by (auto simp: hc_ok_Cons)
  have "hc_sem M p s = hc_sem M q s" if "(k, s) \<in> set ls" for k s
    using Cons.IH [OF lay_ok_memD(4) [OF t(2) that]] Cons.prems(2) by simp
  then show ?case using Cons.prems(2) [of d] unfolding t hc_sem_HC lay_sem_ex by auto
qed simp

lemma map_of_zip_rev:
  assumes "distinct al" and "length al \<le> length item" and "i < length al"
  shows "map_of (rev (zip al item)) (al ! i) = Some (item ! i)"
proof -
  have "distinct (map fst (rev (zip al item)))"
    using assms(1) by (simp add: rev_map [symmetric] map_fst_zip_take)
  moreover have "(al ! i, item ! i) \<in> set (rev (zip al item))"
    using assms(2,3) by (auto simp: in_set_zip)
  ultimately show ?thesis by (simp add: map_of_is_SomeI)
qed

lemma align_point:
  assumes "distinct al" and "length al \<le> length item" and "\<forall>i<length al. p (al ! i) = item ! i"
    and "set act \<subseteq> set al" and "act \<noteq> []"
  shows "\<exists>rel. align_cube (\<lambda>_. None) item al act = Some rel \<and> hd rel = p (hd act)"
proof (cases "al = act")
  case True
  then show ?thesis
    using assms(2,3,5) by (cases act; cases item) (auto simp: align_cube_def)
next
  case False
  have one: "(if d \<in> set al then map_of (rev (zip al item)) d else None) = Some (p d)"
    if "d \<in> set act" for d
  proof -
    have "d \<in> set al" using that assms(4) by auto
    then obtain i where "i < length al" "al ! i = d" by (metis in_set_conv_nth)
    then show ?thesis using map_of_zip_rev [OF assms(1,2), of i] assms(3) by auto
  qed
  have "map_opt (\<lambda>d. if d \<in> set al then map_of (rev (zip al item)) d else None) act = Some (map p act)"
    by (rule map_opt_total) (rule one)
  with False assms(5) show ?thesis by (cases act) (auto simp: align_cube_def)
qed

lemma hc_contains_node:
  assumes item: "item_ok M al item" "\<forall>i<length al. p (al ! i) = item ! i" and al: "distinct al"
    and "hc_ok M ok al act t" and "act \<noteq> []" and "set act \<subseteq> set al"
  shows "hc_contains M item t = Some (hc_sem M p t)"
  using assms(4-6)
proof (induction act arbitrary: t)
  case (Cons d ds)
  then obtain c ls where t: "t = HC c al (d # ds) ls" "lay_ok al d ds ls" by (auto simp: hc_ok_Cons)
  have len: "length al \<le> length item" using item(1) by (simp add: item_ok_def)
  obtain rel where rel: "align_cube (\<lambda>_. None) item al (d # ds) = Some rel" "hd rel = p d"
    using align_point [OF al len item(2) Cons.prems(3)] by auto
  show ?case
  proof (cases "find (\<lambda>(k, s). v_mem M (p d) k) ls")
    case None
    then have "\<not> lay_sem d p ls" by (auto simp: find_None_iff lay_sem_ex)
    then show ?thesis
      using None rel item(1) by (subst hc_contains.simps) (simp add: t)
  next
    case (Some e)
    obtain k s where e: "e = (k, s)" by (cases e)
    then have m: "(k, s) \<in> set ls" "v_mem M (p d) k"
      using Some by (auto simp: find_Some_iff in_set_conv_nth)
    have sem: "lay_sem d p ls \<longleftrightarrow> hc_sem M p s"
      using lay_unique [OF t(2) m(1) _ m(2)] m unfolding lay_sem_ex by blast
    show ?thesis
    proof (cases "ds = []")
      case True
      then have "hc_sem M p s" using lay_ok_memD(4) [OF t(2) m(1)] by simp
      then show ?thesis
        using Some rel item(1) sem m(1) True by (subst hc_contains.simps) (auto simp: t e)
    next
      case False
      have "hc_contains M item s = Some (hc_sem M p s)"
        using Cons.IH [OF lay_ok_memD(4) [OF t(2) m(1)] False] Cons.prems(3) by simp
      then show ?thesis
        using Some rel item(1) sem m(1) False by (subst hc_contains.simps) (auto simp: t e)
    qed
  qed
qed simp

lemma hc_contains_iff:
  assumes t: "hc_wf M ok t" and item: "item_ok M (all_dims t) item"
    and p: "\<forall>i<length (all_dims t). p (all_dims t ! i) = item ! i"
  shows "hc_contains M item t = Some (hc_sem M p t)"
proof -
  obtain c al act ls where eq: "t = HC c al act ls" and al: "distinct al"
    and act: "dims_by_order al act = act" and l: "if act = [] then ls = [] else hc_ok M ok al act t"
    using t by (auto simp: hc_wf_iff)
  have sub: "set act \<subseteq> set al" using dims_by_order_set [of al act] act by auto
  show ?thesis
  proof (cases "act = []")
    case True
    then show ?thesis using item by (subst hc_contains.simps) (simp add: eq)
  next
    case False
    then show ?thesis
      using hc_contains_node [of al item p act t] item p al l sub by (simp add: eq)
  qed
qed

section \<open>Canonical trees\<close>

lemma hc_canon_node [simp]:
  "hc_canon M (HC c al (d # ds) ls) \<longleftrightarrow>
     (\<forall>(k, s)\<in>set ls. within_domain M d k \<and> is_base s \<and> hc_canon M s) \<and>
     sorted_wrt (\<lambda>a b. \<not> hc_eq M (snd a) (snd b)) ls"
  by (auto simp: list_all_iff)

declare hc_canon.simps(2) [simp del]

lemma hc_canon_sub:
  assumes "hc_canon M (HC c al (d # ds) ls)" and "(k, s) \<in> set ls"
  shows "within_domain M d k" "is_base s" "hc_canon M s"
  using assms by auto

lemma within_dset:
  assumes "ok d k" and "dim_domain M d = Some w"
  shows "within_domain M d k \<longleftrightarrow> dset M k \<subseteq> dset M w"
  using assms contained_law [of d k w] domain_ok by (simp add: within_domain_def)

lemma within_known: "within_domain M d k \<Longrightarrow> \<exists>w. dim_domain M d = Some w"
  by (auto simp: within_domain_def split: option.splits)

lemma in_space_upd:
  assumes "in_space M al p" and "within_domain M d k" and "ok d k" and "v_mem M x k"
  shows "in_space M al (p(d := x))"
proof -
  obtain w where w: "dim_domain M d = Some w" using within_known assms(2) by blast
  have "v_mem M x w" using within_dset [OF assms(3) w] assms(2,4) by (auto simp: dset_def)
  with assms(1) w show ?thesis
    by (auto simp: in_space_def list_all_iff fun_upd_apply split: option.splits)
qed

lemma space_point: "\<exists>p. in_space M al p"
proof -
  have "\<exists>x. \<forall>w. dim_domain M d = Some w \<longrightarrow> v_mem M x w" for d
  proof (cases "dim_domain M d")
    case (Some w)
    then have "dset M w \<noteq> {}" by (rule domain_dset(2))
    then obtain x where "v_mem M x w" by (auto simp: dset_def)
    with Some show ?thesis by auto
  qed simp
  then obtain p where "\<And>d w. dim_domain M d = Some w \<Longrightarrow> v_mem M (p d) w" by metis
  then show ?thesis
    by (auto simp: in_space_def list_all_iff split: option.splits intro!: exI [of _ p])
qed

lemma canon_nonempty:
  assumes "hc_ok M ok al ds t" and "hc_canon M t" and "sub_nonempty t" and "distinct ds"
  shows "\<exists>p. in_space M al p \<and> hc_sem M p t"
  using assms
proof (induction ds arbitrary: t)
  case Nil
  then show ?case using space_point by simp
next
  case (Cons d ds)
  then obtain c ls where t: "t = HC c al (d # ds) ls" "lay_ok al d ds ls" by (auto simp: hc_ok_Cons)
  then obtain k s where m: "(k, s) \<in> set ls"
    using Cons.prems(3) by (cases ls) (auto simp: sub_nonempty_def)
  note k = lay_ok_memD [OF t(2) m] and c = hc_canon_sub [OF Cons.prems(2) [unfolded t(1)] m]
  obtain p where p: "in_space M al p" "hc_sem M p s"
    using Cons.IH [OF k(4) c(3) k(5)] Cons.prems(4) by auto
  obtain x where x: "v_mem M x k" using k(2) by auto
  have "hc_sem M (p(d := x)) s"
    by (subst hc_sem_cong [OF k(4), of "p(d := x)" p]) (use p(2) Cons.prems(4) in auto)
  then have "lay_sem d (p(d := x)) ls" using x m by (intro lay_semI [of k s]) auto
  then have "hc_sem M (p(d := x)) t" by (simp only: t hc_sem_HC)
  then show ?case using in_space_upd [OF p(1) c(1) k(1) x] by blast
qed

text \<open>What a node holds when its first item is fixed: the points of one sub-cube.\<close>

lemma section_sem:
  assumes "lay_ok al d ds ls" and "(k, s) \<in> set ls" and "v_mem M x k" and "d \<notin> set ds"
  shows "lay_sem d (p(d := x)) ls \<longleftrightarrow> hc_sem M p s"
proof -
  have s: "hc_sem M (p(d := x)) s = hc_sem M p s"
    by (rule hc_sem_cong [OF lay_ok_memD(4) [OF assms(1,2)]]) (use assms(4) in auto)
  show ?thesis
  proof
    assume "lay_sem d (p(d := x)) ls"
    then obtain k' s' where m: "(k', s') \<in> set ls" "v_mem M x k'" "hc_sem M (p(d := x)) s'"
      by (auto elim!: lay_semE)
    then have "s' = s" using lay_unique [OF assms(1) m(1) assms(2) m(2) assms(3)] by simp
    with m(3) s show "hc_sem M p s" by simp
  next
    assume "hc_sem M p s"
    with s assms(2,3) show "lay_sem d (p(d := x)) ls" by (intro lay_semI [of k s]) auto
  qed
qed

text \<open>No two layers have sub-cubes with the same points.\<close>

definition points_distinct where
  "points_distinct al ls \<longleftrightarrow>
     (\<forall>k s k' s'. (k, s) \<in> set ls \<longrightarrow> (k', s') \<in> set ls \<longrightarrow> same_points al s s' \<longrightarrow> (k, s) = (k', s'))"

lemma same_points_sym: "same_points al s t \<Longrightarrow> same_points al t s"
  by (simp add: same_points_def)

lemma same_points_trans: "same_points al s t \<Longrightarrow> same_points al t u \<Longrightarrow> same_points al s u"
  by (simp add: same_points_def)

lemma match_layer:
  assumes l: "lay_ok al d ds ls" and l': "lay_ok al d ds ls'" and dist: "distinct (d # ds)"
    and can: "hc_canon M (HC c al (d # ds) ls)"
    and same: "\<And>p. in_space M al p \<Longrightarrow> lay_sem d p ls = lay_sem d p ls'"
    and m: "(k, s) \<in> set ls" and x: "v_mem M x k"
  shows "\<exists>k' s'. (k', s') \<in> set ls' \<and> v_mem M x k' \<and> same_points al s s'"
proof -
  note k = lay_ok_memD [OF l m] and c = hc_canon_sub [OF can m]
  have d: "d \<notin> set ds" using dist by simp
  obtain p where p: "in_space M al p" "hc_sem M p s"
    using canon_nonempty [OF k(4) c(3) k(5)] dist by auto
  have space: "in_space M al q \<Longrightarrow> in_space M al (q(d := x))" for q
    by (rule in_space_upd [OF _ c(1) k(1) x])
  have "lay_sem d (p(d := x)) ls'"
    using same [OF space [OF p(1)]] section_sem [OF l m x d] p(2) by simp
  then obtain k' s' where m': "(k', s') \<in> set ls'" "v_mem M x k'" by (auto elim!: lay_semE)
  have "hc_sem M q s = hc_sem M q s'" if "in_space M al q" for q
    using same [OF space [OF that]] section_sem [OF l m x d] section_sem [OF l' m' d] by simp
  then show ?thesis using m' by (auto simp: same_points_def)
qed

lemma match_key:
  assumes l: "lay_ok al d ds ls" and l': "lay_ok al d ds ls'" and dist: "distinct (d # ds)"
    and can: "hc_canon M (HC c al (d # ds) ls)" "hc_canon M (HC c' al (d # ds) ls')"
    and pts: "points_distinct al ls" "points_distinct al ls'"
    and same: "\<And>p. in_space M al p \<Longrightarrow> lay_sem d p ls = lay_sem d p ls'"
    and m: "(k, s) \<in> set ls"
  shows "\<exists>k' s'. (k', s') \<in> set ls' \<and> dset M k' = dset M k \<and> same_points al s s'"
proof -
  obtain x where x: "v_mem M x k" using lay_ok_memD(2) [OF l m] by auto
  obtain k' s' where m': "(k', s') \<in> set ls'" "v_mem M x k'" "same_points al s s'"
    using match_layer [OF l l' dist can(1) same m x] by blast
  have "dset M k \<subseteq> dset M k'"
  proof
    fix y
    assume "y \<in> dset M k"
    then obtain k2 s2 where m2: "(k2, s2) \<in> set ls'" "v_mem M y k2" "same_points al s s2"
      using match_layer [OF l l' dist can(1) same m] by (metis mem_dset)
    then have "same_points al s' s2" using m'(3) same_points_sym same_points_trans by blast
    then have "k2 = k'" using pts(2) m'(1) m2(1) unfolding points_distinct_def by blast
    with m2(2) show "y \<in> dset M k'" by simp
  qed
  moreover have "dset M k' \<subseteq> dset M k"
  proof
    fix y
    assume "y \<in> dset M k'"
    then obtain k2 s2 where m2: "(k2, s2) \<in> set ls" "v_mem M y k2" "same_points al s' s2"
      using match_layer [OF l' l dist can(2) same [symmetric] m'(1)] by (metis mem_dset)
    then have "same_points al s s2" using m'(3) same_points_trans by blast
    then have "k2 = k" using pts(1) m m2(1) unfolding points_distinct_def by blast
    with m2(2) show "y \<in> dset M k" by simp
  qed
  ultimately show ?thesis using m' by blast
qed

text \<open>Equality of canonical trees over the same active dimensions is equality of their points.\<close>

lemma points_distinct_of:
  assumes "lay_ok al d ds ls" and "hc_canon M (HC c al (d # ds) ls)"
    and IH: "\<And>s t. hc_ok M ok al ds s \<Longrightarrow> hc_ok M ok al ds t \<Longrightarrow> hc_canon M s \<Longrightarrow> hc_canon M t \<Longrightarrow>
      sub_nonempty s \<Longrightarrow> sub_nonempty t \<Longrightarrow> is_base s \<Longrightarrow> is_base t \<Longrightarrow> same_points al s t \<Longrightarrow> hc_eq M s t"
  shows "points_distinct al ls"
  unfolding points_distinct_def
proof (intro allI impI)
  fix k s k' s'
  assume m: "(k, s) \<in> set ls" and m': "(k', s') \<in> set ls" and same: "same_points al s s'"
  have eq: "hc_eq M s s'" "hc_eq M s' s"
    using IH [OF lay_ok_memD(4) [OF assms(1) m] lay_ok_memD(4) [OF assms(1) m']]
      IH [OF lay_ok_memD(4) [OF assms(1) m'] lay_ok_memD(4) [OF assms(1) m]]
      hc_canon_sub [OF assms(2) m] hc_canon_sub [OF assms(2) m'] same same_points_sym [OF same]
      lay_ok_memD(5) [OF assms(1) m] lay_ok_memD(5) [OF assms(1) m'] by auto
  obtain i where i: "i < length ls" "ls ! i = (k, s)" using m by (metis in_set_conv_nth)
  obtain j where j: "j < length ls" "ls ! j = (k', s')" using m' by (metis in_set_conv_nth)
  have sorted: "\<not> hc_eq M (snd (ls ! a)) (snd (ls ! b))" if "a < b" "b < length ls" for a b
    using assms(2) sorted_wrt_nth_less that by fastforce
  have "i = j"
  proof (rule ccontr)
    assume "i \<noteq> j"
    then consider "i < j" | "j < i" by linarith
    then show False using sorted [of i j] sorted [of j i] i j eq by cases auto
  qed
  with i j show "(k, s) = (k', s')" by simp
qed

lemma canon_unique:
  assumes "hc_ok M ok al ds s" and "hc_ok M ok al ds t" and "hc_canon M s" and "hc_canon M t"
    and "is_base s \<longleftrightarrow> is_base t" and "same_points al s t" and "distinct ds"
  shows "hc_eq M s t"
  using assms
proof (induction ds arbitrary: s t)
  case (Cons d ds)
  obtain c ls c' ls' where s: "s = HC c al (d # ds) ls" and l: "lay_ok al d ds ls"
    and t: "t = HC c' al (d # ds) ls'" and l': "lay_ok al d ds ls'"
    using Cons.prems(1,2) by (auto simp: hc_ok_Cons)
  have cc: "c = c'" using Cons.prems(5) by (simp add: s t is_base_def)
  have IH: "hc_eq M s t" if "hc_ok M ok al ds s" "hc_ok M ok al ds t" "hc_canon M s" "hc_canon M t"
    "is_base s" "is_base t" "same_points al s t" for s t
    using Cons.IH [OF that(1-4) _ that(7)] that(5,6) Cons.prems(7) by auto
  have pts: "points_distinct al ls" "points_distinct al ls'"
    using points_distinct_of [OF l Cons.prems(3) [unfolded s] IH]
      points_distinct_of [OF l' Cons.prems(4) [unfolded t] IH] by blast+
  have same: "lay_sem d p ls = lay_sem d p ls'" if "in_space M al p" for p
    using Cons.prems(6) that by (simp add: same_points_def s t)
  note match = match_key [OF l l' Cons.prems(7) Cons.prems(3) [unfolded s] Cons.prems(4) [unfolded t] pts same]
  note match' = match_key [OF l' l Cons.prems(7) Cons.prems(4) [unfolded t] Cons.prems(3) [unfolded s]
      pts(2,1) same [symmetric]]
  let ?D = "\<lambda>ls. set (map (dset M \<circ> fst) ls)"
  have "?D ls = ?D ls'"
  proof (intro equalityI subsetI)
    fix X
    assume "X \<in> ?D ls"
    then obtain k u where "(k, u) \<in> set ls" "X = dset M k" by auto
    with match show "X \<in> ?D ls'" by force
  next
    fix X
    assume "X \<in> ?D ls'"
    then obtain k u where "(k, u) \<in> set ls'" "X = dset M k" by auto
    with match' show "X \<in> ?D ls" by force
  qed
  then have len: "length ls = length ls'"
    using lay_distinct [OF l] lay_distinct [OF l'] distinct_card by (metis length_map)
  have "case dict_get (v_eq M) ls' k of None \<Rightarrow> False | Some u' \<Rightarrow> hc_eq M u u'"
    if m: "(k, u) \<in> set ls" for k u
  proof -
    obtain k' u' where m': "(k', u') \<in> set ls'" "dset M k' = dset M k" "same_points al u u'"
      using match m by blast
    have "v_eq M k' k" using m' lay_ok_memD(1) [OF l m] lay_ok_memD(1) [OF l' m'(1)] eq_law by blast
    then obtain v where v: "dict_get (v_eq M) ls' k = Some v"
      using dict_get_exists [OF m'(1), of "v_eq M"] by blast
    obtain k2 where k2: "(k2, v) \<in> set ls'" "v_eq M k2 k" using dict_get_Some [OF v] by blast
    then have "dset M k2 = dset M k'"
      using m'(2) lay_ok_memD(1) [OF l m] lay_ok_memD(1) [OF l' k2(1)] eq_law by blast
    moreover obtain x where "v_mem M x k'" using lay_ok_memD(2) [OF l' m'(1)] by auto
    ultimately have "v = u'"
      using lay_unique [OF l' k2(1) m'(1), of x] by (auto simp: dset_def set_eq_iff)
    moreover have "hc_eq M u u'"
      using IH [OF lay_ok_memD(4) [OF l m] lay_ok_memD(4) [OF l' m'(1)]] m'(3)
        hc_canon_sub [OF Cons.prems(3) [unfolded s] m]
        hc_canon_sub [OF Cons.prems(4) [unfolded t] m'(1)] by blast
    ultimately show ?thesis using v by simp
  qed
  then show ?case
    using len cc by (auto simp: s t list_all_iff)
qed simp

lemma hc_eq_points_iff:
  assumes t: "hc_wf M ok t" and u: "hc_wf M ok u" and "hc_canon M t" and "hc_canon M u"
    and "is_props t \<longleftrightarrow> is_props u" and "all_dims u = all_dims t" and "active_dims u = active_dims t"
  shows "hc_eq M t u \<longleftrightarrow> (\<forall>p. in_space M (all_dims t) p \<longrightarrow> hc_sem M p t = hc_sem M p u)"
proof -
  obtain c al act ls where eq: "t = HC c al act ls" "distinct al" "dims_by_order al act = act"
    and l: "if act = [] then ls = [] else hc_ok M ok al act t"
    using t by (auto simp: hc_wf_iff)
  obtain c' al' act' ls' where "u = HC c' al' act' ls'"
    and "if act' = [] then ls' = [] else hc_ok M ok al' act' u"
    using u by (auto simp: hc_wf_iff)
  then have eq': "u = HC c al act ls'" and l': "if act = [] then ls' = [] else hc_ok M ok al act u"
    using assms(5-7) eq(1) by auto
  show ?thesis
  proof (cases "act = []")
    case True
    then show ?thesis using l l' by (simp add: eq eq')
  next
    case False
    have d: "distinct act" using distinct_dims_by_order [OF eq(2), of act] eq(3) by simp
    have ok: "hc_ok M ok al act t" "hc_ok M ok al act u" using l l' False by auto
    have base: "is_base t \<longleftrightarrow> is_base u" using eq eq' by (simp add: is_base_def)
    show ?thesis
      using canon_unique [OF ok assms(3,4) base _ d] hc_eq_sem [OF ok] eq
      by (auto simp: same_points_def)
  qed
qed

end

end
