(* ===== verification/Hyper_Cube_Contain.thy ===== *)
theory Hyper_Cube_Contain
  imports Hyper_Cube_Canon
begin

text \<open>
  \<open>contained_in\<close> of \<open>CanonicalHyperCubeSet\<close> on canonical trees: it never raises and decides
  whether every point of one tree is a point of the other.
\<close>

context dim_values
begin

section \<open>The whole space\<close>

definition entire :: "dim list \<Rightarrow> 'v hcs \<Rightarrow> bool" where
  "entire al t \<longleftrightarrow> (\<forall>p. in_space M al p \<longrightarrow> hc_sem M p t)"

definition sub_points :: "dim list \<Rightarrow> 'v hcs \<Rightarrow> 'v hcs \<Rightarrow> bool" where
  "sub_points al t u \<longleftrightarrow> (\<forall>p. in_space M al p \<longrightarrow> hc_sem M p t \<longrightarrow> hc_sem M p u)"

lemma create_aux_canon:
  assumes "list_all2 (within_domain M) ds cube" and "create_from_cube_aux al cube ds = Some r"
  shows "hc_canon M r \<and> is_base r"
  using assms
proof (induction ds arbitrary: cube r)
  case (Cons d ds)
  then obtain k vs where c: "cube = k # vs" "within_domain M d k" "list_all2 (within_domain M) ds vs"
    by (auto simp: list_all2_Cons1)
  show ?case
  proof (cases vs)
    case Nil
    then show ?thesis using Cons.prems(2) c by (auto simp: is_base_def)
  next
    case (Cons v vs')
    then obtain s where s: "create_from_cube_aux al vs ds = Some s" "r = HC False al (d # ds) [(k, s)]"
      using Cons.prems(2) c by (auto simp: bind_eq_Some_conv)
    with Cons.IH [OF c(3) s(1)] c(2) show ?thesis by (simp add: is_base_def)
  qed
qed simp

lemma domain_within: "dim_domain M d = Some w \<Longrightarrow> within_domain M d w"
  using within_dset [of d w w] domain_dset(1) by simp

lemma entire_decided:
  assumes ok: "hc_ok M ok al act t" and can: "hc_canon M t" and act: "act \<noteq> []" "dims_by_order al act = act"
    and al: "distinct al" "domains_known al" and b: "is_base t \<or> \<not> entire al t"
  shows "is_entire_sub_space M t = Some (entire al t)"
proof -
  have sub: "set act \<subseteq> set al" using dims_by_order_set [of al act] act(2) by auto
  obtain c ls where t: "t = HC c al act ls" using ok act(1) by (cases act) (auto simp: hc_ok_Cons)
  obtain cube where cube: "map_opt (dim_domain M) act = Some cube"
    "list_all2 (\<lambda>d k. dim_domain M d = Some k) act cube"
    using domains_cube [OF al(2) sub] by blast
  have "list_all2 (\<lambda>d k. ok d k \<and> dset M k \<noteq> {}) act cube"
    using cube(2) by (rule list.rel_mono_strong) (use domain_dset in blast)
  from create_from_cube_aux_ok [OF this act(1), of al] obtain ls' where
    obj: "create_from_cube_aux al cube act = Some (HC False al act ls')" "hc_ok M ok al act (HC False al act ls')"
      "\<forall>p. hc_sem M p (HC False al act ls') = list_all2 (\<lambda>d k. v_mem M (p d) k) act cube" by blast
  let ?o = "HC False al act ls'"
  have all: "hc_sem M p ?o" if "in_space M al p" for p
    using obj(3) domains_cube_space [OF cube(2) sub that] by simp
  have "list_all2 (within_domain M) act cube"
    using cube(2) by (rule list.rel_mono_strong) (use domain_within in blast)
  note o = create_aux_canon [OF this obj(1)]
  have "hc_eq M ?o t \<longleftrightarrow> entire al t"
  proof
    assume "hc_eq M ?o t"
    from hc_eq_sem [OF obj(2) ok this] all show "entire al t" by (simp add: entire_def)
  next
    assume e: "entire al t"
    with b have "is_base t" by simp
    moreover have "same_points al ?o t" using e all by (simp add: same_points_def entire_def)
    ultimately show "hc_eq M ?o t"
      using canon_unique [OF obj(2) ok _ can] o distinct_dims_by_order [OF al(1), of act] act(2) by simp
  qed
  then show ?thesis using cube(1) obj(1) act(2) by (simp add: is_entire_sub_space_def t entire_space_cube_def)
qed

section \<open>Sections of a tree\<close>

lemma sem_upd:
  assumes "hc_ok M ok al ds t" and "d \<notin> set ds"
  shows "hc_sem M (p(d := x)) t = hc_sem M p t"
  by (rule hc_sem_cong [OF assms(1)]) (use assms(2) in auto)

lemma sub_points_node:
  assumes l: "lay_ok al d ds ls" and w: "\<forall>(k, s)\<in>set ls. within_domain M d k" and d: "d \<notin> set ds"
    and u: "hc_ok M ok al es u" "d \<notin> set es"
  shows "sub_points al (HC c al (d # ds) ls) u \<longleftrightarrow> (\<forall>(k, s)\<in>set ls. sub_points al s u)"
proof
  assume sub: "sub_points al (HC c al (d # ds) ls) u"
  show "\<forall>(k, s)\<in>set ls. sub_points al s u"
  proof (clarify)
    fix k s
    assume m: "(k, s) \<in> set ls"
    note k = lay_ok_memD [OF l m]
    obtain x where x: "v_mem M x k" using k(2) by auto
    have "hc_sem M p u" if "in_space M al p" "hc_sem M p s" for p
    proof -
      have "lay_sem d (p(d := x)) ls" using section_sem [OF l m x d] that(2) by simp
      moreover have "in_space M al (p(d := x))" using in_space_upd [OF that(1) _ k(1) x] w m by blast
      ultimately have "hc_sem M (p(d := x)) u" using sub by (simp add: sub_points_def)
      then show ?thesis using sem_upd [OF u] by simp
    qed
    then show "sub_points al s u" by (simp add: sub_points_def)
  qed
next
  assume all: "\<forall>(k, s)\<in>set ls. sub_points al s u"
  show "sub_points al (HC c al (d # ds) ls) u"
    unfolding sub_points_def
  proof (intro allI impI)
    fix p
    assume p: "in_space M al p" "hc_sem M p (HC c al (d # ds) ls)"
    then obtain k s where "(k, s) \<in> set ls" "hc_sem M p s" by (auto elim!: lay_semE)
    with all p(1) show "hc_sem M p u" by (auto simp: sub_points_def)
  qed
qed

text \<open>A tree that does not depend on a dimension, within one that does: the layers cover the dimension.\<close>

lemma sub_points_inactive:
  assumes t: "hc_ok M ok al es t" "d \<notin> set es" and l: "lay_ok al d ds ls"
    and w: "\<forall>(k, s)\<in>set ls. within_domain M d k" and d: "d \<notin> set ds"
    and ne: "\<exists>p. in_space M al p \<and> hc_sem M p t" and dom: "dim_domain M d = Some w"
    and da: "d \<in> set al"
  shows "sub_points al t (HC c al (d # ds) ls) \<longleftrightarrow>
           (\<forall>(k, s)\<in>set ls. sub_points al t s) \<and> dset M w = (\<Union>(k, s)\<in>set ls. dset M k)"
proof -
  have upd: "in_space M al (p(d := x))" if "in_space M al p" "v_mem M x w" for p x
    using in_space_upd [OF that(1) domain_within [OF dom] domain_dset(1) [OF dom] that(2)] .
  have kw: "dset M k \<subseteq> dset M w" if "(k, s) \<in> set ls" for k s
    using within_dset [OF lay_ok_memD(1) [OF l that] dom] w that by blast
  show ?thesis
  proof (intro iffI conjI)
    assume sub: "sub_points al t (HC c al (d # ds) ls)"
    have layer: "lay_sem d (p(d := x)) ls" if "in_space M al p" "v_mem M x w" "hc_sem M p t" for p x
      using sub upd [OF that(1,2)] sem_upd [OF t, of p x] that(3) unfolding sub_points_def by fastforce
    show "\<forall>(k, s)\<in>set ls. sub_points al t s"
    proof clarify
      fix k s
      assume m: "(k, s) \<in> set ls"
      obtain x where x: "v_mem M x k" using lay_ok_memD(2) [OF l m] by auto
      then have "v_mem M x w" using kw [OF m] by auto
      then show "sub_points al t s" using layer section_sem [OF l m x d] unfolding sub_points_def by blast
    qed
    obtain p where p: "in_space M al p" "hc_sem M p t" using ne by blast
    have "x \<in> (\<Union>(k, s)\<in>set ls. dset M k)" if x: "x \<in> dset M w" for x
    proof -
      have "lay_sem d (p(d := x)) ls" using layer [OF p(1) _ p(2)] x by simp
      then obtain k s where "(k, s) \<in> set ls" "v_mem M x k" by (auto elim!: lay_semE)
      then show ?thesis by force
    qed
    with kw show "dset M w = (\<Union>(k, s)\<in>set ls. dset M k)" by fastforce
  next
    assume a: "(\<forall>(k, s)\<in>set ls. sub_points al t s) \<and> dset M w = (\<Union>(k, s)\<in>set ls. dset M k)"
    have "hc_sem M p (HC c al (d # ds) ls)" if p: "in_space M al p" "hc_sem M p t" for p
    proof -
      have "p d \<in> dset M w" using in_space_mem [OF p(1) da dom] by simp
      then obtain k s where m: "(k, s) \<in> set ls" "v_mem M (p d) k" using a by auto
      then have "hc_sem M p s" using a p by (auto simp: sub_points_def)
      with m show ?thesis by (auto intro: lay_semI)
    qed
    then show "sub_points al t (HC c al (d # ds) ls)" by (simp add: sub_points_def)
  qed
qed

text \<open>Both trees have the dimension: each layer is covered by the layers it meets.\<close>

lemma sub_points_layers:
  assumes l: "lay_ok al d ds ls" and w: "\<forall>(k, s)\<in>set ls. within_domain M d k" and d: "d \<notin> set ds"
    and l': "lay_ok al d es ls'" and d': "d \<notin> set es"
    and ne: "\<forall>(k, s)\<in>set ls. \<exists>p. in_space M al p \<and> hc_sem M p s"
  shows "sub_points al (HC c al (d # ds) ls) (HC c' al (d # es) ls') \<longleftrightarrow>
           (\<forall>(k, s)\<in>set ls. (\<forall>(k', s')\<in>set ls'. dset M k \<inter> dset M k' \<noteq> {} \<longrightarrow> sub_points al s s') \<and>
                              dset M k \<subseteq> (\<Union>(k', s')\<in>set ls'. dset M k'))"
    (is "?L \<longleftrightarrow> ?R")
proof
  assume L: ?L
  have layer: "lay_sem d (p(d := x)) ls'"
    if m: "(k, s) \<in> set ls" "v_mem M x k" and p: "in_space M al p" "hc_sem M p s" for k s x p
  proof -
    have "in_space M al (p(d := x))" using in_space_upd [OF p(1) _ lay_ok_memD(1) [OF l m(1)] m(2)] w m(1) by blast
    moreover have "lay_sem d (p(d := x)) ls" using section_sem [OF l m d] p(2) by simp
    ultimately show ?thesis using L by (simp add: sub_points_def)
  qed
  show ?R
  proof (clarify, intro conjI)
    fix k s
    assume m: "(k, s) \<in> set ls"
    show "\<forall>(k', s')\<in>set ls'. dset M k \<inter> dset M k' \<noteq> {} \<longrightarrow> sub_points al s s'"
    proof clarify
      fix k' s'
      assume m': "(k', s') \<in> set ls'" and meet: "dset M k \<inter> dset M k' \<noteq> {}"
      obtain x where x: "v_mem M x k" "v_mem M x k'" using meet by auto
      show "sub_points al s s'"
        using layer [OF m x(1)] section_sem [OF l' m' x(2) d'] by (auto simp: sub_points_def)
    qed
    obtain p where p: "in_space M al p" "hc_sem M p s" using ne m by blast
    show "dset M k \<subseteq> (\<Union>(k', s')\<in>set ls'. dset M k')"
    proof
      fix x
      assume "x \<in> dset M k"
      then have "lay_sem d (p(d := x)) ls'" using layer [OF m _ p] by simp
      then show "x \<in> (\<Union>(k', s')\<in>set ls'. dset M k')" by (fastforce elim!: lay_semE)
    qed
  qed
next
  assume R: ?R
  show ?L
    unfolding sub_points_def
  proof (intro allI impI)
    fix p
    assume p: "in_space M al p" "hc_sem M p (HC c al (d # ds) ls)"
    then obtain k s where m: "(k, s) \<in> set ls" "v_mem M (p d) k" "hc_sem M p s" by (auto elim!: lay_semE)
    then have "p d \<in> (\<Union>(k', s')\<in>set ls'. dset M k')" using R by fastforce
    then obtain k' s' where m': "(k', s') \<in> set ls'" "v_mem M (p d) k'" by auto
    then have "dset M k \<inter> dset M k' \<noteq> {}" using m(2) by auto
    then have "sub_points al s s'" using R m(1) m'(1) by blast
    with p(1) m(3) m' show "hc_sem M p (HC c' al (d # es) ls')" by (auto simp: sub_points_def intro: lay_semI)
  qed
qed

section \<open>The loops\<close>

lemma joint_loop_ok:
  assumes "keys_ok M ok d (map fst ls)" and "dim_domain M d = Some w"
    and "\<forall>(k, s)\<in>set ls. chk s = Some (P s)"
    and "case cov of None \<Rightarrow> ls \<noteq> [] | Some c \<Rightarrow> ok d c"
  shows "joint_loop M chk d cov ls =
           Some ((\<forall>(k, s)\<in>set ls. P s) \<and>
                 dset M w = (case cov of None \<Rightarrow> {} | Some c \<Rightarrow> dset M c) \<union> (\<Union>(k, s)\<in>set ls. dset M k))"
  using assms
proof (induction ls arbitrary: cov)
  case Nil
  then show ?case
    using eq_law [of d _ w] domain_dset(1) by (cases cov) auto
next
  case (Cons e ls)
  obtain k s where e: "e = (k, s)" by (cases e)
  let ?c = "case cov of None \<Rightarrow> k | Some c \<Rightarrow> v_or M c k"
  have k: "ok d k" "keys_ok M ok d (map fst ls)" using Cons.prems(1) by (simp_all add: e keys_ok_def)
  have c: "ok d ?c" "dset M ?c = (case cov of None \<Rightarrow> {} | Some c \<Rightarrow> dset M c) \<union> dset M k"
    using Cons.prems(4) k(1) or_ok or_dset by (auto split: option.splits)
  have "chk s = Some (P s)" using Cons.prems(3) by (simp add: e)
  moreover have chk: "\<forall>(k, s)\<in>set ls. chk s = Some (P s)" using Cons.prems(3) by (simp add: e)
  moreover have "joint_loop M chk d (Some ?c) ls =
      Some ((\<forall>(k, s)\<in>set ls. P s) \<and> dset M w = dset M ?c \<union> (\<Union>(k, s)\<in>set ls. dset M k))"
    using Cons.IH [OF k(2) Cons.prems(2) chk, of "Some ?c"] c(1) by simp
  ultimately show ?case by (simp add: e c(2) Un_assoc)
qed

lemma cover_loop_ok:
  assumes "keys_ok M ok d (map fst ls)" and "ok d cur" and "dset M cur \<noteq> {}"
    and "\<forall>(k, s)\<in>set ls. dset M cur \<inter> dset M k \<noteq> {} \<longrightarrow> chk s = Some (P s)"
  shows "\<exists>r. cover_loop M chk cur ls = Some r \<and>
           (r = Covered \<longleftrightarrow> (\<forall>(k, s)\<in>set ls. dset M cur \<inter> dset M k \<noteq> {} \<longrightarrow> P s) \<and>
                             dset M cur \<subseteq> (\<Union>(k, s)\<in>set ls. dset M k))"
  using assms
proof (induction ls arbitrary: cur)
  case (Cons e ls)
  obtain k s where e: "e = (k, s)" by (cases e)
  have k: "ok d k" "keys_ok M ok d (map fst ls)" using Cons.prems(1) by (simp_all add: e keys_ok_def)
  have disj: "dset M k \<inter> dset M k' = {}" if "(k', s') \<in> set ls" for k' s'
    using Cons.prems(1) that unfolding keys_ok_iff by (fastforce simp: e disjoint_by_def)
  let ?m = "v_and M cur k"
  have m: "ok d ?m" "dset M ?m = dset M cur \<inter> dset M k" "v_bool M ?m \<longleftrightarrow> dset M cur \<inter> dset M k \<noteq> {}"
    using and_ok [OF Cons.prems(2) k(1)] and_dset [OF Cons.prems(2) k(1)] bool_law by auto
  show ?case
  proof (cases "v_bool M ?m")
    case False
    have chk: "\<forall>(k, s)\<in>set ls. dset M cur \<inter> dset M k \<noteq> {} \<longrightarrow> chk s = Some (P s)"
      using Cons.prems(4) by (simp add: e)
    have "dset M cur \<inter> dset M k = {}" using False m(3) by simp
    moreover from this have "dset M cur \<subseteq> dset M k \<union> X \<longleftrightarrow> dset M cur \<subseteq> X" for X by blast
    ultimately show ?thesis using Cons.IH [OF k(2) Cons.prems(2,3) chk] False by (simp add: e)
  next
    case True
    then have c: "chk s = Some (P s)" using Cons.prems(4) m(3) by (simp add: e)
    show ?thesis
    proof (cases "P s")
      case False
      with c True m(3) show ?thesis by (simp add: e)
    next
      case P: True
      let ?r = "v_sub M cur ?m"
      have r: "ok d ?r" "dset M ?r = dset M cur - dset M k" "v_bool M ?r \<longleftrightarrow> dset M cur - dset M k \<noteq> {}"
        using sub_ok [OF Cons.prems(2) m(1)] sub_dset [OF Cons.prems(2) m(1)] bool_law m(2) by auto
      have meet: "dset M ?r \<inter> dset M k' = dset M cur \<inter> dset M k'" if "(k', s') \<in> set ls" for k' s'
        using disj [OF that] r(2) by blast
      show ?thesis
      proof (cases "v_bool M ?r")
        case False
        then have "dset M cur \<subseteq> dset M k" using r(3) by blast
        moreover from this have "dset M cur \<inter> dset M k' = {}" if "(k', s') \<in> set ls" for k' s'
          using disj [OF that] by blast
        ultimately show ?thesis using c P True False by (auto simp: e Let_def)
      next
        case R: True
        have ne: "dset M ?r \<noteq> {}" using R r(2,3) by blast
        have chk: "\<forall>(k, s)\<in>set ls. dset M ?r \<inter> dset M k \<noteq> {} \<longrightarrow> chk s = Some (P s)"
          using Cons.prems(4) meet by (fastforce simp: e)
        from Cons.IH [OF k(2) r(1) ne chk] obtain x where x: "cover_loop M chk ?r ls = Some x"
          "x = Covered \<longleftrightarrow> (\<forall>(k, s)\<in>set ls. dset M ?r \<inter> dset M k \<noteq> {} \<longrightarrow> P s) \<and>
             dset M ?r \<subseteq> (\<Union>(k, s)\<in>set ls. dset M k)" by blast
        have "(\<forall>(k, s)\<in>set ls. dset M ?r \<inter> dset M k \<noteq> {} \<longrightarrow> P s) \<longleftrightarrow>
            (\<forall>(k, s)\<in>set ls. dset M cur \<inter> dset M k \<noteq> {} \<longrightarrow> P s)"
          using meet by blast
        moreover have "dset M ?r \<subseteq> (\<Union>(k, s)\<in>set ls. dset M k) \<longleftrightarrow>
            dset M cur \<subseteq> dset M k \<union> (\<Union>(k, s)\<in>set ls. dset M k)"
          using r(2) by blast
        ultimately show ?thesis using c P True R x by (simp add: e Let_def)
      qed
    qed
  qed
qed simp

lemma all_covered_ok:
  assumes "\<And>x. x \<in> set xs \<Longrightarrow> \<exists>r. f x = Some r \<and> (r = Covered \<longleftrightarrow> P x)"
  shows "all_covered f xs = Some (\<forall>x\<in>set xs. P x)"
  using assms
proof (induction xs)
  case (Cons x xs)
  obtain r where "f x = Some r" "r = Covered \<longleftrightarrow> P x" using Cons.prems by fastforce
  moreover have "all_covered f xs = Some (\<forall>x\<in>set xs. P x)" using Cons by simp
  ultimately show ?case by auto
qed simp


section \<open>Containment\<close>

lemma last_single:
  assumes "lay_ok al d [] ls" and "hc_canon M (HC c al [d] ls)" and "ls \<noteq> []"
  obtains k where "ls = [(k, Empty_Interval)]"
proof -
  obtain k s ls' where ls: "ls = (k, s) # ls'" using assms(3) by (cases ls) auto
  have leaf: "u = Empty_Interval" if "(k', u) \<in> set ls" for k' u
    using lay_ok_memD(4) [OF assms(1) that] by simp
  have "ls' = []"
  proof (rule ccontr)
    assume "ls' \<noteq> []"
    then obtain k' u where "(k', u) \<in> set ls'" by (cases ls') auto
    with assms(2) leaf [of k s] leaf [of k' u] show False by (auto simp: ls)
  qed
  with ls leaf [of k s] that show ?thesis by simp
qed

text \<open>The trees of one call: canonical, over the dimensions that are still to be handled.\<close>

definition contain_args :: "dim list \<Rightarrow> dim list \<Rightarrow> 'v hcs \<Rightarrow> bool" where
  "contain_args al act t \<longleftrightarrow>
     hc_ok M ok al act t \<and> hc_canon M t \<and> sub_nonempty t \<and> act \<noteq> [] \<and> dims_by_order al act = act"

lemma order_tl:
  assumes "distinct al" and "dims_by_order al (d # ds) = d # ds"
  shows "dims_by_order al ds = ds"
proof -
  have dist: "distinct (d # ds)" using distinct_dims_by_order [OF assms(1), of "d # ds"] assms(2) by simp
  have "dims_by_order al ds = filter (\<lambda>e. e \<in> set ds) (dims_by_order al (d # ds))"
    by (auto simp: dims_by_order_def intro!: filter_cong)
  also have "\<dots> = ds" unfolding assms(2) using dist by simp
  finally show ?thesis .
qed

lemma contain_args_sub:
  assumes "contain_args al (d # ds) (HC c al' act ls)" and "(k, s) \<in> set ls" and "ds \<noteq> []" and "distinct al"
  shows "contain_args al ds s"
  using assms lay_ok_memD [of al d ds ls k s] order_tl [of al d ds]
  by (auto simp: contain_args_def)

lemma order_step:
  assumes "distinct al" and "dims_by_order al act = act" and "dims_by_order al act' = act'"
    and eq: "dims_by_order al (act @ act') = d # ds"
  shows "d \<in> set act \<Longrightarrow> act = d # remove1 d act" and "d \<in> set act' \<Longrightarrow> act' = d # remove1 d act'"
    and "ds = dims_by_order al (remove1 d act @ remove1 d act')" and "d \<in> set act \<or> d \<in> set act'"
proof -
  have dist: "distinct (d # ds)" "distinct act" "distinct act'"
    using distinct_dims_by_order [OF assms(1)] assms(2,3) eq by metis+
  have part: "x = filter (\<lambda>e. e \<in> set x) (d # ds)" if "dims_by_order al x = x" "set x \<subseteq> set (act @ act')" for x
  proof -
    have "dims_by_order al x = filter (\<lambda>e. e \<in> set x) (dims_by_order al (act @ act'))"
      using that(2) unfolding dims_by_order_def filter_filter by (intro filter_cong) auto
    with that(1) eq show ?thesis by simp
  qed
  show "act = d # remove1 d act" if "d \<in> set act"
  proof -
    have r: "act = d # filter (\<lambda>e. e \<in> set act) ds" using part [OF assms(2)] that by simp
    show ?thesis using r by (metis remove1.simps(2))
  qed
  show "act' = d # remove1 d act'" if "d \<in> set act'"
  proof -
    have r: "act' = d # filter (\<lambda>e. e \<in> set act') ds" using part [OF assms(3)] that by simp
    show ?thesis using r by (metis remove1.simps(2))
  qed
  have "ds = filter (\<lambda>e. e \<noteq> d) (d # ds)" using dist(1) by (auto intro!: filter_True [symmetric])
  also have "\<dots> = dims_by_order al (remove1 d act @ remove1 d act')"
    using dist unfolding eq [symmetric] dims_by_order_def filter_filter by (intro filter_cong) auto
  finally show "ds = dims_by_order al (remove1 d act @ remove1 d act')" .
  have "d \<in> set (dims_by_order al (act @ act'))" using eq by simp
  then show "d \<in> set act \<or> d \<in> set act'" by (simp add: dims_by_order_set)
qed

lemma entire_inactive:
  assumes "hc_ok M ok al es u" and "d \<notin> set es" and "within_domain M d k" and "ok d k" and "v_mem M x k"
  shows "entire al u \<longleftrightarrow> (\<forall>p. in_space M al p \<longrightarrow> v_mem M (p d) k \<longrightarrow> hc_sem M p u)"
proof
  assume a: "\<forall>p. in_space M al p \<longrightarrow> v_mem M (p d) k \<longrightarrow> hc_sem M p u"
  have "hc_sem M p u" if "in_space M al p" for p
    using a in_space_upd [OF that assms(3-5)] assms(5) sem_upd [OF assms(1,2), of p x] by simp
  then show "entire al u" by (simp add: entire_def)
qed (simp add: entire_def)

lemma contained_in_aux_ok:
  assumes al: "distinct al" "domains_known al"
    and "contain_args al act t" and "contain_args al act' u"
    and "dims_by_order al (act @ act') = dims" and "is_base u \<or> \<not> entire al u"
  shows "contained_in_aux M t u dims = Some (sub_points al t u)"
  using assms(3-)
proof (induction dims arbitrary: act act' t u)
  case Nil
  then have "act = []" using subseq_dims_by_order by (metis contain_args_def dims_by_order_set Int_iff
      all_not_in_conv append_is_Nil_conv empty_set filter_empty_conv dims_by_order_def in_set_conv_decomp Un_iff set_append)
  then show ?case using Nil.prems(1) by (simp add: contain_args_def)
next
  case (Cons d ds)
  have ord: "dims_by_order al act = act" "dims_by_order al act' = act'"
    using Cons.prems(1,2) by (simp_all add: contain_args_def)
  note step = order_step [OF al(1) ord Cons.prems(3)]
  have tok: "hc_ok M ok al act t" "hc_canon M t" "sub_nonempty t" "act \<noteq> []"
    and uok: "hc_ok M ok al act' u" "hc_canon M u" "sub_nonempty u" "act' \<noteq> []"
    using Cons.prems(1,2) by (simp_all add: contain_args_def)
  obtain c ls where t: "t = HC c al act ls" "ls \<noteq> []"
    using tok(1,3,4) by (cases act) (auto simp: hc_ok_Cons sub_nonempty_def)
  obtain c' ls' where u: "u = HC c' al act' ls'" "ls' \<noteq> []"
    using uok(1,3,4) by (cases act') (auto simp: hc_ok_Cons sub_nonempty_def)
  have dist: "distinct act" "distinct act'" using distinct_dims_by_order [OF al(1)] ord by metis+
  have ent: "is_entire_sub_space M u = Some (entire al u)"
    by (rule entire_decided [OF uok(1,2,4) ord(2) al Cons.prems(4)])
  have dal: "d \<in> set al" using Cons.prems(3) dims_by_order_set [of al "act @ act'"] by auto
  obtain w where w: "dim_domain M d = Some w" using al(2) dal by (auto simp: domains_known_def)
  have args: "contain_args al es s" if "contain_args al (d # es) (HC b al x l)" "(k, s) \<in> set l" "es \<noteq> []" for es b x l k s
    by (rule contain_args_sub [OF that(1,2,3) al(1)])
  consider (left) "d \<in> set act" "d \<notin> set act'" | (right) "d \<notin> set act" "d \<in> set act'"
    | (both) "d \<in> set act" "d \<in> set act'" using step(4) by blast
  then show ?case
  proof cases
    case left
    define es where "es = remove1 d act"
    have act: "act = d # es" "d \<notin> set es" using step(1) left(1) dist(1) by (auto simp: es_def)
    have ds: "dims_by_order al (es @ act') = ds" using step(3) left(2) by (simp add: es_def remove1_idem)
    have l: "lay_ok al d es ls" and lw: "\<forall>(k, s)\<in>set ls. within_domain M d k"
      using tok(1,2) hc_canon_node [of c al d es ls] by (auto simp: t act)
    have sub: "sub_points al t u \<longleftrightarrow> (\<forall>(k, s)\<in>set ls. sub_points al s u)"
      using sub_points_node [OF l lw act(2) uok(1) left(2)] by (simp add: t act)
    show ?thesis
    proof (cases "es = []")
      case True
      have "s = Empty_Interval" if "(k, s) \<in> set ls" for k s using lay_ok_memD(4) [OF l that] True by simp
      then have "sub_points al s u = entire al u" if "(k, s) \<in> set ls" for k s
        unfolding \<open>\<And>k s. (k, s) \<in> set ls \<Longrightarrow> s = Empty_Interval\<close> [OF that] by (simp add: sub_points_def entire_def)
      then have "sub_points al t u \<longleftrightarrow> entire al u" using sub t(2) by (cases ls) (auto split: prod.splits)
      moreover have "ds \<noteq> []"
      proof -
        obtain e where "e \<in> set act'" using uok(4) by (cases act') auto
        moreover from this have "e \<in> set al" using ord(2) by (metis IntD1 dims_by_order_set)
        ultimately have "e \<in> set (dims_by_order al (es @ act'))" by (simp add: dims_by_order_set)
        then show ?thesis using ds by auto
      qed
      ultimately show ?thesis using ent left act True by (simp add: t(1) u(1))
    next
      case False
      have "contained_in_aux M s u ds = Some (sub_points al s u)" if m: "(k, s) \<in> set ls" for k s
        using Cons.IH [OF args [OF _ m False] Cons.prems(2) ds Cons.prems(4)] Cons.prems(1) by (simp add: t act)
      then have "map_opt (\<lambda>(k, s). contained_in_aux M s u ds) ls = Some (map (\<lambda>(k, s). sub_points al s u) ls)"
        by (intro map_opt_total) auto
      then show ?thesis using left act False sub by (auto simp: t(1) u(1) list_all_iff)
    qed
  next
    case right
    define es where "es = remove1 d act'"
    have act: "act' = d # es" "d \<notin> set es" using step(2) right(2) dist(2) by (auto simp: es_def)
    have ds: "dims_by_order al (act @ es) = ds" using step(3) right(1) by (simp add: es_def remove1_idem)
    have l: "lay_ok al d es ls'" and lw: "\<forall>(k, s)\<in>set ls'. within_domain M d k" and lb: "\<forall>(k, s)\<in>set ls'. is_base s"
      using uok(1,2) hc_canon_node [of c' al d es ls'] by (auto simp: u act)
    have ne: "\<exists>p. in_space M al p \<and> hc_sem M p t" by (rule canon_nonempty [OF tok(1-3) dist(1)])
    have sub: "sub_points al t u \<longleftrightarrow>
        (\<forall>(k, s)\<in>set ls'. sub_points al t s) \<and> dset M w = (\<Union>(k, s)\<in>set ls'. dset M k)"
      using sub_points_inactive [OF tok(1) right(1) l lw act(2) ne w dal] by (simp add: u act)
    show ?thesis
    proof (cases "es = []")
      case True
      have leaf: "s = Empty_Interval" if "(k, s) \<in> set ls'" for k s using lay_ok_memD(4) [OF l that] True by simp
      have "sub_points al t s" if "(k, s) \<in> set ls'" for k s using leaf [OF that] by (simp add: sub_points_def)
      with sub have "sub_points al t u \<longleftrightarrow> dset M w = (\<Union>(k, s)\<in>set ls'. dset M k)" by blast
      moreover have "sub_points al Empty_Interval s" if "(k, s) \<in> set ls'" for k s
        using leaf [OF that] by (simp add: sub_points_def)
      then have "sub_points al Empty_Interval u \<longleftrightarrow> dset M w = (\<Union>(k, s)\<in>set ls'. dset M k)"
        using sub_points_inactive [OF _ _ l lw act(2) _ w dal, of "[]" Empty_Interval c'] space_point
        by (auto simp add: u(1) act(1))
      moreover have "sub_points al Empty_Interval u \<longleftrightarrow> entire al u" by (simp add: sub_points_def entire_def)
      ultimately show ?thesis using ent right act True by (simp add: t(1) u(1))
    next
      case False
      have chk: "\<forall>(k, s)\<in>set ls'. contained_in_aux M t s ds = Some (sub_points al t s)"
      proof clarify
        fix k s
        assume m: "(k, s) \<in> set ls'"
        have "is_base s" using lb m by blast
        then show "contained_in_aux M t s ds = Some (sub_points al t s)"
          using Cons.IH [OF Cons.prems(1) args [OF _ m False] ds] Cons.prems(2) by (simp add: u act)
      qed
      have "keys_ok M ok d (map fst ls')" using l by (simp add: lay_ok_def)
      from joint_loop_ok [OF this w chk, of None] u(2)
      have "joint_loop M (\<lambda>s'. contained_in_aux M t s' ds) d None ls' = Some (sub_points al t u)"
        by (simp add: sub)
      then show ?thesis using right act False u(2) by (simp add: t(1) u(1))
    qed
  next
    case both
    define es where "es = remove1 d act"
    define es' where "es' = remove1 d act'"
    have act: "act = d # es" "d \<notin> set es" using step(1) both(1) dist(1) by (auto simp: es_def)
    have act': "act' = d # es'" "d \<notin> set es'" using step(2) both(2) dist(2) by (auto simp: es'_def)
    have ds: "dims_by_order al (es @ es') = ds" using step(3) by (simp add: es_def es'_def)
    have l: "lay_ok al d es ls" and lw: "\<forall>(k, s)\<in>set ls. within_domain M d k" and lc: "\<forall>(k, s)\<in>set ls. hc_canon M s"
      using tok(1,2) hc_canon_node [of c al d es ls] by (auto simp: t act)
    have l': "lay_ok al d es' ls'" and lc': "\<forall>(k, s)\<in>set ls'. hc_canon M s" and lb': "\<forall>(k, s)\<in>set ls'. is_base s"
      using uok(1,2) hc_canon_node [of c' al d es' ls'] by (auto simp: u act')
    have ne: "\<exists>p. in_space M al p \<and> hc_sem M p s" if m: "(k, s) \<in> set ls" for k s
      using canon_nonempty [OF lay_ok_memD(4) [OF l m] _ lay_ok_memD(5) [OF l m]] lc m dist(1) act by auto
    then have "\<forall>(k, s)\<in>set ls. \<exists>p. in_space M al p \<and> hc_sem M p s" by blast
    note sub = sub_points_layers [OF l lw act(2) l' act'(2) this, of c c']
    show ?thesis
    proof (cases "es = [] \<and> es' = []")
      case True
      obtain k where k: "ls = [(k, Empty_Interval)]"
        by (rule last_single [of al d ls c]) (use l tok(2) t act True in auto)
      obtain k' where k': "ls' = [(k', Empty_Interval)]"
        by (rule last_single [of al d ls' c']) (use l' uok(2) u act' True in auto)
      have "ok d k" "ok d k'" using l l' by (auto simp: k k' lay_ok_iff)
      then have "v_contained_in M k k' \<longleftrightarrow> sub_points al t u"
        using sub contained_law by (auto simp: t(1) u(1) act act' k k' sub_points_def)
      then show ?thesis using both act act' True by (simp add: t(1) u(1) k k')
    next
      case False
      let ?chk = "\<lambda>s s'. if length act \<noteq> 1 \<and> length act' \<noteq> 1 then contained_in_aux M s s' ds
                     else if length act = 1 \<and> length act' \<noteq> 1 then is_entire_sub_space M s'
                     else Some True"
      have chk: "?chk s s' = Some (sub_points al s s')" if m: "(k, s) \<in> set ls" and m': "(k', s') \<in> set ls'" for k s k' s'
      proof (cases "es' = []")
        case True
        then have "s' = Empty_Interval" using lay_ok_memD(4) [OF l' m'] by simp
        then show ?thesis using True act' by (simp add: sub_points_def)
      next
        case ne': False
        have s': "contain_args al es' s'" "is_base s'"
          using args [OF _ m' ne'] Cons.prems(2) lb' m' by (auto simp: u act')
        show ?thesis
        proof (cases "es = []")
          case True
          then have "s = Empty_Interval" using lay_ok_memD(4) [OF l m] by simp
          moreover have "is_entire_sub_space M s' = Some (entire al s')"
            using entire_decided [of al es' s'] s' al by (simp add: contain_args_def)
          ultimately show ?thesis using True act act' ne' by (simp add: sub_points_def entire_def)
        next
          case False
          have "contain_args al es s" using args [OF _ m False] Cons.prems(1) by (simp add: t act)
          from Cons.IH [OF this s'(1) ds] s'(2) show ?thesis using act act' False ne' by simp
        qed
      qed
      have "all_covered (\<lambda>(k, s). cover_loop M (?chk s) k ls') ls =
          Some (\<forall>x\<in>set ls. case x of (k, s) \<Rightarrow>
             (\<forall>(k', s')\<in>set ls'. dset M k \<inter> dset M k' \<noteq> {} \<longrightarrow> sub_points al s s') \<and>
             dset M k \<subseteq> (\<Union>(k', s')\<in>set ls'. dset M k'))"
      proof (rule all_covered_ok, clarify)
        fix k s
        assume m: "(k, s) \<in> set ls"
        have "keys_ok M ok d (map fst ls')" using l' by (simp add: lay_ok_def)
        moreover have "\<forall>(k', s')\<in>set ls'. dset M k \<inter> dset M k' \<noteq> {} \<longrightarrow> ?chk s s' = Some (sub_points al s s')"
          using chk [OF m] by blast
        ultimately show "\<exists>r. cover_loop M (?chk s) k ls' = Some r \<and> (r = Covered \<longleftrightarrow>
            (\<forall>(k', s')\<in>set ls'. dset M k \<inter> dset M k' \<noteq> {} \<longrightarrow> sub_points al s s') \<and>
             dset M k \<subseteq> (\<Union>(k', s')\<in>set ls'. dset M k'))"
          by (rule cover_loop_ok [OF _ lay_ok_memD(1,2) [OF l m]])
      qed
      moreover have "\<not> (length act = 1 \<and> length act' = 1)" using False act(1) act'(1) by auto
      then have "contained_in_aux M t u (d # ds) = all_covered (\<lambda>(k, s). cover_loop M (?chk s) k ls') ls"
        unfolding t(1) u(1) contained_in_aux.simps(2) hcs.case using both by (simp only: not_True_eq_False if_False)
      ultimately show ?thesis using sub by (simp only: t(1) u(1) act(1) act'(1))
    qed
  qed
qed

text \<open>A reduced tree with an active dimension is not the whole space.\<close>

lemma keys_at_other:
  assumes "hc_ok M ok al ds t" and "d \<notin> set ds"
  shows "keys_at d t = {}"
proof -
  note v = values_per_dim_ok [OF assms(1)]
  have "dict_get (=) (values_per_dim t) d = None"
    using v assms(2) dict_get_Some [of "(=)" "values_per_dim t" d]
    by (metis fst_conv image_eqI option.exhaust subset_eq)
  then have "dvals (values_per_dim t) d = {}" by (simp add: dvals_def)
  then show ?thesis using v by simp
qed

lemma entire_single:
  assumes ok: "hc_ok M ok al (d # ds) t" and can: "hc_canon M t" and ne: "sub_nonempty t"
    and dist: "distinct (d # ds)" and e: "entire al t" and d: "dim_domain M d = Some w" "d \<in> set al"
  shows "keys_at d t \<noteq> {} \<and> (\<forall>k\<in>keys_at d t. v_eq M w k)"
proof -
  obtain c ls where t: "t = HC c al (d # ds) ls" and l: "lay_ok al d ds ls" using ok by (auto simp: hc_ok_Cons)
  have ls: "ls \<noteq> []" using ne by (simp add: t sub_nonempty_def)
  have w: "\<forall>(k, s)\<in>set ls. within_domain M d k" and cs: "\<forall>(k, s)\<in>set ls. hc_canon M s \<and> is_base s"
    using can by (auto simp: t)
  have nd: "d \<notin> set ds" using dist by simp
  have sub: "sub_points al Empty_Interval t" using e by (simp add: sub_points_def entire_def)
  have all: "(\<forall>(k, s)\<in>set ls. sub_points al Empty_Interval s) \<and> dset M w = (\<Union>(k, s)\<in>set ls. dset M k)"
    using sub_points_inactive [OF _ _ l w nd _ d, of "[]" Empty_Interval c] space_point sub
    by (auto simp: t)
  have eq: "hc_eq M s s'" if "(k, s) \<in> set ls" "(k', s') \<in> set ls" for k s k' s'
  proof (rule canon_unique [OF lay_ok_memD(4) [OF l that(1)] lay_ok_memD(4) [OF l that(2)]])
    show "hc_canon M s" "hc_canon M s'" "is_base s = is_base s'" using cs that by auto
    show "same_points al s s'"
      using all that by (fastforce simp: same_points_def sub_points_def)
    show "distinct ds" using dist by simp
  qed
  obtain k s ls' where k: "ls = (k, s) # ls'" using ls by (cases ls) auto
  have "ls' = []"
  proof (rule ccontr)
    assume "ls' \<noteq> []"
    then obtain k' s' where "(k', s') \<in> set ls'" by (cases ls') auto
    with can eq [of k s k' s'] show False by (auto simp: t k)
  qed
  moreover have "keys_at d s = {}" using keys_at_other [OF lay_ok_memD(4) [OF l] nd] k by auto
  ultimately have "keys_at d t = {k}" by (simp add: t k)
  moreover have "v_eq M w k"
    using all \<open>ls' = []\<close> eq_law [OF domain_dset(1) [OF d(1)] lay_ok_memD(1) [OF l, of k s]] by (simp add: k)
  ultimately show ?thesis by simp
qed

lemma hc_wf_node:
  assumes "hc_wf M ok t" and "active_dims t \<noteq> []"
  shows "hc_ok M ok (all_dims t) (active_dims t) t" and "dims_by_order (all_dims t) (active_dims t) = active_dims t"
    and "distinct (all_dims t)" and "domains_known (all_dims t)" and "distinct (active_dims t)"
    and "set (active_dims t) \<subseteq> set (all_dims t)" and "hc_bool t \<longleftrightarrow> sub_nonempty t"
proof -
  obtain c al act ls where eq: "t = HC c al act ls" and al: "distinct al" "domains_known al"
    and act: "act = dims_by_order al act" and l: "act \<noteq> [] \<longrightarrow> hc_ok M ok al act t"
    using assms(1) by (auto simp: hc_wf_iff)
  show "hc_ok M ok (all_dims t) (active_dims t) t" "dims_by_order (all_dims t) (active_dims t) = active_dims t"
    "distinct (all_dims t)" "domains_known (all_dims t)" "hc_bool t \<longleftrightarrow> sub_nonempty t"
    using al act l assms(2) by (auto simp: eq sub_nonempty_def)
  show "distinct (active_dims t)" using distinct_dims_by_order [OF al(1), of act] act by (simp add: eq)
  show "set (active_dims t) \<subseteq> set (all_dims t)" using dims_by_order_set [of al act] act by (auto simp: eq)
qed

lemma reduced_not_entire:
  assumes t: "hc_wf M ok t" and act: "active_dims t \<noteq> []" and can: "hc_canon M t" and red: "hc_reduced M t"
    and b: "hc_bool t"
  shows "\<not> entire (all_dims t) t"
proof
  assume e: "entire (all_dims t) t"
  note n = hc_wf_node [OF t act]
  obtain d ds where dd: "active_dims t = d # ds" using act by (cases "active_dims t") auto
  then have da: "d \<in> set (all_dims t)" using n(6) by auto
  then obtain w where w: "dim_domain M d = Some w" using n(4) by (auto simp: domains_known_def)
  have "keys_at d t \<noteq> {} \<and> (\<forall>k\<in>keys_at d t. v_eq M w k)"
    using entire_single [OF n(1) [unfolded dd] can _ n(5) [unfolded dd] e w da] b n(7) by blast
  moreover obtain names where names: "dims_to_reduce M (values_per_dim t) = Some names"
    "\<forall>d. d \<in> set names \<longleftrightarrow>
      (\<exists>w. dim_domain M d = Some w \<and> keys_at d t \<noteq> {} \<and> (\<forall>k\<in>keys_at d t. v_eq M w k))"
    using dims_to_reduce_ok [OF n(1,4,6)] by blast
  ultimately have "d \<in> set names" using w by blast
  moreover have "names = []" using red b act names(1) by (simp add: hc_reduced_def)
  ultimately show False by simp
qed

lemma canon_point:
  assumes "hc_wf M ok t" and "hc_canon M t" and "hc_bool t"
  shows "\<exists>p. in_space M (all_dims t) p \<and> hc_sem M p t"
proof (cases "active_dims t = []")
  case True
  then have "hc_sem M p t" for p using is_all_sem [OF assms(1), of p] assms(1) by (auto simp: hc_wf_iff)
  with space_point show ?thesis by blast
next
  case False
  note n = hc_wf_node [OF assms(1) False]
  show ?thesis using canon_nonempty [OF n(1) assms(2) _ n(5)] n(7) assms(3) by blast
qed

lemma is_all_active: "hc_wf M ok t \<Longrightarrow> is_all t \<longleftrightarrow> active_dims t = []"
  by (auto simp: hc_wf_iff)

theorem hc_contained_in_ok:
  assumes t: "hc_wf M ok t" and u: "hc_wf M ok u" and al: "all_dims u = all_dims t"
    and ct: "hc_canon M t" and cu: "hc_canon M u" and ru: "hc_reduced M u"
  shows "hc_contained_in M t u = Some (sub_points (all_dims t) t u)"
proof -
  consider (triv) "is_all u \<or> \<not> hc_bool t" | (no) "\<not> is_all u" "hc_bool t" "\<not> hc_bool u \<or> is_all t"
    | (aux) "\<not> is_all u" "hc_bool t" "hc_bool u" "\<not> is_all t" by blast
  then show ?thesis
  proof cases
    case triv
    then show ?thesis
      using is_all_sem [OF u] not_bool_sem [OF t] by (auto simp: hc_contained_in_def sub_points_def)
  next
    case no
    have "\<not> sub_points (all_dims t) t u"
    proof (cases "hc_bool u")
      case False
      then show ?thesis using canon_point [OF t ct no(2)] not_bool_sem [OF u] by (auto simp: sub_points_def)
    next
      case True
      then have "\<not> entire (all_dims u) u"
        using reduced_not_entire [OF u _ cu ru True] no(1) is_all_active [OF u] by blast
      then show ?thesis using no(3) True is_all_sem [OF t] by (auto simp: sub_points_def entire_def al)
    qed
    with no show ?thesis by (auto simp: hc_contained_in_def)
  next
    case aux
    have at: "active_dims t \<noteq> []" and au: "active_dims u \<noteq> []"
      using aux is_all_active [OF t] is_all_active [OF u] by auto
    note nt = hc_wf_node [OF t at] and nu = hc_wf_node [OF u au]
    have "contain_args (all_dims t) (active_dims t) t" "contain_args (all_dims t) (active_dims u) u"
      using nt nu at au aux ct cu al by (simp_all add: contain_args_def)
    moreover have "\<not> entire (all_dims t) u" using reduced_not_entire [OF u au cu ru aux(3)] al by simp
    ultimately show ?thesis
      using contained_in_aux_ok [OF nt(3,4) _ _ refl] aux by (simp add: hc_contained_in_def)
  qed
qed

end

end
