(* ===== verification/Cube_Sets.thy ===== *)
theory Cube_Sets
  imports Dimensions Hyper_Cube_Contain
begin

text \<open>
  The cube sets of \<open>CanonicalHyperCubeSet\<close> over a table of dimensions: what the operations
  promise to their callers, for every valid table and every automata package that keeps its
  documented laws, and where they do not.
\<close>

section \<open>Cube sets over a table\<close>

abbreviation cubes_ok :: "'f fsm_ops \<Rightarrow> 'f dim_table \<Rightarrow> 'f dim_value hcs \<Rightarrow> bool" where
  "cubes_ok F dt t \<equiv> hc_wf (dims_of F dt) (value_ok F dt) t"

abbreviation holds :: "'f fsm_ops \<Rightarrow> 'f dim_table \<Rightarrow> 'f dim_value hcs \<Rightarrow> (dim \<Rightarrow> item) \<Rightarrow> bool" where
  "holds F dt t p \<equiv> hc_sem (dims_of F dt) p t"

abbreviation point_in :: "'f fsm_ops \<Rightarrow> 'f dim_table \<Rightarrow> dim list \<Rightarrow> (dim \<Rightarrow> item) \<Rightarrow> bool" where
  "point_in F dt al p \<equiv> in_space (dims_of F dt) al p"

text \<open>An example: two cube sets over the ports, and points of them.\<close>

definition example_table :: "string set dim_table" where
  "example_table =
     [(''src_ports'', (IntervalSet, Intervals [Interval 1 65535], Intervals [])),
      (''dst_ports'', (IntervalSet, Intervals [Interval 1 65535], Intervals []))]"

definition example_dims :: "dim list" where
  "example_dims = [''src_ports'', ''dst_ports'']"

definition web :: "string set dim_value hcs" where
  "web = HC False example_dims [''dst_ports''] [(Intervals [Interval 80 80], Empty_Interval)]"

definition low_sources :: "string set dim_value hcs" where
  "low_sources = HC False example_dims [''src_ports''] [(Intervals [Interval 1 1023], Empty_Interval)]"

definition low_web :: "dim \<Rightarrow> item" where
  "low_web d = (if d = ''src_ports'' then Num 7 else Num 80)"

lemma example_canonical [simp]: "(a::int) \<le> b \<Longrightarrow> int_canonical [Interval a b]"
  by (simp add: canonical_def iv_valid_def)

lemma example_table_ok: "table_ok languages example_table"
  by (simp add: table_ok_def example_table_def)

lemmas example_simps =
  example_table_def example_dims_def web_def low_sources_def hc_wf_def dims_by_order_def
  hc_ok.simps hc_sem.simps keys_ok_def value_ok_def get_dimension_domain_by_name_def sub_nonempty_def

lemma example_cubes_ok:
  "cubes_ok languages example_table web" "cubes_ok languages example_table low_sources"
  by (simp_all add: example_simps)

lemma example_mem: "(a::int) \<le> b \<Longrightarrow> iset_mem x [Interval a b] \<longleftrightarrow> a \<le> x \<and> x \<le> b"
  using int_points.iset_mem_iff [of "[Interval a b]" x] by simp

lemma example_points:
  "holds languages example_table web low_web" "holds languages example_table low_sources low_web"
  "point_in languages example_table (all_dims web) low_web"
  by (simp_all add: example_simps low_web_def example_mem in_space_def)

section \<open>Where the trees depend on their history\<close>

text \<open>
  Two runs of the subtraction on trees of at most two dimensions, for any values: from an empty set
  with another active dimension, and from a set of the subclass that gets a dimension in front.
\<close>

context dim_values
begin

lemma no_dims [simp]: "dims_by_order al [] = []"
  by (simp add: dims_by_order_def)

lemma two_dims:
  assumes "hc_wf M ok (HC c al [b] ls)" and "hc_wf M ok (HC c' al [a] ls')" and "dims_by_order al [a, b] = [a, b]"
  obtains wa wb where "dim_domain M a = Some wa" "dim_domain M b = Some wb" "ok a wa" "ok b wb"
    "a \<noteq> b" "dims_by_order al [b, a] = [a, b]" "dims_by_order al [b, b, a] = [a, b]" "dims_by_order al [a, a, b, a] = [a, b]" "dims_by_order al [a, b, a] = [a, b]"
    "dims_by_order al [a] = [a]" "dims_by_order al [b] = [b]" "a \<in> set al" "b \<in> set al" "distinct al"
    "v_bool M wa" "v_bool M wb"
proof -
  have al: "distinct al" "list_all (\<lambda>d. dim_domain M d \<noteq> None) al" using assms(1) by (simp_all add: hc_wf_def)
  have d: "dims_by_order al [a] = [a]" "dims_by_order al [b] = [b]" using assms(1,2) by (simp_all add: hc_wf_def)
  have m: "a \<in> set al" "b \<in> set al" using arg_cong [OF assms(3), of set] by (auto simp: dims_by_order_set)
  have p: "dims_by_order al [b, a] = [a, b]" "dims_by_order al [b, b, a] = [a, b]" "dims_by_order al [a, a, b, a] = [a, b]" "dims_by_order al [a, b, a] = [a, b]"
    using assms(3) dims_by_order_cong [of al "[b, a]" "[a, b]"] dims_by_order_cong [of al "[b, b, a]" "[a, b]"]
      dims_by_order_cong [of al "[a, a, b, a]" "[a, b]"] dims_by_order_cong [of al "[a, b, a]" "[a, b]"] by auto
  have "a \<noteq> b" using distinct_dims_by_order [OF al(1), of "[a, b]"] assms(3) by auto
  moreover obtain wa wb where "dim_domain M a = Some wa" "dim_domain M b = Some wb" 
    using al(2) m unfolding list_all_iff by blast
  ultimately show thesis using that d m p domain_ok al(1) by blast
qed

lemma sub_from_empty:
  assumes e: "hc_wf M ok (HC c al [b] [])" and u: "hc_wf M ok (HC c' al [a] [(k, Empty_Interval)])"
    and o: "dims_by_order al [a, b] = [a, b]"
    and p: "in_space M al p" "v_mem M (p a) k" and q: "in_space M al q" "\<not> v_mem M (q a) k"
  shows "\<exists>rem w. hc_sub M (HC c al [b] []) (HC c' al [a] [(k, Empty_Interval)]) =
            Some (HC c al [a, b] [(rem, HC c al [b] [])]) \<and>
          hc_or M (HC c al [a, b] [(rem, HC c al [b] [])]) (HC c' al [a] [(k, Empty_Interval)]) =
            Some (HC c al [a] [(rem, Empty_Interval), (k, Empty_Interval)]) \<and>
          dim_domain M a = Some w \<and> dset M rem = dset M w - dset M k"
proof -
  obtain wa wb where w: "dim_domain M a = Some wa" "dim_domain M b = Some wb" "ok a wa" "ok b wb"
    "a \<noteq> b" "dims_by_order al [b, a] = [a, b]" "dims_by_order al [b, b, a] = [a, b]" "dims_by_order al [a, a, b, a] = [a, b]" "dims_by_order al [a, b, a] = [a, b]"
    "dims_by_order al [a] = [a]" "dims_by_order al [b] = [b]" "a \<in> set al" "b \<in> set al" "distinct al"
    "v_bool M wa" "v_bool M wb" by (rule two_dims [OF e u o])
  have k: "ok a k" "v_bool M k" using u by (simp_all add: lay_ok_def keys_ok_def)
  have pq: "p a \<in> dset M wa" "q a \<in> dset M wa" using p(1) q(1) w by (simp_all add: in_space_mem)
  let ?c = "v_and M wa k" let ?r = "v_sub M wa ?c"
  have c: "ok a ?c" "dset M ?c = dset M wa \<inter> dset M k" "ok a ?r" "dset M ?r = dset M wa - dset M k"
    using w(3) k by (auto simp: and_ok and_dset sub_ok sub_dset)
  have b: "v_bool M ?c" "v_bool M ?r"
    unfolding bool_law [OF c(1)] bool_law [OF c(3)] c(2,4) using pq p(2) q(2) by auto
  have "\<not> v_eq M wa ?r" "\<not> v_eq M wa k" "\<not> v_eq M ?r k" "\<not> v_eq M k ?r" "v_eq M wb wb"
    unfolding eq_law [OF w(3) c(3)] eq_law [OF w(3) k(1)] eq_law [OF c(3) k(1)] eq_law [OF k(1) c(3)]
      eq_law [OF w(4) w(4)] c(4) using pq p(2) q(2) by auto
  moreover have "\<not> v_bool M (v_and M ?r k)"
    unfolding bool_law [OF and_ok [OF c(3) k(1)]] and_dset [OF c(3) k(1)] c(4) by auto
  ultimately have ne: "\<not> v_eq M wa ?r" "\<not> v_eq M wa k" "\<not> v_eq M ?r k" "\<not> v_eq M k ?r" "v_eq M wb wb"
    "\<not> v_bool M (v_and M ?r k)" by simp_all
  have e': "set_active M (HC c al [b] []) [b, a] = Some (HC c al [a, b] [(wa, HC c al [b] [])])"
    using w by (simp add: set_active_def)
  have u': "set_active M (HC c' al [a] [(k, Empty_Interval)]) [b, a] =
      Some (HC c' al [a, b] [(k, HC False al [b] [(wb, Empty_Interval)])])"
    using w by (simp add: set_active_def)
  have r: "sub_aux M (HC c al [a, b] [(wa, HC c al [b] [])])
      (HC c' al [a, b] [(k, HC False al [b] [(wb, Empty_Interval)])]) = Some (HC False al [a, b] [(?r, HC c al [b] [])])"
    using b by (simp add: remaining_self_def keep_remaining_def layer_elements_union_def dict_of_list_def Let_def)
  have s: "or_aux M (HC c al [a, b] [(?r, HC c al [b] [])])
      (HC c' al [a, b] [(k, HC False al [b] [(wb, Empty_Interval)])]) =
      Some (HC False al [a, b] [(?r, HC c al [b] []), (k, HC False al [b] [(wb, Empty_Interval)])])"
    using b k ne by (simp add: remaining_self_def remaining_other_def keep_remaining_def layer_elements_union_def
      dict_of_list_def Let_def)
  have r': "reduce_active M (HC c al [a, b] [(?r, HC c al [b] [])]) = Some (HC c al [a, b] [(?r, HC c al [b] [])])"
    using w o ne by (simp add: reduce_active_def dims_to_reduce_def set_inactive_def remove_some_active.simps)
  have s': "reduce_active M (HC c al [a, b] [(?r, HC c al [b] []), (k, HC False al [b] [(wb, Empty_Interval)])]) =
      Some (HC c al [a] [(?r, Empty_Interval), (k, Empty_Interval)])"
    using w o ne by (simp add: reduce_active_def dims_to_reduce_def set_inactive_def remove_some_active.simps)
  have ab: "set_active M (HC c al [a, b] [(?r, HC c al [b] [])]) [a, b, a] = Some (HC c al [a, b] [(?r, HC c al [b] [])])"
    "set_active M (HC c' al [a] [(k, Empty_Interval)]) [a, b, a] =
      Some (HC c' al [a, b] [(k, HC False al [b] [(wb, Empty_Interval)])])"
    using w by (simp_all add: set_active_def)
  have "hc_sub M (HC c al [b] []) (HC c' al [a] [(k, Empty_Interval)]) =
      Some (HC c al [a, b] [(?r, HC c al [b] [])])"
    using e' u' r r' w(5) by (simp add: hc_sub_def hc_isub_def prepare_common_def del: sub_aux.simps)
  moreover have "hc_or M (HC c al [a, b] [(?r, HC c al [b] [])]) (HC c' al [a] [(k, Empty_Interval)]) =
      Some (HC c al [a] [(?r, Empty_Interval), (k, Empty_Interval)])"
    using ab s s' w(5) by (simp add: hc_or_def hc_ior_def prepare_common_def del: or_aux.simps)
  ultimately show ?thesis using w c by blast
qed

lemma disjoint_values:
  assumes "hc_wf M ok (HC c al [b] [(kb, Empty_Interval)])"
    and "hc_wf M ok (HC c' al [a, b] [(ka, HC c' al [b] [(kc, Empty_Interval)])])"
    and "\<not> v_bool M (v_and M kb kc)" and "v_mem M x kb"
  shows "\<not> v_mem M x kc"
proof -
  have k: "ok b kb" "ok b kc" using assms(1,2) by (simp_all add: lay_ok_def keys_ok_def)
  have "dset M kb \<inter> dset M kc = {}"
    using assms(3) unfolding bool_law [OF and_ok [OF k]] and_dset [OF k] by simp
  then show ?thesis using assms(4) by auto
qed

lemma sub_in_subclass:
  assumes t: "hc_wf M ok (HC c al [b] [(kb, Empty_Interval)])"
    and u: "hc_wf M ok (HC False al [a, b] [(ka, HC False al [b] [(kc, Empty_Interval)])])"
    and disj: "\<not> v_bool M (v_and M kb kc)"
    and p: "in_space M al p" "v_mem M (p a) ka" "v_mem M (p b) kc" and q: "in_space M al q" "\<not> v_mem M (q a) ka"
  shows "\<exists>common rem. hc_sub M (HC c al [b] [(kb, Empty_Interval)])
            (HC False al [a, b] [(ka, HC False al [b] [(kc, Empty_Interval)])]) =
          Some (if c then HC c al [a, b] [(common, HC False al [b] [(kb, Empty_Interval)]),
                                          (rem, HC c al [b] [(kb, Empty_Interval)])]
                else HC c al [b] [(kb, Empty_Interval)])"
proof -
  have o: "dims_by_order al [a, b] = [a, b]" using u by simp
  have m: "a \<in> set al" "b \<in> set al" using arg_cong [OF o, of set] by (auto simp: dims_by_order_set)
  have al: "distinct al" using t by simp
  have ab: "a \<noteq> b" using distinct_dims_by_order [OF al, of "[a, b]"] o by auto
  obtain wa wb where w: "dim_domain M a = Some wa" "dim_domain M b = Some wb"
  proof -
    have "\<forall>d\<in>set al. \<exists>w. dim_domain M d = Some w" using t by (simp add: domains_known_def)
    with m that show thesis by blast
  qed
  note ok = domain_ok [OF w(1), THEN conjunct1] domain_ok [OF w(2), THEN conjunct1]
  have d: "dims_by_order al [b, b, a, b] = [a, b]" "dims_by_order al [b] = [b]"
    using o t dims_by_order_cong [of al "[b, b, a, b]" "[a, b]"] by auto
  have "dims_by_order al [a] = filter (\<lambda>d. d = a) (dims_by_order al [a, b])"
    unfolding dims_by_order_def filter_filter by (rule filter_cong) auto
  then have da: "dims_by_order al [a] = [a]" using o ab by simp
  have k: "ok a ka" "v_bool M ka" "ok b kb" "v_bool M kb" "ok b kc" "v_bool M kc"
    using t u by (simp_all add: lay_ok_def keys_ok_def)
  have pq: "p a \<in> dset M wa" "q a \<in> dset M wa" "p b \<in> dset M wb"
    using p(1) q(1) w m by (simp_all add: in_space_mem)
  let ?c = "v_and M wa ka" let ?r = "v_sub M wa ?c"
  have c: "ok a ?c" "dset M ?c = dset M wa \<inter> dset M ka" "ok a ?r" "dset M ?r = dset M wa - dset M ka"
    "ok a (v_or M ?c ?r)"
    using ok k by (auto simp: and_ok and_dset sub_ok sub_dset or_ok)
  have "dset M kb \<inter> dset M kc = {}"
    using disj bool_law [OF and_ok [OF k(3,5)]] and_dset [OF k(3,5)] by simp
  then have kbc: "p b \<notin> dset M kb" using p(3) by auto
  have b: "v_bool M ?c" "v_bool M ?r"
    unfolding bool_law [OF c(1)] bool_law [OF c(3)] c(2,4) using pq p q by auto
  have ne: "\<not> v_eq M wa ?c" "\<not> v_eq M wa ?r" "\<not> v_eq M ?c ?r" "v_eq M wa (v_or M ?c ?r)" "v_eq M kb kb" "\<not> v_eq M wb kb"
    unfolding eq_law [OF ok(1) c(1)] eq_law [OF ok(1) c(3)] eq_law [OF c(1) c(3)] eq_law [OF ok(1) c(5)]
      eq_law [OF k(3) k(3)] eq_law [OF ok(2) k(3)] or_dset [OF c(1,3)] c(2,4)
    using pq p q kbc by auto
  note defs = remaining_self_def keep_remaining_def layer_elements_union_def dict_of_list_def Let_def
  have t': "set_active M (HC c al [b] [(kb, Empty_Interval)]) [b, a, b] =
      Some (HC c al [a, b] [(wa, HC c al [b] [(kb, Empty_Interval)])])"
    using w d ab by (simp add: set_active_def)
  let ?ls = "if c then [(?c, HC False al [b] [(kb, Empty_Interval)]), (?r, HC c al [b] [(kb, Empty_Interval)])]
    else [(v_or M ?c ?r, HC False al [b] [(kb, Empty_Interval)])]"
  have r: "sub_aux M (HC c al [a, b] [(wa, HC c al [b] [(kb, Empty_Interval)])])
      (HC False al [a, b] [(ka, HC False al [b] [(kc, Empty_Interval)])]) = Some (HC False al [a, b] ?ls)"
    using b disj ne k by (simp add: defs)
  have r': "reduce_active M (HC c al [a, b] ?ls) =
      Some (if c then HC c al [a, b] ?ls else HC c al [b] [(kb, Empty_Interval)])"
    using w ne d da ab o
    by (simp add: reduce_active_def dims_to_reduce_def set_inactive_def remove_some_active.simps dict_of_list_def)
  show ?thesis
    using t' r r' ab d by (simp add: hc_sub_def hc_isub_def prepare_common_def insert_commute del: sub_aux.simps)
qed

end

section \<open>Properties of the cube sets\<close>

text \<open>
  C12. Intersection and union never raise on well-formed cube sets over the same dimensions; the
  result is well-formed, and a point of the space is in it exactly when it is in both, or in
  one, of the operands. This holds for whatever dimensions are active in the operands.
\<close>

theorem hc_and_or_points:
  assumes "fsm_laws F" and "table_ok F dt"
    and "cubes_ok F dt t" and "cubes_ok F dt u" and "all_dims u = all_dims t"
  shows "(\<exists>r. hc_and (dims_of F dt) t u = Some r \<and> cubes_ok F dt r \<and> all_dims r = all_dims t \<and>
            (\<forall>p. point_in F dt (all_dims t) p \<longrightarrow>
                 holds F dt r p = (holds F dt t p \<and> holds F dt u p))) \<and>
         (\<exists>r. hc_or (dims_of F dt) t u = Some r \<and> cubes_ok F dt r \<and> all_dims r = all_dims t \<and>
            (\<forall>p. point_in F dt (all_dims t) p \<longrightarrow>
                 holds F dt r p = (holds F dt t p \<or> holds F dt u p)))"
  using dim_values.hc_and_points [OF dims_of_values [OF assms(1,2)] assms(3-5)]
    dim_values.hc_or_points [OF dims_of_values [OF assms(1,2)] assms(3-5)] by blast

theorem hc_and_or_points_witness:
  "(\<exists>r. hc_and (dims_of languages example_table) web low_sources = Some r \<and>
      holds languages example_table r low_web) \<and>
   (\<exists>r. hc_or (dims_of languages example_table) web low_sources = Some r \<and>
      holds languages example_table r low_web)"
proof -
  have al: "all_dims low_sources = all_dims web" by (simp add: web_def low_sources_def)
  show ?thesis
    using hc_and_or_points [OF languages_laws example_table_ok example_cubes_ok al] example_points
    by blast
qed

text \<open>
  C13. Subtraction does the same for the difference, when the left operand is not empty or has
  the dimensions of the right one.
\<close>

theorem hc_difference_points:
  assumes "fsm_laws F" and "table_ok F dt"
    and "cubes_ok F dt t" and "cubes_ok F dt u" and "all_dims u = all_dims t"
    and "hc_bool t \<or> set (active_dims u) \<subseteq> set (active_dims t)"
  shows "\<exists>r. hc_sub (dims_of F dt) t u = Some r \<and> cubes_ok F dt r \<and> all_dims r = all_dims t \<and>
           (\<forall>p. point_in F dt (all_dims t) p \<longrightarrow>
                holds F dt r p = (holds F dt t p \<and> \<not> holds F dt u p))"
  using dim_values.hc_sub_points [OF dims_of_values [OF assms(1,2)] assms(3-)] by blast

theorem hc_difference_points_witness:
  "\<exists>r. hc_sub (dims_of languages example_table) web low_sources = Some r \<and>
       \<not> holds languages example_table r low_web"
proof -
  have al: "all_dims low_sources = all_dims web" "hc_bool web"
    by (simp_all add: web_def low_sources_def)
  show ?thesis
    using hc_difference_points [OF languages_laws example_table_ok example_cubes_ok al(1)] al(2) example_points
    by blast
qed

text \<open>
  C15. The condition of the subtraction is needed: \<open>-=\<close> has no guard for an empty left operand.
  Take any empty set with one active dimension, and subtract from it any set with one earlier
  active dimension that has a point of the space and lacks one. The result counts as not empty, and
  joining it with the set that was subtracted gives a set with every point of the space.
\<close>

theorem hc_sub_from_empty_grows:
  assumes "fsm_laws F" and "table_ok F dt"
    and "cubes_ok F dt (HC c al [b] [])" and "cubes_ok F dt (HC c' al [a] [(k, Empty_Interval)])"
    and "dims_by_order al [a, b] = [a, b]"
    and "point_in F dt al p" and "holds F dt (HC c' al [a] [(k, Empty_Interval)]) p"
    and "point_in F dt al q" and "\<not> holds F dt (HC c' al [a] [(k, Empty_Interval)]) q"
  shows "\<exists>r s. hc_sub (dims_of F dt) (HC c al [b] []) (HC c' al [a] [(k, Empty_Interval)]) = Some r \<and>
           hc_bool r \<and> hc_or (dims_of F dt) r (HC c' al [a] [(k, Empty_Interval)]) = Some s \<and>
           (\<forall>x. point_in F dt al x \<longrightarrow> holds F dt s x)"
proof -
  have a: "a \<in> set al" using arg_cong [OF assms(5), of set] by (auto simp: dims_by_order_set)
  have "v_mem (dims_of F dt) (p a) k" "\<not> v_mem (dims_of F dt) (q a) k" using assms(7,9) by simp_all
  from dim_values.sub_from_empty [OF dims_of_values [OF assms(1,2)] assms(3-6) this(1) assms(8) this(2)]
  obtain rem w where run: "hc_sub (dims_of F dt) (HC c al [b] []) (HC c' al [a] [(k, Empty_Interval)]) =
        Some (HC c al [a, b] [(rem, HC c al [b] [])])"
      "hc_or (dims_of F dt) (HC c al [a, b] [(rem, HC c al [b] [])]) (HC c' al [a] [(k, Empty_Interval)]) =
        Some (HC c al [a] [(rem, Empty_Interval), (k, Empty_Interval)])"
    and w: "dim_domain (dims_of F dt) a = Some w"
      "dset (dims_of F dt) rem = dset (dims_of F dt) w - dset (dims_of F dt) k"
    by blast
  have "holds F dt (HC c al [a] [(rem, Empty_Interval), (k, Empty_Interval)]) x" if "point_in F dt al x" for x
  proof -
    have "x a \<in> dset (dims_of F dt) rem \<or> x a \<in> dset (dims_of F dt) k"
      unfolding w(2) using that a w(1) by (auto simp: in_space_def list_all_iff split: option.splits)
    then show ?thesis by (auto simp del: dims_of_simps)
  qed
  with run show ?thesis by (intro exI conjI) auto
qed

theorem hc_sub_from_empty_grows_witness:
  "\<exists>r s. hc_sub (dims_of languages example_table) (HC False example_dims [''dst_ports''] []) low_sources = Some r \<and>
     hc_bool r \<and> hc_or (dims_of languages example_table) r low_sources = Some s \<and>
     holds languages example_table s (\<lambda>d. Num 8080)"
proof -
  have h: "cubes_ok languages example_table (HC False example_dims [''dst_ports''] [])"
    "dims_by_order example_dims [''src_ports'', ''dst_ports''] = [''src_ports'', ''dst_ports'']"
    "point_in languages example_table example_dims low_web"
    "point_in languages example_table example_dims (\<lambda>d. Num 8080)"
    "\<not> holds languages example_table low_sources (\<lambda>d. Num 8080)"
    by (simp_all add: example_simps low_web_def example_mem in_space_def)
  show ?thesis
    using hc_sub_from_empty_grows [OF languages_laws example_table_ok h(1)
        example_cubes_ok(2) [unfolded low_sources_def] h(2,3) example_points(2) [unfolded low_sources_def]
        h(4) h(5) [unfolded low_sources_def]] h(4)
    unfolding low_sources_def by blast
qed

text \<open>
  C32. Adding a cube to a cube set adds its points, and adding a hole takes its points away (from
  a set that is not empty or has the hole's dimensions); neither raises. A point is in a cube when
  each of its items is in the cube's value for the dimension.
\<close>

theorem add_cube_hole_points:
  assumes "fsm_laws F" and "table_ok F dt" and "cubes_ok F dt t"
    and "dims_by_order (all_dims t) ds = ds" and "list_all2 (value_ok F dt) ds cube" and "cube \<noteq> []"
    and "hc_bool t \<or> set ds \<subseteq> set (active_dims t)"
  shows "(\<exists>r. hc_add_cube (dims_of F dt) t cube (Some ds) = Some r \<and> cubes_ok F dt r \<and>
            (\<forall>p. point_in F dt (all_dims t) p \<longrightarrow>
                 holds F dt r p = (holds F dt t p \<or> in_cube (dims_of F dt) p ds cube))) \<and>
         (\<exists>r. hc_add_hole (dims_of F dt) t cube (Some ds) = Some r \<and> cubes_ok F dt r \<and>
            (\<forall>p. point_in F dt (all_dims t) p \<longrightarrow>
                 holds F dt r p = (holds F dt t p \<and> \<not> in_cube (dims_of F dt) p ds cube)))"
  using dim_values.hc_add_cube_ok [OF dims_of_values [OF assms(1,2)] assms(3) _ assms(4-6), of "Some ds"]
    dim_values.hc_add_hole_ok [OF dims_of_values [OF assms(1,2)] assms(3) _ assms(4-7), of "Some ds"]
  by simp blast

theorem add_cube_hole_points_witness:
  "(\<exists>r. hc_add_cube (dims_of languages example_table) web [Intervals [Interval 1 5]]
          (Some [''src_ports'']) = Some r \<and> holds languages example_table r low_web) \<and>
   (\<exists>r. hc_add_hole (dims_of languages example_table) web [Intervals [Interval 1 5]]
          (Some [''src_ports'']) = Some r \<and> holds languages example_table r low_web)"
proof -
  have h: "dims_by_order (all_dims web) [''src_ports''] = [''src_ports'']"
    "list_all2 (value_ok languages example_table) [''src_ports''] [Intervals [Interval 1 5]]"
    "hc_bool web"
    by (simp_all add: example_simps)
  have "\<not> in_cube (dims_of languages example_table) low_web [''src_ports''] [Intervals [Interval 1 5]]"
    by (simp add: in_cube_def low_web_def example_mem)
  then show ?thesis
    using add_cube_hole_points [OF languages_laws example_table_ok example_cubes_ok(1) h(1,2)
        list.discI [OF refl] disjI1 [OF h(3)]] example_points by blast
qed

text \<open>
  Activating dimensions (\<open>_set_active_dimensions\<close>) and inactivating the full ones
  (\<open>reduce_active_dimensions\<close>) never raise on a well-formed set that is not empty, keep it
  well-formed and keep its points. (Activating on an empty set can make it non-empty, see above.)
\<close>

theorem active_dims_points:
  assumes "fsm_laws F" and "table_ok F dt" and "cubes_ok F dt t"
    and "set names \<subseteq> set (all_dims t)" and "hc_bool t"
  shows "(\<exists>r. set_active (dims_of F dt) t names = Some r \<and> cubes_ok F dt r \<and>
            active_dims r = dims_by_order (all_dims t) (active_dims t @ names) \<and>
            (\<forall>p. point_in F dt (all_dims t) p \<longrightarrow> holds F dt r p = holds F dt t p)) \<and>
         (\<exists>r. reduce_active (dims_of F dt) t = Some r \<and> cubes_ok F dt r \<and> all_dims r = all_dims t \<and>
            (\<forall>p. point_in F dt (all_dims t) p \<longrightarrow> holds F dt r p = holds F dt t p))"
  using dim_values.set_active_points [OF dims_of_values [OF assms(1,2)] assms(3-5)]
    dim_values.reduce_active_points [OF dims_of_values [OF assms(1,2)] assms(3)] by blast

theorem active_dims_points_witness:
  "(\<exists>r. set_active (dims_of languages example_table) web [''src_ports''] = Some r \<and>
        active_dims r = [''src_ports'', ''dst_ports''] \<and> holds languages example_table r low_web)"
proof -
  have h: "set [''src_ports''] \<subseteq> set (all_dims web)" "hc_bool web"
    "dims_by_order (all_dims web) (active_dims web @ [''src_ports'']) = [''src_ports'', ''dst_ports'']"
    by (simp_all add: example_simps)
  show ?thesis
    using active_dims_points [OF languages_laws example_table_ok example_cubes_ok(1) h(1,2)]
      example_points h(3) by auto
qed

text \<open>
  C33. \<open>in\<close> decides membership: for an item of the right length and types it never raises and
  answers whether the point with those items is one of the set, although it looks only at the
  first layer that has the value.
\<close>

theorem hc_contains_decides:
  assumes "fsm_laws F" and "table_ok F dt" and "cubes_ok F dt t"
    and "item_ok (dims_of F dt) (all_dims t) x"
    and "\<forall>i<length (all_dims t). p (all_dims t ! i) = x ! i"
  shows "hc_contains (dims_of F dt) x t = Some (holds F dt t p)"
  by (rule dim_values.hc_contains_iff [OF dims_of_values [OF assms(1,2)] assms(3-5)])

theorem hc_contains_decides_witness:
  "hc_contains (dims_of languages example_table) [Num 7, Num 80] web = Some True"
proof -
  have h: "item_ok (dims_of languages example_table) (all_dims web) [Num 7, Num 80]"
    "\<forall>i<length (all_dims web). low_web (all_dims web ! i) = [Num 7, Num 80] ! i"
    by (simp_all add: item_ok_def dims_of_def web_def example_dims_def get_dimension_type_by_name_def
        example_table_def low_web_def less_Suc_eq)
  show ?thesis
    using hc_contains_decides [OF languages_laws example_table_ok example_cubes_ok(1) h] example_points
    by simp
qed

text \<open>Another set with the same dimensions.\<close>

definition tls_web :: "string set dim_value hcs" where
  "tls_web = HC False example_dims [''dst_ports''] [(Intervals [Interval 443 443], Empty_Interval)]"

text \<open>
  C34. On canonical sets of one class with the same active dimensions, \<open>==\<close> decides whether the
  sets have the same points: the representation is unique up to the order of the layers.
\<close>

theorem hc_eq_decides:
  assumes "fsm_laws F" and "table_ok F dt" and "cubes_ok F dt t" and "cubes_ok F dt u"
    and "hc_canon (dims_of F dt) t" and "hc_canon (dims_of F dt) u"
    and "is_props t \<longleftrightarrow> is_props u" and "all_dims u = all_dims t" and "active_dims u = active_dims t"
  shows "hc_eq (dims_of F dt) t u \<longleftrightarrow>
           (\<forall>p. point_in F dt (all_dims t) p \<longrightarrow> holds F dt t p = holds F dt u p)"
  by (rule dim_values.hc_eq_points_iff [OF dims_of_values [OF assms(1,2)] assms(3-9)])

theorem hc_eq_decides_witness:
  "hc_eq (dims_of languages example_table) web web \<and> \<not> hc_eq (dims_of languages example_table) web tls_web"
proof -
  have c: "hc_canon (dims_of languages example_table) t" if "t = web \<or> t = tls_web" for t
    using that
    by (auto simp: web_def tls_web_def within_domain_def example_simps is_base_def iset_contained_in_def example_mem iv_subset_def)
  have t: "cubes_ok languages example_table tls_web" "is_props web \<longleftrightarrow> is_props tls_web"
    "all_dims tls_web = all_dims web" "active_dims tls_web = active_dims web"
    by (simp_all add: example_simps tls_web_def)
  have "\<not> holds languages example_table tls_web low_web"
    by (simp add: example_simps tls_web_def low_web_def example_mem)
  moreover have "hc_eq (dims_of languages example_table) web web"
    using hc_eq_decides [OF languages_laws example_table_ok example_cubes_ok(1,1) c c] by simp
  ultimately show ?thesis
    using hc_eq_decides [OF languages_laws example_table_ok example_cubes_ok(1) t(1) c c t(2-4)] example_points
    by auto
qed

text \<open>The example sets are canonical and reduced.\<close>

lemma example_canon:
  assumes "t = web \<or> t = tls_web"
  shows "cubes_ok languages example_table t" and "hc_canon (dims_of languages example_table) t"
    and "hc_reduced (dims_of languages example_table) t"
  using assms
  by (auto simp: web_def tls_web_def within_domain_def example_simps is_base_def iset_contained_in_def example_mem
      iv_subset_def hc_reduced_def dims_to_reduce_def)

text \<open>
  C14. \<open>contained_in\<close> decides containment: on canonical sets over the same dimensions it never
  raises, and answers whether every point of the one is a point of the other, whatever dimensions
  are active in either. The other set must be reduced (no active dimension has its whole domain in
  every cube), as every operation leaves it.
\<close>

theorem hc_contained_in_decides:
  assumes "fsm_laws F" and "table_ok F dt" and "cubes_ok F dt t" and "cubes_ok F dt u"
    and "all_dims u = all_dims t" and "hc_canon (dims_of F dt) t" and "hc_canon (dims_of F dt) u"
    and "hc_reduced (dims_of F dt) u"
  shows "hc_contained_in (dims_of F dt) t u =
           Some (\<forall>p. point_in F dt (all_dims t) p \<longrightarrow> holds F dt t p \<longrightarrow> holds F dt u p)"
  using dim_values.hc_contained_in_ok [OF dims_of_values [OF assms(1,2)] assms(3-8)]
  by (simp add: dim_values.sub_points_def [OF dims_of_values [OF assms(1,2)]])

theorem hc_contained_in_decides_witness:
  "hc_contained_in (dims_of languages example_table) web web = Some True \<and>
   hc_contained_in (dims_of languages example_table) web tls_web = Some False"
proof -
  note w = example_canon [of web, OF disjI1 [OF refl]] and t = example_canon [of tls_web, OF disjI2 [OF refl]]
  have dims: "all_dims tls_web = all_dims web" by (simp add: web_def tls_web_def)
  have "\<not> holds languages example_table tls_web low_web"
    by (simp add: example_simps tls_web_def low_web_def example_mem)
  then show ?thesis
    using hc_contained_in_decides [OF languages_laws example_table_ok w(1) w(1) refl w(2,2,3)]
      hc_contained_in_decides [OF languages_laws example_table_ok w(1) t(1) dims w(2) t(2,3)] example_points
    by auto
qed

text \<open>
  C16. The representation is not canonical in the subclass \<open>ConnectivityProperties\<close>. Making a
  dimension active in front of the others puts a copy of the object itself under the new dimension,
  an object of the subclass, while the operations build the other sub-cubes as objects of the base
  class; the two are never equal, so layers with the same sub-cube are not joined. Take any set with
  one active dimension and one layer, and subtract a single cube over an earlier dimension and this
  one that has a point of the space, leaves a value of the earlier dimension out and has no common
  value with the set in its dimension. As an object of the base class, the set is the result; as an
  object of the subclass, the result has the same points but is not equal to the set.
\<close>

theorem subclass_difference_not_canonical:
  assumes "fsm_laws F" and "table_ok F dt"
    and "cubes_ok F dt (HC True al [b] [(kb, Empty_Interval)])"
    and "cubes_ok F dt (HC False al [a, b] [(ka, HC False al [b] [(kc, Empty_Interval)])])"
    and "\<not> v_bool (dims_of F dt) (v_and (dims_of F dt) kb kc)"
    and "point_in F dt al p" and "holds F dt (HC False al [a, b] [(ka, HC False al [b] [(kc, Empty_Interval)])]) p"
    and "point_in F dt al q" and "\<not> v_mem (dims_of F dt) (q a) ka"
  shows "hc_sub (dims_of F dt) (HC False al [b] [(kb, Empty_Interval)])
           (HC False al [a, b] [(ka, HC False al [b] [(kc, Empty_Interval)])]) =
             Some (HC False al [b] [(kb, Empty_Interval)]) \<and>
         (\<exists>r. hc_sub (dims_of F dt) (HC True al [b] [(kb, Empty_Interval)])
           (HC False al [a, b] [(ka, HC False al [b] [(kc, Empty_Interval)])]) = Some r \<and>
            \<not> hc_eq (dims_of F dt) r (HC True al [b] [(kb, Empty_Interval)]) \<and>
            (\<forall>x. point_in F dt al x \<longrightarrow>
                 holds F dt r x = holds F dt (HC True al [b] [(kb, Empty_Interval)]) x))"
proof -
  note D = dims_of_values [OF assms(1,2)]
  have f: "cubes_ok F dt (HC False al [b] [(kb, Empty_Interval)])"
    using assms(3) by (simp add: dim_values.hc_wf_HC [OF D])
  have m: "v_mem (dims_of F dt) (p a) ka" "v_mem (dims_of F dt) (p b) kc" using assms(7) by simp_all
  note run = dim_values.sub_in_subclass [OF D _ assms(4,5,6) m assms(8,9)]
  obtain c r where sub: "hc_sub (dims_of F dt) (HC True al [b] [(kb, Empty_Interval)])
      (HC False al [a, b] [(ka, HC False al [b] [(kc, Empty_Interval)])]) =
      Some (HC True al [a, b] [(c, HC False al [b] [(kb, Empty_Interval)]), (r, HC True al [b] [(kb, Empty_Interval)])])"
    using run [OF assms(3)] by auto
  note disj = dim_values.disjoint_values [OF D assms(3-5)]
  have "\<forall>x. point_in F dt al x \<longrightarrow>
      holds F dt (HC True al [a, b] [(c, HC False al [b] [(kb, Empty_Interval)]), (r, HC True al [b] [(kb, Empty_Interval)])]) x =
      holds F dt (HC True al [b] [(kb, Empty_Interval)]) x"
    using dim_values.hc_sub_points [OF D assms(3,4)] sub disj by auto
  then show ?thesis using run [OF f] sub by simp
qed

theorem subclass_difference_not_canonical_witness:
  "\<exists>r. hc_sub (dims_of languages example_table)
         (HC True example_dims [''dst_ports''] [(Intervals [Interval 80 80], Empty_Interval)])
         (HC False example_dims [''src_ports'', ''dst_ports'']
            [(Intervals [Interval 1 10], HC False example_dims [''dst_ports'']
               [(Intervals [Interval 443 443], Empty_Interval)])]) = Some r \<and>
       \<not> hc_eq (dims_of languages example_table) r
           (HC True example_dims [''dst_ports''] [(Intervals [Interval 80 80], Empty_Interval)])"
proof -
  let ?t = "HC True example_dims [''dst_ports''] [(Intervals [Interval 80 80], Empty_Interval)]
      :: string set dim_value hcs"
  let ?u = "HC False example_dims [''src_ports'', ''dst_ports'']
      [(Intervals [Interval 1 10], HC False example_dims [''dst_ports''] [(Intervals [Interval 443 443], Empty_Interval)])]
      :: string set dim_value hcs"
  let ?p = "\<lambda>d. if d = ''src_ports'' then Num 7 else Num 443"
  have h: "cubes_ok languages example_table ?t" "cubes_ok languages example_table ?u"
    "\<not> v_bool (dims_of languages example_table)
         (v_and (dims_of languages example_table) (Intervals [Interval 80 80]) (Intervals [Interval 443 443]))"
    "point_in languages example_table example_dims ?p" "holds languages example_table ?u ?p"
    "point_in languages example_table example_dims (\<lambda>d. Num 80)"
    "\<not> v_mem (dims_of languages example_table) (Num 80) (Intervals [Interval 1 10])"
    by (simp_all add: example_simps example_mem in_space_def iset_and_def iv_and_def)
  show ?thesis
    using subclass_difference_not_canonical [OF languages_laws example_table_ok h(1-6), OF h(7)] by blast
qed

end
