(* ===== verification/Ip_Blocks.thy ===== *)
theory Ip_Blocks
  imports Interval_Sets "HOL-Library.Word"
begin

text \<open>
  The IP addresses and IP blocks of \<open>nca/CoreDS/Peer.py\<close> (\<open>IPNetworkAddress\<close>, \<open>IpBlock\<close>), with what
  they use of Python's \<open>ipaddress\<close>: addresses of 32 and 128 bits, CIDR networks as an address with a
  prefix length, and \<open>summarize_address_range\<close>. A block is an interval set over the addresses of
  both versions, so the contract \<open>point_space\<close> is interpreted on addresses here.
\<close>

unbundle bit_operations_syntax

section \<open>Addresses\<close>

datatype ip_address = IPv4 "32 word" | IPv6 "128 word"

fun ip_version :: "ip_address \<Rightarrow> nat" where
  "ip_version (IPv4 _) = 4"
| "ip_version (IPv6 _) = 6"

fun ip_int :: "ip_address \<Rightarrow> int" where
  "ip_int (IPv4 w) = uint w"
| "ip_int (IPv6 w) = uint w"

fun ip_bits :: "ip_address \<Rightarrow> nat" where
  "ip_bits (IPv4 _) = 32"
| "ip_bits (IPv6 _) = 128"

text \<open>The address of the same version with another number.\<close>

fun ip_like :: "ip_address \<Rightarrow> int \<Rightarrow> ip_address" where
  "ip_like (IPv4 _) n = IPv4 (word_of_int n)"
| "ip_like (IPv6 _) n = IPv6 (word_of_int n)"

definition ip_lt :: "ip_address \<Rightarrow> ip_address \<Rightarrow> bool" where
  "ip_lt a b =
     (if ip_version a = ip_version b then ip_int a < ip_int b else ip_version a < ip_version b)"

definition ip_le :: "ip_address \<Rightarrow> ip_address \<Rightarrow> bool" where
  "ip_le a b =
     (if ip_version a = ip_version b then ip_int a \<le> ip_int b else ip_version a < ip_version b)"

definition ip_gt :: "ip_address \<Rightarrow> ip_address \<Rightarrow> bool" where
  "ip_gt a b =
     (if ip_version a = ip_version b then ip_int b < ip_int a else ip_version b < ip_version a)"

definition ip_ge :: "ip_address \<Rightarrow> ip_address \<Rightarrow> bool" where
  "ip_ge a b =
     (if ip_version a = ip_version b then ip_int b \<le> ip_int a else ip_version b < ip_version a)"

text \<open>Adding to an address out of its range raises \<open>AddressValueError\<close>, which the code catches.\<close>

definition ip_add :: "ip_address \<Rightarrow> int \<Rightarrow> ip_address" where
  "ip_add a n =
     (let r = ip_int a + n in if 0 \<le> r \<and> r < 2 ^ ip_bits a then ip_like a r else a)"

definition ip_subtract :: "ip_address \<Rightarrow> int \<Rightarrow> ip_address" where
  "ip_subtract a n =
     (let r = ip_int a - n in if 0 \<le> r \<and> r < 2 ^ ip_bits a then ip_like a r else a)"

text \<open>
  The interval sets use \<open>+ 1\<close> and \<open>- 1\<close>; in the type class of their points both operands have the
  type of the points, so the number added is the one of an address.
\<close>

instantiation ip_address :: "{linorder, plus, minus, one}"
begin

definition less_ip_address :: "ip_address \<Rightarrow> ip_address \<Rightarrow> bool" where
  "less_ip_address a b = ip_lt a b"

definition less_eq_ip_address :: "ip_address \<Rightarrow> ip_address \<Rightarrow> bool" where
  "less_eq_ip_address a b = ip_le a b"

definition one_ip_address :: ip_address where
  "one_ip_address = IPv4 1"

definition plus_ip_address :: "ip_address \<Rightarrow> ip_address \<Rightarrow> ip_address" where
  "plus_ip_address a b = ip_add a (ip_int b)"

definition minus_ip_address :: "ip_address \<Rightarrow> ip_address \<Rightarrow> ip_address" where
  "minus_ip_address a b = ip_subtract a (ip_int b)"

instance
proof
  fix a b c :: ip_address
  have eq: "a = b" if "ip_version a = ip_version b" "ip_int a = ip_int b"
    using that by (cases a; cases b) (simp_all add: word_uint_eq_iff)
  show "(a < b) = (a \<le> b \<and> \<not> b \<le> a)"
    by (auto simp: less_ip_address_def less_eq_ip_address_def ip_lt_def ip_le_def)
  show "a \<le> a" by (simp add: less_eq_ip_address_def ip_le_def)
  show "a \<le> b \<Longrightarrow> b \<le> c \<Longrightarrow> a \<le> c"
    by (auto simp: less_eq_ip_address_def ip_le_def split: if_splits)
  show "a \<le> b \<Longrightarrow> b \<le> a \<Longrightarrow> a = b"
    unfolding less_eq_ip_address_def ip_le_def
    by (rule eq) (auto split: if_splits)
  show "a \<le> b \<or> b \<le> a"
    by (auto simp: less_eq_ip_address_def ip_le_def)
qed

end

lemmas ip_order = less_ip_address_def less_eq_ip_address_def ip_lt_def ip_le_def

abbreviation same_version :: "ip_address \<Rightarrow> ip_address \<Rightarrow> bool" where
  "same_version a b \<equiv> ip_version a = ip_version b"

lemma ip_eqI: "same_version a b \<Longrightarrow> ip_int a = ip_int b \<Longrightarrow> a = b"
  by (cases a; cases b) (simp_all add: word_uint_eq_iff)

lemma ip_int_bounds: "0 \<le> ip_int a" "ip_int a < 2 ^ ip_bits a"
proof -
  have "0 \<le> ip_int a \<and> ip_int a < 2 ^ ip_bits a"
    by (cases a) (use uint_lt2p [where 'a = 32] uint_lt2p [where 'a = 128] in auto)
  then show "0 \<le> ip_int a" "ip_int a < 2 ^ ip_bits a" by blast+
qed

lemma same_version_bits: "same_version a b \<Longrightarrow> ip_bits a = ip_bits b"
  by (cases a; cases b) simp_all

lemma ip_like_simps [simp]:
  "ip_version (ip_like a n) = ip_version a" "ip_bits (ip_like a n) = ip_bits a"
  by (cases a; simp)+

lemma ip_int_like: "0 \<le> n \<Longrightarrow> n < 2 ^ ip_bits a \<Longrightarrow> ip_int (ip_like a n) = n"
  by (cases a) (simp_all add: uint_word_of_int)

lemma ip_like_int [simp]: "ip_like a (ip_int a) = a"
  by (cases a) simp_all

lemma one_ip_int [simp]: "ip_int 1 = 1"
  by (simp add: one_ip_address_def)

lemma succ_version [simp]: "ip_version (a + 1) = ip_version a" "ip_version (a - 1) = ip_version a"
  by (simp_all add: plus_ip_address_def minus_ip_address_def ip_add_def ip_subtract_def Let_def)

lemma succ_int: "ip_int (a + 1) = (if ip_int a + 1 < 2 ^ ip_bits a then ip_int a + 1 else ip_int a)"
  using ip_int_bounds [of a] ip_int_like [of "ip_int a + 1" a]
  by (simp add: plus_ip_address_def ip_add_def Let_def)

lemma pred_int: "ip_int (a - 1) = max 0 (ip_int a - 1)"
  using ip_int_bounds [of a] ip_int_like [of "ip_int a - 1" a]
  by (auto simp: minus_ip_address_def ip_subtract_def Let_def)

interpretation ips: point_space same_version
proof
  fix x y z :: ip_address
  have bits: "ip_bits x = ip_bits y" if "same_version x y" using same_version_bits [OF that] .
  note lt = ip_int_bounds [of x] ip_int_bounds [of y]
  show "same_version x (x + 1)" "same_version x (x - 1)" by simp_all
  show "same_version x y" if "x \<le> y" "y \<le> z" "same_version x z"
    using that by (auto simp: ip_order split: if_splits)
  show "x \<le> x + 1" "x - 1 \<le> x" using lt by (simp_all add: ip_order succ_int pred_int)
  show "x + 1 \<le> y" "x \<le> y - 1" if "x < y"
    using that lt by (auto simp: ip_order succ_int pred_int split: if_splits)
  show "x < x + 1" if "x < y" "same_version x y"
    using that lt bits by (auto simp: ip_order succ_int split: if_splits)
  show "y - 1 < y" if "x < y" "same_version x y"
    using that lt by (auto simp: ip_order pred_int split: if_splits)
  show "x + 1 < y \<longleftrightarrow> x < y - 1" if "x < y"
    using that lt bits by (auto simp: ip_order succ_int pred_int split: if_splits)
qed simp_all

abbreviation ip_canonical :: "ip_address interval_set \<Rightarrow> bool" where
  "ip_canonical \<equiv> canonical same_version"

section \<open>Networks\<close>

text \<open>
  A network as \<open>ip_network(cidr, False)\<close> reads it: an address, whose host bits may be set, and the
  length of the prefix.
\<close>

datatype cidr = Cidr (cidr_ip: ip_address) (prefixlen: nat)

definition cidr_ok :: "cidr \<Rightarrow> bool" where
  "cidr_ok c \<longleftrightarrow> prefixlen c \<le> ip_bits (cidr_ip c)"

fun network_address :: "cidr \<Rightarrow> ip_address" where
  "network_address (Cidr (IPv4 w) p) = IPv4 (w AND NOT (mask (32 - p)))"
| "network_address (Cidr (IPv6 w) p) = IPv6 (w AND NOT (mask (128 - p)))"

fun broadcast_address :: "cidr \<Rightarrow> ip_address" where
  "broadcast_address (Cidr (IPv4 w) p) = IPv4 (w OR mask (32 - p))"
| "broadcast_address (Cidr (IPv6 w) p) = IPv6 (w OR mask (128 - p))"

definition cidr_interval :: "cidr \<Rightarrow> ip_address interval" where
  "cidr_interval c = Interval (network_address c) (broadcast_address c)"

text \<open>
  \<open>summarize_address_range\<close>: the largest aligned network that starts at the first address and
  fits is taken first. A network is the number of its first address and the number of its host bits.
\<close>

fun trailing_zeros :: "nat \<Rightarrow> int \<Rightarrow> nat" where
  "trailing_zeros 0 n = 0"
| "trailing_zeros (Suc b) n = (if even n then Suc (trailing_zeros b (n div 2)) else 0)"

function bit_length :: "int \<Rightarrow> nat" where
  "bit_length n = (if n \<le> 0 then 0 else Suc (bit_length (n div 2)))"
  by pat_completeness auto
termination
  by (relation "measure nat") auto

declare bit_length.simps [simp del]

function summarize :: "nat \<Rightarrow> int \<Rightarrow> int \<Rightarrow> (int \<times> nat) list" where
  "summarize bits lo hi =
     (if lo \<le> hi then
        (let nbits = min (trailing_zeros bits lo) (bit_length (hi - lo + 1) - 1);
             next_lo = lo + 2 ^ nbits
         in (lo, nbits) # (if next_lo = 2 ^ bits then [] else summarize bits next_lo hi))
      else [])"
  by pat_completeness auto
termination
  by (relation "measure (\<lambda>(bits, lo, hi). nat (hi + 1 - lo))") auto

declare summarize.simps [simp del]

definition summarize_address_range :: "ip_address \<Rightarrow> ip_address \<Rightarrow> cidr list" where
  "summarize_address_range a b =
     map (\<lambda>(first, nbits). Cidr (ip_like a first) (ip_bits a - nbits))
       (summarize (ip_bits a) (ip_int a) (ip_int b))"

text \<open>The text of networks.\<close>

definition ipv4_str :: "int \<Rightarrow> string" where
  "ipv4_str n = join ''.'' (map (\<lambda>i. str_of_int (n div 256 ^ i mod 256)) [3, 2, 1, 0])"

text \<open>The longest run of \<open>"0"\<close> entries: the state is the current run and the best one, by start and length.\<close>

fun longest_zeros :: "nat \<Rightarrow> nat \<Rightarrow> nat \<Rightarrow> nat \<Rightarrow> string list \<Rightarrow> nat \<times> nat" where
  "longest_zeros i len best_start best_len [] = (best_start, best_len)"
| "longest_zeros i len best_start best_len (h # hs) =
     (if h = ''0'' then
        (if best_len < len + 1 then longest_zeros (i + 1) (len + 1) (i - len) (len + 1) hs
         else longest_zeros (i + 1) (len + 1) best_start best_len hs)
      else longest_zeros (i + 1) 0 best_start best_len hs)"

definition ipv6_str :: "int \<Rightarrow> string" where
  "ipv6_str n =
     (let hs = map (\<lambda>i. digits 16 (n div 65536 ^ i mod 65536)) [7, 6, 5, 4, 3, 2, 1, 0];
          (start, len) = longest_zeros 0 0 0 0 hs
      in if 1 < len
         then join '':'' ((if start = 0 then [''''] else []) @ take start hs @ [''''] @
                drop (start + len) hs @ (if start + len = 8 then [''''] else []))
         else join '':'' hs)"

fun cidr_str :: "cidr \<Rightarrow> string" where
  "cidr_str (Cidr a p) =
     (if ip_version a = 4 then ipv4_str (ip_int a) else ipv6_str (ip_int a)) @ ''/'' @ str_of_int (int p)"

section \<open>Namespaces and the common part of peers\<close>

text \<open>\<open>K8sNamespace\<close>; two namespaces are equal when their names are.\<close>

record namespace =
  ns_name :: string
  ns_labels :: "(string \<times> string) list"

definition k8s_namespace :: "string \<Rightarrow> namespace" where
  "k8s_namespace name =
     \<lparr>ns_name = (if name \<noteq> '''' then name else ''default''),
      ns_labels = [(''kubernetes.io/metadata.name'', name)]\<rparr>"

definition ns_eq :: "namespace \<Rightarrow> namespace \<Rightarrow> bool" where
  "ns_eq a b \<longleftrightarrow> ns_name a = ns_name b"

definition ns_set_label :: "namespace \<Rightarrow> string \<Rightarrow> string \<Rightarrow> namespace" where
  "ns_set_label n k v = n\<lparr>ns_labels := dict_set (=) (ns_labels n) k v\<rparr>"

record peer_base =
  pname :: string
  pnamespace :: "namespace option"
  labels :: "(string \<times> string) list"
  extra_labels :: "(string \<times> string) list"

definition set_label :: "'a peer_base_scheme \<Rightarrow> string \<Rightarrow> string \<Rightarrow> 'a peer_base_scheme" where
  "set_label p k v = p\<lparr>labels := dict_set (=) (labels p) k v\<rparr>"

definition set_extra_label :: "'a peer_base_scheme \<Rightarrow> string \<Rightarrow> string \<Rightarrow> 'a peer_base_scheme" where
  "set_extra_label p k v = p\<lparr>extra_labels := dict_set (=) (extra_labels p) k v\<rparr>"

definition clear_extra_labels :: "'a peer_base_scheme \<Rightarrow> 'a peer_base_scheme" where
  "clear_extra_labels p = p\<lparr>extra_labels := []\<rparr>"

section \<open>IP blocks\<close>

record ip_block = peer_base +
  is_global :: bool
  ips :: "ip_address interval_set"

definition block_add_cidr :: "ip_block \<Rightarrow> cidr \<Rightarrow> cidr list \<Rightarrow> ip_block" where
  "block_add_cidr b c exceptions =
     b\<lparr>ips := foldl (\<lambda>xs e. add_hole xs (cidr_interval e)) (add_interval (ips b) (cidr_interval c)) exceptions\<rparr>"

definition block_remove_cidr :: "ip_block \<Rightarrow> cidr \<Rightarrow> ip_block" where
  "block_remove_cidr b c = b\<lparr>ips := add_hole (ips b) (cidr_interval c)\<rparr>"

definition get_cidr_list :: "ip_address interval_set \<Rightarrow> cidr list" where
  "get_cidr_list xs = concat (map (\<lambda>i. summarize_address_range (istart i) (iend i)) xs)"

definition get_cidr_list_str :: "ip_address interval_set \<Rightarrow> string" where
  "get_cidr_list_str xs = join '','' (map cidr_str (get_cidr_list xs))"

definition mk_ip_block ::
  "(cidr \<times> cidr list) option \<Rightarrow> ip_address interval option \<Rightarrow> string \<Rightarrow> namespace option \<Rightarrow> bool \<Rightarrow> ip_block"
where
  "mk_ip_block cidr interval name ns global =
     (let b = \<lparr>pname = name, pnamespace = ns, labels = [], extra_labels = [],
               is_global = global, ips = []\<rparr>;
          b = (case interval of
                 Some i \<Rightarrow> b\<lparr>ips := [i]\<rparr>
               | None \<Rightarrow> (case cidr of Some (c, exceptions) \<Rightarrow> block_add_cidr b c exceptions | None \<Rightarrow> b))
      in if name = '''' then b\<lparr>pname := get_cidr_list_str (ips b)\<rparr> else b)"

definition empty_block :: ip_block where
  "empty_block = mk_ip_block None None '''' None False"

definition block_copy :: "ip_block \<Rightarrow> ip_block" where
  "block_copy b = (mk_ip_block None None (pname b) (pnamespace b) (is_global b))\<lparr>ips := ips b\<rparr>"

lemma ips_block_copy [simp]: "ips (block_copy b) = ips b"
  by (simp add: block_copy_def)

definition block_full_name :: "ip_block \<Rightarrow> string" where
  "block_full_name b = get_cidr_list_str (ips b)"

definition block_canonical_form :: "ip_block \<Rightarrow> string" where
  "block_canonical_form b =
     (case pnamespace b of None \<Rightarrow> pname b | Some n \<Rightarrow> ns_name n @ ''_'' @ block_full_name b)"

text \<open>
  The interval-set operators on blocks: \<open>&\<close> fills a new object of the class, the other operators
  change a copy of the left operand.
\<close>

definition block_and :: "ip_block \<Rightarrow> ip_block \<Rightarrow> ip_block" where
  "block_and a b = empty_block\<lparr>ips := iset_and (ips a) (ips b)\<rparr>"

definition block_iand :: "ip_block \<Rightarrow> ip_block \<Rightarrow> ip_block" where
  "block_iand a b = a\<lparr>ips := iset_and (ips a) (ips b)\<rparr>"

definition block_or :: "ip_block \<Rightarrow> ip_block \<Rightarrow> ip_block" where
  "block_or a b = (block_copy a)\<lparr>ips := iset_or (ips a) (ips b)\<rparr>"

definition block_sub :: "ip_block \<Rightarrow> ip_block \<Rightarrow> ip_block" where
  "block_sub a b = (block_copy a)\<lparr>ips := iset_sub (ips a) (ips b)\<rparr>"

text \<open>\<open>-=\<close> changes the block in place: it stays the same object with its name and labels.\<close>

definition block_isub :: "ip_block \<Rightarrow> ip_block \<Rightarrow> ip_block" where
  "block_isub a b = a\<lparr>ips := iset_sub (ips a) (ips b)\<rparr>"

text \<open>\<open>get_all_ips_block\<close> asserts that one version is left.\<close>

definition get_all_ips_block :: "bool \<Rightarrow> bool \<Rightarrow> ip_block option" where
  "get_all_ips_block exclude_ipv6 exclude_ipv4 =
     (if exclude_ipv6 \<and> exclude_ipv4 then None
      else (let b = empty_block;
                b = (if exclude_ipv4 then b else block_add_cidr b (Cidr (IPv4 0) 0) []);
                b = (if exclude_ipv6 then b else block_add_cidr b (Cidr (IPv6 0) 0) [])
            in Some b))"

definition block_split :: "ip_block \<Rightarrow> ip_block list" where
  "block_split b = map (\<lambda>i. mk_ip_block None (Some i) '''' None False) (ips b)"

definition ip_count :: "ip_address interval_set \<Rightarrow> int" where
  "ip_count xs = sum_list (map (\<lambda>i. ip_int (iend i) - ip_int (istart i) + 1) xs)"

text \<open>
  \<open>_add_interval_to_list\<close>: the list and the blocks in it are changed in place while what is left
  of the interval, itself changed in place, shrinks; the parts cut out are appended at the end. The
  first result is the interval as its owner finds it afterwards.
\<close>

fun cut_blocks :: "ip_block \<Rightarrow> ip_block list \<Rightarrow> ip_block \<times> ip_block list \<times> ip_block list" where
  "cut_blocks interval [] = (interval, [], [])"
| "cut_blocks interval (b # bs) =
     (if \<not> iset_overlaps (ips b) (ips interval) then
        (let (rest, bs', to_add) = cut_blocks interval bs in (rest, b # bs', to_add))
      else
        (let intersection = block_and b interval;
             interval' = block_isub interval intersection;
             differs = (ips b \<noteq> ips intersection);
             b' = (if differs then block_isub b intersection else b);
             added = (if differs then [intersection] else [])
         in if ips interval' = [] then (interval', b' # bs, added)
            else (let (rest, bs', to_add) = cut_blocks interval' bs
                  in (rest, b' # bs', added @ to_add))))"

definition add_interval_to_list :: "ip_block \<Rightarrow> ip_block list \<Rightarrow> ip_block list" where
  "add_interval_to_list interval bs =
     (let (rest, bs', to_add) = cut_blocks interval bs in bs' @ block_split rest @ to_add)"

definition is_ipv4_block :: "ip_address interval_set \<Rightarrow> bool" where
  "is_ipv4_block xs \<longleftrightarrow>
     length (filter (\<lambda>i. case istart i of IPv4 _ \<Rightarrow> True | IPv6 _ \<Rightarrow> False) xs) = length xs"

section \<open>Networks as intervals\<close>

lemma uint_disjoint_or: "a AND b = 0 \<Longrightarrow> uint (a OR b) = uint (a::'a::len word) + uint b"
proof -
  assume "a AND b = 0"
  then have "uint a AND uint b = 0" by (metis unsigned_and_eq unsigned_0)
  then show ?thesis by (simp add: unsigned_or_eq disjunctive_add_eq_or)
qed

lemma uint_and_not_mask: "uint ((w::'a::len word) AND NOT (mask n)) = uint w - uint w mod 2 ^ n"
proof -
  have "(w AND NOT (mask n)) AND take_bit n w = 0"
    by (simp add: take_bit_eq_mask bit_eq_iff bit_simps)
  moreover have "(w AND NOT (mask n)) OR take_bit n w = w"
    by (rule bit_eqI) (auto simp: bit_simps take_bit_eq_mask)
  ultimately have "uint w = uint (w AND NOT (mask n)) + uint (take_bit n w)"
    using uint_disjoint_or by metis
  moreover have "uint (take_bit n w) = uint w mod 2 ^ n"
    by (simp only: unsigned_take_bit_eq) (simp only: take_bit_eq_mod)
  ultimately show ?thesis by simp
qed

lemma uint_mask: "n \<le> LENGTH('a) \<Longrightarrow> uint (mask n :: 'a::len word) = 2 ^ n - 1"
proof -
  assume n: "n \<le> LENGTH('a)"
  have "uint (mask n :: 'a word) = take_bit LENGTH('a) (mask n)"
    by (metis of_int_mask_eq uint_word_of_int take_bit_eq_mod)
  also have "\<dots> = mask n" using n by (simp only: take_bit_of_mask min_absorb2)
  finally show ?thesis by (simp only: mask_eq_exp_minus_1)
qed

lemma uint_or_mask:
  assumes "n \<le> LENGTH('a)"
  shows "uint ((w::'a::len word) OR mask n) = uint w - uint w mod 2 ^ n + 2 ^ n - 1"
proof -
  have "(w AND NOT (mask n)) AND mask n = 0" by (simp add: bit_eq_iff bit_simps)
  moreover have "(w AND NOT (mask n)) OR mask n = w OR mask n" by (rule bit_eqI) (auto simp: bit_simps)
  ultimately have "uint (w OR mask n) = uint (w AND NOT (mask n)) + uint (mask n :: 'a word)"
    using uint_disjoint_or by metis
  then show ?thesis by (simp add: uint_and_not_mask uint_mask [OF assms])
qed

lemma cidr_bounds:
  assumes "cidr_ok c"
  shows "same_version (network_address c) (cidr_ip c)" "same_version (broadcast_address c) (cidr_ip c)"
    and "ip_int (network_address c) =
           ip_int (cidr_ip c) - ip_int (cidr_ip c) mod 2 ^ (ip_bits (cidr_ip c) - prefixlen c)"
    and "ip_int (broadcast_address c) =
           ip_int (network_address c) + 2 ^ (ip_bits (cidr_ip c) - prefixlen c) - 1"
proof -
  obtain a p where c: "c = Cidr a p" by (cases c)
  show "same_version (network_address c) (cidr_ip c)" "same_version (broadcast_address c) (cidr_ip c)"
    by (cases a; simp add: c)+
  show "ip_int (network_address c) =
      ip_int (cidr_ip c) - ip_int (cidr_ip c) mod 2 ^ (ip_bits (cidr_ip c) - prefixlen c)"
    by (cases a) (simp_all add: c uint_and_not_mask)
  show "ip_int (broadcast_address c) =
      ip_int (network_address c) + 2 ^ (ip_bits (cidr_ip c) - prefixlen c) - 1"
    by (cases a) (simp_all add: c uint_and_not_mask uint_or_mask)
qed

lemma cidr_valid: "cidr_ok c \<Longrightarrow> iv_valid same_version (cidr_interval c)"
  using cidr_bounds [of c] by (simp add: iv_valid_def cidr_interval_def ip_order)

lemma ip_iv_set:
  "same_version a b \<Longrightarrow>
   x \<in> iv_set (Interval a b) \<longleftrightarrow> same_version x a \<and> ip_int a \<le> ip_int x \<and> ip_int x \<le> ip_int b"
  by (auto simp: ip_order split: if_splits)

lemma div_block: "0 < N \<Longrightarrow> N * q \<le> y \<and> y \<le> N * q + N - 1 \<longleftrightarrow> y div N = (q::int)"
proof
  assume N: "0 < N"
  show "y div N = q" if "N * q \<le> y \<and> y \<le> N * q + N - 1"
    using int_div_pos_eq [of y N q "y - N * q"] N that by simp
  show "N * q \<le> y \<and> y \<le> N * q + N - 1" if "y div N = q"
    using mult_div_mod_eq [of N y] pos_mod_bound [OF N, of y] pos_mod_sign [OF N, of y] that
    by auto
qed

text \<open>The addresses of a network are those with its prefix.\<close>

lemma cidr_interval_set:
  assumes "cidr_ok c"
  shows "x \<in> iv_set (cidr_interval c) \<longleftrightarrow>
    same_version x (cidr_ip c) \<and>
    ip_int x div 2 ^ (ip_bits (cidr_ip c) - prefixlen c) =
      ip_int (cidr_ip c) div 2 ^ (ip_bits (cidr_ip c) - prefixlen c)"
  using cidr_bounds [OF assms] div_block [of "2 ^ (ip_bits (cidr_ip c) - prefixlen c)" _ "ip_int x"]
  by (simp add: cidr_interval_def ip_iv_set minus_mod_eq_mult_div del: mem_iv_set)

section \<open>Summarising a range of addresses\<close>

lemma trailing_zeros_dvd: "2 ^ trailing_zeros b n dvd n \<and> trailing_zeros b n \<le> b"
proof (induction b n rule: trailing_zeros.induct)
  case (2 b n)
  then show ?case by (auto elim!: evenE)
qed simp

lemma bit_length_le: "0 < n \<Longrightarrow> 2 ^ (bit_length n - 1) \<le> n"
proof (induction n rule: bit_length.induct)
  case (1 n)
  show ?case
  proof (cases "n = 1")
    case True
    then show ?thesis by (simp add: bit_length.simps)
  next
    case False
    then have "0 < n div 2" using 1(2) by simp
    then have "bit_length (n div 2) \<noteq> 0" by (subst bit_length.simps) simp
    moreover have "2 ^ (bit_length (n div 2) - 1) \<le> n div 2" using 1 \<open>0 < n div 2\<close> by simp
    ultimately have "2 ^ bit_length (n div 2) \<le> n"
      by (cases "bit_length (n div 2)") auto
    then show ?thesis using 1(2) by (subst bit_length.simps) simp
  qed
qed

lemma summarize_correct:
  assumes "0 \<le> lo" and "hi < 2 ^ bits"
  shows "(\<Union>(f, k)\<in>set (summarize bits lo hi). {f..<f + 2 ^ k}) = {lo..hi} \<and>
         (\<forall>(f, k)\<in>set (summarize bits lo hi). 2 ^ k dvd f \<and> k \<le> bits \<and> 0 \<le> f \<and> f < 2 ^ bits)"
  using assms
proof (induction bits lo hi rule: summarize.induct)
  case (1 bits lo hi)
  show ?case
  proof (cases "lo \<le> hi")
    case True
    define k where "k = min (trailing_zeros bits lo) (bit_length (hi - lo + 1) - 1)"
    define rest where "rest = (if lo + 2 ^ k = 2 ^ bits then [] else summarize bits (lo + 2 ^ k) hi)"
    have eq: "summarize bits lo hi = (lo, k) # rest"
      unfolding rest_def k_def by (subst summarize.simps) (use True in \<open>simp add: Let_def\<close>)
    have "(2::int) ^ k \<le> 2 ^ (bit_length (hi - lo + 1) - 1)"
      by (rule power_increasing) (simp_all add: k_def)
    then have fits: "lo + 2 ^ k \<le> hi + 1"
      using bit_length_le [of "hi - lo + 1"] True by linarith
    have "(2::int) ^ k dvd 2 ^ trailing_zeros bits lo"
      by (rule le_imp_power_dvd) (simp add: k_def)
    then have dvd: "2 ^ k dvd lo" "k \<le> bits"
      using trailing_zeros_dvd [of bits lo] by (auto simp: k_def intro: dvd_trans)
    have "(\<Union>(f, k)\<in>set rest. {f..<f + 2 ^ k}) = {lo + 2 ^ k..hi} \<and>
        (\<forall>(f, k)\<in>set rest. 2 ^ k dvd f \<and> k \<le> bits \<and> 0 \<le> f \<and> f < 2 ^ bits)"
    proof (cases "lo + 2 ^ k = 2 ^ bits")
      case True
      then show ?thesis using 1(3) by (auto simp: rest_def)
    next
      case False
      have "0 \<le> lo + 2 ^ k" using 1(2) by simp
      from 1(1) [OF True k_def refl False this 1(3)] show ?thesis
        using False by (simp add: rest_def)
    qed
    moreover have "{lo..<lo + 2 ^ k} \<union> {lo + 2 ^ k..hi} = {lo..hi}"
    proof -
      have "0 < (2::int) ^ k" by simp
      then have "lo \<le> x" if "lo + 2 ^ k \<le> x" for x using that by linarith
      then show ?thesis using fits by auto
    qed
    ultimately show ?thesis using 1(2,3) True dvd by (simp add: eq)
  next
    case False
    then show ?thesis by (subst (1 2) summarize.simps) simp
  qed
qed

lemma summarize_range_correct:
  assumes "same_version a b"
  shows "(\<Union>c\<in>set (summarize_address_range a b). iv_set (cidr_interval c)) = iv_set (Interval a b) \<and>
         (\<forall>c\<in>set (summarize_address_range a b). cidr_ok c)"
proof -
  have "0 \<le> ip_int a" "ip_int b < 2 ^ ip_bits a"
    using ip_int_bounds same_version_bits [OF assms] by simp_all
  note s = summarize_correct [OF this]
  have one: "cidr_ok (Cidr (ip_like a f) (ip_bits a - k)) \<and>
      (\<forall>x. x \<in> iv_set (cidr_interval (Cidr (ip_like a f) (ip_bits a - k))) \<longleftrightarrow>
           same_version x a \<and> ip_int x \<in> {f..<f + 2 ^ k})"
    if "(f, k) \<in> set (summarize (ip_bits a) (ip_int a) (ip_int b))" for f k
  proof -
    have f: "2 ^ k dvd f" "k \<le> ip_bits a" "0 \<le> f" "f < 2 ^ ip_bits a" using s that by auto
    have "x div 2 ^ k = f div 2 ^ k \<longleftrightarrow> f \<le> x \<and> x < f + 2 ^ k" for x
      using div_block [of "2 ^ k" "f div 2 ^ k" x] f(1) by auto
    then show ?thesis
      using f by (simp add: cidr_ok_def cidr_interval_set ip_int_like del: mem_iv_set)
  qed
  have "x \<in> (\<Union>c\<in>set (summarize_address_range a b). iv_set (cidr_interval c)) \<longleftrightarrow>
      x \<in> iv_set (Interval a b)" for x
  proof -
    have "x \<in> (\<Union>c\<in>set (summarize_address_range a b). iv_set (cidr_interval c)) \<longleftrightarrow>
        same_version x a \<and>
        ip_int x \<in> (\<Union>(f, k)\<in>set (summarize (ip_bits a) (ip_int a) (ip_int b)). {f..<f + 2 ^ k})"
      unfolding summarize_address_range_def using one by (auto simp del: mem_iv_set) force+
    then show ?thesis unfolding s [THEN conjunct1] ip_iv_set [OF assms] by simp
  qed
  then have "(\<Union>c\<in>set (summarize_address_range a b). iv_set (cidr_interval c)) = iv_set (Interval a b)"
    by (rule set_eqI)
  moreover have "\<forall>c\<in>set (summarize_address_range a b). cidr_ok c"
    using one by (auto simp: summarize_address_range_def simp del: mem_iv_set)
  ultimately show ?thesis by blast
qed

lemma cidr_list_correct:
  assumes "ip_canonical xs"
  shows "list_all (iv_valid same_version) (map cidr_interval (get_cidr_list xs)) \<and>
         iset_set (map cidr_interval (get_cidr_list xs)) = iset_set xs"
proof -
  have v: "same_version (istart i) (iend i)" if "i \<in> set xs" for i
    using canonical_valid [OF assms that] by (simp add: iv_valid_def)
  have "(\<Union>c\<in>set (get_cidr_list xs). iv_set (cidr_interval c)) = (\<Union>i\<in>set xs. iv_set i)"
    using summarize_range_correct [OF v] by (simp add: get_cidr_list_def)
  moreover have "cidr_ok c" if "c \<in> set (get_cidr_list xs)" for c
    using that summarize_range_correct [OF v] by (auto simp: get_cidr_list_def)
  ultimately show ?thesis
    using cidr_valid by (auto simp: list_all_iff iset_set_def)
qed

section \<open>Cutting blocks\<close>

abbreviation block_set :: "ip_block \<Rightarrow> ip_address set" where
  "block_set b \<equiv> iset_set (ips b)"

abbreviation block_ok :: "ip_block \<Rightarrow> bool" where
  "block_ok b \<equiv> ip_canonical (ips b)"

lemma block_ops:
  assumes "block_ok a" and "block_ok b"
  shows "block_ok (block_and a b)" "block_set (block_and a b) = block_set a \<inter> block_set b"
    and "block_ok (block_or a b)" "block_set (block_or a b) = block_set a \<union> block_set b"
    and "block_ok (block_sub a b)" "block_set (block_sub a b) = block_set a - block_set b"
    and "block_ok (block_iand a b)" "block_set (block_iand a b) = block_set a \<inter> block_set b"
    and "block_ok (block_isub a b)" "block_set (block_isub a b) = block_set a - block_set b"
  using ips.iset_sub_correct [OF assms] assms
  by (simp_all add: block_and_def block_iand_def block_or_def block_sub_def block_isub_def ips.iset_and_canonical ips.iset_and_set
      ips.iset_or_canonical ips.iset_or_set)

lemma block_split_ok:
  assumes "block_ok b"
  shows "list_all block_ok (block_split b) \<and> list_all (\<lambda>c. block_set c \<noteq> {}) (block_split b) \<and>
         disjoint_by block_set (block_split b) \<and>
         (\<Union>c\<in>set (block_split b). block_set c) = block_set b"
proof -
  have "disjoint_by (\<lambda>i. iset_set [i]) xs" if "ip_canonical xs" for xs
    using that
  proof (induction xs)
    case (Cons i xs)
    then have "iv_set i \<inter> iv_set j = {}" if "j \<in> set xs" for j
      using that ips.gap_less by (fastforce simp: canonical_Cons)
    then show ?case using Cons by (simp add: canonical_Cons)
  qed simp
  moreover have "ip_canonical [i] \<and> iv_set i \<noteq> {}" if "i \<in> set (ips b)" for i
    using canonical_valid [OF assms that] by (auto simp: canonical_Cons iv_valid_def iv_set_def)
  ultimately show ?thesis
    using assms
    by (simp add: block_split_def mk_ip_block_def disjoint_by_map comp_def list_all_iff iset_set_def)
qed

text \<open>Cutting changes nothing but the addresses of the blocks and of the interval.\<close>

lemma cut_blocks_in_place:
  "cut_blocks i bs = (rest, bs', added) \<Longrightarrow>
     map (\<lambda>b. b\<lparr>ips := []\<rparr>) bs' = map (\<lambda>b. b\<lparr>ips := []\<rparr>) bs \<and> rest\<lparr>ips := []\<rparr> = i\<lparr>ips := []\<rparr>"
  by (induction i bs arbitrary: rest bs' added rule: cut_blocks.induct)
    (auto simp: Let_def block_isub_def split: if_splits prod.splits)

text \<open>What \<open>cut_blocks\<close> returns: the blocks with the parts cut out refine the given ones.\<close>

definition refines :: "ip_block list \<Rightarrow> ip_block list \<Rightarrow> ip_address set \<Rightarrow> bool" where
  "refines new old I \<longleftrightarrow>
     list_all (\<lambda>x. block_ok x \<and> block_set x \<noteq> {}) new \<and> disjoint_by block_set new \<and>
     (\<Union>x\<in>set new. block_set x) = (\<Union>y\<in>set old. block_set y) \<and>
     (\<forall>x\<in>set new. (\<exists>y\<in>set old. block_set x \<subseteq> block_set y) \<and>
        (block_set x \<subseteq> I \<or> block_set x \<inter> I = {}))"

lemma refines_refl:
  assumes "list_all (\<lambda>x. block_ok x \<and> block_set x \<noteq> {}) bs" and "disjoint_by block_set bs"
    and "\<forall>x\<in>set bs. block_set x \<inter> I = {}"
  shows "refines bs bs I"
  using assms unfolding refines_def by blast

lemma refines_mset: "mset new = mset new' \<Longrightarrow> refines new old I = refines new' old I"
  using disjoint_by_mset [of new new' block_set] mset_eq_setD [of new new']
  by (simp add: refines_def list_all_iff)

text \<open>One more block in front, cut into \<open>xs\<close>.\<close>

lemma refines_Cons:
  assumes tail: "refines new old (I - block_set b)"
    and disj: "disjoint_by block_set (b # old)" and xs: "disjoint_by block_set xs"
    and head: "list_all (\<lambda>x. block_ok x \<and> block_set x \<noteq> {} \<and>
                  (block_set x \<subseteq> I \<or> block_set x \<inter> I = {})) xs"
    and cover: "(\<Union>x\<in>set xs. block_set x) = block_set b"
  shows "refines (xs @ new) (b # old) I"
proof -
  have sep: "block_set x \<inter> block_set b = {}" if "x \<in> set new" for x
    using that tail disj unfolding refines_def by fastforce
  have "\<forall>x\<in>set xs. \<forall>y\<in>set new. block_set x \<inter> block_set y = {}"
    using sep cover by blast
  then have "disjoint_by block_set (xs @ new)"
    using xs tail by (simp add: disjoint_by_append refines_def)
  moreover have "block_set x \<subseteq> I \<or> block_set x \<inter> I = {}" if "x \<in> set new" for x
    using tail sep [OF that] that unfolding refines_def by blast
  ultimately show ?thesis
    using tail head cover unfolding refines_def
    by (auto simp: list_all_iff)
qed

lemma cut_blocks_ok:
  assumes "list_all (\<lambda>x. block_ok x \<and> block_set x \<noteq> {}) bs" and "disjoint_by block_set bs"
    and "block_ok i"
  shows "case cut_blocks i bs of (rest, bs', added) \<Rightarrow>
           block_ok rest \<and> block_set rest = block_set i - (\<Union>b\<in>set bs. block_set b) \<and>
           refines (bs' @ added) bs (block_set i)"
  using assms
proof (induction i bs rule: cut_blocks.induct)
  case (1 i)
  then show ?case by (simp add: refines_refl)
next
  case (2 i b bs)
  have b: "block_ok b" "block_set b \<noteq> {}" and tl: "list_all (\<lambda>x. block_ok x \<and> block_set x \<noteq> {}) bs"
      "disjoint_by block_set bs" and i: "block_ok i"
    using 2(3-5) by auto
  show ?case
  proof (cases "iset_overlaps (ips b) (ips i)")
    case False
    then have disj: "block_set b \<inter> block_set i = {}" using ips.iset_overlaps_iff [OF b(1) i] by simp
    obtain rest bs' added where r: "cut_blocks i bs = (rest, bs', added)" by (metis prod_cases3)
    have IH: "block_ok rest" "block_set rest = block_set i - (\<Union>b\<in>set bs. block_set b)"
      "refines (bs' @ added) bs (block_set i)"
      using 2(1) [OF False tl i] r by auto
    have "block_set i - block_set b = block_set i" using disj by blast
    then have "refines ([b] @ bs' @ added) (b # bs) (block_set i)"
      using IH(3) disj b by (intro refines_Cons [OF _ 2(4)]) auto
    then show ?thesis using IH disj False r by auto
  next
    case True
    define c where "c = block_and b i"
    define i' where "i' = block_isub i c"
    have c: "block_ok c" "block_set c = block_set b \<inter> block_set i"
      using block_ops [OF b(1) i] by (simp_all add: c_def)
    have i': "block_ok i'" "block_set i' = block_set i - block_set b"
      using block_ops [OF i c(1)] c(2) by (auto simp: i'_def)
    have ne: "block_set c \<noteq> {}" using True ips.iset_overlaps_iff [OF b(1) i] c by simp
    define differs where "differs = (ips b \<noteq> ips c)"
    define b' where "b' = (if differs then block_isub b c else b)"
    define added where "added = (if differs then [c] else [])"
    have same: "differs \<longleftrightarrow> \<not> block_set b \<subseteq> block_set i"
    proof -
      have "ips b = ips c \<longleftrightarrow> block_set b = block_set c"
        using ips.canonical_unique [OF b(1) c(1)] by (intro iffI) simp_all
      then show ?thesis unfolding differs_def c(2) by blast
    qed
    have xs: "disjoint_by block_set (b' # added)"
      "list_all (\<lambda>x. block_ok x \<and> block_set x \<noteq> {} \<and>
         (block_set x \<subseteq> block_set i \<or> block_set x \<inter> block_set i = {})) (b' # added)"
      "(\<Union>x\<in>set (b' # added). block_set x) = block_set b"
      using same b c ne block_ops [OF b(1) c(1)] by (auto simp: b'_def added_def)
    have step: "refines (b' # added @ new) (b # bs) (block_set i)"
      if "refines new bs (block_set i - block_set b)" for new
      using refines_Cons [OF that 2(4) xs] by simp
    show ?thesis
    proof (cases "ips i' = []")
      case empty: True
      then have sub: "block_set i \<subseteq> block_set b" using i'(2) by auto
      have "refines bs bs (block_set i - block_set b)"
        using sub by (intro refines_refl [OF tl]) auto
      from step [OF this] have "refines (b' # bs @ added) (b # bs) (block_set i)"
        by (rule refines_mset [THEN iffD1, rotated]) simp
      moreover have "cut_blocks i (b # bs) = (i', b' # bs, added)"
        using True empty by (simp add: Let_def c_def i'_def differs_def b'_def added_def)
      ultimately show ?thesis using i' sub by auto
    next
      case more: False
      have nn: "\<not> \<not> iset_overlaps (ips b) (ips i)" using True by simp
      obtain rest bs' add' where r: "cut_blocks i' bs = (rest, bs', add')" by (metis prod_cases3)
      have IH: "block_ok rest" "block_set rest = block_set i' - (\<Union>b\<in>set bs. block_set b)"
        "refines (bs' @ add') bs (block_set i')"
        using 2(2) [OF nn c_def i'_def differs_def b'_def added_def more tl i'(1)]
        unfolding r prod.case by blast+
      have "refines (b' # added @ bs' @ add') (b # bs) (block_set i)"
        using step IH(3) i'(2) by simp
      then have "refines (b' # bs' @ added @ add') (b # bs) (block_set i)"
        by (rule refines_mset [THEN iffD1, rotated]) simp
      moreover have "cut_blocks i (b # bs) = (rest, b' # bs', added @ add')"
        using True more r by (simp add: Let_def c_def i'_def differs_def b'_def added_def)
      ultimately show ?thesis using IH(1,2) i'(2) by auto
    qed
  qed
qed

lemma card_iv_set:
  assumes "iv_valid same_version i"
  shows "finite (iv_set i) \<and> int (card (iv_set i)) = ip_int (iend i) - ip_int (istart i) + 1"
proof -
  obtain a b where i: "i = Interval a b" by (cases i)
  have v: "same_version a b" "ip_int a \<le> ip_int b"
    using assms by (auto simp: i iv_valid_def ip_order split: if_splits)
  have "bij_betw ip_int (iv_set i) {ip_int a..ip_int b}"
  proof (rule bij_betw_byWitness [where f' = "ip_like a"])
    show "\<forall>x\<in>iv_set i. ip_like a (ip_int x) = x"
      using v by (auto simp: i ip_iv_set simp del: mem_iv_set
          intro!: ip_eqI ip_int_like ip_int_bounds dest: same_version_bits)
        (metis ip_int_bounds(2) same_version_bits)
    have r: "0 \<le> n \<and> n < 2 ^ ip_bits a" if "n \<in> {ip_int a..ip_int b}" for n
      using that ip_int_bounds [of a] ip_int_bounds [of b] same_version_bits [OF v(1)] by auto
    then show "\<forall>n\<in>{ip_int a..ip_int b}. ip_int (ip_like a n) = n" by (simp add: ip_int_like)
    show "ip_int ` iv_set i \<subseteq> {ip_int a..ip_int b}"
      using v by (auto simp: i ip_iv_set simp del: mem_iv_set)
    show "ip_like a ` {ip_int a..ip_int b} \<subseteq> iv_set i"
      using r by (auto simp: i ip_iv_set [OF v(1)] ip_int_like simp del: mem_iv_set)
  qed
  then show ?thesis
    using bij_betw_same_card bij_betw_finite v by (fastforce simp: i)
qed

lemma card_iset_set:
  "ip_canonical xs \<Longrightarrow> finite (iset_set xs) \<and> int (card (iset_set xs)) = ip_count xs"
proof (induction xs)
  case (Cons i xs)
  then have IH: "finite (iset_set xs)" "int (card (iset_set xs)) = ip_count xs"
    and i: "iv_valid same_version i" by (auto simp: canonical_Cons)
  have "iv_set i \<inter> iset_set xs = {}"
    using Cons.prems ips.gap_less by (fastforce simp: canonical_Cons mem_iset_set)
  then show ?case
    using card_iv_set [OF i] IH by (simp add: card_Un_disjoint ip_count_def)
qed (simp add: ip_count_def)

lemma fold_cidr_hole:
  assumes "ip_canonical xs" and "list_all cidr_ok es"
  shows "ip_canonical (foldl (\<lambda>xs e. add_hole xs (cidr_interval e)) xs es) \<and>
         iset_set (foldl (\<lambda>xs e. add_hole xs (cidr_interval e)) xs es) =
           iset_set xs - (\<Union>e\<in>set es. iv_set (cidr_interval e))"
  using assms
proof (induction es arbitrary: xs)
  case (Cons e es)
  then have e: "iv_valid same_version (cidr_interval e)" by (simp add: cidr_valid)
  have "ip_canonical (add_hole xs (cidr_interval e))"
    by (rule ips.add_hole_canonical [OF Cons.prems(1) e])
  from Cons.IH [OF this] show ?case
    using Cons.prems ips.add_hole_set [OF Cons.prems(1) e] by auto
qed simp

section \<open>Properties\<close>

text \<open>
  Adding a network with exceptions to a block keeps the block canonical and adds the
  addresses with the network's prefix, without those of the exceptions (host bits of the given
  address are ignored); removing a network takes away its addresses.
\<close>

theorem add_cidr_points:
  assumes "block_ok b" and "cidr_ok c" and "list_all cidr_ok es"
  shows "block_ok (block_add_cidr b c es) \<and>
         block_set (block_add_cidr b c es) =
           (block_set b \<union> iv_set (cidr_interval c)) - (\<Union>e\<in>set es. iv_set (cidr_interval e)) \<and>
         block_ok (block_remove_cidr b c) \<and>
         block_set (block_remove_cidr b c) = block_set b - iv_set (cidr_interval c) \<and>
         (\<forall>x. x \<in> iv_set (cidr_interval c) \<longleftrightarrow>
            same_version x (cidr_ip c) \<and>
            ip_int x div 2 ^ (ip_bits (cidr_ip c) - prefixlen c) =
              ip_int (cidr_ip c) div 2 ^ (ip_bits (cidr_ip c) - prefixlen c))"
  using fold_cidr_hole [OF _ assms(3), of "add_interval (ips b) (cidr_interval c)"]
    ips.add_interval_canonical [OF assms(1) cidr_valid [OF assms(2)]]
    ips.add_interval_set [OF assms(1) cidr_valid [OF assms(2)]]
    ips.add_hole_canonical [OF assms(1) cidr_valid [OF assms(2)]]
    ips.add_hole_set [OF assms(1) cidr_valid [OF assms(2)]]
    cidr_interval_set [OF assms(2)]
  by (simp add: block_add_cidr_def block_remove_cidr_def)

theorem add_cidr_points_witness:
  "IPv4 0x0A000101 \<in> block_set (block_add_cidr empty_block (Cidr (IPv4 0x0A000007) 16) [Cidr (IPv4 0x0A000000) 24]) \<and>
   IPv4 0x0A000001 \<notin> block_set (block_add_cidr empty_block (Cidr (IPv4 0x0A000007) 16) [Cidr (IPv4 0x0A000000) 24])"
proof -
  let ?c = "Cidr (IPv4 0x0A000007) 16" and ?e = "Cidr (IPv4 0x0A000000) 24"
  have h: "block_ok empty_block" "cidr_ok ?c" "list_all cidr_ok [?e]"
    by (simp_all add: empty_block_def mk_ip_block_def cidr_ok_def)
  have "IPv4 0x0A000101 \<in> iv_set (cidr_interval ?c)" "IPv4 0x0A000101 \<notin> iv_set (cidr_interval ?e)"
    "IPv4 0x0A000001 \<in> iv_set (cidr_interval ?e)"
    using cidr_interval_set [of ?c] cidr_interval_set [of ?e] by (simp_all add: cidr_ok_def del: mem_iv_set)
  then show ?thesis using add_cidr_points [OF h] by (simp del: mem_iv_set)
qed

text \<open>
  C30. The list of networks of a block is a round trip: adding the networks one by one to an empty
  block gives back the block, for addresses of both versions.
\<close>

theorem cidr_list_roundtrip:
  assumes "block_ok b"
  shows "ips (foldl (\<lambda>e c. block_add_cidr e c []) empty_block (get_cidr_list (ips b))) = ips b"
proof -
  have "ips (foldl (\<lambda>e c. block_add_cidr e c []) e cs) = iset_or (ips e) (map cidr_interval cs)" for e cs
    by (induction cs arbitrary: e) (simp_all add: block_add_cidr_def iset_or_def)
  moreover have "ips empty_block = []" by (simp add: empty_block_def mk_ip_block_def Let_def)
  moreover have "iset_or [] (map cidr_interval (get_cidr_list (ips b))) = ips b"
    using cidr_list_correct [OF assms]
      ips.iset_or_correct [OF canonical_Nil, of "map cidr_interval (get_cidr_list (ips b))"]
    by (intro ips.canonical_unique [OF _ assms]) simp_all
  ultimately show ?thesis by simp
qed

theorem cidr_list_roundtrip_witness:
  "ips (foldl (\<lambda>e c. block_add_cidr e c []) empty_block
     (get_cidr_list [Interval (IPv4 5) (IPv4 9), Interval (IPv6 0) (IPv6 2)])) =
   [Interval (IPv4 5) (IPv4 9), Interval (IPv6 0) (IPv6 2)]"
proof -
  let ?b = "empty_block\<lparr>ips := [Interval (IPv4 5) (IPv4 9), Interval (IPv6 0) (IPv6 2)]\<rparr>"
  have "block_ok ?b"
    by (simp add: canonical_Cons iv_valid_def ip_order)
  from cidr_list_roundtrip [OF this] show ?thesis by simp
qed

text \<open>A block of a refinement, and a new block, lie inside or outside the given ones.\<close>

lemma refines_inside:
  assumes r: "refines new bs (block_set i)" and d: "disjoint_by block_set bs" and x: "x \<in> set new" and y: "y \<in> set (i # bs)"
  shows "block_set x \<subseteq> block_set y \<or> block_set x \<inter> block_set y = {}"
proof (cases "y = i")
  case True
  then show ?thesis using r x unfolding refines_def by blast
next
  case False
  then have yb: "y \<in> set bs" using y by simp
  have "\<exists>z\<in>set bs. block_set x \<subseteq> block_set z" using r x by (simp add: refines_def)
  then obtain z where z: "z \<in> set bs" "block_set x \<subseteq> block_set z" ..
  have "z = y \<or> block_set z \<inter> block_set y = {}"
  proof (cases "z = y")
    case False
    then have "\<not> (p \<in> block_set z \<and> p \<in> block_set y)" for p
      using disjoint_by_unique [OF d z(1) yb, of p] by argo
    then show ?thesis by blast
  qed simp
  then show ?thesis using z(2) by blast
qed

lemma rest_outside:
  assumes "block_set rest = block_set i - (\<Union>b\<in>set bs. block_set b)" and "block_set x \<subseteq> block_set rest"
    and "y \<in> set (i # bs)"
  shows "block_set x \<subseteq> block_set y \<or> block_set x \<inter> block_set y = {}"
  using assms by (cases "y = i") auto

text \<open>The list that \<open>_add_interval_to_list\<close> leaves, put in another order.\<close>

lemma split_rest_disjoint:
  assumes rest: "block_ok rest" "block_set rest = block_set i - (\<Union>b\<in>set bs. block_set b)"
    and r: "refines new bs (block_set i)"
  shows "disjoint_by block_set (block_split rest @ new) \<and>
         (\<forall>x\<in>set (block_split rest @ new). block_ok x \<and> block_set x \<noteq> {}) \<and>
         (\<Union>x\<in>set (block_split rest @ new). block_set x) = block_set i \<union> (\<Union>y\<in>set bs. block_set y)"
proof -
  note s = block_split_ok [OF rest(1)]
  have "\<forall>x\<in>set (block_split rest). \<forall>y\<in>set new. block_set x \<inter> block_set y = {}"
    using s r rest(2) unfolding refines_def by blast
  then have "disjoint_by block_set (block_split rest @ new)"
    using s r by (simp add: disjoint_by_append refines_def)
  moreover have "\<forall>x\<in>set (block_split rest @ new). block_ok x \<and> block_set x \<noteq> {}"
    using s r by (auto simp: refines_def list_all_iff)
  moreover have "(\<Union>x\<in>set (block_split rest @ new). block_set x) = block_set rest \<union> (\<Union>x\<in>set new. block_set x)"
    using s by auto
  ultimately show ?thesis using r rest(2) by (simp add: refines_def)
qed

text \<open>
  C31. \<open>_add_interval_to_list\<close> keeps a list of disjoint blocks disjoint, adds exactly the
  addresses of the new block, and refines: each resulting block lies inside or outside every old
  block and the new one.
\<close>

theorem add_interval_to_list_partition:
  assumes "list_all (\<lambda>x. block_ok x \<and> block_set x \<noteq> {}) bs" and "disjoint_by block_set bs"
    and "block_ok i"
  shows "let r = add_interval_to_list i bs in
           list_all (\<lambda>x. block_ok x \<and> block_set x \<noteq> {}) r \<and> disjoint_by block_set r \<and>
           (\<Union>x\<in>set r. block_set x) = block_set i \<union> (\<Union>y\<in>set bs. block_set y) \<and>
           (\<forall>x\<in>set r. \<forall>y\<in>set (i # bs). block_set x \<subseteq> block_set y \<or> block_set x \<inter> block_set y = {})"
proof -
  obtain rest bs' added where c: "cut_blocks i bs = (rest, bs', added)" by (metis prod_cases3)
  have rest: "block_ok rest" "block_set rest = block_set i - (\<Union>b\<in>set bs. block_set b)"
    and r: "refines (bs' @ added) bs (block_set i)"
    using cut_blocks_ok [OF assms] by (simp_all add: c)
  let ?r = "bs' @ block_split rest @ added" and ?s = "block_split rest @ bs' @ added"
  have same: "set ?r = set ?s" "disjoint_by block_set ?r = disjoint_by block_set ?s"
    using disjoint_by_mset [of ?r ?s block_set] by auto
  have "block_set x \<subseteq> block_set y \<or> block_set x \<inter> block_set y = {}" if "x \<in> set ?s" "y \<in> set (i # bs)" for x y
    using that block_split_ok [OF rest(1)] rest_outside [OF rest(2) _ that(2), of x] refines_inside [OF r assms(2) _ that(2), of x]
    by auto
  moreover have "add_interval_to_list i bs = ?r" by (simp add: add_interval_to_list_def c)
  ultimately show ?thesis
    using split_rest_disjoint [OF rest r] unfolding Let_def list_all_iff same by (simp only: same simp_thms) blast
qed

theorem add_interval_to_list_partition_witness:
  "disjoint_by block_set
     (add_interval_to_list (empty_block\<lparr>ips := [Interval (IPv4 3) (IPv4 9)]\<rparr>)
        [empty_block\<lparr>ips := [Interval (IPv4 1) (IPv4 5)]\<rparr>])"
proof -
  let ?i = "empty_block\<lparr>ips := [Interval (IPv4 3) (IPv4 9)]\<rparr>"
  let ?bs = "[empty_block\<lparr>ips := [Interval (IPv4 1) (IPv4 5)]\<rparr>]"
  have "IPv4 1 \<in> iv_set (Interval (IPv4 1) (IPv4 5))" by (simp add: ip_order)
  then have "list_all (\<lambda>x. block_ok x \<and> block_set x \<noteq> {}) ?bs"
    by (auto simp: canonical_Cons iv_valid_def ip_order simp del: mem_iv_set)
  moreover have "block_ok ?i" by (simp add: canonical_Cons iv_valid_def ip_order)
  ultimately show ?thesis
    using add_interval_to_list_partition [of ?bs ?i] by (simp add: Let_def)
qed

text \<open>
  \<open>ip_count\<close> is the number of addresses of a canonical block.
\<close>

theorem ip_count_card:
  assumes "block_ok b"
  shows "finite (block_set b) \<and> ip_count (ips b) = int (card (block_set b))"
  using card_iset_set [OF assms] by simp

theorem ip_count_card_witness:
  "card (block_set (empty_block\<lparr>ips := [Interval (IPv4 3) (IPv4 9), Interval (IPv6 0) (IPv6 2)]\<rparr>)) = 10"
proof -
  have "block_ok (empty_block\<lparr>ips := [Interval (IPv4 3) (IPv4 9), Interval (IPv6 0) (IPv6 2)]\<rparr>)"
    by (simp add: canonical_Cons iv_valid_def ip_order)
  from ip_count_card [OF this] show ?thesis by (simp add: ip_count_def)
qed

end
