(* ===== verification/Peers.thy ===== *)
theory Peers
  imports Ip_Blocks "HOL-Library.Char_ord" "HOL-Library.List_Lexorder" "HOL-Library.Product_Lexorder"
begin

text \<open>
  The peers of \<open>nca/CoreDS/Peer.py\<close>: pods, host endpoints, IP blocks and DNS entries, the sets of
  peers (\<open>PeerSet\<close>), and the numbering of peers that turns sets of peers into interval sets
  (\<open>BasePeerSet\<close>).
\<close>

section \<open>Endpoints\<close>

record cluster_ep = peer_base +
  named_ports :: "(string \<times> int \<times> string) list"
  profiles :: "string list"

definition mk_cluster_ep :: "string \<Rightarrow> namespace option \<Rightarrow> cluster_ep" where
  "mk_cluster_ep name ns =
     \<lparr>pname = name, pnamespace = ns, labels = [], extra_labels = [], named_ports = [], profiles = []\<rparr>"

definition add_named_port ::
  "'a cluster_ep_scheme \<Rightarrow> string \<Rightarrow> int \<Rightarrow> string \<Rightarrow> 'a cluster_ep_scheme" where
  "add_named_port e name port_num protocol =
     (if name = '''' then e
      else e\<lparr>named_ports := dict_set (=) (named_ports e) name (port_num, protocol)\<rparr>)"

definition add_profile :: "'a cluster_ep_scheme \<Rightarrow> string \<Rightarrow> 'a cluster_ep_scheme" where
  "add_profile e p = e\<lparr>profiles := profiles e @ [p]\<rparr>"

definition get_first_profile_name :: "'a cluster_ep_scheme \<Rightarrow> string option" where
  "get_first_profile_name e = (case profiles e of [] \<Rightarrow> None | p # _ \<Rightarrow> Some p)"

definition ep_canonical_form :: "'a cluster_ep_scheme \<Rightarrow> string" where
  "ep_canonical_form e =
     (case profiles e of [] \<Rightarrow> ''''
      | p # ps \<Rightarrow> '','' @ p @ concat (map (\<lambda>q. '','' @ q) (sort ps))) @
     concat (map (\<lambda>(k, v). '',('' @ k @ '','' @ v @ '')'') (sort (labels e)))"

text \<open>
  A pod, and the workload that its owner stands for: a hexadecimal suffix of the name of an owning
  \<open>ReplicaSet\<close> is taken for the mark of a deployment and cut off.
\<close>

record pod = cluster_ep +
  owner_name :: string
  service_account_name :: string
  full_name_str :: string
  replicaset_name :: "string option"
  workload_name :: string

definition hexdigits :: string where
  "hexdigits = ''0123456789abcdefABCDEF''"

definition owner_workload :: "string \<Rightarrow> string \<Rightarrow> string \<Rightarrow> string \<Rightarrow> string option \<times> string" where
  "owner_workload ns name owner kind =
     (if owner = '''' then (None, ns @ ''/'' @ name @ ''(Pod)'')
      else if kind = ''ReplicaSet'' then
        (let i = rfind CHR ''-'' owner; suffix = py_drop owner (i + 1)
         in (Some (ns @ ''/'' @ owner @ ''(ReplicaSet)''),
             if list_all (\<lambda>c. c \<in> set hexdigits) suffix
             then ns @ ''/'' @ py_take owner i @ ''(Deployment-StatefulSet)''
             else ns @ ''/'' @ owner @ ''(ReplicaSet)''))
      else (None, ns @ ''/'' @ owner @ ''('' @ kind @ '')''))"

definition mk_pod :: "string \<Rightarrow> namespace \<Rightarrow> string \<Rightarrow> string \<Rightarrow> string \<Rightarrow> pod" where
  "mk_pod name ns owner kind account =
     (let (rs, workload) = owner_workload (ns_name ns) name owner kind
      in \<lparr>pname = name, pnamespace = Some ns, labels = [], extra_labels = [], named_ports = [],
          profiles = [], owner_name = owner, service_account_name = account,
          full_name_str = ns_name ns @ ''/'' @ name, replicaset_name = rs, workload_name = workload\<rparr>)"

section \<open>Peers\<close>

datatype peer =
    Pod_Peer (the_pod: pod)
  | Host_Peer (the_host: cluster_ep)
  | Ip_Peer (the_block: ip_block)
  | Dns_Peer (the_dns: peer_base)

definition is_ip :: "peer \<Rightarrow> bool" where
  "is_ip p = (case p of Ip_Peer _ \<Rightarrow> True | _ \<Rightarrow> False)"

definition is_dns :: "peer \<Rightarrow> bool" where
  "is_dns p = (case p of Dns_Peer _ \<Rightarrow> True | _ \<Rightarrow> False)"

definition base_full_name :: "'a peer_base_scheme \<Rightarrow> string" where
  "base_full_name p = (case pnamespace p of None \<Rightarrow> pname p | Some n \<Rightarrow> ns_name n @ ''/'' @ pname p)"

fun full_name :: "peer \<Rightarrow> string" where
  "full_name (Pod_Peer p) = full_name_str p"
| "full_name (Host_Peer h) = pname h"
| "full_name (Ip_Peer b) = block_full_name b"
| "full_name (Dns_Peer d) = base_full_name d"

fun peer_namespace :: "peer \<Rightarrow> namespace option" where
  "peer_namespace (Pod_Peer p) = pnamespace p"
| "peer_namespace (Host_Peer h) = pnamespace h"
| "peer_namespace (Ip_Peer b) = pnamespace b"
| "peer_namespace (Dns_Peer d) = pnamespace d"

fun peer_labels :: "peer \<Rightarrow> (string \<times> string) list" where
  "peer_labels (Pod_Peer p) = labels p"
| "peer_labels (Host_Peer h) = labels h"
| "peer_labels (Ip_Peer b) = labels b"
| "peer_labels (Dns_Peer d) = labels d"

fun peer_extra_labels :: "peer \<Rightarrow> (string \<times> string) list" where
  "peer_extra_labels (Pod_Peer p) = extra_labels p"
| "peer_extra_labels (Host_Peer h) = extra_labels h"
| "peer_extra_labels (Ip_Peer b) = extra_labels b"
| "peer_extra_labels (Dns_Peer d) = extra_labels d"

fun has_profiles :: "peer \<Rightarrow> bool" where
  "has_profiles (Pod_Peer p) = (profiles p \<noteq> [])"
| "has_profiles (Host_Peer h) = (profiles h \<noteq> [])"
| "has_profiles _ = False"

fun is_global_peer :: "peer \<Rightarrow> bool" where
  "is_global_peer (Host_Peer h) = True"
| "is_global_peer (Ip_Peer b) = is_global b"
| "is_global_peer _ = False"

fun get_named_ports :: "peer \<Rightarrow> (string \<times> int \<times> string) list" where
  "get_named_ports (Pod_Peer p) = named_ports p"
| "get_named_ports (Host_Peer h) = named_ports h"
| "get_named_ports _ = []"

text \<open>
  \<open>==\<close>: endpoints of one class by their full name, IP blocks by their intervals, DNS entries by
  their name; peers of different classes are different.
\<close>

fun peer_eq :: "peer \<Rightarrow> peer \<Rightarrow> bool" where
  "peer_eq (Pod_Peer p) (Pod_Peer q) = (full_name_str p = full_name_str q)"
| "peer_eq (Host_Peer p) (Host_Peer q) = (pname p = pname q)"
| "peer_eq (Ip_Peer a) (Ip_Peer b) = (ips a = ips b)"
| "peer_eq (Dns_Peer a) (Dns_Peer b) = (pname a = pname b)"
| "peer_eq _ _ = False"

fun canonical_form :: "peer \<Rightarrow> string" where
  "canonical_form (Pod_Peer p) =
     (case pnamespace p of None \<Rightarrow> '''' | Some n \<Rightarrow> ns_name n) @ ''_'' @ workload_name p @ ''_'' @
       ep_canonical_form p"
| "canonical_form (Host_Peer h) = ep_canonical_form h"
| "canonical_form (Ip_Peer b) = block_canonical_form b"
| "canonical_form (Dns_Peer d) =
     (case pnamespace d of None \<Rightarrow> pname d | Some n \<Rightarrow> ns_name n @ ''_'' @ pname d)"

text \<open>The pattern of a DNS host: \<open>re.escape\<close> puts a backslash before every special character.\<close>

definition dns_pattern :: string where
  "dns_pattern = ''(([A-Za-z0-9][-A-Za-z0-9_.]*)?[A-Za-z0-9])?''"

definition re_escape :: "string \<Rightarrow> string" where
  "re_escape s =
     concat (map (\<lambda>c. if c \<in> set ''()[]{}?*+-|^$.&~# '' \<or> of_char c \<in> {9, 10, 11, 12, 13, 92::nat}
                      then [CHR 0x5C, c] else [c]) s)"

definition compute_re_pattern_from_host_name :: "string \<Rightarrow> string" where
  "compute_re_pattern_from_host_name host =
     (case host of
        [] \<Rightarrow> ''''
      | c # rest \<Rightarrow> if c = CHR ''*'' then dns_pattern @ re_escape rest else re_escape host)"

section \<open>Sets of peers\<close>

type_synonym peer_set = "peer list"

definition ps_without_ip_block :: "peer_set \<Rightarrow> peer_set" where
  "ps_without_ip_block s = filter (\<lambda>p. \<not> is_ip p) s"

definition ps_without_ip_block_or_dns :: "peer_set \<Rightarrow> peer_set" where
  "ps_without_ip_block_or_dns s = filter (\<lambda>p. \<not> is_ip p \<and> \<not> is_dns p) s"

definition get_dns_entries :: "peer_set \<Rightarrow> peer_set" where
  "get_dns_entries s = filter is_dns s"

definition block_ior :: "ip_block \<Rightarrow> ip_block \<Rightarrow> ip_block" where
  "block_ior a b = a\<lparr>ips := iset_or (ips a) (ips b)\<rparr>"

definition ps_ip_block :: "peer_set \<Rightarrow> ip_block" where
  "ps_ip_block s = foldl (\<lambda>r p. case p of Ip_Peer b \<Rightarrow> block_ior r b | _ \<Rightarrow> r) empty_block s"

definition block_peer_set :: "ip_block \<Rightarrow> peer_set" where
  "block_peer_set b = (if ips b \<noteq> [] then [Ip_Peer b] else [])"

definition get_all_ips_block_peer_set :: "bool \<Rightarrow> peer_set option" where
  "get_all_ips_block_peer_set exclude_ipv6 =
     map_option (\<lambda>b. [Ip_Peer b]) (get_all_ips_block exclude_ipv6 False)"

definition ps_contains :: "peer \<Rightarrow> peer_set \<Rightarrow> bool" where
  "ps_contains p s =
     (case p of
        Ip_Peer b \<Rightarrow> list_ex (\<lambda>q. case q of Ip_Peer c \<Rightarrow> iset_contained_in (ips b) (ips c) | _ \<Rightarrow> False) s
      | _ \<Rightarrow> set_mem peer_eq p s)"

definition ps_or :: "peer_set \<Rightarrow> peer_set \<Rightarrow> peer_set" where
  "ps_or s t = set_union peer_eq s t"

definition ps_and :: "peer_set \<Rightarrow> peer_set \<Rightarrow> peer_set" where
  "ps_and s t =
     ps_or (set_inter peer_eq (ps_without_ip_block s) (ps_without_ip_block t))
       (block_peer_set (block_and (ps_ip_block s) (ps_ip_block t)))"

definition ps_sub :: "peer_set \<Rightarrow> peer_set \<Rightarrow> peer_set" where
  "ps_sub s t =
     ps_or (set_diff peer_eq (ps_without_ip_block s) (ps_without_ip_block t))
       (block_peer_set (block_sub (ps_ip_block s) (ps_ip_block t)))"

definition ps_canonical_form :: "peer_set \<Rightarrow> peer_set" where
  "ps_canonical_form s = ps_or (ps_without_ip_block s) (block_peer_set (ps_ip_block s))"

definition ps_split :: "peer_set \<Rightarrow> peer_set" where
  "ps_split s =
     foldl (\<lambda>r p. case p of Ip_Peer b \<Rightarrow> ps_or r (map Ip_Peer (block_split b))
                          | _ \<Rightarrow> set_add peer_eq r p) [] s"

definition ps_eq :: "peer_set \<Rightarrow> peer_set \<Rightarrow> bool" where
  "ps_eq s t \<longleftrightarrow>
     set_equal peer_eq (ps_without_ip_block s) (ps_without_ip_block t) \<and>
     ips (ps_ip_block s) = ips (ps_ip_block t)"

text \<open>\<open>filter_ip_blocks_by_mask\<close>: the removals are done before the additions.\<close>

definition mask_removed :: "ip_block \<Rightarrow> peer \<Rightarrow> bool" where
  "mask_removed m p =
     (case p of Ip_Peer b \<Rightarrow> \<not> iset_contained_in (ips b) (ips m) | _ \<Rightarrow> False)"

definition mask_added :: "ip_block \<Rightarrow> peer \<Rightarrow> peer list" where
  "mask_added m p =
     (case p of
        Ip_Peer b \<Rightarrow>
          if mask_removed m p \<and> iset_overlaps (ips b) (ips m) then [Ip_Peer (block_iand (block_copy b) m)] else []
      | _ \<Rightarrow> [])"

definition filter_ip_blocks_by_mask :: "peer_set \<Rightarrow> ip_block \<Rightarrow> peer_set" where
  "filter_ip_blocks_by_mask s m =
     foldl (set_add peer_eq)
       (foldl (set_remove peer_eq) s (filter (mask_removed m) s))
       (concat (map (mask_added m) s))"

section \<open>The numbering of peers\<close>

record base_peers =
  ordered_peer_list :: "peer list"
  peer_to_index :: "(peer \<times> nat) list"

definition no_peers :: base_peers where
  "no_peers = \<lparr>ordered_peer_list = [], peer_to_index = []\<rparr>"

definition max_num_of_pods :: int where "max_num_of_pods = 10000"
definition gap_width :: int where "gap_width = 5"
definition min_ipv4_index :: int where "min_ipv4_index = 0"
definition max_ipv4_index :: int where "max_ipv4_index = min_ipv4_index + (2 ^ 32 - 1)"
definition min_ipv6_index :: int where "min_ipv6_index = max_ipv4_index + gap_width"
definition max_ipv6_index :: int where "max_ipv6_index = min_ipv6_index + (2 ^ 128 - 1)"
definition min_pod_index :: int where "min_pod_index = max_ipv6_index + gap_width"
definition max_pod_index :: int where "max_pod_index = min_pod_index + max_num_of_pods - 1"

definition add_peer :: "base_peers \<Rightarrow> peer \<Rightarrow> base_peers option" where
  "add_peer B p =
     (if \<not> is_ip p \<and> dict_get peer_eq (peer_to_index B) p = None then
        (if int (length (ordered_peer_list B)) < max_num_of_pods then
           Some \<lparr>ordered_peer_list = ordered_peer_list B @ [p],
                 peer_to_index = dict_set peer_eq (peer_to_index B) p (length (ordered_peer_list B))\<rparr>
         else None)
      else Some B)"

definition ip_index_interval :: "ip_address interval \<Rightarrow> int interval" where
  "ip_index_interval i =
     (let base = (case istart i of IPv4 _ \<Rightarrow> min_ipv4_index | IPv6 _ \<Rightarrow> min_ipv6_index)
      in Interval (base + ip_int (istart i)) (base + ip_int (iend i)))"

definition add_peer_indices :: "base_peers \<Rightarrow> int interval_set \<Rightarrow> peer \<Rightarrow> int interval_set option" where
  "add_peer_indices B xs p =
     (case p of
        Ip_Peer b \<Rightarrow> Some (foldl add_interval xs (map ip_index_interval (ips b)))
      | _ \<Rightarrow>
          do { n \<leftarrow> dict_get peer_eq (peer_to_index B) p;
               Some (add_interval xs (Interval (min_pod_index + int n) (min_pod_index + int n))) })"

definition get_peer_interval_of :: "base_peers \<Rightarrow> peer_set \<Rightarrow> int interval_set option" where
  "get_peer_interval_of B s = fold_opt (add_peer_indices B) [] s"

text \<open>
  Back from the indices. An address out of its range raises, an interval above the pods fails the
  assertion, and the indices of pods go through Python's list indexing.
\<close>

definition to_ip :: "(int \<Rightarrow> ip_address) \<Rightarrow> nat \<Rightarrow> int \<Rightarrow> ip_address option" where
  "to_ip mk bits n = (if 0 \<le> n \<and> n < 2 ^ bits then Some (mk n) else None)"

definition indices_of_interval ::
  "base_peers \<Rightarrow> peer_set \<times> ip_block \<times> ip_block \<Rightarrow> int interval \<Rightarrow>
   (peer_set \<times> ip_block \<times> ip_block) option"
where
  "indices_of_interval B acc i =
     (let (s, b4, b6) = acc in
      if iend i \<le> max_ipv4_index then
        do { a \<leftarrow> to_ip (\<lambda>n. IPv4 (word_of_int n)) 32 (istart i - min_ipv4_index);
             b \<leftarrow> to_ip (\<lambda>n. IPv4 (word_of_int n)) 32 (iend i - min_ipv4_index);
             Some (s, b4\<lparr>ips := add_interval (ips b4) (Interval a b)\<rparr>, b6) }
      else if iend i \<le> max_ipv6_index then
        do { a \<leftarrow> to_ip (\<lambda>n. IPv6 (word_of_int n)) 128 (istart i - min_ipv6_index);
             b \<leftarrow> to_ip (\<lambda>n. IPv6 (word_of_int n)) 128 (iend i - min_ipv6_index);
             Some (s, b4, b6\<lparr>ips := add_interval (ips b6) (Interval a b)\<rparr>) }
      else if iend i \<le> max_pod_index then
        (let last_pod = int (length (ordered_peer_list B)) - 1 in
         do { ps \<leftarrow> map_opt (py_nth (ordered_peer_list B))
                      [min (istart i - min_pod_index) last_pod .. min (iend i - min_pod_index) last_pod];
              Some (foldl (set_add peer_eq) s ps, b4, b6) })
      else None)"

definition get_peer_set_by_indices :: "base_peers \<Rightarrow> int interval_set \<Rightarrow> peer_set option" where
  "get_peer_set_by_indices B xs =
     do { (s, b4, b6) \<leftarrow> fold_opt (indices_of_interval B) ([], empty_block, empty_block) xs;
          Some (foldl (set_add peer_eq) s (block_peer_set b4 @ block_peer_set b6)) }"

definition get_all_peers_and_ip_blocks_interval :: "int interval_set" where
  "get_all_peers_and_ip_blocks_interval =
     foldl add_interval [] [Interval min_ipv4_index max_ipv4_index,
       Interval min_ipv6_index max_ipv6_index, Interval min_pod_index max_pod_index]"

section \<open>The meaning of sets of peers\<close>

text \<open>
  A set of peers stands for the addresses of its IP blocks and for its other peers. What a peer
  stands for depends only on the key that \<open>==\<close> compares.
\<close>

datatype peer_id =
  Pod_Key string | Host_Key string | Block_Key "ip_address interval_set" | Dns_Key string

fun peer_key :: "peer \<Rightarrow> peer_id" where
  "peer_key (Pod_Peer p) = Pod_Key (full_name_str p)"
| "peer_key (Host_Peer h) = Host_Key (pname h)"
| "peer_key (Ip_Peer b) = Block_Key (ips b)"
| "peer_key (Dns_Peer d) = Dns_Key (pname d)"

interpretation peers: keyed peer_eq peer_key
proof
  show "peer_eq p q = (peer_key p = peer_key q)" for p q
    by (cases p; cases q) simp_all
qed

datatype endpoint = Address ip_address | Member peer_id

fun key_points :: "peer_id \<Rightarrow> endpoint set" where
  "key_points (Block_Key xs) = Address ` iset_set xs"
| "key_points k = {Member k}"

abbreviation peer_points :: "peer \<Rightarrow> endpoint set" where
  "peer_points p \<equiv> key_points (peer_key p)"

definition ps_points :: "peer_set \<Rightarrow> endpoint set" where
  "ps_points s = (\<Union>k\<in>peer_key ` set s. key_points k)"

definition peer_ok :: "peer \<Rightarrow> bool" where
  "peer_ok p = (case p of Ip_Peer b \<Rightarrow> block_ok b | _ \<Rightarrow> True)"

definition ps_ok :: "peer_set \<Rightarrow> bool" where
  "ps_ok s \<longleftrightarrow> set_ok peer_eq s \<and> list_all peer_ok s"

lemma peer_ok_simps [simp]:
  "peer_ok (Pod_Peer p)" "peer_ok (Host_Peer h)" "peer_ok (Dns_Peer d)"
  "peer_ok (Ip_Peer b) \<longleftrightarrow> block_ok b"
  by (simp_all add: peer_ok_def)

lemma is_ip_simps [simp]:
  "\<not> is_ip (Pod_Peer p)" "\<not> is_ip (Host_Peer h)" "\<not> is_ip (Dns_Peer d)" "is_ip (Ip_Peer b)"
  by (simp_all add: is_ip_def)

lemma ps_points_simps [simp]:
  "ps_points [] = {}" "ps_points (p # s) = peer_points p \<union> ps_points s"
  "ps_points (s @ t) = ps_points s \<union> ps_points t"
  by (auto simp: ps_points_def)

lemma not_ip_points: "\<not> is_ip p \<Longrightarrow> peer_points p = {Member (peer_key p)}"
  by (cases p) simp_all

lemma ps_or_ok:
  assumes "ps_ok s" and "list_all peer_ok t"
  shows "ps_ok (ps_or s t) \<and> ps_points (ps_or s t) = ps_points s \<union> ps_points t"
  using assms peers.union_keys [of s t] peers.union_subset [of s t]
  by (auto simp: ps_ok_def ps_or_def ps_points_def list_all_iff)

lemma ps_without_points: "ps_points (ps_without_ip_block s) = Member ` peer_key ` set (ps_without_ip_block s)"
  using not_ip_points by (force simp: ps_points_def ps_without_ip_block_def)

lemma ps_ip_block_foldl:
  assumes "block_ok r" and "list_all peer_ok s"
  shows "block_ok (foldl (\<lambda>r p. case p of Ip_Peer b \<Rightarrow> block_ior r b | _ \<Rightarrow> r) r s) \<and>
         block_set (foldl (\<lambda>r p. case p of Ip_Peer b \<Rightarrow> block_ior r b | _ \<Rightarrow> r) r s) =
           block_set r \<union> {a. Address a \<in> ps_points s}"
  using assms
proof (induction s arbitrary: r)
  case (Cons p s)
  show ?case
  proof (cases "is_ip p")
    case True
    then obtain b where p: "p = Ip_Peer b" by (cases p) simp_all
    have b: "block_ok b" using Cons.prems p by simp
    have r: "block_ok (block_ior r b)" "block_set (block_ior r b) = block_set r \<union> block_set b"
      using Cons.prems b by (simp_all add: block_ior_def ips.iset_or_canonical ips.iset_or_set)
    show ?thesis using Cons.IH [OF r(1)] Cons.prems r(2) by (auto simp: p)
  next
    case False
    then show ?thesis using Cons by (cases p) auto
  qed
qed simp

lemma empty_block_simps [simp]: "ips empty_block = []"
  by (simp add: empty_block_def mk_ip_block_def Let_def)

lemma ps_ip_block_ok:
  assumes "ps_ok s"
  shows "block_ok (ps_ip_block s)" and "block_set (ps_ip_block s) = {a. Address a \<in> ps_points s}"
  using ps_ip_block_foldl [of empty_block s] assms by (simp_all add: ps_ip_block_def ps_ok_def)

lemma ps_points_split: "ps_points s = ps_points (ps_without_ip_block s) \<union> Address ` {a. Address a \<in> ps_points s}"
proof (induction s)
  case (Cons p s)
  then show ?case
    by (cases p) (auto simp: ps_without_ip_block_def)
qed (simp add: ps_without_ip_block_def)

lemma ps_points_eq:
  assumes "ps_ok s"
  shows "ps_points s = Member ` peer_key ` set (ps_without_ip_block s) \<union> Address ` block_set (ps_ip_block s)"
  using ps_points_split [of s] ps_without_points [of s] ps_ip_block_ok [OF assms] by simp

lemma ps_without_ok: "ps_ok s \<Longrightarrow> ps_ok (ps_without_ip_block s)"
  using peers.ok_filter [of s "\<lambda>p. \<not> is_ip p"]
  by (auto simp: ps_ok_def ps_without_ip_block_def list_all_iff)

lemma block_peer_set_ok:
  "block_ok b \<Longrightarrow> list_all peer_ok (block_peer_set b)"
  "block_ok b \<Longrightarrow> ps_points (block_peer_set b) = Address ` block_set b"
  by (auto simp: block_peer_set_def)

lemma not_ip_set_points:
  assumes "\<forall>p\<in>set s. \<not> is_ip p"
  shows "ps_points s = Member ` peer_key ` set s"
  using assms not_ip_points unfolding ps_points_def by force

lemma ps_and_ok:
  assumes s: "ps_ok s" and t: "ps_ok t"
  shows "ps_ok (ps_and s t) \<and> ps_points (ps_and s t) = ps_points s \<inter> ps_points t"
proof -
  let ?w = ps_without_ip_block and ?n = "set_inter peer_eq (ps_without_ip_block s) (ps_without_ip_block t)"
  note b = block_ops [OF ps_ip_block_ok(1) [OF s] ps_ip_block_ok(1) [OF t]]
  have n: "ps_ok ?n"
    using ps_without_ok [OF s] peers.inter_keys(2) [of "?w s" "?w t"]
    by (auto simp: ps_ok_def list_all_iff set_inter_def)
  have "\<forall>p\<in>set ?n. \<not> is_ip p" by (simp add: set_inter_def ps_without_ip_block_def)
  then have "ps_points ?n = Member ` (peer_key ` set (?w s) \<inter> peer_key ` set (?w t))"
    using not_ip_set_points [of ?n] peers.inter_keys(1) [of "?w s" "?w t"] by simp
  then show ?thesis
    using ps_or_ok [OF n block_peer_set_ok(1) [OF b(1)]] block_peer_set_ok(2) [OF b(1)] b(2)
    unfolding ps_and_def ps_points_eq [OF s] ps_points_eq [OF t] by auto
qed

lemma ps_sub_ok:
  assumes s: "ps_ok s" and t: "ps_ok t"
  shows "ps_ok (ps_sub s t) \<and> ps_points (ps_sub s t) = ps_points s - ps_points t"
proof -
  let ?w = ps_without_ip_block and ?n = "set_diff peer_eq (ps_without_ip_block s) (ps_without_ip_block t)"
  note b = block_ops [OF ps_ip_block_ok(1) [OF s] ps_ip_block_ok(1) [OF t]]
  have n: "ps_ok ?n"
    using ps_without_ok [OF s] peers.diff_keys(2) [of "?w s" "?w t"]
    by (auto simp: ps_ok_def list_all_iff set_diff_def)
  have "\<forall>p\<in>set ?n. \<not> is_ip p" by (simp add: set_diff_def ps_without_ip_block_def)
  then have "ps_points ?n = Member ` (peer_key ` set (?w s) - peer_key ` set (?w t))"
    using not_ip_set_points [of ?n] peers.diff_keys(1) [of "?w s" "?w t"] by simp
  then show ?thesis
    using ps_or_ok [OF n block_peer_set_ok(1) [OF b(5)]] block_peer_set_ok(2) [OF b(5)] b(6)
    unfolding ps_sub_def ps_points_eq [OF s] ps_points_eq [OF t] by auto
qed

lemma ps_canonical_form_ok:
  assumes s: "ps_ok s"
  shows "ps_ok (ps_canonical_form s) \<and> ps_points (ps_canonical_form s) = ps_points s"
  using ps_or_ok [OF ps_without_ok [OF s] block_peer_set_ok(1)] block_peer_set_ok(2)
    ps_ip_block_ok [OF s] ps_points_split [of s]
  by (simp add: ps_canonical_form_def)

lemma ps_eq_ok:
  assumes s: "ps_ok s" and t: "ps_ok t"
  shows "ps_eq s t \<longleftrightarrow> ps_points s = ps_points t"
proof -
  let ?w = ps_without_ip_block
  have "set_equal peer_eq (?w s) (?w t) \<longleftrightarrow> peer_key ` set (?w s) = peer_key ` set (?w t)"
    using peers.equal_keys ps_without_ok [OF s] ps_without_ok [OF t] by (simp add: ps_ok_def)
  moreover have "ips (ps_ip_block s) = ips (ps_ip_block t) \<longleftrightarrow>
      block_set (ps_ip_block s) = block_set (ps_ip_block t)"
    using ips.canonical_unique [OF ps_ip_block_ok(1) [OF s] ps_ip_block_ok(1) [OF t]] by (intro iffI) simp_all
  moreover have "Member ` A \<union> Address ` X = Member ` B \<union> Address ` Y \<longleftrightarrow> A = B \<and> X = Y" for A B X Y
    by (auto simp: set_eq_iff image_iff)
  ultimately show ?thesis
    unfolding ps_eq_def ps_points_eq [OF s] ps_points_eq [OF t] by simp
qed

lemma ps_split_foldl:
  assumes "ps_ok r" and "list_all peer_ok s"
  shows "ps_ok (foldl (\<lambda>r p. case p of Ip_Peer b \<Rightarrow> ps_or r (map Ip_Peer (block_split b))
                                  | _ \<Rightarrow> set_add peer_eq r p) r s) \<and>
         ps_points (foldl (\<lambda>r p. case p of Ip_Peer b \<Rightarrow> ps_or r (map Ip_Peer (block_split b))
                                  | _ \<Rightarrow> set_add peer_eq r p) r s) = ps_points r \<union> ps_points s"
  using assms
proof (induction s arbitrary: r)
  case (Cons p s)
  define r' where "r' = (case p of Ip_Peer b \<Rightarrow> ps_or r (map Ip_Peer (block_split b)) | _ \<Rightarrow> set_add peer_eq r p)"
  have r': "ps_ok r' \<and> ps_points r' = ps_points r \<union> peer_points p"
  proof (cases "is_ip p")
    case True
    then obtain b where p: "p = Ip_Peer b" by (cases p) simp_all
    have b: "block_ok b" using Cons.prems p by simp
    have "list_all peer_ok (map Ip_Peer (block_split b))"
      using block_split_ok [OF b] by (simp add: list_all_iff)
    moreover have "ps_points (map Ip_Peer (block_split b)) = Address ` block_set b"
      using block_split_ok [OF b] by (auto simp: ps_points_def)
    ultimately show ?thesis
      using ps_or_ok [OF Cons.prems(1)] by (simp add: r'_def p)
  next
    case False
    then have "r' = ps_or r [p]" "peer_ok p"
      by (cases p; simp add: r'_def ps_or_def set_union_def)+
    then show ?thesis using ps_or_ok [OF Cons.prems(1), of "[p]"] by simp
  qed
  then show ?case using Cons.IH [of r'] Cons.prems by (simp add: r'_def Un_assoc)
qed simp

lemma foldl_remove_keys:
  "peer_key ` set (foldl (set_remove peer_eq) s ps) = peer_key ` set s - peer_key ` set ps"
  "set_ok peer_eq s \<Longrightarrow> set_ok peer_eq (foldl (set_remove peer_eq) s ps)"
  "set (foldl (set_remove peer_eq) s ps) \<subseteq> set s"
proof -
  show "peer_key ` set (foldl (set_remove peer_eq) s ps) = peer_key ` set s - peer_key ` set ps"
    by (induction ps arbitrary: s) (auto simp: peers.remove_keys)
  show "set_ok peer_eq s \<Longrightarrow> set_ok peer_eq (foldl (set_remove peer_eq) s ps)"
    by (induction ps arbitrary: s) (auto simp: peers.remove_keys)
  show "set (foldl (set_remove peer_eq) s ps) \<subseteq> set s"
  proof (induction ps arbitrary: s)
    case (Cons p ps)
    then show ?case using Cons.IH [of "set_remove peer_eq s p"] by (auto simp: set_remove_def)
  qed simp
qed

lemma block_iand_copy:
  assumes "block_ok b" and "block_ok m"
  shows "block_ok (block_iand (block_copy b) m)"
    and "block_set (block_iand (block_copy b) m) = block_set b \<inter> block_set m"
  using block_ops(7,8) [of "block_copy b" m] assms by simp_all

lemma mask_filter_ok:
  assumes s: "ps_ok s" and m: "block_ok m"
  shows "ps_ok (filter_ip_blocks_by_mask s m) \<and>
         ps_points (filter_ip_blocks_by_mask s m) = ps_points s - Address ` (- block_set m)"
proof -
  define rem where "rem = filter (mask_removed m) s"
  define add where "add = concat (map (mask_added m) s)"
  let ?kept = "foldl (set_remove peer_eq) s rem"
  have eq: "filter_ip_blocks_by_mask s m = ps_or ?kept add"
    by (simp add: filter_ip_blocks_by_mask_def ps_or_def set_union_def rem_def add_def)
  have ok: "peer_ok p" if "p \<in> set s" for p using s that by (simp add: ps_ok_def list_all_iff)
  have kept: "ps_ok ?kept"
    using s foldl_remove_keys(2,3) [of s rem] by (auto simp: ps_ok_def list_all_iff)
  have one: "peer_ok q \<and> peer_points q \<subseteq> peer_points p - Address ` (- block_set m)"
    if "p \<in> set s" "q \<in> set (mask_added m p)" for p q
    by (cases p)
      (use that ok [OF that(1)] block_iand_copy [OF _ m] m in \<open>auto simp: mask_added_def split: if_splits\<close>)
  have in_add: "peer_points p - Address ` (- block_set m) \<subseteq> ps_points add"
    if p_in: "p \<in> set s" and p_rem: "mask_removed m p" for p
  proof -
    obtain b where p: "p = Ip_Peer b" using p_rem by (cases p) (simp_all add: mask_removed_def)
    then have b: "block_ok b" using ok [OF p_in] by simp
    show ?thesis
    proof (cases "iset_overlaps (ips b) (ips m)")
      case True
      then have "Ip_Peer (block_iand (block_copy b) m) \<in> set add"
        using p_in p_rem by (force simp: add_def p mask_added_def)
      then have "peer_points (Ip_Peer (block_iand (block_copy b) m)) \<subseteq> ps_points add" by (force simp: ps_points_def)
      then show ?thesis using block_iand_copy [OF b m] by (auto simp: p)
    next
      case False
      then show ?thesis using ips.iset_overlaps_iff [OF b m] by (auto simp: p)
    qed
  qed
  have stay: "peer_points p \<inter> Address ` (- block_set m) = {}" if "p \<in> set s" "\<not> mask_removed m p" for p
  proof (cases "is_ip p")
    case True
    then obtain b where p: "p = Ip_Peer b" by (cases p) simp_all
    then have "block_set b \<subseteq> block_set m"
      using ok [of p] \<open>p \<in> set s\<close> \<open>\<not> mask_removed m p\<close> ips.iset_contained_in_iff [OF _ m, of "ips b"]
      by (simp add: mask_removed_def)
    then show ?thesis by (auto simp: p)
  qed (auto simp: not_ip_points)
  have key: "peer_key p \<in> peer_key ` set rem \<longleftrightarrow> mask_removed m p" if "p \<in> set s" for p
  proof -
    have "mask_removed m p = mask_removed m q" if "peer_key p = peer_key q" for q
      using that by (cases p; cases q) (simp_all add: mask_removed_def)
    note same = this
    show ?thesis
    proof
      assume "peer_key p \<in> peer_key ` set rem"
      then obtain q where "q \<in> set rem" "peer_key p = peer_key q" by blast
      then show "mask_removed m p" using same [of q] by (simp add: rem_def)
    next
      assume "mask_removed m p"
      then have "p \<in> set rem" using that by (simp add: rem_def)
      then show "peer_key p \<in> peer_key ` set rem" by (rule imageI)
    qed
  qed
  have k: "ps_points ?kept = (\<Union>p\<in>{p \<in> set s. \<not> mask_removed m p}. peer_points p)"
    unfolding ps_points_def foldl_remove_keys(1) using key by force
  have "ps_points ?kept \<union> ps_points add = ps_points s - Address ` (- block_set m)"
  proof (intro equalityI subsetI)
    fix e
    assume "e \<in> ps_points ?kept \<union> ps_points add"
    then consider p where "p \<in> set s" "\<not> mask_removed m p" "e \<in> peer_points p"
      | p q where "p \<in> set s" "q \<in> set (mask_added m p)" "e \<in> peer_points q"
      unfolding k by (auto simp: ps_points_def add_def)
    then show "e \<in> ps_points s - Address ` (- block_set m)"
    proof cases
      case (1 p)
      then show ?thesis using stay [of p] unfolding ps_points_def by blast
    next
      case (2 p q)
      then show ?thesis using one [of p q] unfolding ps_points_def by blast
    qed
  next
    fix e
    assume "e \<in> ps_points s - Address ` (- block_set m)"
    then obtain p where "p \<in> set s" "e \<in> peer_points p" "e \<notin> Address ` (- block_set m)"
      unfolding ps_points_def by blast
    then show "e \<in> ps_points ?kept \<union> ps_points add"
      using in_add [of p] unfolding k by blast
  qed
  moreover have "list_all peer_ok add" using one by (auto simp: add_def list_all_iff)
  ultimately show ?thesis unfolding eq using ps_or_ok [OF kept] by simp
qed

section \<open>The meaning of the numbering\<close>

text \<open>The endpoints that have an index, and the index.\<close>

definition position :: "base_peers \<Rightarrow> peer_id \<Rightarrow> nat" where
  "position B k = length (takeWhile (\<lambda>p. peer_key p \<noteq> k) (ordered_peer_list B))"

definition numbered :: "base_peers \<Rightarrow> endpoint \<Rightarrow> bool" where
  "numbered B e =
     (case e of Address _ \<Rightarrow> True | Member k \<Rightarrow> k \<in> peer_key ` set (ordered_peer_list B))"

definition index_of :: "base_peers \<Rightarrow> endpoint \<Rightarrow> int" where
  "index_of B e =
     (case e of
        Address (IPv4 w) \<Rightarrow> min_ipv4_index + uint w
      | Address (IPv6 w) \<Rightarrow> min_ipv6_index + uint w
      | Member k \<Rightarrow> min_pod_index + int (position B k))"

definition base_ok :: "base_peers \<Rightarrow> bool" where
  "base_ok B \<longleftrightarrow>
     set_ok peer_eq (ordered_peer_list B) \<and> list_all (\<lambda>p. \<not> is_ip p) (ordered_peer_list B) \<and>
     peer_to_index B = zip (ordered_peer_list B) [0..<length (ordered_peer_list B)] \<and>
     int (length (ordered_peer_list B)) \<le> max_num_of_pods"

lemmas index_defs =
  min_ipv4_index_def max_ipv4_index_def min_ipv6_index_def max_ipv6_index_def
  min_pod_index_def max_pod_index_def gap_width_def max_num_of_pods_def

lemma no_peers_ok: "base_ok no_peers"
  by (simp add: base_ok_def no_peers_def set_ok_def max_num_of_pods_def)

lemma dict_get_zip:
  "dict_get eq (zip ps [n..<n + length ps]) p =
     (if set_mem eq p ps then Some (n + length (takeWhile (\<lambda>q. \<not> eq q p) ps)) else None)"
proof (induction ps arbitrary: n)
  case (Cons q ps)
  show ?case
    using Cons.IH [of "Suc n"] by (auto simp: upt_conv_Cons set_mem_def simp del: upt_Suc)
qed (simp add: set_mem_def)

lemma dict_get_index:
  assumes "base_ok B"
  shows "dict_get peer_eq (peer_to_index B) p =
    (if peer_key p \<in> peer_key ` set (ordered_peer_list B) then Some (position B (peer_key p)) else None)"
  using dict_get_zip [of peer_eq "ordered_peer_list B" 0 p] assms
  by (simp add: base_ok_def position_def peers.mem_keys peers.eq_key)

lemma add_peer_ok:
  assumes B: "base_ok B"
    and "int (length (ordered_peer_list B)) < max_num_of_pods \<or>
         peer_key p \<in> peer_key ` set (ordered_peer_list B) \<or> is_ip p"
  shows "\<exists>B'. add_peer B p = Some B' \<and> base_ok B' \<and>
           (\<exists>new. ordered_peer_list B' = ordered_peer_list B @ new) \<and>
           peer_key ` set (ordered_peer_list B') =
             peer_key ` set (ordered_peer_list B) \<union> (if is_ip p then {} else {peer_key p})"
proof (cases "\<not> is_ip p \<and> peer_key p \<notin> peer_key ` set (ordered_peer_list B)")
  case True
  let ?os = "ordered_peer_list B"
  have fresh: "\<forall>e\<in>set (peer_to_index B). \<not> peer_eq (fst e) p"
  proof
    fix e
    assume "e \<in> set (peer_to_index B)"
    then have "fst e \<in> set ?os" using B set_zip_leftD [of "fst e" "snd e"] by (simp add: base_ok_def)
    then show "\<not> peer_eq (fst e) p" using True by (metis peers.eq_key imageI)
  qed
  have "set_ok peer_eq (?os @ [p])"
    using True B by (auto simp: base_ok_def peers.ok_distinct)
  then have "base_ok \<lparr>ordered_peer_list = ?os @ [p],
      peer_to_index = dict_set peer_eq (peer_to_index B) p (length ?os)\<rparr>"
    using True B assms(2) dict_set_fresh [where eq = peer_eq, OF fresh] by (auto simp: base_ok_def)
  then show ?thesis
    using True assms(2) dict_get_index [OF B, of p] by (auto simp: add_peer_def)
next
  case False
  then show ?thesis
    using B dict_get_index [OF B, of p] by (auto simp: add_peer_def split: if_splits)
qed

lemma index_zones:
  "max_ipv4_index < min_ipv6_index" "max_ipv6_index < min_pod_index"
  "min_ipv4_index \<le> max_ipv4_index" "min_ipv6_index \<le> max_ipv6_index"
  by (simp_all add: index_defs)

lemma index_range:
  "min_ipv4_index \<le> index_of B (Address (IPv4 v)) \<and> index_of B (Address (IPv4 v)) \<le> max_ipv4_index"
  "min_ipv6_index \<le> index_of B (Address (IPv6 w)) \<and> index_of B (Address (IPv6 w)) \<le> max_ipv6_index"
  "min_pod_index \<le> index_of B (Member k)"
  using uint_lt2p [of v] uint_lt2p [of w]
  by (simp_all add: index_of_def max_ipv4_index_def max_ipv6_index_def min_ipv4_index_def)

lemma index_less:
  "index_of B (Address (IPv4 v)) < index_of B (Address (IPv6 w))"
  "index_of B (Address a) < index_of B (Member k)"
proof -
  show "index_of B (Address (IPv4 v)) < index_of B (Address (IPv6 w))"
    using index_range(1) [of B v] index_range(2) [of B w] index_zones by linarith
  show "index_of B (Address a) < index_of B (Member k)"
  proof (cases a)
    case (IPv4 v)
    then show ?thesis using index_range(1) [of B v] index_range(3) [of B k] index_zones by simp
  next
    case (IPv6 w)
    then show ?thesis using index_range(2) [of B w] index_range(3) [of B k] index_zones by simp
  qed
qed

lemma position_key:
  assumes "k \<in> peer_key ` set (ordered_peer_list B)"
  shows "position B k < length (ordered_peer_list B)"
    and "peer_key (ordered_peer_list B ! position B k) = k"
proof -
  show l: "position B k < length (ordered_peer_list B)"
    using assms unfolding position_def by (intro length_takeWhile_less) auto
  show "peer_key (ordered_peer_list B ! position B k) = k"
    using nth_length_takeWhile [of "\<lambda>p. peer_key p \<noteq> k" "ordered_peer_list B"] l
    unfolding position_def by simp
qed

lemma position_nth:
  assumes "base_ok B" and n: "n < length (ordered_peer_list B)"
  shows "position B (peer_key (ordered_peer_list B ! n)) = n"
proof -
  let ?k = "peer_key (ordered_peer_list B ! n)"
  have d: "distinct (map peer_key (ordered_peer_list B))"
    using assms(1) by (simp add: base_ok_def peers.ok_distinct)
  have "?k \<in> peer_key ` set (ordered_peer_list B)" using n by simp
  from position_key [OF this] show ?thesis
    using d n by (simp add: distinct_conv_nth) metis
qed

lemma index_of_inj:
  assumes "base_ok B" and "numbered B e" and "numbered B f" and "index_of B e = index_of B f"
  shows "e = f"
proof -
  have pos: "position B k = position B l \<Longrightarrow> k = l"
    if "k \<in> peer_key ` set (ordered_peer_list B)" "l \<in> peer_key ` set (ordered_peer_list B)" for k l
    using position_key(2) [OF that(1)] position_key(2) [OF that(2)] by metis
  have am: "index_of B (Address a) \<noteq> index_of B (Member k)" for a k
    using index_less(2) [of B a k] by simp
  have aa: "index_of B (Address a) = index_of B (Address b) \<Longrightarrow> a = b" for a b
  proof (cases a; cases b)
    fix v w
    assume "index_of B (Address a) = index_of B (Address b)" "a = IPv4 v" "b = IPv6 w"
    then show ?thesis using index_less(1) [of B v w] by simp
  next
    fix v w
    assume "index_of B (Address a) = index_of B (Address b)" "a = IPv6 v" "b = IPv4 w"
    then show ?thesis using index_less(1) [of B w v] by simp
  qed (simp_all add: index_of_def word_uint_eq_iff)
  have mm: "index_of B (Member k) = index_of B (Member l) \<Longrightarrow> position B k = position B l" for k l
    by (simp add: index_of_def)
  show ?thesis
  proof (cases e)
    case (Address a)
    show ?thesis
    proof (cases f)
      case b: (Address b)
      show ?thesis using assms(4) aa [of a b] by (simp add: Address b)
    next
      case (Member k)
      then show ?thesis using assms(4) am [of a k] by (simp add: \<open>e = Address a\<close>)
    qed
  next
    case (Member k)
    show ?thesis
    proof (cases f)
      case (Address a)
      then show ?thesis using assms(4) am [of a k] by (simp add: Member)
    next
      case m: (Member l)
      have "k = l" by (rule pos [OF _ _ mm]) (use assms Member m in \<open>simp_all add: numbered_def\<close>)
      then show ?thesis by (simp add: Member m)
    qed
  qed
qed

lemma index_interval_ok:
  assumes "iv_valid same_version i"
  shows "istart (ip_index_interval i) \<le> iend (ip_index_interval i)"
    and "iv_set (ip_index_interval i) = index_of B ` Address ` iv_set i"
proof -
  obtain a b where i: "i = Interval a b" by (cases i)
  have v: "same_version a b" "ip_int a \<le> ip_int b"
    using assms by (auto simp: i iv_valid_def ip_order split: if_splits)
  define base where "base = (case a of IPv4 _ \<Rightarrow> min_ipv4_index | IPv6 _ \<Rightarrow> min_ipv6_index)"
  have eq: "ip_index_interval i = Interval (base + ip_int a) (base + ip_int b)"
    by (simp add: ip_index_interval_def i base_def Let_def)
  have idx: "index_of B (Address x) = base + ip_int x" if "same_version x a" for x
    using that by (cases x; cases a) (simp_all add: index_of_def base_def)
  show "istart (ip_index_interval i) \<le> iend (ip_index_interval i)" using v by (simp add: eq)
  have "base + n \<in> index_of B ` Address ` iv_set i" if "ip_int a \<le> n" "n \<le> ip_int b" for n
  proof -
    have n: "0 \<le> n" "n < 2 ^ ip_bits a"
      using that ip_int_bounds [of a] ip_int_bounds [of b] same_version_bits [OF v(1)] by auto
    then have "ip_like a n \<in> iv_set i"
      using that by (simp add: i ip_iv_set [OF v(1)] ip_int_like del: mem_iv_set)
    moreover have "index_of B (Address (ip_like a n)) = base + n"
      using n by (simp add: idx ip_int_like)
    ultimately show ?thesis by (metis imageI)
  qed
  note hit = this
  show "iv_set (ip_index_interval i) = index_of B ` Address ` iv_set i"
  proof (intro equalityI subsetI)
    fix n
    assume "n \<in> iv_set (ip_index_interval i)"
    then show "n \<in> index_of B ` Address ` iv_set i" using hit [of "n - base"] by (simp add: eq)
  next
    fix n
    assume "n \<in> index_of B ` Address ` iv_set i"
    then obtain x where "x \<in> iv_set i" "n = index_of B (Address x)" by blast
    then show "n \<in> iv_set (ip_index_interval i)"
      unfolding i ip_iv_set [OF v(1)] eq [unfolded i] by (simp add: idx)
  qed
qed

lemma fold_index_intervals:
  assumes "int_canonical xs" and "list_all (iv_valid same_version) is"
  shows "int_canonical (foldl add_interval xs (map ip_index_interval is)) \<and>
         iset_set (foldl add_interval xs (map ip_index_interval is)) =
           iset_set xs \<union> index_of B ` Address ` iset_set is"
proof -
  have "list_all (iv_valid (\<lambda>_ _. True)) (map ip_index_interval is)"
    using assms(2) index_interval_ok(1) by (auto simp: list_all_iff iv_valid_def)
  moreover have "iset_set (map ip_index_interval is) = index_of B ` Address ` iset_set is"
    using assms(2) index_interval_ok(2) by (simp add: list_all_iff iset_set_def image_UN)
  ultimately show ?thesis
    using int_points.iset_or_correct [OF assms(1), of "map ip_index_interval is"]
    by (simp add: iset_or_def)
qed

lemma add_peer_indices_ok:
  assumes B: "base_ok B" and xs: "int_canonical xs" and p: "peer_ok p"
    and num: "\<forall>e\<in>peer_points p. numbered B e"
  shows "\<exists>ys. add_peer_indices B xs p = Some ys \<and> int_canonical ys \<and>
           iset_set ys = iset_set xs \<union> index_of B ` peer_points p"
proof (cases "is_ip p")
  case True
  then obtain b where b: "p = Ip_Peer b" by (cases p) simp_all
  have "list_all (iv_valid same_version) (ips b)" using p by (simp add: b canonical_def)
  from fold_index_intervals [OF xs this] show ?thesis by (simp add: add_peer_indices_def b)
next
  case False
  then have pts: "peer_points p = {Member (peer_key p)}" by (rule not_ip_points)
  then have "dict_get peer_eq (peer_to_index B) p = Some (position B (peer_key p))"
    using num dict_get_index [OF B, of p] by (simp add: numbered_def)
  then have "add_peer_indices B xs p = Some (add_interval xs
      (Interval (index_of B (Member (peer_key p))) (index_of B (Member (peer_key p)))))"
    using False by (cases p) (simp_all add: add_peer_indices_def index_of_def)
  moreover let ?i = "Interval (index_of B (Member (peer_key p))) (index_of B (Member (peer_key p)))"
  have "iv_valid (\<lambda>_ _. True) ?i" by (simp add: iv_valid_def)
  ultimately show ?thesis
    using int_points.add_interval_canonical [OF xs, of ?i] int_points.add_interval_set [OF xs, of ?i]
    by (simp add: pts iv_set_def)
qed

lemma get_peer_interval_of_ok:
  assumes B: "base_ok B" and s: "list_all peer_ok s" and num: "\<forall>e\<in>ps_points s. numbered B e"
  shows "\<exists>xs. get_peer_interval_of B s = Some xs \<and> int_canonical xs \<and> iset_set xs = index_of B ` ps_points s"
proof -
  have "\<exists>ys. fold_opt (add_peer_indices B) xs s = Some ys \<and> int_canonical ys \<and>
      iset_set ys = iset_set xs \<union> index_of B ` ps_points s" if "int_canonical xs" for xs
    using that s num
  proof (induction s arbitrary: xs)
    case (Cons p s)
    obtain ys where ys: "add_peer_indices B xs p = Some ys" "int_canonical ys"
      "iset_set ys = iset_set xs \<union> index_of B ` peer_points p"
      using add_peer_indices_ok [OF B Cons.prems(1), of p] Cons.prems(2,3) by auto
    show ?case using Cons.IH [OF ys(2)] Cons.prems ys by (auto simp: image_Un)
  qed simp
  from this [of "[]"] show ?thesis by (simp add: get_peer_interval_of_def)
qed

text \<open>Back from the indices, for interval sets that hold only indices of numbered endpoints.\<close>

definition valid_indices :: "base_peers \<Rightarrow> int set" where
  "valid_indices B =
     {min_ipv4_index..max_ipv4_index} \<union> {min_ipv6_index..max_ipv6_index} \<union>
     {min_pod_index..<min_pod_index + int (length (ordered_peer_list B))}"

lemma index_of_valid: "numbered B e \<Longrightarrow> index_of B e \<in> valid_indices B"
proof (cases e)
  case (Address a)
  then show ?thesis
    using index_range(1) [of B] index_range(2) [of B] by (cases a) (simp_all add: valid_indices_def)
next
  case (Member k)
  moreover assume "numbered B e"
  ultimately show ?thesis
    using position_key(1) [of k B] by (simp add: valid_indices_def numbered_def index_of_def)
qed

text \<open>The gaps between the three ranges keep an interval of valid indices inside one of them.\<close>

lemma interval_zone:
  assumes i: "istart i \<le> iend i" and v: "iv_set i \<subseteq> valid_indices B"
  obtains (v4) "min_ipv4_index \<le> istart i" "iend i \<le> max_ipv4_index"
    | (v6) "min_ipv6_index \<le> istart i" "iend i \<le> max_ipv6_index"
    | (pods) "min_pod_index \<le> istart i" "iend i < min_pod_index + int (length (ordered_peer_list B))"
proof -
  have ends: "istart i \<in> valid_indices B" "iend i \<in> valid_indices B" using i v by auto
  have gap: "n \<notin> valid_indices B" if "n = max_ipv4_index + 1 \<or> n = max_ipv6_index + 1" for n
    using that by (auto simp: valid_indices_def index_defs)
  then have "\<not> (istart i \<le> n \<and> n \<le> iend i)" if "n = max_ipv4_index + 1 \<or> n = max_ipv6_index + 1" for n
    using gap [OF that] v by (meson mem_iv_set subsetD)
  from this [of "max_ipv4_index + 1"] this [of "max_ipv6_index + 1"]
  consider "iend i \<le> max_ipv4_index" | "max_ipv4_index < istart i" "iend i \<le> max_ipv6_index"
    | "max_ipv6_index < istart i"
    using index_zones by linarith
  then show ?thesis
  proof cases
    case 1
    then show ?thesis using ends i index_zones v4 by (auto simp: valid_indices_def)
  next
    case 2
    then show ?thesis using ends i index_zones v6 by (auto simp: valid_indices_def)
  next
    case 3
    then show ?thesis using ends i index_zones pods by (auto simp: valid_indices_def)
  qed
qed

definition acc_points :: "peer_set \<times> ip_block \<times> ip_block \<Rightarrow> endpoint set" where
  "acc_points acc =
     (case acc of (s, b4, b6) \<Rightarrow> ps_points s \<union> Address ` block_set b4 \<union> Address ` block_set b6)"

definition acc_ok :: "peer_set \<times> ip_block \<times> ip_block \<Rightarrow> bool" where
  "acc_ok acc = (case acc of (s, b4, b6) \<Rightarrow> ps_ok s \<and> block_ok b4 \<and> block_ok b6)"

lemma zone_v4:
  assumes "min_ipv4_index \<le> a" and "a \<le> b" and "b \<le> max_ipv4_index"
  shows "\<exists>i. to_ip (\<lambda>n. IPv4 (word_of_int n)) 32 (a - min_ipv4_index) = Some (istart i) \<and>
             to_ip (\<lambda>n. IPv4 (word_of_int n)) 32 (b - min_ipv4_index) = Some (iend i) \<and>
             iv_valid same_version i \<and>
             Address ` iv_set i = {e. numbered B e \<and> a \<le> index_of B e \<and> index_of B e \<le> b}"
proof -
  let ?i = "Interval (IPv4 (word_of_int (a - min_ipv4_index))) (IPv4 (word_of_int (b - min_ipv4_index)))"
  have r: "0 \<le> a" "b < 2 ^ 32" using assms by (simp_all add: index_defs)
  have u: "uint (word_of_int n :: 32 word) = n" if "a \<le> n" "n \<le> b" for n
    using r that by (simp add: uint_word_of_int)
  have "e \<in> Address ` iv_set ?i \<longleftrightarrow> numbered B e \<and> a \<le> index_of B e \<and> index_of B e \<le> b" for e
  proof (cases e)
    case (Address x)
    show ?thesis
    proof (cases x)
      case (IPv4 v)
      then show ?thesis
        using u [of a] u [of b] assms(2)
        by (auto simp: Address ip_iv_set numbered_def index_of_def min_ipv4_index_def simp del: mem_iv_set)
    next
      case (IPv6 w)
      then show ?thesis
        using index_range(2) [of B w] index_zones assms
        by (auto simp: Address ip_iv_set simp del: mem_iv_set)
    qed
  next
    case (Member k)
    then show ?thesis using index_range(3) [of B k] index_zones assms by auto
  qed
  moreover have "iv_valid same_version ?i"
    using u [of a] u [of b] assms(2) by (simp add: iv_valid_def ip_order min_ipv4_index_def)
  ultimately show ?thesis
    using r assms(2) by (intro exI [of _ ?i]) (auto simp: to_ip_def min_ipv4_index_def)
qed

lemma zone_v6:
  assumes "min_ipv6_index \<le> a" and "a \<le> b" and "b \<le> max_ipv6_index"
  shows "\<exists>i. to_ip (\<lambda>n. IPv6 (word_of_int n)) 128 (a - min_ipv6_index) = Some (istart i) \<and>
             to_ip (\<lambda>n. IPv6 (word_of_int n)) 128 (b - min_ipv6_index) = Some (iend i) \<and>
             iv_valid same_version i \<and>
             Address ` iv_set i = {e. numbered B e \<and> a \<le> index_of B e \<and> index_of B e \<le> b}"
proof -
  let ?m = min_ipv6_index
  define lo hi where lh: "lo = a - ?m" "hi = b - ?m"
  let ?i = "Interval (IPv6 (word_of_int lo)) (IPv6 (word_of_int hi))"
  have r: "0 \<le> lo" "lo \<le> hi" "hi < 2 ^ 128" using assms by (simp_all add: lh max_ipv6_index_def)
  have u: "uint (word_of_int lo :: 128 word) = lo" "uint (word_of_int hi :: 128 word) = hi"
    using r by (simp_all add: uint_word_of_int)
  have ab: "a = ?m + lo" "b = ?m + hi" by (simp_all add: lh)
  have "e \<in> Address ` iv_set ?i \<longleftrightarrow> numbered B e \<and> a \<le> index_of B e \<and> index_of B e \<le> b" for e
  proof (cases e)
    case (Address x)
    show ?thesis
    proof (cases x)
      case (IPv4 v)
      then show ?thesis
        using index_range(1) [of B v] index_zones assms
        by (auto simp: Address ip_iv_set simp del: mem_iv_set)
    next
      case (IPv6 w)
      then show ?thesis
        using u by (auto simp: Address ip_iv_set numbered_def index_of_def ab simp del: mem_iv_set)
    qed
  next
    case (Member k)
    then show ?thesis using index_range(3) [of B k] index_zones assms by auto
  qed
  moreover have "iv_valid same_version ?i"
    using u r by (simp add: iv_valid_def ip_order)
  ultimately show ?thesis
    unfolding lh [symmetric] using r by (intro exI [of _ ?i]) (auto simp: to_ip_def)
qed

lemma zone_pods:
  assumes B: "base_ok B" and a: "min_pod_index \<le> a" and ab: "a \<le> b"
    and b: "b < min_pod_index + int (length (ordered_peer_list B))"
  defines "last_pod \<equiv> int (length (ordered_peer_list B)) - 1"
  shows "\<exists>ps. map_opt (py_nth (ordered_peer_list B))
                [min (a - min_pod_index) last_pod .. min (b - min_pod_index) last_pod] = Some ps \<and>
              list_all peer_ok ps \<and>
              ps_points ps = {e. numbered B e \<and> a \<le> index_of B e \<and> index_of B e \<le> b}"
proof -
  let ?os = "ordered_peer_list B" and ?m = min_pod_index
  let ?ps = "map (\<lambda>j. ?os ! nat j) [a - ?m .. b - ?m]"
  have range: "[min (a - ?m) last_pod .. min (b - ?m) last_pod] = [a - ?m .. b - ?m]"
    using ab b by (simp add: last_pod_def min_def)
  have nth: "py_nth ?os j = Some (?os ! nat j)" "nat j < length ?os" if "j \<in> set [a - ?m .. b - ?m]" for j
    using that a b by (auto simp: py_nth_def)
  have "map_opt (py_nth ?os) [a - ?m .. b - ?m] = Some ?ps"
    using nth by (intro map_opt_total) simp
  moreover have not_ip: "\<not> is_ip p" if "p \<in> set ?os" for p
    using B that by (simp add: base_ok_def list_all_iff)
  have mem: "p \<in> set ?os" if "p \<in> set ?ps" for p using that nth by auto
  have "list_all peer_ok ?ps"
    using not_ip mem by (force simp: list_all_iff peer_ok_def is_ip_def split: peer.splits)
  moreover have "e \<in> ps_points ?ps \<longleftrightarrow> numbered B e \<and> a \<le> index_of B e \<and> index_of B e \<le> b" for e
  proof (cases e)
    case (Address x)
    have "e \<notin> ps_points ?ps" using not_ip_set_points [of ?ps] not_ip mem by (auto simp: Address)
    moreover have "index_of B e < ?m"
      using index_range(1) [of B] index_range(2) [of B] index_zones
      by (cases x) (simp_all add: Address, (meson le_less_trans less_le_trans less_trans)+)
    ultimately show ?thesis using a by simp
  next
    case (Member k)
    have "e \<in> ps_points ?ps \<longleftrightarrow> k \<in> peer_key ` set ?ps"
      using not_ip_set_points [of ?ps] not_ip mem by (auto simp: Member)
    also have "\<dots> \<longleftrightarrow> numbered B e \<and> a \<le> index_of B e \<and> index_of B e \<le> b"
    proof
      assume "k \<in> peer_key ` set ?ps"
      then obtain j where j: "j \<in> set [a - ?m .. b - ?m]" "k = peer_key (?os ! nat j)" by auto
      then show "numbered B e \<and> a \<le> index_of B e \<and> index_of B e \<le> b"
        using nth(2) [OF j(1)] position_nth [OF B nth(2) [OF j(1)]] a
        by (simp add: Member numbered_def index_of_def)
    next
      assume e: "numbered B e \<and> a \<le> index_of B e \<and> index_of B e \<le> b"
      then have k: "k \<in> peer_key ` set ?os" by (simp add: Member numbered_def)
      have "int (position B k) \<in> set [a - ?m .. b - ?m]"
        using e by (simp add: Member index_of_def)
      then have "?os ! position B k \<in> set ?ps" by force
      then show "k \<in> peer_key ` set ?ps" using position_key(2) [OF k] by (metis imageI)
    qed
    finally show ?thesis .
  qed
  ultimately show ?thesis unfolding range by blast
qed

lemma indices_of_interval_ok:
  assumes B: "base_ok B" and acc: "acc_ok acc" and i: "istart i \<le> iend i"
    and v: "iv_set i \<subseteq> valid_indices B"
  shows "\<exists>acc'. indices_of_interval B acc i = Some acc' \<and> acc_ok acc' \<and>
           acc_points acc' = acc_points acc \<union> {e. numbered B e \<and> index_of B e \<in> iv_set i}"
proof -
  obtain s b4 b6 where a: "acc = (s, b4, b6)" by (metis prod_cases3)
  have ok: "ps_ok s" "block_ok b4" "block_ok b6" using acc by (simp_all add: a acc_ok_def)
  show ?thesis
    using i v
  proof (cases rule: interval_zone)
    case v4
    obtain j where j: "to_ip (\<lambda>n. IPv4 (word_of_int n)) 32 (istart i - min_ipv4_index) = Some (istart j)"
      "to_ip (\<lambda>n. IPv4 (word_of_int n)) 32 (iend i - min_ipv4_index) = Some (iend j)"
      "iv_valid same_version j"
      "Address ` iv_set j = {e. numbered B e \<and> istart i \<le> index_of B e \<and> index_of B e \<le> iend i}"
      using zone_v4 [OF v4(1) i v4(2)] by blast
    have "ip_canonical (add_interval (ips b4) j) \<and>
        iset_set (add_interval (ips b4) j) = block_set b4 \<union> iv_set j"
      using ips.add_interval_canonical [OF ok(2) j(3)] ips.add_interval_set [OF ok(2) j(3)] by blast
    then show ?thesis
      using v4 j ok by (simp add: indices_of_interval_def a acc_ok_def acc_points_def image_Un) blast
  next
    case v6
    obtain j where j: "to_ip (\<lambda>n. IPv6 (word_of_int n)) 128 (istart i - min_ipv6_index) = Some (istart j)"
      "to_ip (\<lambda>n. IPv6 (word_of_int n)) 128 (iend i - min_ipv6_index) = Some (iend j)"
      "iv_valid same_version j"
      "Address ` iv_set j = {e. numbered B e \<and> istart i \<le> index_of B e \<and> index_of B e \<le> iend i}"
      using zone_v6 [OF v6(1) i v6(2)] by blast
    have c: "ip_canonical (add_interval (ips b6) j) \<and>
        iset_set (add_interval (ips b6) j) = block_set b6 \<union> iv_set j"
      using ips.add_interval_canonical [OF ok(3) j(3)] ips.add_interval_set [OF ok(3) j(3)] by blast
    have "\<not> iend i \<le> max_ipv4_index" using v6 i index_zones by simp
    then show ?thesis
      using v6 j ok c by (simp add: indices_of_interval_def a acc_ok_def acc_points_def image_Un) blast
  next
    case pods
    obtain ps where ps: "map_opt (py_nth (ordered_peer_list B))
        [min (istart i - min_pod_index) (int (length (ordered_peer_list B)) - 1) ..
         min (iend i - min_pod_index) (int (length (ordered_peer_list B)) - 1)] = Some ps"
      "list_all peer_ok ps"
      "ps_points ps = {e. numbered B e \<and> istart i \<le> index_of B e \<and> index_of B e \<le> iend i}"
      using zone_pods [OF B pods(1) i pods(2)] by blast
    have c: "ps_ok (foldl (set_add peer_eq) s ps) \<and>
        ps_points (foldl (set_add peer_eq) s ps) = ps_points s \<union> ps_points ps"
      using ps_or_ok [OF ok(1) ps(2)] by (simp add: ps_or_def set_union_def)
    have "\<not> iend i \<le> max_ipv4_index" "\<not> iend i \<le> max_ipv6_index" "iend i \<le> max_pod_index"
      using pods i index_zones B by (simp_all add: base_ok_def max_pod_index_def)
    then show ?thesis
      using ps ok c by (simp add: indices_of_interval_def a acc_ok_def acc_points_def Let_def) blast
  qed
qed

lemma get_peer_set_by_indices_ok:
  assumes B: "base_ok B" and xs: "int_canonical xs" and v: "iset_set xs \<subseteq> valid_indices B"
  shows "\<exists>s. get_peer_set_by_indices B xs = Some s \<and> ps_ok s \<and>
           ps_points s = {e. numbered B e \<and> index_of B e \<in> iset_set xs}"
proof -
  have "\<exists>acc'. fold_opt (indices_of_interval B) acc xs = Some acc' \<and> acc_ok acc' \<and>
      acc_points acc' = acc_points acc \<union> {e. numbered B e \<and> index_of B e \<in> iset_set xs}"
    if "acc_ok acc" for acc
    using that xs v
  proof (induction xs arbitrary: acc)
    case (Cons i xs)
    obtain acc' where a: "indices_of_interval B acc i = Some acc'" "acc_ok acc'"
      "acc_points acc' = acc_points acc \<union> {e. numbered B e \<and> index_of B e \<in> iv_set i}"
      using indices_of_interval_ok [OF B Cons.prems(1), of i] Cons.prems(2,3)
      by (auto simp: canonical_Cons iv_valid_def)
    show ?case
      using Cons.IH [OF a(2)] Cons.prems a by (auto simp: canonical_Cons)
  qed simp
  moreover have "acc_ok ([], empty_block, empty_block)" by (simp add: acc_ok_def ps_ok_def set_ok_def)
  ultimately obtain acc where acc:
    "fold_opt (indices_of_interval B) ([], empty_block, empty_block) xs = Some acc" "acc_ok acc"
    "acc_points acc = acc_points ([], empty_block, empty_block) \<union>
       {e. numbered B e \<and> index_of B e \<in> iset_set xs}"
    by blast
  obtain s b4 b6 where "acc = (s, b4, b6)" by (metis prod_cases3)
  with acc have f:
    "fold_opt (indices_of_interval B) ([], empty_block, empty_block) xs = Some (s, b4, b6)"
    "acc_ok (s, b4, b6)"
    "acc_points (s, b4, b6) = {e. numbered B e \<and> index_of B e \<in> iset_set xs}"
    by (simp_all add: acc_points_def)
  then have "list_all peer_ok (block_peer_set b4 @ block_peer_set b6)"
    using block_peer_set_ok(1) by (simp add: acc_ok_def)
  then show ?thesis
    using ps_or_ok [of s "block_peer_set b4 @ block_peer_set b6"] f block_peer_set_ok(2)
    by (simp add: get_peer_set_by_indices_def acc_ok_def acc_points_def ps_or_def set_union_def Un_assoc)
qed

section \<open>Properties\<close>

text \<open>Peers for the examples.\<close>

definition example_ns :: namespace where
  "example_ns = k8s_namespace ''default''"

definition example_pod :: "string \<Rightarrow> peer" where
  "example_pod name = Pod_Peer (mk_pod name example_ns '''' '''' '''')"

definition example_block :: "int \<Rightarrow> int \<Rightarrow> peer" where
  "example_block a b = Ip_Peer (mk_ip_block None
     (Some (Interval (IPv4 (word_of_int a)) (IPv4 (word_of_int b)))) ''b'' None False)"

definition example_numbering :: base_peers where
  "example_numbering =
     \<lparr>ordered_peer_list = [example_pod ''a'', example_pod ''b''],
      peer_to_index = [(example_pod ''a'', 0), (example_pod ''b'', 1)]\<rparr>"

lemma example_pod_key [simp]:
  "peer_key (example_pod n) = Pod_Key (''default/'' @ n)" "peer_ok (example_pod n)" "\<not> is_ip (example_pod n)"
  by (simp_all add: example_pod_def mk_pod_def owner_workload_def example_ns_def k8s_namespace_def Let_def)

lemma example_block_key [simp]:
  "peer_key (example_block a b) = Block_Key [Interval (IPv4 (word_of_int a)) (IPv4 (word_of_int b))]"
  by (simp add: example_block_def mk_ip_block_def Let_def)

lemma example_block_ok:
  "0 \<le> a \<Longrightarrow> a \<le> b \<Longrightarrow> b < 2 ^ 32 \<Longrightarrow> peer_ok (example_block a b)"
  by (simp add: example_block_def mk_ip_block_def Let_def canonical_Cons iv_valid_def ip_order uint_word_of_int)

lemma example_ps_ok:
  "ps_ok [example_pod ''a'', example_pod ''b'']" "ps_ok [example_pod ''b'', example_block 0 7]"
  using example_block_ok [of 0 7] by (simp_all add: ps_ok_def peers.ok_distinct)

lemma example_numbering_ok: "base_ok example_numbering"
  by (simp add: base_ok_def example_numbering_def peers.ok_distinct max_num_of_pods_def)

text \<open>
  C28. Sets of peers refine sets of endpoints (addresses, pods, hosts, DNS names): \<open>&\<close>, \<open>|\<close> and
  \<open>-\<close> are intersection, union and difference although IP blocks are kept unsplit and out of
  canonical form, \<open>==\<close> compares what the sets stand for, and bringing a set into canonical form or
  splitting its blocks does not change it.
\<close>

theorem peer_set_algebra:
  assumes "ps_ok s" and "ps_ok t"
  shows "ps_ok (ps_and s t) \<and> ps_points (ps_and s t) = ps_points s \<inter> ps_points t \<and>
         ps_ok (ps_or s t) \<and> ps_points (ps_or s t) = ps_points s \<union> ps_points t \<and>
         ps_ok (ps_sub s t) \<and> ps_points (ps_sub s t) = ps_points s - ps_points t \<and>
         (ps_eq s t \<longleftrightarrow> ps_points s = ps_points t) \<and>
         ps_points (ps_canonical_form s) = ps_points s \<and> ps_points (ps_split s) = ps_points s"
  using ps_and_ok [OF assms] ps_or_ok [of s t] ps_sub_ok [OF assms] ps_eq_ok [OF assms]
    ps_canonical_form_ok [OF assms(1)] ps_split_foldl [of "[]" s] assms
  by (simp add: ps_ok_def ps_split_def set_ok_def)

theorem peer_set_algebra_witness:
  "Member (Pod_Key ''default/b'') \<in>
     ps_points (ps_and [example_pod ''a'', example_pod ''b''] [example_pod ''b'', example_block 0 7]) \<and>
   Member (Pod_Key ''default/a'') \<notin>
     ps_points (ps_and [example_pod ''a'', example_pod ''b''] [example_pod ''b'', example_block 0 7])"
  using peer_set_algebra [OF example_ps_ok] by auto

text \<open>
  Filtering by a mask removes exactly the addresses outside the mask, and nothing else.
\<close>

theorem filter_by_mask_points:
  assumes "ps_ok s" and "block_ok m"
  shows "ps_ok (filter_ip_blocks_by_mask s m) \<and>
         ps_points (filter_ip_blocks_by_mask s m) = ps_points s - {Address a | a. a \<notin> block_set m}"
proof -
  have "{Address a | a. a \<notin> block_set m} = Address ` (- block_set m)" by auto
  then show ?thesis using mask_filter_ok [OF assms] by simp
qed

theorem filter_by_mask_points_witness:
  "Member (Pod_Key ''default/b'') \<in> ps_points (filter_ip_blocks_by_mask [example_pod ''b'', example_block 0 7] empty_block) \<and>
   Address (IPv4 3) \<notin> ps_points (filter_ip_blocks_by_mask [example_pod ''b'', example_block 0 7] empty_block)"
  using filter_by_mask_points [OF example_ps_ok(2), of empty_block] by auto

lemma position_append:
  "k \<in> peer_key ` set (ordered_peer_list B) \<Longrightarrow> ordered_peer_list B' = ordered_peer_list B @ new \<Longrightarrow>
   position B' k = position B k"
  unfolding position_def by (auto simp: takeWhile_append1)

text \<open>
  C27. Numbering a peer keeps the numbering well-formed and never changes an index that was
  given before, so interval sets made earlier keep their meaning; it succeeds while there are
  fewer than \<open>max_num_of_pods\<close> peers.
\<close>

theorem add_peer_invariant:
  assumes "base_ok B" and "int (length (ordered_peer_list B)) < max_num_of_pods"
  shows "\<exists>B'. add_peer B p = Some B' \<and> base_ok B' \<and> numbered B' (Member (peer_key p)) = (numbered B (Member (peer_key p)) \<or> \<not> is_ip p) \<and>
           (\<forall>e. numbered B e \<longrightarrow> numbered B' e \<and> index_of B' e = index_of B e)"
proof -
  obtain B' new where B': "add_peer B p = Some B'" "base_ok B'" "ordered_peer_list B' = ordered_peer_list B @ new"
    "peer_key ` set (ordered_peer_list B') =
       peer_key ` set (ordered_peer_list B) \<union> (if is_ip p then {} else {peer_key p})"
    using add_peer_ok [OF assms(1), of p] assms(2) by blast
  have "numbered B' e \<and> index_of B' e = index_of B e" if "numbered B e" for e
    using that B'(3,4) position_append [OF _ B'(3)]
    by (cases e) (simp_all add: numbered_def index_of_def split: ip_address.splits)
  then show ?thesis using B'(1,2,4) by (auto simp: numbered_def)
qed

theorem add_peer_invariant_witness:
  "\<exists>B'. add_peer example_numbering (example_pod ''c'') = Some B' \<and> base_ok B' \<and>
        index_of B' (Member (Pod_Key ''default/b'')) = index_of example_numbering (Member (Pod_Key ''default/b''))"
proof -
  have h: "int (length (ordered_peer_list example_numbering)) < max_num_of_pods"
    "numbered example_numbering (Member (Pod_Key ''default/b''))"
    by (simp_all add: example_numbering_def max_num_of_pods_def numbered_def)
  show ?thesis using add_peer_invariant [OF example_numbering_ok h(1)] h(2) by metis
qed

lemma all_peers_interval:
  "get_all_peers_and_ip_blocks_interval =
     [Interval min_ipv4_index max_ipv4_index, Interval min_ipv6_index max_ipv6_index,
      Interval min_pod_index max_pod_index]"
  unfolding index_defs by code_simp

text \<open>
  C26. The translation of sets of peers to interval sets is a round trip: for every set of
  numbered peers and IP blocks it never raises, the intervals are canonical and lie in the domain
  of the peers' dimensions, and translating them back gives a set of the same endpoints.
\<close>

theorem peer_indices_roundtrip:
  assumes "base_ok B" and "ps_ok s" and "\<forall>e\<in>ps_points s. numbered B e"
  shows "\<exists>xs r. get_peer_interval_of B s = Some xs \<and> int_canonical xs \<and>
           iset_contained_in xs get_all_peers_and_ip_blocks_interval \<and>
           get_peer_set_by_indices B xs = Some r \<and> ps_ok r \<and> ps_points r = ps_points s"
proof -
  obtain xs where xs: "get_peer_interval_of B s = Some xs" "int_canonical xs"
    "iset_set xs = index_of B ` ps_points s"
    using get_peer_interval_of_ok [OF assms(1) _ assms(3)] assms(2) by (auto simp: ps_ok_def)
  have v: "iset_set xs \<subseteq> valid_indices B" using index_of_valid assms(3) by (auto simp: xs(3))
  obtain r where r: "get_peer_set_by_indices B xs = Some r" "ps_ok r"
    "ps_points r = {e. numbered B e \<and> index_of B e \<in> iset_set xs}"
    using get_peer_set_by_indices_ok [OF assms(1) xs(2) v] by blast
  have "ps_points r = ps_points s"
    using index_of_inj [OF assms(1)] assms(3) unfolding r(3) xs(3) by auto
  have "valid_indices B \<subseteq> iset_set get_all_peers_and_ip_blocks_interval"
    using assms(1) unfolding all_peers_interval
    by (auto simp: valid_indices_def base_ok_def max_pod_index_def)
  moreover have "int_canonical get_all_peers_and_ip_blocks_interval"
    unfolding all_peers_interval by (simp add: canonical_def iv_valid_def index_defs)
  ultimately have "iset_contained_in xs get_all_peers_and_ip_blocks_interval"
    using v int_points.iset_contained_in_iff [OF xs(2)] by (simp add: subset_trans)
  then show ?thesis using xs(1,2) r(1,2) \<open>ps_points r = ps_points s\<close> by blast
qed

theorem peer_indices_roundtrip_witness:
  "\<exists>xs r. get_peer_interval_of example_numbering [example_pod ''b'', example_block 0 7] = Some xs \<and>
          get_peer_set_by_indices example_numbering xs = Some r \<and> Address (IPv4 0) \<in> ps_points r"
proof -
  have "\<forall>e\<in>ps_points [example_pod ''b'', example_block 0 7]. numbered example_numbering e"
    by (auto simp: numbered_def example_numbering_def)
  moreover have "Address (IPv4 0) \<in> ps_points [example_pod ''b'', example_block 0 7]"
    by (simp add: ip_order image_iff)
  ultimately show ?thesis
    using peer_indices_roundtrip [OF example_numbering_ok example_ps_ok(2)] by metis
qed

text \<open>
  C29. The other direction has no such promise: for every well-formed numbering, an interval of pod
  indices that lies wholly behind the last numbered pod (a part of the rest of the domain, as it is
  left when the existing pods are subtracted) is answered with the last pod instead of no pod; and
  when no pod is numbered the indexing raises.
\<close>

theorem unused_indices_give_last_pod:
  assumes "base_ok B" and "min_pod_index + int (length (ordered_peer_list B)) \<le> a" and "a \<le> b"
    and "b \<le> max_pod_index"
  shows "get_peer_set_by_indices B [Interval a b] =
           (if ordered_peer_list B = [] then None else Some [last (ordered_peer_list B)])"
proof -
  let ?ps = "ordered_peer_list B"
  have z: "\<not> b \<le> max_ipv4_index" "\<not> b \<le> max_ipv6_index"
    using assms(2,3) by (simp_all add: index_defs)
  have m: "min (a - min_pod_index) (int (length ?ps) - 1) = int (length ?ps) - 1"
    "min (b - min_pod_index) (int (length ?ps) - 1) = int (length ?ps) - 1"
    using assms(2,3) by simp_all
  have "nat (int (length ?ps) - 1) = length ?ps - 1" by linarith
  then have "py_nth ?ps (int (length ?ps) - 1) = (if ?ps = [] then None else Some (last ?ps))"
    by (auto simp: py_nth_def last_conv_nth Let_def)
  then show ?thesis
    using z assms(4)
    by (simp add: get_peer_set_by_indices_def indices_of_interval_def m block_peer_set_def set_add_def set_mem_def
        empty_block_def mk_ip_block_def Let_def)
qed

theorem unused_indices_give_last_pod_witness:
  "get_peer_set_by_indices example_numbering [Interval (min_pod_index + 2) max_pod_index] = Some [example_pod ''b''] \<and>
   get_peer_set_by_indices no_peers [Interval (min_pod_index + 2) max_pod_index] = None"
  using unused_indices_give_last_pod [OF example_numbering_ok, of "min_pod_index + 2" max_pod_index]
    unused_indices_give_last_pod [OF no_peers_ok, of "min_pod_index + 2" max_pod_index]
  by (simp add: example_numbering_def no_peers_def max_pod_index_def max_num_of_pods_def)

text \<open>
  The workload of a pod whose owning \<open>ReplicaSet\<close> has a name of hexadecimal digits without a
  dash loses the last character of the name: \<open>rfind\<close> answers \<open>-1\<close>, which then cuts as an index
  from the end. With a dash the suffix is cut off as intended.
\<close>

theorem dashless_owner_loses_character:
  "owner_workload ''ns'' ''p'' ''cafe'' ''ReplicaSet'' =
     (Some ''ns/cafe(ReplicaSet)'', ''ns/caf(Deployment-StatefulSet)'') \<and>
   owner_workload ''ns'' ''p'' ''web-cafe'' ''ReplicaSet'' =
     (Some ''ns/web-cafe(ReplicaSet)'', ''ns/web(Deployment-StatefulSet)'')"
  by code_simp

end
