(* ===== verification/Protocols.thy ===== *)
theory Protocols
  imports Interval_Sets
begin

text \<open>
  Protocols and HTTP methods as interval sets of numbers: \<open>nca/CoreDS/ProtocolNameResolver.py\<close>,
  \<open>ProtocolSet.py\<close> and \<open>MethodSet.py\<close>. A raised exception is \<open>None\<close>.
\<close>

section \<open>The names of protocols\<close>

definition protocol_name_to_number :: "(string \<times> int) list" where
  "protocol_name_to_number =
    [(''HOPOPT'', 0), (''ICMP'', 1), (''IGMP'', 2), (''GGP'', 3), (''IPv4'', 4), (''ST'', 5), (''TCP'', 6),
     (''CBT'', 7), (''EGP'', 8), (''IGP'', 9), (''BBNRCCMON'', 10), (''NVPII'', 11), (''PUP'', 12),
     (''ARGUSdeprecated'', 13), (''EMCON'', 14), (''XNET'', 15), (''CHAOS'', 16), (''UDP'', 17),
     (''MUX'', 18), (''DCNMEAS'', 19), (''HMP'', 20), (''PRM'', 21), (''XNSIDP'', 22), (''TRUNK1'', 23),
     (''TRUNK2'', 24), (''LEAF1'', 25), (''LEAF2'', 26), (''RDP'', 27), (''IRTP'', 28), (''ISOTP4'', 29),
     (''NETBLT'', 30), (''MFENSP'', 31), (''MERITINP'', 32), (''DCCP'', 33), (''3PC'', 34), (''IDPR'', 35),
     (''XTP'', 36), (''DDP'', 37), (''IDPRCMTP'', 38), (''TP'', 39), (''IL'', 40), (''IPv6'', 41),
     (''SDRP'', 42), (''IPv6Route'', 43), (''IPv6Frag'', 44), (''IDRP'', 45), (''RSVP'', 46), (''GRE'', 47),
     (''DSR'', 48), (''BNA'', 49), (''ESP'', 50), (''AH'', 51), (''INLSP'', 52), (''SWIPEdeprecated'', 53),
     (''NARP'', 54), (''MOBILE'', 55), (''TLSP'', 56), (''SKIP'', 57), (''ICMPv6'', 58), (''IPv6NoNxt'', 59),
     (''IPv6Opts'', 60), (''CFTP'', 62), (''SATEXPAK'', 64), (''KRYPTOLAN'', 65), (''RVD'', 66),
     (''IPPC'', 67), (''SATMON'', 69), (''VISA'', 70), (''IPCV'', 71), (''CPNX'', 72), (''CPHB'', 73),
     (''WSN'', 74), (''PVP'', 75), (''BRSATMON'', 76), (''SUNND'', 77), (''WBMON'', 78), (''WBEXPAK'', 79),
     (''ISOIP'', 80), (''VMTP'', 81), (''SECUREVMTP'', 82), (''VINES'', 83), (''TTP'', 84), (''IPTM'', 84),
     (''NSFNETIGP'', 85), (''DGP'', 86), (''TCF'', 87), (''EIGRP'', 88), (''OSPFIGP'', 89),
     (''SpriteRPC'', 90), (''LARP'', 91), (''MTP'', 92), (''AX25'', 93), (''IPIP'', 94),
     (''MICPdeprecated'', 95), (''SCCSP'', 96), (''ETHERIP'', 97), (''ENCAP'', 98), (''GMTP'', 100),
     (''IFMP'', 101), (''PNNI'', 102), (''PIM'', 103), (''ARIS'', 104), (''SCPS'', 105), (''QNX'', 106),
     (''AN'', 107), (''IPComp'', 108), (''SNP'', 109), (''CompaqPeer'', 110), (''IPXinIP'', 111),
     (''VRRP'', 112), (''PGM'', 113), (''L2TP'', 115), (''DDX'', 116), (''IATP'', 117), (''STP'', 118),
     (''SRP'', 119), (''UTI'', 120), (''SMP'', 121), (''SMdeprecated'', 122), (''PTP'', 123),
     (''ISISoverIPv4'', 124), (''FIRE'', 125), (''CRTP'', 126), (''CRUDP'', 127), (''SSCOPMCE'', 128),
     (''IPLT'', 129), (''SPS'', 130), (''PIPE'', 131), (''SCTP'', 132), (''FC'', 133),
     (''RSVPE2EIGNORE'', 134), (''MobilityHeader'', 135), (''UDPLite'', 136), (''MPLSinIP'', 137),
     (''manet'', 138), (''HIP'', 139), (''Shim6'', 140), (''WESP'', 141), (''ROHC'', 142),
     (''Ethernet'', 143)]"

definition protocol_number_to_name :: "(int \<times> string) list" where
  "protocol_number_to_name =
    [(0, ''HOPOPT''), (1, ''ICMP''), (2, ''IGMP''), (3, ''GGP''), (4, ''IPv4''), (5, ''ST''), (6, ''TCP''),
     (7, ''CBT''), (8, ''EGP''), (9, ''IGP''), (10, ''BBNRCCMON''), (11, ''NVPII''), (12, ''PUP''),
     (13, ''ARGUSdeprecated''), (14, ''EMCON''), (15, ''XNET''), (16, ''CHAOS''), (17, ''UDP''),
     (18, ''MUX''), (19, ''DCNMEAS''), (20, ''HMP''), (21, ''PRM''), (22, ''XNSIDP''), (23, ''TRUNK1''),
     (24, ''TRUNK2''), (25, ''LEAF1''), (26, ''LEAF2''), (27, ''RDP''), (28, ''IRTP''), (29, ''ISOTP4''),
     (30, ''NETBLT''), (31, ''MFENSP''), (32, ''MERITINP''), (33, ''DCCP''), (34, ''3PC''), (35, ''IDPR''),
     (36, ''XTP''), (37, ''DDP''), (38, ''IDPRCMTP''), (39, ''TP''), (40, ''IL''), (41, ''IPv6''),
     (42, ''SDRP''), (43, ''IPv6Route''), (44, ''IPv6Frag''), (45, ''IDRP''), (46, ''RSVP''), (47, ''GRE''),
     (48, ''DSR''), (49, ''BNA''), (50, ''ESP''), (51, ''AH''), (52, ''INLSP''), (53, ''SWIPEdeprecated''),
     (54, ''NARP''), (55, ''MOBILE''), (56, ''TLSP''), (57, ''SKIP''), (58, ''ICMPv6''), (59, ''IPv6NoNxt''),
     (60, ''IPv6Opts''), (62, ''CFTP''), (64, ''SATEXPAK''), (65, ''KRYPTOLAN''), (66, ''RVD''),
     (67, ''IPPC''), (69, ''SATMON''), (70, ''VISA''), (71, ''IPCV''), (72, ''CPNX''), (73, ''CPHB''),
     (74, ''WSN''), (75, ''PVP''), (76, ''BRSATMON''), (77, ''SUNND''), (78, ''WBMON''), (79, ''WBEXPAK''),
     (80, ''ISOIP''), (81, ''VMTP''), (82, ''SECUREVMTP''), (83, ''VINES''), (84, ''IPTM''),
     (85, ''NSFNETIGP''), (86, ''DGP''), (87, ''TCF''), (88, ''EIGRP''), (89, ''OSPFIGP''),
     (90, ''SpriteRPC''), (91, ''LARP''), (92, ''MTP''), (93, ''AX25''), (94, ''IPIP''),
     (95, ''MICPdeprecated''), (96, ''SCCSP''), (97, ''ETHERIP''), (98, ''ENCAP''), (100, ''GMTP''),
     (101, ''IFMP''), (102, ''PNNI''), (103, ''PIM''), (104, ''ARIS''), (105, ''SCPS''), (106, ''QNX''),
     (107, ''AN''), (108, ''IPComp''), (109, ''SNP''), (110, ''CompaqPeer''), (111, ''IPXinIP''),
     (112, ''VRRP''), (113, ''PGM''), (115, ''L2TP''), (116, ''DDX''), (117, ''IATP''), (118, ''STP''),
     (119, ''SRP''), (120, ''UTI''), (121, ''SMP''), (122, ''SMdeprecated''), (123, ''PTP''),
     (124, ''ISISoverIPv4''), (125, ''FIRE''), (126, ''CRTP''), (127, ''CRUDP''), (128, ''SSCOPMCE''),
     (129, ''IPLT''), (130, ''SPS''), (131, ''PIPE''), (132, ''SCTP''), (133, ''FC''),
     (134, ''RSVPE2EIGNORE''), (135, ''MobilityHeader''), (136, ''UDPLite''), (137, ''MPLSinIP''),
     (138, ''manet''), (139, ''HIP''), (140, ''Shim6''), (141, ''WESP''), (142, ''ROHC''),
     (143, ''Ethernet'')]"

text \<open>
  \<open>int(s)\<close>: decimal digits, with single underscores between digits, after an optional sign;
  surrounding white space is ignored.
\<close>

definition is_digit :: "char \<Rightarrow> bool" where
  "is_digit c \<longleftrightarrow> c \<in> set ''0123456789''"

definition digit_value :: "char \<Rightarrow> int" where
  "digit_value c = int (length (takeWhile (\<lambda>d. d \<noteq> c) ''0123456789''))"

definition is_space :: "char \<Rightarrow> bool" where
  "is_space c \<longleftrightarrow> (of_char c :: nat) \<in> {9, 10, 11, 12, 13, 28, 29, 30, 31, 32}"

fun parse_digits :: "int \<Rightarrow> string \<Rightarrow> int option" where
  "parse_digits n [] = Some n"
| "parse_digits n [c] = (if is_digit c then Some (10 * n + digit_value c) else None)"
| "parse_digits n (c # d # s) =
     (if is_digit c then
        (if d = CHR ''_'' \<and> s \<noteq> [] then parse_digits (10 * n + digit_value c) s
         else parse_digits (10 * n + digit_value c) (d # s))
      else None)"

definition strip :: "string \<Rightarrow> string" where
  "strip s = rev (dropWhile is_space (rev (dropWhile is_space s)))"

definition parse_int :: "string \<Rightarrow> int option" where
  "parse_int t =
     (case strip t of
        [] \<Rightarrow> None
      | c # s \<Rightarrow>
          if c = CHR ''-'' then (if s = [] then None else map_option uminus (parse_digits 0 s))
          else if c = CHR ''+'' then (if s = [] then None else parse_digits 0 s)
          else parse_digits 0 (c # s))"

definition is_valid_protocol :: "int \<Rightarrow> bool" where
  "is_valid_protocol protocol \<longleftrightarrow> 0 \<le> protocol \<and> protocol \<le> 255"

definition get_all_protocols_list :: "string list" where
  "get_all_protocols_list = map fst protocol_name_to_number"

definition get_protocol_name :: "int \<Rightarrow> string option" where
  "get_protocol_name n =
     (if \<not> is_valid_protocol n then None
      else Some (case map_of protocol_number_to_name n of Some s \<Rightarrow> s | None \<Rightarrow> str_of_int n))"

text \<open>A protocol is given as a number or as a name.\<close>

datatype protocol = PNum int | PName string

definition get_protocol_number :: "protocol \<Rightarrow> int option" where
  "get_protocol_number p =
     (case p of
        PNum n \<Rightarrow> Some n
      | PName s \<Rightarrow>
          (case map_of protocol_name_to_number s of
             Some n \<Rightarrow> Some n
           | None \<Rightarrow> (case parse_int s of
                        None \<Rightarrow> None
                      | Some n \<Rightarrow> if is_valid_protocol n then Some n else None)))"

definition is_standard_protocol :: "int \<Rightarrow> bool" where
  "is_standard_protocol n \<longleftrightarrow> n \<in> set (map fst protocol_number_to_name)"

section \<open>Sets of protocols\<close>

definition min_protocol_num :: int where "min_protocol_num = 0"
definition max_protocol_num :: int where "max_protocol_num = 255"

definition port_supporting_protocols :: "int set" where
  "port_supporting_protocols = {6, 17, 132}"

definition icmp_protocols :: "int set" where
  "icmp_protocols = {1, 58}"

definition protocols_whole_range :: "int interval_set" where
  "protocols_whole_range = get_interval_set min_protocol_num max_protocol_num"

definition protocol_set :: "bool \<Rightarrow> int interval_set" where
  "protocol_set all_protocols =
     (if all_protocols then add_interval [] (Interval min_protocol_num max_protocol_num) else [])"

definition checked_protocol :: "protocol \<Rightarrow> int option" where
  "checked_protocol p =
     do { n \<leftarrow> get_protocol_number p; if is_valid_protocol n then Some n else None }"

definition add_protocol :: "int interval_set \<Rightarrow> protocol \<Rightarrow> int interval_set option" where
  "add_protocol xs p = do { n \<leftarrow> checked_protocol p; Some (add_interval xs (Interval n n)) }"

definition remove_protocol :: "int interval_set \<Rightarrow> protocol \<Rightarrow> int interval_set option" where
  "remove_protocol xs p = do { n \<leftarrow> checked_protocol p; Some (add_hole xs (Interval n n)) }"

definition get_non_tcp_protocols :: "int interval_set option" where
  "get_non_tcp_protocols = remove_protocol (protocol_set True) (PName ''TCP'')"

definition get_protocol_set_with_single_protocol :: "protocol \<Rightarrow> int interval_set option" where
  "get_protocol_set_with_single_protocol p = add_protocol (protocol_set False) p"

definition protocols_contain :: "int interval_set \<Rightarrow> protocol \<Rightarrow> bool option" where
  "protocols_contain xs p = do { n \<leftarrow> get_protocol_number p; Some (iset_mem n xs) }"

definition set_protocols :: "int interval_set \<Rightarrow> int interval_set \<Rightarrow> int interval_set" where
  "set_protocols xs ys = foldl add_interval xs ys"

definition protocols_is_whole_range :: "int interval_set \<Rightarrow> bool" where
  "protocols_is_whole_range xs \<longleftrightarrow> xs = protocols_whole_range"

text \<open>The names of the numbers of a set, in increasing order; a number out of range raises.\<close>

definition get_protocol_names_from_interval_set :: "int interval_set \<Rightarrow> string list option" where
  "get_protocol_names_from_interval_set xs =
     do { names \<leftarrow> map_opt (\<lambda>i. if min_protocol_num \<le> istart i \<and> iend i \<le> max_protocol_num
                                 then map_opt get_protocol_name [istart i..iend i] else None) xs;
          Some (concat names) }"

definition compl_protocol_names :: "int interval_set \<Rightarrow> string list option" where
  "compl_protocol_names xs = get_protocol_names_from_interval_set (iset_sub protocols_whole_range xs)"

definition protocols_str :: "int interval_set \<Rightarrow> string option" where
  "protocols_str xs =
     (if protocols_is_whole_range xs then Some ''*''
      else if xs = [] then Some ''Empty''
      else do { names \<leftarrow> get_protocol_names_from_interval_set xs;
                compl \<leftarrow> compl_protocol_names xs;
                Some (if length names \<le> length compl then join '', '' names
                      else ''all but '' @ join '', '' compl) })"

definition protocol_supports_ports :: "protocol \<Rightarrow> bool option" where
  "protocol_supports_ports p = do { n \<leftarrow> get_protocol_number p; Some (n \<in> port_supporting_protocols) }"

definition protocol_is_icmp :: "protocol \<Rightarrow> bool option" where
  "protocol_is_icmp p = do { n \<leftarrow> get_protocol_number p; Some (n \<in> icmp_protocols) }"

section \<open>Sets of methods\<close>

definition all_methods_list :: "string list" where
  "all_methods_list =
     [''GET'', ''HEAD'', ''POST'', ''PUT'', ''DELETE'', ''CONNECT'', ''OPTIONS'', ''TRACE'', ''PATCH'']"

definition methods_whole_range :: "int interval_set" where
  "methods_whole_range = get_interval_set 0 (int (length all_methods_list) - 1)"

definition method_set :: "bool \<Rightarrow> int interval_set" where
  "method_set all_methods =
     (if all_methods then add_interval [] (Interval 0 (int (length all_methods_list) - 1)) else [])"

definition index_in :: "'a list \<Rightarrow> 'a \<Rightarrow> nat option" where
  "index_in xs x =
     (if x \<in> set xs then Some (length (takeWhile (\<lambda>y. y \<noteq> x) xs)) else None)"

definition add_method :: "int interval_set \<Rightarrow> string \<Rightarrow> int interval_set option" where
  "add_method xs m =
     do { i \<leftarrow> index_in all_methods_list m; Some (add_interval xs (Interval (int i) (int i))) }"

text \<open>\<open>re.match\<close> is a parameter: whether an expression matches at the start of a text.\<close>

definition add_methods_from_regex ::
  "(string \<Rightarrow> string \<Rightarrow> bool) \<Rightarrow> int interval_set \<Rightarrow> string \<Rightarrow> int interval_set" where
  "add_methods_from_regex re_match xs regex =
     foldl (\<lambda>ys (i, m). if re_match regex m then add_interval ys (Interval i i) else ys) xs
       (zip [0..int (length all_methods_list) - 1] all_methods_list)"

definition set_methods :: "int interval_set \<Rightarrow> int interval_set \<Rightarrow> int interval_set" where
  "set_methods xs ys = foldl add_interval xs ys"

definition methods_is_whole_range :: "int interval_set \<Rightarrow> bool" where
  "methods_is_whole_range xs \<longleftrightarrow> xs = methods_whole_range"

definition get_method_names_from_interval_set :: "int interval_set \<Rightarrow> string list option" where
  "get_method_names_from_interval_set xs =
     do { names \<leftarrow> map_opt (\<lambda>i. if 0 \<le> istart i \<and> iend i < int (length all_methods_list)
                                 then Some (map (\<lambda>j. all_methods_list ! nat j) [istart i..iend i])
                                 else None) xs;
          Some (concat names) }"

text \<open>Each name is removed once from a copy of the list; a missing one raises.\<close>

definition compl_method_names :: "int interval_set \<Rightarrow> string list option" where
  "compl_method_names xs =
     do { names \<leftarrow> get_method_names_from_interval_set xs;
          fold_opt (\<lambda>res m. if m \<in> set res then Some (remove1 m res) else None) all_methods_list names }"

definition methods_str :: "int interval_set \<Rightarrow> string option" where
  "methods_str xs =
     (if methods_is_whole_range xs then Some ''*''
      else if xs = [] then Some ''Empty''
      else do { names \<leftarrow> get_method_names_from_interval_set xs;
                compl \<leftarrow> compl_method_names xs;
                Some (if length names \<le> length compl then join '', '' names
                      else ''all but '' @ join '', '' compl) })"

section \<open>The tables\<close>

text \<open>The names are told apart by their codes as numbers, which sort fast.\<close>

definition name_code :: "string \<Rightarrow> int" where
  "name_code s = foldl (\<lambda>a c. 256 * a + of_char c) 0 s"

lemma successively_less_distinct: "successively (<) (xs :: 'a::linorder list) \<Longrightarrow> distinct xs"
  using strict_sorted_iff [of xs] successively_conv_sorted_wrt [of "(<)" xs] by simp

lemma protocol_names_distinct: "distinct (map fst protocol_name_to_number)"
proof -
  have "successively (<) (sort (map (name_code \<circ> fst) protocol_name_to_number))"
    by code_simp
  then have "distinct (map (name_code \<circ> fst) protocol_name_to_number)"
    using successively_less_distinct by fastforce
  then show ?thesis by (simp add: distinct_map inj_on_def)
qed

lemma protocol_numbers_distinct: "distinct (map fst protocol_number_to_name)"
  by (rule successively_less_distinct) code_simp

lemma protocol_tables_agree:
  "filter (\<lambda>(s, n). s \<noteq> ''TTP'') protocol_name_to_number = map (\<lambda>(n, s). (s, n)) protocol_number_to_name"
  by code_simp

lemma protocol_names_not_numbers:
  "list_all (\<lambda>(s, n). \<not> list_all is_digit s \<and> is_valid_protocol n) protocol_name_to_number"
  by code_simp

lemma number_of_name:
  assumes "map_of protocol_number_to_name n = Some s"
  shows "map_of protocol_name_to_number s = Some n"
proof -
  have "(s, n) \<in> set (map (\<lambda>(n, s). (s, n)) protocol_number_to_name)"
    using map_of_SomeD [OF assms] by force
  then have "(s, n) \<in> set protocol_name_to_number"
    unfolding protocol_tables_agree [symmetric] by simp
  then show ?thesis using protocol_names_distinct by simp
qed

section \<open>Numbers as texts\<close>

lemma decimal_digit:
  assumes "0 \<le> d" and "d < (10::int)"
  shows "is_digit (''0123456789abcdef'' ! nat d)" and "digit_value (''0123456789abcdef'' ! nat d) = d"
    and "\<not> is_space (''0123456789abcdef'' ! nat d)"
proof -
  have "d \<in> set [0..9]" using assms by simp
  moreover have "list_all (\<lambda>d. is_digit (''0123456789abcdef'' ! nat d) \<and>
      digit_value (''0123456789abcdef'' ! nat d) = d \<and> \<not> is_space (''0123456789abcdef'' ! nat d)) [0..9]"
    by code_simp
  ultimately show "is_digit (''0123456789abcdef'' ! nat d)" "digit_value (''0123456789abcdef'' ! nat d) = d"
    "\<not> is_space (''0123456789abcdef'' ! nat d)"
    unfolding list_all_iff by blast+
qed

lemma digits_correct:
  "0 \<le> n \<Longrightarrow> digits 10 n \<noteq> [] \<and> list_all is_digit (digits 10 n) \<and>
     list_all (\<lambda>c. \<not> is_space c) (digits 10 n) \<and>
     foldl (\<lambda>a c. 10 * a + digit_value c) 0 (digits 10 n) = n"
proof (induction n rule: measure_induct_rule [where f = nat])
  case (less n)
  show ?case
  proof (cases "n < 10")
    case True
    then show ?thesis
      using decimal_digit [of n] less.prems by (subst (1 2 3 4) digits.simps) simp
  next
    case False
    then have "nat (n div 10) < nat n" "0 \<le> n div 10" by simp_all
    from less.IH [OF this] show ?thesis
      using decimal_digit [of "n mod 10"] False by (subst (1 2 3 4) digits.simps) simp
  qed
qed

lemma parse_digits_foldl:
  "list_all is_digit s \<Longrightarrow> parse_digits a s = Some (foldl (\<lambda>a c. 10 * a + digit_value c) a s)"
proof (induction a s rule: parse_digits.induct)
  case (3 n c d s)
  have "\<not> is_digit CHR ''_''" by (simp add: is_digit_def)
  then show ?case using 3 by auto
qed simp_all

lemma parse_str_of_int:
  assumes "0 \<le> n"
  shows "parse_int (str_of_int n) = Some n" and "list_all is_digit (str_of_int n)"
proof -
  obtain c s where eq: "digits 10 n = c # s"
    and d: "list_all is_digit (digits 10 n)" "list_all (\<lambda>c. \<not> is_space c) (digits 10 n)"
      "foldl (\<lambda>a c. 10 * a + digit_value c) 0 (digits 10 n) = n"
    using digits_correct [OF assms] by (cases "digits 10 n") auto
  have "dropWhile is_space t = t" if "list_all (\<lambda>c. \<not> is_space c) t" for t
    using that by (cases t) auto
  then have "strip (digits 10 n) = digits 10 n" using d(2) by (simp add: strip_def)
  moreover have "c \<noteq> CHR ''-''" "c \<noteq> CHR ''+''"
    using d(1) by (auto simp: eq is_digit_def)
  moreover have "parse_digits 0 (c # s) = Some n"
    using parse_digits_foldl [of "c # s" 0] d by (simp add: eq)
  ultimately have "parse_int (digits 10 n) = Some n" by (simp add: parse_int_def eq)
  then show "parse_int (str_of_int n) = Some n" "list_all is_digit (str_of_int n)"
    using assms d(1) by (simp_all add: str_of_int_def)
qed

lemma digit_text_not_a_name: "list_all is_digit s \<Longrightarrow> map_of protocol_name_to_number s = None"
  using protocol_names_not_numbers by (auto simp: list_all_iff map_of_eq_None_iff)

lemma protocol_name_number:
  assumes "is_valid_protocol n" and "get_protocol_name n = Some s"
  shows "get_protocol_number (PName s) = Some n"
proof (cases "map_of protocol_number_to_name n")
  case None
  then have s: "s = str_of_int n" using assms by (simp add: get_protocol_name_def)
  have n: "0 \<le> n" using assms(1) by (simp add: is_valid_protocol_def)
  show ?thesis
    using parse_str_of_int [OF n] digit_text_not_a_name assms(1)
    by (simp add: get_protocol_number_def s)
next
  case (Some t)
  then have "s = t" using assms by (simp add: get_protocol_name_def)
  with number_of_name [OF Some] show ?thesis by (simp add: get_protocol_number_def)
qed

section \<open>The numbers of a set\<close>

definition members :: "int interval_set \<Rightarrow> int list" where
  "members xs = concat (map (\<lambda>i. [istart i..iend i]) xs)"

lemma members_set: "set (members xs) = iset_set xs"
  by (auto simp: members_def iset_set_def iv_set_def)

lemma members_sorted: "int_canonical xs \<Longrightarrow> sorted_wrt (<) (members xs)"
proof (induction xs)
  case (Cons i xs)
  have "a < b" if a: "a \<in> set [istart i..iend i]" and b: "b \<in> set (members xs)" for a b
  proof -
    obtain j where j: "j \<in> set xs" "istart j \<le> b" using b by (auto simp: members_def)
    then have "iend i + 1 < istart j" using Cons.prems by (simp add: canonical_Cons)
    then show ?thesis using a j(2) by simp
  qed
  then show ?case
    using Cons by (auto simp: members_def canonical_Cons sorted_wrt_append)
qed (simp add: members_def)

lemma map_opt_concat:
  "map_opt f (concat xss) = (case map_opt (map_opt f) xss of None \<Rightarrow> None | Some yss \<Rightarrow> Some (concat yss))"
proof -
  have app: "map_opt f (as @ bs) =
      (case map_opt f as of None \<Rightarrow> None
       | Some cs \<Rightarrow> (case map_opt f bs of None \<Rightarrow> None | Some ds \<Rightarrow> Some (cs @ ds)))" for as bs
    by (induction as) (auto split: option.splits)
  show ?thesis by (induction xss) (auto simp: app split: option.splits)
qed

lemma protocol_names_members:
  assumes "int_canonical xs" and "iset_set xs \<subseteq> {0..255}"
  shows "get_protocol_names_from_interval_set xs = map_opt get_protocol_name (members xs)"
proof -
  have range: "min_protocol_num \<le> istart i \<and> iend i \<le> max_protocol_num" if "i \<in> set xs" for i
  proof -
    have "istart i \<in> iset_set xs \<and> iend i \<in> iset_set xs"
      using that canonical_validD [OF assms(1) that] by (auto simp: mem_iset_set)
    then show ?thesis
      using assms(2) by (auto simp: min_protocol_num_def max_protocol_num_def)
  qed
  have "map_opt (\<lambda>i. if min_protocol_num \<le> istart i \<and> iend i \<le> max_protocol_num
        then map_opt get_protocol_name [istart i..iend i] else None) xs =
      map_opt (map_opt get_protocol_name) (map (\<lambda>i. [istart i..iend i]) xs)"
    using range by (induction xs) (auto split: option.splits)
  then show ?thesis
    by (simp add: get_protocol_names_from_interval_set_def members_def map_opt_concat
        split: option.splits)
qed

lemma protocol_names_total:
  assumes "iset_set xs \<subseteq> {0..255}"
  shows "map_opt get_protocol_name (members xs) = Some (map (\<lambda>n. the (get_protocol_name n)) (members xs))"
  using assms members_set [of xs]
  by (intro map_opt_total) (force simp: get_protocol_name_def is_valid_protocol_def)

text \<open>Adding the numbers of a set one by one gives the set.\<close>

lemma foldl_add_single:
  assumes "int_canonical xs"
  shows "int_canonical (foldl (\<lambda>ys n. add_interval ys (Interval n n)) xs ns) \<and>
         iset_set (foldl (\<lambda>ys n. add_interval ys (Interval n n)) xs ns) = iset_set xs \<union> set ns"
  using assms
proof (induction ns arbitrary: xs)
  case (Cons n ns)
  have v: "iv_valid (\<lambda>_ _. True) (Interval n n)" by (simp add: iv_valid_def)
  show ?case
    using Cons.IH [OF int_points.add_interval_canonical [OF Cons.prems v]]
      int_points.add_interval_set [OF Cons.prems v] by (simp add: iv_set_def)
qed simp

lemma foldl_add_members:
  "int_canonical xs \<Longrightarrow> foldl (\<lambda>ys n. add_interval ys (Interval n n)) [] (members xs) = xs"
  using foldl_add_single [of "[]" "members xs"] by (intro int_points.canonical_unique) (simp_all add: members_set)

lemma fold_opt_total:
  "(\<And>s x. x \<in> set xs \<Longrightarrow> f s x = Some (g s (h x))) \<Longrightarrow> fold_opt f s xs = Some (foldl g s (map h xs))"
  by (induction xs arbitrary: s) simp_all

lemma method_index:
  assumes "0 \<le> j" and "j < int (length all_methods_list)"
  shows "index_in all_methods_list (all_methods_list ! nat j) = Some (nat j)"
proof -
  have "nat j \<in> set [0..<length all_methods_list]" using assms by simp
  moreover have "list_all (\<lambda>n. index_in all_methods_list (all_methods_list ! n) = Some n) [0..<length all_methods_list]"
    by code_simp
  ultimately show ?thesis unfolding list_all_iff by blast
qed

lemma methods_distinct: "distinct all_methods_list"
  by code_simp

abbreviation method_name :: "int \<Rightarrow> string" where
  "method_name j \<equiv> all_methods_list ! nat j"

lemma method_names_members:
  assumes "int_canonical xs" and "iset_set xs \<subseteq> {0..<int (length all_methods_list)}"
  shows "get_method_names_from_interval_set xs = Some (map method_name (members xs))"
proof -
  have range: "0 \<le> istart i \<and> iend i < int (length all_methods_list)" if "i \<in> set xs" for i
  proof -
    have "istart i \<in> iset_set xs \<and> iend i \<in> iset_set xs"
      using that canonical_validD [OF assms(1) that] by (auto simp: mem_iset_set)
    then show ?thesis using assms(2) by auto
  qed
  have "map_opt (\<lambda>i. if 0 \<le> istart i \<and> iend i < int (length all_methods_list)
        then Some (map method_name [istart i..iend i]) else None) xs =
      Some (map (\<lambda>i. map method_name [istart i..iend i]) xs)"
    using range by (intro map_opt_total) simp
  then show ?thesis
    by (simp add: get_method_names_from_interval_set_def members_def map_concat comp_def)
qed

lemma method_names_distinct:
  assumes "int_canonical xs" and "iset_set xs \<subseteq> {0..<int (length all_methods_list)}"
  shows "distinct (map method_name (members xs))"
proof -
  have "distinct (members xs)"
    using members_sorted [OF assms(1)] strict_sorted_iff by blast
  moreover have "inj_on method_name (set (members xs))"
  proof (rule inj_onI)
    fix a b
    assume a: "a \<in> set (members xs)" and b: "b \<in> set (members xs)" and eq: "method_name a = method_name b"
    have "0 \<le> a \<and> a < int (length all_methods_list)" "0 \<le> b \<and> b < int (length all_methods_list)"
      using a b assms(2) by (auto simp: members_set)
    then show "a = b"
      using eq nth_eq_iff_index_eq [OF methods_distinct, of "nat a" "nat b"]
      by (simp add: nat_less_iff eq_nat_nat_iff)
  qed
  ultimately show ?thesis by (simp add: distinct_map)
qed

lemma fold_remove1:
  assumes "distinct res" and "distinct ms" and "set ms \<subseteq> set res"
  shows "fold_opt (\<lambda>r m. if m \<in> set r then Some (remove1 m r) else None) res ms =
           Some (filter (\<lambda>m. m \<notin> set ms) res)"
  using assms
proof (induction ms arbitrary: res)
  case (Cons m ms)
  have "set ms \<subseteq> set (remove1 m res)" using Cons.prems by auto
  from Cons.IH [OF distinct_remove1 [OF Cons.prems(1)] _ this] Cons.prems show ?case
    by (simp add: distinct_remove1_removeAll removeAll_filter_not_eq) (metis)
qed simp

section \<open>Properties\<close>

text \<open>
  C38. The name of every protocol number from 0 to 255, also of one without a standard name, leads
  back to the number. The other direction fails for one name: \<open>TTP\<close> and \<open>IPTM\<close> have the same
  number.
\<close>

theorem protocol_name_roundtrip:
  assumes "is_valid_protocol n"
  shows "\<exists>s. get_protocol_name n = Some s \<and> get_protocol_number (PName s) = Some n"
  using protocol_name_number [OF assms] assms by (auto simp: get_protocol_name_def)

theorem protocol_name_roundtrip_witness:
  "(\<exists>s. get_protocol_name 143 = Some s \<and> get_protocol_number (PName s) = Some 143) \<and>
   get_protocol_number (PName ''TTP'') = Some 84 \<and> get_protocol_name 84 = Some ''IPTM''"
proof -
  have "get_protocol_number (PName ''TTP'') = Some 84 \<and> get_protocol_name 84 = Some ''IPTM''" by code_simp
  then show ?thesis using protocol_name_roundtrip [of 143] by (simp add: is_valid_protocol_def)
qed

text \<open>
  Adding or removing a protocol raises exactly when its name is unknown or its number is not
  in 0-255; otherwise the set stays canonical and within 0-255, and changes by that number.
\<close>

theorem add_remove_protocol:
  assumes "int_canonical xs" and "iset_set xs \<subseteq> {0..255}"
  shows "(case get_protocol_number p of
            None \<Rightarrow> add_protocol xs p = None \<and> remove_protocol xs p = None
          | Some n \<Rightarrow>
              if n < 0 \<or> 255 < n then add_protocol xs p = None \<and> remove_protocol xs p = None
              else (\<exists>ys zs. add_protocol xs p = Some ys \<and> remove_protocol xs p = Some zs \<and>
                      int_canonical ys \<and> iset_set ys = insert n (iset_set xs) \<and> iset_set ys \<subseteq> {0..255} \<and>
                      int_canonical zs \<and> iset_set zs = iset_set xs - {n}))"
proof -
  have v: "iv_valid (\<lambda>_ _. True) (Interval n n)" for n :: int by (simp add: iv_valid_def)
  show ?thesis
    using assms int_points.add_interval_canonical [OF assms(1) v] int_points.add_interval_set [OF assms(1) v]
      int_points.add_hole_canonical [OF assms(1) v] int_points.add_hole_set [OF assms(1) v]
    by (auto simp: add_protocol_def remove_protocol_def checked_protocol_def is_valid_protocol_def
        iv_set_def split: option.splits)
qed

theorem add_remove_protocol_witness:
  "\<exists>zs. get_non_tcp_protocols = Some zs \<and> iset_set zs = {0..255} - {6}"
proof -
  have w: "protocol_set True = [Interval 0 255]"
    by (simp add: protocol_set_def add_interval_def min_protocol_num_def max_protocol_num_def)
  have n: "get_protocol_number (PName ''TCP'') = Some 6" by code_simp
  have c: "int_canonical [Interval 0 255]" "iset_set [Interval 0 255] \<subseteq> {0..(255::int)}"
    by (simp_all add: canonical_def iv_valid_def iv_set_def)
  show ?thesis
    using add_remove_protocol [OF c, of "PName ''TCP''"]
    by (auto simp: n w get_non_tcp_protocols_def iv_set_def)
qed

text \<open>
  The names of a set of protocols or methods describe it: adding the names one by one to an
  empty set gives the set back.
\<close>

theorem set_names_roundtrip:
  assumes "int_canonical xs" and "iset_set xs \<subseteq> {0..255}"
    and "int_canonical ms" and "iset_set ms \<subseteq> {0..8}"
  shows "(\<exists>names. get_protocol_names_from_interval_set xs = Some names \<and>
            fold_opt add_protocol [] (map PName names) = Some xs) \<and>
         (\<exists>names. get_method_names_from_interval_set ms = Some names \<and>
            fold_opt add_method [] names = Some ms)"
proof -
  let ?ps = "map (\<lambda>n. the (get_protocol_name n)) (members xs)"
  have "get_protocol_number (PName (the (get_protocol_name n))) = Some n \<and> is_valid_protocol n"
    if "n \<in> set (members xs)" for n
  proof -
    have "is_valid_protocol n" using that assms(2) by (auto simp: members_set is_valid_protocol_def)
    then show ?thesis using protocol_name_number [of n] by (simp add: get_protocol_name_def)
  qed
  then have "fold_opt (\<lambda>ys n. add_protocol ys (PName (the (get_protocol_name n)))) [] (members xs) =
      Some (foldl (\<lambda>ys n. add_interval ys (Interval n n)) [] (map (\<lambda>n. n) (members xs)))"
    by (intro fold_opt_total) (simp add: add_protocol_def checked_protocol_def)
  moreover have "fold_opt add_protocol ys (map PName (map f ns)) =
      fold_opt (\<lambda>ys n. add_protocol ys (PName (f n))) ys ns" for ys f and ns :: "int list"
    by (induction ns arbitrary: ys) (simp_all split: option.splits)
  ultimately have "fold_opt add_protocol [] (map PName ?ps) = Some xs"
    using foldl_add_members [OF assms(1)] by (simp only: map_ident)
  then have protocols: "\<exists>names. get_protocol_names_from_interval_set xs = Some names \<and>
      fold_opt add_protocol [] (map PName names) = Some xs"
    using protocol_names_members [OF assms(1,2)] protocol_names_total [OF assms(2)] by metis
  have r: "iset_set ms \<subseteq> {0..<int (length all_methods_list)}"
    using assms(4) by (auto simp: all_methods_list_def)
  then have "fold_opt (\<lambda>ys n. add_method ys (method_name n)) [] (members ms) =
      Some (foldl (\<lambda>ys n. add_interval ys (Interval n n)) [] (map (\<lambda>n. n) (members ms)))"
    using method_index by (intro fold_opt_total) (force simp: add_method_def members_set)
  moreover have "fold_opt add_method ys (map method_name ns) =
      fold_opt (\<lambda>ys n. add_method ys (method_name n)) ys ns" for ys ns
    by (induction ns arbitrary: ys) (simp_all split: option.splits)
  ultimately have "fold_opt add_method [] (map method_name (members ms)) = Some ms"
    using foldl_add_members [OF assms(3)] by (simp only: map_ident)
  then have "\<exists>names. get_method_names_from_interval_set ms = Some names \<and>
      fold_opt add_method [] names = Some ms"
    using method_names_members [OF assms(3) r] by metis
  with protocols show ?thesis by blast
qed

theorem set_names_roundtrip_witness:
  "(\<exists>names. get_protocol_names_from_interval_set [Interval 60 64] = Some names \<and>
      fold_opt add_protocol [] (map PName names) = Some [Interval 60 64]) \<and>
   (\<exists>names. get_method_names_from_interval_set [Interval 2 3, Interval 8 8] = Some names \<and>
      fold_opt add_method [] names = Some [Interval 2 3, Interval 8 8])"
proof -
  have "int_canonical [Interval 60 64]" "iset_set [Interval 60 64] \<subseteq> {0..(255::int)}"
    "int_canonical [Interval 2 3, Interval 8 8]" "iset_set [Interval 2 3, Interval 8 8] \<subseteq> {0..(8::int)}"
    by (simp_all add: canonical_def iv_valid_def iv_set_def)
  from set_names_roundtrip [OF this] show ?thesis by blast
qed

text \<open>
  The names of a set of methods and the names of its complement never raise for methods 0-8
  and split the list of all methods between them.
\<close>

theorem method_names_partition:
  assumes "int_canonical ms" and "iset_set ms \<subseteq> {0..8}"
  shows "\<exists>names compl. get_method_names_from_interval_set ms = Some names \<and>
           compl_method_names ms = Some compl \<and> distinct names \<and> distinct compl \<and>
           set names \<inter> set compl = {} \<and> set names \<union> set compl = set all_methods_list"
proof -
  have r: "iset_set ms \<subseteq> {0..<int (length all_methods_list)}"
    using assms(2) by (auto simp: all_methods_list_def)
  let ?n = "map method_name (members ms)"
  have sub: "set ?n \<subseteq> set all_methods_list" using r by (force simp: members_set)
  note d = method_names_distinct [OF assms(1) r]
  have "compl_method_names ms = Some (filter (\<lambda>m. m \<notin> set ?n) all_methods_list)"
    using method_names_members [OF assms(1) r] fold_remove1 [OF methods_distinct d sub]
    by (simp add: compl_method_names_def)
  moreover have "distinct (filter (\<lambda>m. m \<notin> set ?n) all_methods_list)"
    using methods_distinct by (rule distinct_filter)
  moreover have "set ?n \<inter> set (filter (\<lambda>m. m \<notin> set ?n) all_methods_list) = {}"
    "set ?n \<union> set (filter (\<lambda>m. m \<notin> set ?n) all_methods_list) = set all_methods_list"
    using sub by auto
  ultimately show ?thesis using method_names_members [OF assms(1) r] d by blast
qed

theorem method_names_partition_witness:
  "\<exists>compl. compl_method_names [Interval 1 8] = Some compl \<and> set compl = {''GET''}"
proof -
  have "int_canonical [Interval 1 8]" "iset_set [Interval 1 8] \<subseteq> {0..(8::int)}"
    by (simp_all add: canonical_def iv_valid_def iv_set_def)
  from method_names_partition [OF this] obtain names compl where c: "get_method_names_from_interval_set [Interval 1 8] = Some names"
    "compl_method_names [Interval 1 8] = Some compl" "set names \<inter> set compl = {}"
    "set names \<union> set compl = set all_methods_list" by blast
  moreover have "get_method_names_from_interval_set [Interval 1 8] = Some (tl all_methods_list)" by code_simp
  ultimately have "set compl = set all_methods_list - set (tl all_methods_list)" by (simp only: option.inject) blast
  also have "\<dots> = {''GET''}" by code_simp
  finally show ?thesis using c(2) by blast
qed

end
