(* ===== verification/Port_Sets.thy ===== *)
theory Port_Sets
  imports Interval_Sets
begin

text \<open>
  \<open>nca/CoreDS/PortSet.py\<close>: sets of ports with included and excluded named ports, and what such a
  set means for an endpoint that gives numbers to some names.
\<close>

section \<open>Sets of ports\<close>

record port_set =
  ports :: "int interval_set"
  named :: "string list"
  excluded :: "string list"

text \<open>The domain of \<open>dst_ports\<close> when the class is defined.\<close>

definition all_ports_interval :: "int interval_set" where
  "all_ports_interval = get_interval_set 1 65535"

definition mk_port_set :: "bool \<Rightarrow> port_set" where
  "mk_port_set all_ports =
     \<lparr>ports = (if all_ports then all_ports_interval else []), named = [], excluded = []\<rparr>"

definition port_set_eq :: "port_set \<Rightarrow> port_set \<Rightarrow> bool" where
  "port_set_eq a b \<longleftrightarrow>
     ports a = ports b \<and> set_equal (=) (named a) (named b) \<and> set_equal (=) (excluded a) (excluded b)"

definition port_set_bool :: "port_set \<Rightarrow> bool" where
  "port_set_bool a \<longleftrightarrow> ports a \<noteq> [] \<or> named a \<noteq> []"

text \<open>The text shows the ports with \<open>CanonicalIntervalSet.__str__\<close>, a parameter here.\<close>

definition port_set_str :: "(int interval_set \<Rightarrow> string) \<Rightarrow> port_set \<Rightarrow> string" where
  "port_set_str show_ports a =
     (if ports a = [] then (if named a \<noteq> [] then ''some named ports'' else ''no ports'')
      else if ports a = all_ports_interval then ''all ports''
      else ''ports '' @ show_ports (ports a))"

datatype port = Port_Num int | Port_Name string

definition add_port :: "port_set \<Rightarrow> port \<Rightarrow> port_set" where
  "add_port a p =
     (case p of
        Port_Name s \<Rightarrow> a\<lparr>named := set_add (=) (named a) s, excluded := set_remove (=) (excluded a) s\<rparr>
      | Port_Num n \<Rightarrow> a\<lparr>ports := add_interval (ports a) (Interval n n)\<rparr>)"

definition add_ports :: "port_set \<Rightarrow> int interval_set \<Rightarrow> port_set" where
  "add_ports a xs = a\<lparr>ports := iset_or (ports a) xs\<rparr>"

definition remove_port :: "port_set \<Rightarrow> port \<Rightarrow> port_set" where
  "remove_port a p =
     (case p of
        Port_Name s \<Rightarrow> a\<lparr>named := set_remove (=) (named a) s, excluded := set_add (=) (excluded a) s\<rparr>
      | Port_Num n \<Rightarrow> a\<lparr>ports := add_hole (ports a) (Interval n n)\<rparr>)"

definition add_port_range :: "port_set \<Rightarrow> int \<Rightarrow> int \<Rightarrow> port_set" where
  "add_port_range a lo hi = a\<lparr>ports := add_interval (ports a) (Interval lo hi)\<rparr>"

definition port_set_ior :: "port_set \<Rightarrow> port_set \<Rightarrow> port_set" where
  "port_set_ior a b =
     a\<lparr>ports := iset_or (ports a) (ports b), named := set_union (=) (named a) (named b),
       excluded := set_diff (=) (excluded a) (named b)\<rparr>"

definition port_set_isub :: "port_set \<Rightarrow> port_set \<Rightarrow> port_set" where
  "port_set_isub a b =
     a\<lparr>ports := iset_sub (ports a) (ports b), named := set_diff (=) (named a) (named b),
       excluded := set_union (=) (excluded a) (named b)\<rparr>"

definition port_set_is_all :: "port_set \<Rightarrow> bool" where
  "port_set_is_all a \<longleftrightarrow> ports a = all_ports_interval"

definition port_set_is_empty :: "port_set \<Rightarrow> bool" where
  "port_set_is_empty a \<longleftrightarrow> ports a = [] \<and> named a = []"

definition make_port_set_with_range :: "int \<Rightarrow> int \<Rightarrow> port_set" where
  "make_port_set_with_range lo hi = add_port_range (mk_port_set False) lo hi"

section \<open>Meaning\<close>

text \<open>
  For an endpoint whose names have the numbers \<open>\<sigma>\<close>: the named ports are added to the numbers,
  then the excluded ones are taken away.
\<close>

definition named_numbers :: "(string \<Rightarrow> int option) \<Rightarrow> string list \<Rightarrow> int set" where
  "named_numbers \<sigma> names = {n. \<exists>s\<in>set names. \<sigma> s = Some n}"

definition port_points :: "(string \<Rightarrow> int option) \<Rightarrow> port_set \<Rightarrow> int set" where
  "port_points \<sigma> a = (iset_set (ports a) \<union> named_numbers \<sigma> (named a)) - named_numbers \<sigma> (excluded a)"

definition port_set_ok :: "port_set \<Rightarrow> bool" where
  "port_set_ok a \<longleftrightarrow> int_canonical (ports a) \<and> distinct (named a) \<and> distinct (excluded a)"

lemma string_set_ok: "set_ok (=) xs \<longleftrightarrow> distinct (xs :: string list)"
  using names.ok_distinct [of xs] by simp

lemma string_sets [simp]:
  fixes xs ys :: "string list"
  shows "set (set_add (=) xs x) = insert x (set xs)" "set (set_remove (=) xs x) = set xs - {x}"
    and "set (set_union (=) xs ys) = set xs \<union> set ys" "set (set_diff (=) xs ys) = set xs - set ys"
  using names.add_keys(1) [of xs x] names.remove_keys(1) [of xs x] names.union_keys(1) [of xs ys]
    names.diff_keys(1) [of xs ys] by simp_all

lemma string_set_distinct [simp]:
  fixes xs ys :: "string list"
  shows "distinct xs \<Longrightarrow> distinct (set_add (=) xs x)" "distinct xs \<Longrightarrow> distinct (set_remove (=) xs x)"
    and "distinct xs \<Longrightarrow> distinct (set_union (=) xs ys)" "distinct xs \<Longrightarrow> distinct (set_diff (=) xs ys)"
  using names.add_keys(2) [of xs x] names.remove_keys(2) [of xs x] names.union_keys(2) [of xs ys]
    names.diff_keys(2) [of xs ys] by (simp_all add: string_set_ok)

lemma port_iv_valid [simp]: "iv_valid (\<lambda>_ _. True) (Interval (a::int) b) \<longleftrightarrow> a \<le> b"
  by (simp add: iv_valid_def)

lemma named_numbers_simps [simp]:
  "named_numbers \<sigma> [] = {}" "set names = A \<Longrightarrow> named_numbers \<sigma> names = {n. \<exists>s\<in>A. \<sigma> s = Some n}"
  by (simp_all add: named_numbers_def)

lemma port_set_keeps_ok:
  assumes "port_set_ok a" and "port_set_ok b" and "lo \<le> hi"
  shows "port_set_ok (add_port a p) \<and> port_set_ok (remove_port a p) \<and>
         port_set_ok (add_port_range a lo hi) \<and> port_set_ok (port_set_ior a b) \<and>
         port_set_ok (port_set_isub a b)"
  using assms int_points.iset_sub_correct [of "ports a" "ports b"]
  by (simp add: port_set_ok_def add_port_def remove_port_def add_port_range_def port_set_ior_def
      port_set_isub_def int_points.add_interval_canonical int_points.add_hole_canonical
      int_points.iset_or_canonical split: port.split)

section \<open>Properties\<close>

text \<open>
  C37. On well-formed sets without excluded named ports the operations give well-formed sets. For
  every resolution of the names, adding a number or a name adds its number, adding a range (whose
  bounds are in order) adds it, and the union has the ports of both. If the set has no named ports
  either, removing a number or a name takes its number away, and the difference has the ports of the
  first that are not in the second. With excluded named ports this fails, as the next lemma shows.
\<close>

theorem port_set_points:
  assumes "port_set_ok a" and "port_set_ok b" and "lo \<le> hi"
    and "excluded a = []" and "excluded b = []"
  shows "port_set_ok (add_port a p) \<and> port_set_ok (remove_port a p) \<and>
         port_set_ok (add_port_range a lo hi) \<and> port_set_ok (port_set_ior a b) \<and>
         port_set_ok (port_set_isub a b) \<and>
         port_points \<sigma> (add_port a p) =
           port_points \<sigma> a \<union> (case p of Port_Num n \<Rightarrow> {n} | Port_Name s \<Rightarrow> {n. \<sigma> s = Some n}) \<and>
         port_points \<sigma> (add_port_range a lo hi) = port_points \<sigma> a \<union> {lo..hi} \<and>
         port_points \<sigma> (port_set_ior a b) = port_points \<sigma> a \<union> port_points \<sigma> b \<and>
         (named a = [] \<longrightarrow>
            port_points \<sigma> (remove_port a p) =
              port_points \<sigma> a - (case p of Port_Num n \<Rightarrow> {n} | Port_Name s \<Rightarrow> {n. \<sigma> s = Some n}) \<and>
            port_points \<sigma> (port_set_isub a b) = port_points \<sigma> a - port_points \<sigma> b)"
proof -
  have can: "int_canonical (ports a)" "int_canonical (ports b)"
    using assms by (simp_all add: port_set_ok_def)
  note sub = int_points.iset_sub_correct [OF can]
  have add: "iset_set (add_interval (ports a) (Interval x y)) = iset_set (ports a) \<union> {x..y}"
    and hole: "iset_set (add_hole (ports a) (Interval x y)) = iset_set (ports a) - {x..y}" if "x \<le> y" for x y
    using that int_points.add_interval_set [OF can(1), of "Interval x y"]
      int_points.add_hole_set [OF can(1), of "Interval x y"] by (simp_all add: iv_set_def)
  have "port_points \<sigma> (add_port a p) =
      port_points \<sigma> a \<union> (case p of Port_Num n \<Rightarrow> {n} | Port_Name s \<Rightarrow> {n. \<sigma> s = Some n})"
    using add assms(4) by (cases p) (auto simp: add_port_def port_points_def named_numbers_def set_remove_def)
  moreover have "port_points \<sigma> (add_port_range a lo hi) = port_points \<sigma> a \<union> {lo..hi}"
    using add [OF assms(3)] assms(4) by (simp add: add_port_range_def port_points_def Un_ac)
  moreover have "port_points \<sigma> (port_set_ior a b) = port_points \<sigma> a \<union> port_points \<sigma> b"
    using assms(4,5) int_points.iset_or_set [OF can]
    by (auto simp: port_set_ior_def port_points_def named_numbers_def set_diff_def)
  moreover have "port_points \<sigma> (remove_port a p) =
      port_points \<sigma> a - (case p of Port_Num n \<Rightarrow> {n} | Port_Name s \<Rightarrow> {n. \<sigma> s = Some n})"
    if "named a = []"
    using hole assms(4) that
    by (cases p) (auto simp: remove_port_def port_points_def named_numbers_def set_remove_def)
  moreover have "port_points \<sigma> (port_set_isub a b) = port_points \<sigma> a - port_points \<sigma> b" if "named a = []"
    using that assms(4,5) sub by (auto simp: port_set_isub_def port_points_def named_numbers_def set_diff_def)
  ultimately show ?thesis using port_set_keeps_ok [OF assms(1-3)] by simp
qed

theorem port_set_points_witness:
  "port_points (\<lambda>_. None) (port_set_ior (make_port_set_with_range 1 5) (make_port_set_with_range 9 9)) = {1..5} \<union> {9}"
proof -
  have h: "port_set_ok (make_port_set_with_range lo hi)" "ports (make_port_set_with_range lo hi) = [Interval lo hi]"
    "excluded (make_port_set_with_range lo hi) = []" "named (make_port_set_with_range lo hi) = []" if "lo \<le> hi" for lo hi
    using that
    by (simp_all add: make_port_set_with_range_def add_port_range_def mk_port_set_def add_interval_def
        port_set_ok_def canonical_Cons)
  show ?thesis
    using port_set_points [of "make_port_set_with_range 1 5" "make_port_set_with_range 9 9" 1 1 undefined "\<lambda>_. None"] h [of 1 5] h [of 9 9]
    by (simp add: port_points_def iv_set_def)
qed

text \<open>
  Joining loses the exclusions of the right operand, so with excluded named ports the union
  is too large: with all ports but \<open>http\<close> joined to port 80, an endpoint whose \<open>http\<close> is 8080
  gets 8080, which neither operand allows it.
\<close>

theorem union_loses_exclusions:
  "let a = add_port (mk_port_set False) (Port_Num 80);
       b = remove_port (mk_port_set True) (Port_Name ''http'');
       \<sigma> = (\<lambda>s. if s = ''http'' then Some 8080 else None)
   in 8080 \<in> port_points \<sigma> (port_set_ior a b) \<and> 8080 \<notin> port_points \<sigma> a \<and> 8080 \<notin> port_points \<sigma> b"
proof -
  have all: "all_ports_interval = [Interval 1 65535]" and one: "add_interval [] (Interval 80 80) = [Interval 80 (80::int)]"
    by (simp_all add: all_ports_interval_def get_interval_set_def add_interval_def)
  have "iset_or [Interval 80 80] [Interval 1 (65535::int)] = [Interval 1 65535]"
    by code_simp
  then show ?thesis
    by (simp add: Let_def port_points_def port_set_ior_def add_port_def remove_port_def mk_port_set_def
        all one named_numbers_def set_add_def set_mem_def set_union_def set_diff_def iv_set_def)
qed

end
