(* ===== verification/Connectivity.thy ===== *)
theory Connectivity
  imports Cube_Sets Peers Protocols Port_Sets
begin

text \<open>
  \<open>nca/CoreDS/ConnectivityCube.py\<close> and \<open>ConnectivityProperties.py\<close>: one cube over all dimensions
  with the translations between external values (sets of peers, sets of ports, ICMP numbers) and
  dimension values, and sets of connections as cube sets of the subclass. The singletons the code
  reads (the automata package, the table of dimensions, the numbering of peers) are a record.
\<close>

section \<open>Connectivity cubes\<close>

record 'f env =
  fsm_of :: "'f fsm_ops"
  table_of :: "'f dim_table"
  base_of :: base_peers

abbreviation env_dims :: "'f env \<Rightarrow> ('f dim_value, item) dims" where
  "env_dims E \<equiv> dims_of (fsm_of E) (table_of E)"

definition all_dimensions_list :: "dim list" where
  "all_dimensions_list =
     [''src_peers'', ''dst_peers'', ''protocols'', ''src_ports'', ''dst_ports'', ''methods'',
      ''hosts'', ''paths'', ''icmp_type'', ''icmp_code'']"

record 'f conn_cube =
  cc_dims :: "dim list"
  cc_vals :: "(dim \<times> 'f dim_value) list"
  cc_named :: "string list"
  cc_excluded :: "string list"

definition set_dim_directly :: "'f conn_cube \<Rightarrow> dim \<Rightarrow> 'f dim_value \<Rightarrow> 'f conn_cube option" where
  "set_dim_directly c d v =
     (if d \<in> set (cc_dims c) then Some (c\<lparr>cc_vals := dict_set (=) (cc_vals c) d v\<rparr>) else None)"

definition get_dim_directly :: "'f conn_cube \<Rightarrow> dim \<Rightarrow> 'f dim_value option" where
  "get_dim_directly c d = (if d \<in> set (cc_dims c) then dict_get (=) (cc_vals c) d else None)"

definition unset_dim :: "'f env \<Rightarrow> 'f conn_cube \<Rightarrow> dim \<Rightarrow> 'f conn_cube option" where
  "unset_dim E c d =
     (if d \<in> set (cc_dims c) then
        do { v \<leftarrow> get_dimension_domain_by_name (table_of E) d; set_dim_directly c d v }
      else None)"

definition new_cube :: "'f env \<Rightarrow> dim list \<Rightarrow> 'f conn_cube option" where
  "new_cube E dims =
     (let ds = (if dims \<noteq> [] then dims else all_dimensions_list)
      in fold_opt (\<lambda>c d. do { v \<leftarrow> get_dimension_domain_by_name (table_of E) d; set_dim_directly c d v })
           \<lparr>cc_dims = ds, cc_vals = [], cc_named = [], cc_excluded = []\<rparr> ds)"

text \<open>\<open>copy\<close> copies the values of the dimensions, not the named ports.\<close>

definition cube_copy :: "'f env \<Rightarrow> 'f conn_cube \<Rightarrow> 'f conn_cube option" where
  "cube_copy E c =
     do { r \<leftarrow> new_cube E (cc_dims c);
          fold_opt (\<lambda>r (d, v). set_dim_directly r d v) r (cc_vals c) }"

definition is_full_dim :: "'f env \<Rightarrow> 'f conn_cube \<Rightarrow> dim \<Rightarrow> bool option" where
  "is_full_dim E c d =
     do { v \<leftarrow> get_dim_directly c d;
          w \<leftarrow> get_dimension_domain_by_name (table_of E) d;
          Some (dv_eq (fsm_of E) v w) }"

definition is_active_dim :: "'f env \<Rightarrow> 'f conn_cube \<Rightarrow> dim \<Rightarrow> bool option" where
  "is_active_dim E c d = map_option Not (is_full_dim E c d)"

text \<open>External values; \<open>Ext_None\<close> is Python's \<open>None\<close>.\<close>

datatype 'f ext_value =
    Ext_None
  | Ext_Peers peer_set
  | Ext_Ports port_set
  | Ext_Int int
  | Ext_Value "'f dim_value"

definition set_item :: "'f env \<Rightarrow> 'f conn_cube \<Rightarrow> dim \<Rightarrow> 'f ext_value \<Rightarrow> 'f conn_cube option" where
  "set_item E c d x =
     (if d \<notin> set (cc_dims c) then None
      else if x = Ext_None then Some c
      else if d = ''src_peers'' \<or> d = ''dst_peers'' then
        (case x of
           Ext_Peers s \<Rightarrow> do { xs \<leftarrow> get_peer_interval_of (base_of E) s; set_dim_directly c d (Intervals xs) }
         | _ \<Rightarrow> None)
      else if d = ''src_ports'' \<or> d = ''dst_ports'' then
        (case x of
           Ext_Ports a \<Rightarrow>
             do { c' \<leftarrow> set_dim_directly c d (Intervals (ports a));
                  Some (if d = ''dst_ports'' then c'\<lparr>cc_named := named a, cc_excluded := excluded a\<rparr> else c') }
         | _ \<Rightarrow> None)
      else if d = ''icmp_type'' \<or> d = ''icmp_code'' then
        (case x of
           Ext_Int n \<Rightarrow> set_dim_directly c d (Intervals (get_interval_set n n))
         | _ \<Rightarrow> None)
      else (case x of Ext_Value v \<Rightarrow> set_dim_directly c d v | _ \<Rightarrow> None))"

definition cube_update ::
  "'f env \<Rightarrow> 'f conn_cube \<Rightarrow> (dim \<times> 'f ext_value) list \<Rightarrow> 'f conn_cube option" where
  "cube_update E c kvs = fold_opt (\<lambda>c (d, x). set_item E c d x) c kvs"

definition unset_all_but_peers :: "'f env \<Rightarrow> 'f conn_cube \<Rightarrow> 'f conn_cube option" where
  "unset_all_but_peers E c =
     fold_opt (\<lambda>c d. if d \<notin> {''src_peers'', ''dst_peers''} then unset_dim E c d else Some c) c (cc_dims c)"

fun value_peers :: "'f env \<Rightarrow> 'f dim_value \<Rightarrow> peer_set option" where
  "value_peers E (Intervals xs) = get_peer_set_by_indices (base_of E) xs"
| "value_peers E (Automaton a) = None"

definition get_item :: "'f env \<Rightarrow> 'f conn_cube \<Rightarrow> dim \<Rightarrow> 'f ext_value option" where
  "get_item E c d =
     do { v \<leftarrow> get_dim_directly c d;
          if d = ''src_peers'' \<or> d = ''dst_peers'' then
            do { active \<leftarrow> is_active_dim E c d;
                 w \<leftarrow> get_dimension_domain_by_name (table_of E) d;
                 s \<leftarrow> value_peers E (if active then v else w);
                 Some (Ext_Peers s) }
          else if d = ''src_ports'' \<or> d = ''dst_ports'' then
            (case v of
               Intervals xs \<Rightarrow>
                 (let a = add_ports (mk_port_set False) xs
                  in Some (Ext_Ports (if d = ''dst_ports'' then a\<lparr>named := cc_named c, excluded := cc_excluded c\<rparr> else a)))
             | _ \<Rightarrow> None)
          else if d = ''icmp_type'' \<or> d = ''icmp_code'' then
            do { active \<leftarrow> is_active_dim E c d;
                 if active then
                   (case v of Intervals xs \<Rightarrow> map_option Ext_Int (validate_and_get_single_value xs) | _ \<Rightarrow> None)
                 else Some Ext_None }
          else Some (Ext_Value v) }"

definition has_active_dim :: "'f env \<Rightarrow> 'f conn_cube \<Rightarrow> bool option" where
  "has_active_dim E c = map_option (\<lambda>bs. list_ex id bs) (map_opt (is_active_dim E c) (cc_dims c))"

definition dim_is_empty :: "'f env \<Rightarrow> 'f conn_cube \<Rightarrow> dim \<Rightarrow> bool option" where
  "dim_is_empty E c d =
     do { v \<leftarrow> get_dim_directly c d;
          e \<leftarrow> get_empty_dimension_by_name (table_of E) d;
          Some (dv_eq (fsm_of E) v e \<and> (d \<noteq> ''dst_ports'' \<or> cc_named c = [] \<and> cc_excluded c = [])) }"

definition cube_is_empty :: "'f env \<Rightarrow> 'f conn_cube \<Rightarrow> bool option" where
  "cube_is_empty E c = map_option (\<lambda>bs. list_ex id bs) (map_opt (dim_is_empty E c) (cc_dims c))"

definition ordered_cube_and_active_dims ::
  "'f env \<Rightarrow> 'f conn_cube \<Rightarrow> ('f dim_value list \<times> dim list) option" where
  "ordered_cube_and_active_dims E c =
     do { rs \<leftarrow> map_opt (\<lambda>d. do { v \<leftarrow> get_dim_directly c d; active \<leftarrow> is_active_dim E c d;
                                    Some (if active then [(v, d)] else []) }) (cc_dims c);
          Some (map fst (concat rs), map snd (concat rs)) }"

definition make_from_dict :: "'f env \<Rightarrow> (dim \<times> 'f ext_value) list \<Rightarrow> 'f conn_cube option" where
  "make_from_dict E kvs = do { c \<leftarrow> new_cube E []; cube_update E c kvs }"

section \<open>Connectivity properties\<close>

definition new_props :: "dim list \<Rightarrow> bool \<Rightarrow> 'v hcs" where
  "new_props dims create_all =
     (let al = (if dims \<noteq> [] then dims else all_dimensions_list)
      in HC True al (if create_all then [] else al) [])"

definition make_empty_props :: "'v hcs" where
  "make_empty_props = new_props [] False"

definition make_all_props :: "'v hcs" where
  "make_all_props = new_props [] True"

definition plain_conn_props :: "'f env \<Rightarrow> 'f conn_cube \<Rightarrow> 'f dim_value hcs option" where
  "plain_conn_props E c =
     do { empty \<leftarrow> cube_is_empty E c;
          if empty then Some make_empty_props
          else do { (cube, act) \<leftarrow> ordered_cube_and_active_dims E c;
                    r \<leftarrow> (if act = [] then Some make_all_props
                          else hc_add_cube (env_dims E) make_empty_props cube (Some act));
                    _ \<leftarrow> get_item E c ''src_ports'';
                    _ \<leftarrow> get_item E c ''dst_ports'';
                    if cc_named c = [] \<and> cc_excluded c = [] then Some r else None } }"

text \<open>
  The numbers of named ports for a peer, with the names that were used; names that the peer lacks
  or defines with another protocol are skipped with a warning.
\<close>

fun resolve_loop ::
  "(string \<times> int \<times> string) list \<Rightarrow> int interval_set \<Rightarrow> port_set \<times> string list \<Rightarrow> string list \<Rightarrow>
   (port_set \<times> string list) option"
where
  "resolve_loop peer_ports protocols acc [] = Some acc"
| "resolve_loop peer_ports protocols (real, used) (s # names) =
     (case dict_get (=) peer_ports s of
        None \<Rightarrow> resolve_loop peer_ports protocols (real, used) names
      | Some (n, prot) \<Rightarrow>
          do { good \<leftarrow> protocols_contain protocols (PName prot);
               if good then
                 resolve_loop peer_ports protocols (add_port real (Port_Num n), set_add (=) used s) names
               else resolve_loop peer_ports protocols (real, used) names })"

definition resolve_named_ports ::
  "string list \<Rightarrow> peer \<Rightarrow> 'f dim_value \<Rightarrow> string list \<Rightarrow> (port_set \<times> string list) option" where
  "resolve_named_ports names p protocols used =
     (case protocols of
        Intervals xs \<Rightarrow> resolve_loop (get_named_ports p) xs (mk_port_set False, used) names
      | Automaton _ \<Rightarrow> None)"

text \<open>One peer's turn: its included ports are added, then its excluded ones are subtracted.\<close>

definition resolve_step ::
  "'f env \<Rightarrow> string list \<Rightarrow> string list \<Rightarrow> 'f dim_value \<Rightarrow>
   'f dim_value hcs \<times> 'f conn_cube \<times> string list \<Rightarrow> peer \<Rightarrow>
   ('f dim_value hcs \<times> 'f conn_cube \<times> string list) option"
where
  "resolve_step E inc exc protocols st p =
     (let (t, c, used) = st in
      do { (real, used) \<leftarrow> resolve_named_ports inc p protocols used;
           (t, c) \<leftarrow>
             (if port_set_bool real then
                do { c \<leftarrow> cube_update E c [(''dst_ports'', Ext_Ports real), (''dst_peers'', Ext_Peers [p])];
                     u \<leftarrow> plain_conn_props E c;
                     t \<leftarrow> hc_ior (env_dims E) t u;
                     Some (t, c) }
              else Some (t, c));
           (real, used) \<leftarrow> resolve_named_ports exc p protocols used;
           (t, c) \<leftarrow>
             (if port_set_bool real then
                do { c \<leftarrow> cube_update E c [(''dst_ports'', Ext_Ports real), (''dst_peers'', Ext_Peers [p])];
                     u \<leftarrow> plain_conn_props E c;
                     t \<leftarrow> hc_isub (env_dims E) t u;
                     Some (t, c) }
              else Some (t, c));
           Some (t, c, used) })"

text \<open>The cube is changed in place, so the changed cube is returned too.\<close>

definition make_conn_props ::
  "'f env \<Rightarrow> 'f conn_cube \<Rightarrow> ('f dim_value hcs \<times> 'f conn_cube) option" where
  "make_conn_props E c =
     do { _ \<leftarrow> get_item E c ''src_ports'';
          dst \<leftarrow> get_item E c ''dst_ports'';
          case dst of
            Ext_Ports dst_ports \<Rightarrow>
              if named dst_ports = [] \<and> excluded dst_ports = [] then
                do { t \<leftarrow> plain_conn_props E c; Some (t, c) }
              else
                do { (t, c) \<leftarrow>
                       (if ports dst_ports \<noteq> [] then
                          do { c \<leftarrow> set_item E c ''dst_ports''
                                 (Ext_Ports ((mk_port_set False)\<lparr>ports := ports dst_ports\<rparr>));
                               t \<leftarrow> plain_conn_props E c;
                               Some (t, c) }
                        else Some (make_empty_props, c));
                     protocols \<leftarrow> get_item E c ''protocols'';
                     dst_peers \<leftarrow> get_item E c ''dst_peers'';
                     case (protocols, dst_peers) of
                       (Ext_Value pv, Ext_Peers s) \<Rightarrow>
                         do { (t, c, used) \<leftarrow>
                                fold_opt (resolve_step E (named dst_ports) (excluded dst_ports) pv) (t, c, []) s;
                              Some (t, c) }
                     | _ \<Rightarrow> None }
          | _ \<Rightarrow> None }"

definition make_conn_props_from_dict ::
  "'f env \<Rightarrow> (dim \<times> 'f ext_value) list \<Rightarrow> 'f dim_value hcs option" where
  "make_conn_props_from_dict E kvs =
     do { c \<leftarrow> make_from_dict E kvs; r \<leftarrow> make_conn_props E c; Some (fst r) }"

definition conns_between :: "'f env \<Rightarrow> peer_set \<Rightarrow> peer_set \<Rightarrow> 'f dim_value hcs option" where
  "conns_between E src dst =
     make_conn_props_from_dict E [(''src_peers'', Ext_Peers src), (''dst_peers'', Ext_Peers dst)]"

definition all_conns_props_per_domain_peers :: "'f env \<Rightarrow> 'f dim_value hcs option" where
  "all_conns_props_per_domain_peers E =
     do { w \<leftarrow> get_dimension_domain_by_name (table_of E) ''src_peers'';
          s \<leftarrow> value_peers E w;
          conns_between E s s }"

section \<open>Projections and reorderings\<close>

definition get_connectivity_cube :: "'f env \<Rightarrow> 'f dim_value hcs \<Rightarrow> 'f dim_value list \<Rightarrow> 'f conn_cube option" where
  "get_connectivity_cube E t cube =
     (if length cube < length (active_dims t) then None
      else do { c \<leftarrow> new_cube E (all_dims t);
                fold_opt (\<lambda>c (d, v). set_dim_directly c d v) c (zip (active_dims t) cube) })"

fun ext_bool :: "'f fsm_ops \<Rightarrow> 'f ext_value \<Rightarrow> bool" where
  "ext_bool F Ext_None = False"
| "ext_bool F (Ext_Peers s) = (s \<noteq> [])"
| "ext_bool F (Ext_Ports a) = port_set_bool a"
| "ext_bool F (Ext_Int n) = (n \<noteq> 0)"
| "ext_bool F (Ext_Value v) = dv_bool F v"

fun ext_ior :: "'f fsm_ops \<Rightarrow> 'f ext_value \<Rightarrow> 'f ext_value \<Rightarrow> 'f ext_value option" where
  "ext_ior F (Ext_Peers s) (Ext_Peers t) = Some (Ext_Peers (ps_or s t))"
| "ext_ior F (Ext_Ports a) (Ext_Ports b) = Some (Ext_Ports (port_set_ior a b))"
| "ext_ior F (Ext_Value v) (Ext_Value w) = Some (Ext_Value (dv_or F v w))"
| "ext_ior F _ _ = None"

definition project_start :: "'f env \<Rightarrow> dim \<Rightarrow> 'f ext_value option" where
  "project_start E d =
     (if d = ''src_peers'' \<or> d = ''dst_peers'' then Some (Ext_Peers [])
      else if d = ''src_ports'' \<or> d = ''dst_ports'' then Some (Ext_Ports (mk_port_set False))
      else map_option Ext_Value (get_empty_dimension_by_name (table_of E) d))"

definition project_on_one_dimension :: "'f env \<Rightarrow> 'f dim_value hcs \<Rightarrow> dim \<Rightarrow> 'f ext_value option" where
  "project_on_one_dimension E t d =
     (if d \<in> {''icmp_type'', ''icmp_code''} then None
      else if d \<notin> set (active_dims t) then
        do { w \<leftarrow> get_dimension_domain_by_name (table_of E) d;
             if d = ''src_peers'' \<or> d = ''dst_peers'' then map_option Ext_Peers (value_peers E w)
             else Some (Ext_Value w) }
      else do { start \<leftarrow> project_start E d;
                cubes \<leftarrow> hc_iter (env_dims E) t;
                fold_opt (\<lambda>res cube.
                    do { c \<leftarrow> get_connectivity_cube E t cube;
                         v \<leftarrow> get_item E c d;
                         if ext_bool (fsm_of E) v \<and> ext_bool (fsm_of E) res then ext_ior (fsm_of E) res v
                         else if ext_bool (fsm_of E) v then Some v
                         else Some res }) start cubes })"

definition props_all_peers :: "'f env \<Rightarrow> 'f dim_value hcs \<Rightarrow> peer_set option" where
  "props_all_peers E t =
     do { s \<leftarrow> project_on_one_dimension E t ''src_peers'';
          d \<leftarrow> project_on_one_dimension E t ''dst_peers'';
          case (s, d) of (Ext_Peers s, Ext_Peers d) \<Rightarrow> Some (ps_or s d) | _ \<Rightarrow> None }"

text \<open>\<open>are_auto_conns\<close> stops at the first cube that is not between one peer and itself.\<close>

fun value_single :: "'f dim_value \<Rightarrow> bool" where
  "value_single (Intervals xs) = iset_single xs"
| "value_single (Automaton a) = False"

definition are_auto_conns :: "'f env \<Rightarrow> 'f dim_value hcs \<Rightarrow> bool" where
  "are_auto_conns E t =
     (if \<not> {''src_peers'', ''dst_peers''} \<subseteq> set (active_dims t) then False
      else list_all (\<lambda>cube. case (map_of (zip (active_dims t) cube) ''src_peers'',
                                    map_of (zip (active_dims t) cube) ''dst_peers'') of
                              (Some s, Some d) \<Rightarrow> dv_eq (fsm_of E) s d \<and> value_single s
                            | _ \<Rightarrow> False) (cubes_list t))"

definition auto_conns_from_peers :: "'f env \<Rightarrow> 'f dim_value hcs \<Rightarrow> 'f dim_value hcs option" where
  "auto_conns_from_peers E t =
     do { s \<leftarrow> props_all_peers E t;
          fold_opt (\<lambda>r p. do { u \<leftarrow> conns_between E [p] [p]; hc_ior (env_dims E) r u }) make_empty_props s }"

definition props_without_auto_conns :: "'f env \<Rightarrow> 'f dim_value hcs \<Rightarrow> 'f dim_value hcs option" where
  "props_without_auto_conns E t =
     do { a \<leftarrow> auto_conns_from_peers E t; hc_sub (env_dims E) t a }"

definition reorder_list_by_map :: "'a list \<Rightarrow> nat list \<Rightarrow> 'a list option" where
  "reorder_list_by_map xs m =
     map_opt (\<lambda>i. do { j \<leftarrow> py_nth m (int i); py_nth xs (int j) }) [0..<length xs]"

definition reorder_by_dim_list :: "'f env \<Rightarrow> 'f dim_value hcs \<Rightarrow> nat list \<Rightarrow> 'f dim_value hcs option" where
  "reorder_by_dim_list E t m =
     do { al \<leftarrow> reorder_list_by_map (all_dims t) m;
          let act = filter (\<lambda>d. d \<in> set (active_dims t)) al;
          amap \<leftarrow> map_opt (index_in (active_dims t)) act;
          cubes \<leftarrow> hc_iter (env_dims E) t;
          fold_opt (\<lambda>r cube. do { cube' \<leftarrow> reorder_list_by_map cube amap;
                                  hc_add_cube (env_dims E) r cube' (Some act) }) (new_props al False) cubes }"

definition switched_map :: "dim list \<Rightarrow> nat list option" where
  "switched_map al =
     do { i \<leftarrow> index_in al ''src_peers'';
          j \<leftarrow> index_in al ''dst_peers'';
          Some ([0..<length al][i := j, j := i]) }"

definition reorder_by_switching_src_dst_peers :: "'f env \<Rightarrow> 'f dim_value hcs \<Rightarrow> 'f dim_value hcs option" where
  "reorder_by_switching_src_dst_peers E t =
     do { m \<leftarrow> switched_map (all_dims t); reorder_by_dim_list E t m }"

definition props_minimize :: "'f env \<Rightarrow> 'f dim_value hcs \<Rightarrow> 'f dim_value hcs option" where
  "props_minimize E t =
     do { r \<leftarrow> reorder_by_switching_src_dst_peers E t;
          Some (if hc_len t \<le> hc_len r then t else r) }"

definition extract_src_dst_peers_from_cube ::
  "'f env \<Rightarrow> 'f conn_cube \<Rightarrow> peer_set \<Rightarrow> int interval_set \<Rightarrow>
   ('f dim_value hcs \<times> peer_set \<times> peer_set) option"
where
  "extract_src_dst_peers_from_cube E the_cube all_peers relevant_protocols =
     do { c \<leftarrow> cube_copy E the_cube;
          s \<leftarrow> get_item E c ''src_peers'';
          c \<leftarrow> unset_dim E c ''src_peers'';
          d \<leftarrow> get_item E c ''dst_peers'';
          c \<leftarrow> unset_dim E c ''dst_peers'';
          protocols \<leftarrow> get_item E c ''protocols'';
          c \<leftarrow> (if protocols = Ext_Value (Intervals relevant_protocols) then unset_dim E c ''protocols'' else Some c);
          r \<leftarrow> make_conn_props E c;
          case (s, d) of
            (Ext_Peers src, Ext_Peers dst) \<Rightarrow>
              Some (fst r, if src \<noteq> [] then src else all_peers, if dst \<noteq> [] then dst else all_peers)
          | _ \<Rightarrow> None }"

section \<open>Well-formed environments and cubes\<close>

definition env_ok :: "'f env \<Rightarrow> bool" where
  "env_ok E \<longleftrightarrow>
     fsm_laws (fsm_of E) \<and> table_ok (fsm_of E) (table_of E) \<and> base_ok (base_of E) \<and>
     (\<forall>d\<in>set all_dimensions_list. \<exists>w e.
        get_dimension_domain_by_name (table_of E) d = Some w \<and>
        get_empty_dimension_by_name (table_of E) d = Some e \<and>
        (d \<notin> {''hosts'', ''paths''} \<longrightarrow> (\<exists>xs. w = Intervals xs) \<and> e = Intervals [])) \<and>
     get_dimension_domain_by_name (table_of E) ''dst_ports'' = Some (Intervals (get_interval_set 1 65535))"

definition cube_val :: "'f conn_cube \<Rightarrow> dim \<Rightarrow> 'f dim_value" where
  "cube_val c d = (case dict_get (=) (cc_vals c) d of Some v \<Rightarrow> v | None \<Rightarrow> Intervals [])"

definition cube_ok :: "'f env \<Rightarrow> 'f conn_cube \<Rightarrow> bool" where
  "cube_ok E c \<longleftrightarrow>
     cc_dims c = all_dimensions_list \<and>
     (\<forall>d\<in>set all_dimensions_list. \<exists>v. dict_get (=) (cc_vals c) d = Some v \<and>
        value_ok (fsm_of E) (table_of E) d v)"

definition cube_points :: "'f env \<Rightarrow> 'f conn_cube \<Rightarrow> (dim \<Rightarrow> item) \<Rightarrow> bool" where
  "cube_points E c p \<longleftrightarrow> (\<forall>d\<in>set all_dimensions_list. dv_mem (fsm_of E) (p d) (cube_val c d))"

definition env_domain :: "'f env \<Rightarrow> dim \<Rightarrow> 'f dim_value" where
  "env_domain E d = the (get_dimension_domain_by_name (table_of E) d)"

definition env_empty :: "'f env \<Rightarrow> dim \<Rightarrow> 'f dim_value" where
  "env_empty E d = the (get_empty_dimension_by_name (table_of E) d)"

abbreviation val_ok :: "'f env \<Rightarrow> dim \<Rightarrow> 'f dim_value \<Rightarrow> bool" where
  "val_ok E \<equiv> value_ok (fsm_of E) (table_of E)"

lemma env_values: "env_ok E \<Longrightarrow> dim_values (env_dims E) (val_ok E)"
  by (rule dims_of_values) (simp_all add: env_ok_def)

lemma env_dimension:
  assumes "env_ok E" and "d \<in> set all_dimensions_list"
  obtains w e where "get_dimension_domain_by_name (table_of E) d = Some w"
    "get_empty_dimension_by_name (table_of E) d = Some e"
    "d \<notin> {''hosts'', ''paths''} \<longrightarrow> (\<exists>xs. w = Intervals xs) \<and> e = Intervals []"
proof -
  have "\<forall>d\<in>set all_dimensions_list. \<exists>w e.
        get_dimension_domain_by_name (table_of E) d = Some w \<and>
        get_empty_dimension_by_name (table_of E) d = Some e \<and>
        (d \<notin> {''hosts'', ''paths''} \<longrightarrow> (\<exists>xs. w = Intervals xs) \<and> e = Intervals [])"
    using assms(1) unfolding env_ok_def by (elim conjE)
  from bspec [OF this assms(2)] show ?thesis by (elim exE conjE) (rule that)
qed

lemma env_domain_ok:
  assumes "env_ok E" and "d \<in> set all_dimensions_list"
  shows "get_dimension_domain_by_name (table_of E) d = Some (env_domain E d)"
    and "get_empty_dimension_by_name (table_of E) d = Some (env_empty E d)"
    and "val_ok E d (env_domain E d)"
proof -
  obtain w e where we: "get_dimension_domain_by_name (table_of E) d = Some w"
    "get_empty_dimension_by_name (table_of E) d = Some e"
    by (rule env_dimension [OF assms])
  then show dom: "get_dimension_domain_by_name (table_of E) d = Some (env_domain E d)"
    and "get_empty_dimension_by_name (table_of E) d = Some (env_empty E d)"
    unfolding env_domain_def env_empty_def by (simp_all only: option.sel)
  show "val_ok E d (env_domain E d)"
    using dim_values.domain_ok [OF env_values [OF assms(1)], of d] dom by simp
qed

lemma env_interval_dims:
  assumes "env_ok E" and "d \<in> set all_dimensions_list" and "d \<notin> {''hosts'', ''paths''}"
  shows "\<exists>xs. env_domain E d = Intervals xs" and "env_empty E d = Intervals []"
    and "val_ok E d v \<longleftrightarrow> (\<exists>xs. v = Intervals xs \<and> int_canonical xs)"
proof -
  obtain w e where we: "get_dimension_domain_by_name (table_of E) d = Some w"
    "get_empty_dimension_by_name (table_of E) d = Some e"
    "d \<notin> {''hosts'', ''paths''} \<longrightarrow> (\<exists>xs. w = Intervals xs) \<and> e = Intervals []"
    by (rule env_dimension [OF assms(1,2)])
  from mp [OF we(3) assms(3)] obtain xs where xs: "w = Intervals xs" "e = Intervals []" by (elim conjE exE)
  show "\<exists>xs. env_domain E d = Intervals xs" "env_empty E d = Intervals []"
    unfolding env_domain_def env_empty_def we(1,2) xs by simp_all
  show "val_ok E d v \<longleftrightarrow> (\<exists>xs. v = Intervals xs \<and> int_canonical xs)"
    by (rule value_ok_intervals) (simp only: we(1) xs)
qed

lemma all_dims_facts [simp]: "distinct all_dimensions_list" "all_dimensions_list \<noteq> []"
  by (simp_all add: all_dimensions_list_def)

lemma get_dim_ok:
  assumes "cube_ok E c" and "d \<in> set all_dimensions_list"
  shows "get_dim_directly c d = Some (cube_val c d)" and "val_ok E d (cube_val c d)"
  using assms by (auto simp: cube_ok_def get_dim_directly_def cube_val_def dest!: bspec)

lemma set_dim_ok:
  assumes "cube_ok E c" and "d \<in> set all_dimensions_list" and "val_ok E d v"
  shows "\<exists>c'. set_dim_directly c d v = Some c' \<and> cube_ok E c' \<and> cube_val c' = (cube_val c)(d := v) \<and>
           cc_named c' = cc_named c \<and> cc_excluded c' = cc_excluded c"
  using assms by (auto simp: cube_ok_def set_dim_directly_def cube_val_def dict_get_set_eq fun_eq_iff)

lemma new_cube_fold:
  assumes E: "env_ok E" and "set ds \<subseteq> set all_dimensions_list" and "cc_dims c = all_dimensions_list"
  shows "\<exists>c'. fold_opt (\<lambda>c d. do { v \<leftarrow> get_dimension_domain_by_name (table_of E) d; set_dim_directly c d v }) c ds = Some c' \<and>
           cc_dims c' = all_dimensions_list \<and> cc_named c' = cc_named c \<and> cc_excluded c' = cc_excluded c \<and>
           (\<forall>d. dict_get (=) (cc_vals c') d =
              (if d \<in> set ds then Some (env_domain E d) else dict_get (=) (cc_vals c) d))"
  using assms(2,3)
proof (induction ds arbitrary: c)
  case (Cons d ds)
  define c1 where "c1 = c\<lparr>cc_vals := dict_set (=) (cc_vals c) d (env_domain E d)\<rparr>"
  have step: "get_dimension_domain_by_name (table_of E) d = Some (env_domain E d)"
    "set_dim_directly c d (env_domain E d) = Some c1"
    using env_domain_ok(1) [OF E, of d] Cons.prems by (simp_all add: set_dim_directly_def c1_def)
  have "set ds \<subseteq> set all_dimensions_list" "cc_dims c1 = all_dimensions_list"
    using Cons.prems by (simp_all add: c1_def)
  from Cons.IH [OF this] obtain c' where c':
    "fold_opt (\<lambda>c d. do { v \<leftarrow> get_dimension_domain_by_name (table_of E) d; set_dim_directly c d v }) c1 ds = Some c'"
    "cc_dims c' = all_dimensions_list" "cc_named c' = cc_named c1" "cc_excluded c' = cc_excluded c1"
    "\<forall>d. dict_get (=) (cc_vals c') d = (if d \<in> set ds then Some (env_domain E d) else dict_get (=) (cc_vals c1) d)"
    by blast
  have "dict_get (=) (cc_vals c1) d' = (if d = d' then Some (env_domain E d) else dict_get (=) (cc_vals c) d')" for d'
    by (simp add: c1_def dict_get_set_eq)
  then show ?case
    using step c' by (intro exI [of _ c']) (auto simp: c1_def)
qed simp

lemma new_cube_ok:
  assumes "env_ok E"
  shows "\<exists>c. new_cube E [] = Some c \<and> cube_ok E c \<and> cc_named c = [] \<and> cc_excluded c = [] \<and>
           (\<forall>d\<in>set all_dimensions_list. cube_val c d = env_domain E d)"
proof -
  obtain c where c: "new_cube E [] = Some c" "cc_dims c = all_dimensions_list" "cc_named c = []" "cc_excluded c = []"
    "\<forall>d\<in>set all_dimensions_list. dict_get (=) (cc_vals c) d = Some (env_domain E d)"
    using new_cube_fold [OF assms order_refl, of "\<lparr>cc_dims = all_dimensions_list, cc_vals = [], cc_named = [], cc_excluded = []\<rparr>"]
    by (auto simp: new_cube_def Let_def)
  moreover have "val_ok E d (env_domain E d)" if "d \<in> set all_dimensions_list" for d
    by (rule env_domain_ok(3) [OF assms that])
  ultimately show ?thesis by (auto simp: cube_ok_def cube_val_def)
qed

lemma is_active_ok:
  assumes "env_ok E" and "cube_ok E c" and "d \<in> set all_dimensions_list"
  shows "is_active_dim E c d = Some (\<not> dv_eq (fsm_of E) (cube_val c d) (env_domain E d))"
  using env_domain_ok(1) [OF assms(1,3)] get_dim_ok(1) [OF assms(2,3)]
  by (simp add: is_active_dim_def is_full_dim_def)

definition active_of :: "'f env \<Rightarrow> 'f conn_cube \<Rightarrow> dim list" where
  "active_of E c = filter (\<lambda>d. \<not> dv_eq (fsm_of E) (cube_val c d) (env_domain E d)) all_dimensions_list"

lemma ordered_cube_ok:
  assumes "env_ok E" and "cube_ok E c"
  shows "ordered_cube_and_active_dims E c = Some (map (cube_val c) (active_of E c), active_of E c)"
proof -
  let ?act = "\<lambda>d. \<not> dv_eq (fsm_of E) (cube_val c d) (env_domain E d)"
  have dims: "cc_dims c = all_dimensions_list" using assms(2) by (simp add: cube_ok_def)
  have "map_opt (\<lambda>d. do { v \<leftarrow> get_dim_directly c d; active \<leftarrow> is_active_dim E c d;
             Some (if active then [(v, d)] else []) }) ds =
        Some (map (\<lambda>d. if ?act d then [(cube_val c d, d)] else []) ds)"
    if "set ds \<subseteq> set all_dimensions_list" for ds
    using that get_dim_ok(1) [OF assms(2)] is_active_ok [OF assms] by (intro map_opt_total) auto
  moreover have "concat (map (\<lambda>d. if ?act d then [(cube_val c d, d)] else []) ds) =
      map (\<lambda>d. (cube_val c d, d)) (filter ?act ds)" for ds
    by (induction ds) auto
  ultimately show ?thesis
    by (simp add: ordered_cube_and_active_dims_def dims active_of_def comp_def)
qed

lemma cube_is_empty_ok:
  assumes "env_ok E" and "cube_ok E c"
  shows "cube_is_empty E c = Some (\<exists>d\<in>set all_dimensions_list. dv_eq (fsm_of E) (cube_val c d) (env_empty E d) \<and>
           (d \<noteq> ''dst_ports'' \<or> cc_named c = [] \<and> cc_excluded c = []))"
proof -
  have dims: "cc_dims c = all_dimensions_list" using assms(2) by (simp add: cube_ok_def)
  have "map_opt (dim_is_empty E c) all_dimensions_list =
      Some (map (\<lambda>d. dv_eq (fsm_of E) (cube_val c d) (env_empty E d) \<and>
           (d \<noteq> ''dst_ports'' \<or> cc_named c = [] \<and> cc_excluded c = [])) all_dimensions_list)"
    using env_domain_ok(2) [OF assms(1)] get_dim_ok(1) [OF assms(2)]
    by (intro map_opt_total) (simp add: dim_is_empty_def)
  then show ?thesis by (simp add: cube_is_empty_def dims list_ex_iff del: map_opt.simps)
qed

text \<open>
  The value that stands for an empty automaton in the table accepts the empty word; a cube with
  exactly that value is treated as empty, and is left out here.
\<close>

definition no_false_empty :: "'f env \<Rightarrow> 'f conn_cube \<Rightarrow> bool" where
  "no_false_empty E c \<longleftrightarrow> (\<forall>d\<in>{''hosts'', ''paths''}. \<not> dv_eq (fsm_of E) (cube_val c d) (env_empty E d))"

lemma empty_props_ok:
  fixes E :: "'f env"
  assumes "env_ok E"
  shows "cubes_ok (fsm_of E) (table_of E) (make_empty_props :: 'f dim_value hcs)"
    and "all_dims (make_empty_props :: 'f dim_value hcs) = all_dimensions_list"
    and "\<not> hc_bool (make_empty_props :: 'f dim_value hcs)" and "is_props (make_empty_props :: 'f dim_value hcs)"
    and "active_dims (make_empty_props :: 'f dim_value hcs) = all_dimensions_list"
    and "\<not> holds (fsm_of E) (table_of E) (make_empty_props :: 'f dim_value hcs) p"
proof -
  have eq: "(make_empty_props :: 'f dim_value hcs) = HC True all_dimensions_list all_dimensions_list []"
    by (simp add: make_empty_props_def new_props_def)
  have ok: "hc_ok (env_dims E) (val_ok E) all_dimensions_list all_dimensions_list
      (HC True all_dimensions_list all_dimensions_list [] :: 'f dim_value hcs)"
  proof -
    have "hc_ok (env_dims E) (val_ok E) (d # ds) (d # ds) (HC True (d # ds) (d # ds) [])" for d ds
      by (simp add: keys_ok_def)
    then show ?thesis unfolding all_dimensions_list_def by blast
  qed
  have ord: "dims_by_order all_dimensions_list all_dimensions_list = all_dimensions_list"
    by (simp add: dims_by_order_def)
  show "cubes_ok (fsm_of E) (table_of E) (make_empty_props :: 'f dim_value hcs)"
    unfolding eq hc_wf_def using ok ord env_domain_ok(1) [OF assms] by (simp add: list_all_iff)
  show "all_dims (make_empty_props :: 'f dim_value hcs) = all_dimensions_list"
    "\<not> hc_bool (make_empty_props :: 'f dim_value hcs)" "is_props (make_empty_props :: 'f dim_value hcs)"
    "active_dims (make_empty_props :: 'f dim_value hcs) = all_dimensions_list"
    "\<not> holds (fsm_of E) (table_of E) (make_empty_props :: 'f dim_value hcs) p"
    unfolding eq by (simp_all add: all_dimensions_list_def)
qed


lemma values_dset:
  assumes "env_ok E" and "d \<in> set all_dimensions_list" and "val_ok E d v"
  shows "dv_eq (fsm_of E) v (env_domain E d) \<longleftrightarrow> (\<forall>x. dv_mem (fsm_of E) x v = dv_mem (fsm_of E) x (env_domain E d))"
    and "dv_bool (fsm_of E) v \<longleftrightarrow> (\<exists>x. dv_mem (fsm_of E) x v)"
    and "dv_is_full (fsm_of E) (env_domain E d) v \<longleftrightarrow> dv_eq (fsm_of E) v (env_domain E d)"
proof -
  note M = env_values [OF assms(1)]
  have dom: "dim_domain (env_dims E) d = Some (env_domain E d)"
    using env_domain_ok(1) [OF assms(1,2)] by simp
  show eq: "dv_eq (fsm_of E) v (env_domain E d) \<longleftrightarrow> (\<forall>x. dv_mem (fsm_of E) x v = dv_mem (fsm_of E) x (env_domain E d))"
    using dim_values.eq_law [OF M assms(3) env_domain_ok(3) [OF assms(1,2)]]
    by (simp add: dset_def set_eq_iff)
  show "dv_bool (fsm_of E) v \<longleftrightarrow> (\<exists>x. dv_mem (fsm_of E) x v)"
    using dim_values.bool_law [OF M assms(3)] by (simp add: dset_def)
  show "dv_is_full (fsm_of E) (env_domain E d) v \<longleftrightarrow> dv_eq (fsm_of E) v (env_domain E d)"
    using dim_values.full_law [OF M dom assms(3)] eq by (simp add: dset_def set_eq_iff)
qed

lemma active_of_points:
  assumes "env_ok E" and "cube_ok E c" and "point_in (fsm_of E) (table_of E) all_dimensions_list p"
  shows "cube_points E c p \<longleftrightarrow> in_cube (env_dims E) p (active_of E c) (map (cube_val c) (active_of E c))"
proof -
  have inactive: "dv_mem (fsm_of E) (p d) (cube_val c d)"
    if "d \<in> set all_dimensions_list" "dv_eq (fsm_of E) (cube_val c d) (env_domain E d)" for d
  proof -
    have "dv_mem (fsm_of E) (p d) (env_domain E d)"
      using dim_values.in_space_mem [OF env_values [OF assms(1)] assms(3) that(1)]
        env_domain_ok(1) [OF assms(1) that(1)] by simp
    then show ?thesis
      using values_dset(1) [OF assms(1) that(1) get_dim_ok(2) [OF assms(2) that(1)]] that(2) by simp
  qed
  have "in_cube (env_dims E) p ds (map f ds) \<longleftrightarrow> (\<forall>d\<in>set ds. dv_mem (fsm_of E) (p d) (f d))" for ds f
    by (simp add: in_cube_def list.rel_map list_all2_same)
  then have "in_cube (env_dims E) p (active_of E c) (map (cube_val c) (active_of E c)) \<longleftrightarrow>
      (\<forall>d\<in>set (active_of E c). dv_mem (fsm_of E) (p d) (cube_val c d))" .
  moreover have "cube_points E c p \<longleftrightarrow> (\<forall>d\<in>set (active_of E c). dv_mem (fsm_of E) (p d) (cube_val c d))"
    using inactive by (auto simp: cube_points_def active_of_def)
  ultimately show ?thesis by simp
qed

text \<open>A cube without named ports becomes a set of connections with exactly its points.\<close>

definition props_of_cube :: "'f env \<Rightarrow> 'f conn_cube \<Rightarrow> 'f dim_value hcs \<Rightarrow> bool" where
  "props_of_cube E c r \<longleftrightarrow>
     cubes_ok (fsm_of E) (table_of E) r \<and> all_dims r = all_dimensions_list \<and> is_props r \<and>
     (\<forall>p. point_in (fsm_of E) (table_of E) all_dimensions_list p \<longrightarrow>
          holds (fsm_of E) (table_of E) r p = cube_points E c p) \<and>
     (hc_bool r \<and> active_dims r = active_of E c \<or> r = make_empty_props)"

lemma all_props_ok:
  fixes E :: "'f env"
  assumes "env_ok E"
  shows "cubes_ok (fsm_of E) (table_of E) (make_all_props :: 'f dim_value hcs)"
    and "all_dims (make_all_props :: 'f dim_value hcs) = all_dimensions_list"
    and "hc_bool (make_all_props :: 'f dim_value hcs)" and "is_props (make_all_props :: 'f dim_value hcs)"
    and "active_dims (make_all_props :: 'f dim_value hcs) = []"
    and "holds (fsm_of E) (table_of E) (make_all_props :: 'f dim_value hcs) p"
proof -
  have eq: "(make_all_props :: 'f dim_value hcs) = HC True all_dimensions_list [] []"
    by (simp add: make_all_props_def new_props_def)
  show "cubes_ok (fsm_of E) (table_of E) (make_all_props :: 'f dim_value hcs)"
    unfolding eq hc_wf_def using env_domain_ok(1) [OF assms] by (simp add: list_all_iff dims_by_order_def)
  show "all_dims (make_all_props :: 'f dim_value hcs) = all_dimensions_list"
    "hc_bool (make_all_props :: 'f dim_value hcs)" "is_props (make_all_props :: 'f dim_value hcs)"
    "active_dims (make_all_props :: 'f dim_value hcs) = []"
    "holds (fsm_of E) (table_of E) (make_all_props :: 'f dim_value hcs) p"
    unfolding eq by (simp_all add: all_dimensions_list_def)
qed

lemma cube_not_empty:
  assumes E: "env_ok E" and c: "cube_ok E c" and fe: "no_false_empty E c"
    and names: "cc_named c = []" "cc_excluded c = []" and e: "cube_is_empty E c = Some True"
  shows "\<not> cube_points E c p"
proof -
  obtain d where d: "d \<in> set all_dimensions_list" "dv_eq (fsm_of E) (cube_val c d) (env_empty E d)"
    using e cube_is_empty_ok [OF E c] by auto
  then have "d \<notin> {''hosts'', ''paths''}" using fe by (auto simp: no_false_empty_def)
  then have "env_empty E d = Intervals []" using env_interval_dims(2) [OF E d(1)] by blast
  then have v: "cube_val c d = Intervals []" using d(2) by (cases "cube_val c d") auto
  have "\<not> dv_mem (fsm_of E) (p d) (cube_val c d)" unfolding v using int_points.iset_mem_iff [of "[]"] by (cases "p d") simp_all
  then show ?thesis using d(1) by (auto simp: cube_points_def)
qed

lemma get_ports_item:
  assumes E: "env_ok E" and c: "cube_ok E c" and d: "d = ''src_ports'' \<or> d = ''dst_ports''"
  obtains xs where "cube_val c d = Intervals xs" "int_canonical xs"
    and "get_item E c d = Some (Ext_Ports (let a = add_ports (mk_port_set False) xs
            in if d = ''dst_ports'' then a\<lparr>named := cc_named c, excluded := cc_excluded c\<rparr> else a))"
proof -
  have d': "d \<in> set all_dimensions_list" "d \<notin> {''hosts'', ''paths''}" using d by (auto simp: all_dimensions_list_def)
  obtain xs where "cube_val c d = Intervals xs" "int_canonical xs"
    using env_interval_dims(3) [OF E d'] get_dim_ok(2) [OF c d'(1)] by blast
  then show ?thesis
    using that [of xs] get_dim_ok(1) [OF c d'(1)] d by (elim disjE) (simp_all add: get_item_def Let_def)
qed

lemma plain_conn_props_ok:
  fixes E :: "'f env"
  assumes E: "env_ok E" and c: "cube_ok E c" and fe: "no_false_empty E c"
    and names: "cc_named c = []" "cc_excluded c = []"
  shows "\<exists>r. plain_conn_props E c = Some r \<and> props_of_cube E c r"
proof (cases "cube_is_empty E c = Some True")
  case True
  then show ?thesis
    using empty_props_ok [OF E] cube_not_empty [OF E c fe names True]
    by (simp add: plain_conn_props_def props_of_cube_def)
next
  case False
  obtain b where "cube_is_empty E c = Some b" by (rule that [OF cube_is_empty_ok [OF E c]])
  then have ne: "cube_is_empty E c = Some False" using False by (cases b) simp_all
  let ?act = "active_of E c" and ?vs = "map (cube_val c) (active_of E c)"
  have ports: "\<exists>x. get_item E c d = Some x" if "d = ''src_ports'' \<or> d = ''dst_ports''" for d
    by (rule get_ports_item [OF E c that]) (rule exI)
  obtain x1 where x1: "get_item E c ''src_ports'' = Some x1" using ports by blast
  obtain x2 where "get_item E c ''dst_ports'' = Some x2" using ports by blast
  note items = x1 this
  have act_in: "d \<in> set all_dimensions_list" if "d \<in> set ?act" for d using that by (simp add: active_of_def)
  show ?thesis
  proof (cases "?act = []")
    case True
    have "cube_points E c p" if "point_in (fsm_of E) (table_of E) all_dimensions_list p" for p
      using active_of_points [OF E c that] True by (simp add: in_cube_def)
    then have "props_of_cube E c make_all_props"
      using all_props_ok [OF E] True by (simp add: props_of_cube_def)
    moreover have "plain_conn_props E c = Some make_all_props"
      using ne items True ordered_cube_ok [OF E c] names by (simp add: plain_conn_props_def)
    ultimately show ?thesis by simp
  next
    case act: False
    have ord: "dims_by_order (all_dims (make_empty_props :: 'f dim_value hcs)) ?act = ?act"
      unfolding empty_props_ok(2) [OF E] dims_by_order_def active_of_def by (rule filter_cong) auto
    have "list_all2 (val_ok E) ?act ?vs"
      using get_dim_ok(2) [OF c] act_in by (simp add: list.rel_map list_all2_same)
    from dim_values.hc_add_cube_ok [OF env_values [OF E] empty_props_ok(1) [OF E] _ ord this, of "Some ?act"]
    obtain r where r: "hc_add_cube (env_dims E) make_empty_props ?vs (Some ?act) = Some r"
      "cubes_ok (fsm_of E) (table_of E) r" "all_dims r = all_dimensions_list" "is_props r"
      "\<And>p. point_in (fsm_of E) (table_of E) all_dimensions_list p \<Longrightarrow>
         holds (fsm_of E) (table_of E) r p \<longleftrightarrow> in_cube (env_dims E) p ?act ?vs"
      using act empty_props_ok [OF E] by fastforce
    have "hc_bool r \<and> active_dims r = ?act \<or> r = make_empty_props"
    proof (cases "list_ex (\<lambda>v. \<not> dv_bool (fsm_of E) v) ?vs")
      case True
      then show ?thesis using r(1) by (simp add: hc_add_cube_def)
    next
      case all: False
      have "list_all2 (\<lambda>d k. v_bool (env_dims E) k \<and>
          (\<exists>w. dim_domain (env_dims E) d = Some w \<and> \<not> dim_is_full (env_dims E) d w k)) ?act ?vs"
      proof -
        have "v_bool (env_dims E) (cube_val c d) \<and>
            (\<exists>w. dim_domain (env_dims E) d = Some w \<and> \<not> dim_is_full (env_dims E) d w (cube_val c d))"
          if "d \<in> set ?act" for d
          using that all env_domain_ok(1) [OF E act_in [OF that]]
            values_dset(3) [OF E act_in [OF that] get_dim_ok(2) [OF c act_in [OF that]]]
          by (auto simp: active_of_def list_ex_iff)
        then show ?thesis by (simp add: list.rel_map list_all2_same)
      qed
      then show ?thesis
        using dim_values.hc_add_cube_active [OF env_values [OF E] _ _ empty_props_ok(1,3) [OF E] r(1)] act
        by simp
    qed
    then have "props_of_cube E c r"
      using r active_of_points [OF E c] by (simp add: props_of_cube_def)
    moreover have "plain_conn_props E c = Some r"
      using ne items act ordered_cube_ok [OF E c] names r(1) by (simp add: plain_conn_props_def)
    ultimately show ?thesis by simp
  qed
qed


text \<open>The environment the program starts with, and the one of the examples.\<close>

lemma initial_env_ok:
  assumes "fsm_laws F" and "init_regexes_ok F" and "int_canonical xs" and "xs \<noteq> []" and "base_ok B"
  shows "\<exists>dt. init_dim_table F xs = Some dt \<and> env_ok \<lparr>fsm_of = F, table_of = dt, base_of = B\<rparr>"
proof -
  obtain dt where dt: "init_dim_table F xs = Some dt" "table_ok F dt"
    using init_dim_table_ok [OF assms(2-4)] by blast
  obtain w p e where dfas: "dfa_all_words F default_alphabet_regex = Some w" "dfa_path_domain F = Some p"
    "dfa_from_regex F '''' = Some e"
    using dt(1) by (auto simp: init_dim_table_def split: bind_splits)
  have "env_ok \<lparr>fsm_of = F, table_of = dt, base_of = B\<rparr>"
    using dt dfas assms(1,5)
    by (auto simp: env_ok_def init_dim_table_def Let_def dict_of_list_def all_dimensions_list_def
        get_dimension_domain_by_name_def get_empty_dimension_by_name_def)
  then show ?thesis using dt(1) by blast
qed

section \<open>External values\<close>

lemma iset_or_nil: "int_canonical xs \<Longrightarrow> iset_or [] xs = xs"
  by (rule int_points.canonical_unique) (simp_all add: int_points.iset_or_canonical int_points.iset_or_set)

lemma set_ports_ok:
  assumes E: "env_ok E" and c: "cube_ok E c" and a: "int_canonical (ports a)"
  shows "\<exists>c'. set_item E c ''dst_ports'' (Ext_Ports a) = Some c' \<and> cube_ok E c' \<and>
           cube_val c' = (cube_val c)(''dst_ports'' := Intervals (ports a)) \<and>
           cc_named c' = named a \<and> cc_excluded c' = excluded a"
proof -
  have d: "''dst_ports'' \<in> set all_dimensions_list" by (simp add: all_dimensions_list_def)
  have "val_ok E ''dst_ports'' (Intervals (ports a))" using a env_interval_dims(3) [OF E d] by simp
  from set_dim_ok [OF c d this] obtain c' where
    c': "set_dim_directly c ''dst_ports'' (Intervals (ports a)) = Some c'" "cube_ok E c'"
    "cube_val c' = (cube_val c)(''dst_ports'' := Intervals (ports a))" by blast
  define c2 where "c2 = c'\<lparr>cc_named := named a, cc_excluded := excluded a\<rparr>"
  have "cube_ok E c2" "cube_val c2 = cube_val c'" "cc_named c2 = named a" "cc_excluded c2 = excluded a"
    using c'(2) by (simp_all add: c2_def cube_ok_def cube_val_def fun_eq_iff)
  moreover have "set_item E c ''dst_ports'' (Ext_Ports a) = Some c2"
    using c' c d by (simp add: set_item_def cube_ok_def c2_def)
  ultimately show ?thesis using c'(3) by simp
qed

lemma set_get_src_ports:
  assumes E: "env_ok E" and c: "cube_ok E c" and a: "int_canonical (ports a)"
  shows "\<exists>c'. set_item E c ''src_ports'' (Ext_Ports a) = Some c' \<and> cube_ok E c' \<and>
           get_item E c' ''src_ports'' = Some (Ext_Ports \<lparr>ports = ports a, named = [], excluded = []\<rparr>)"
proof -
  have d: "''src_ports'' \<in> set all_dimensions_list" by (simp add: all_dimensions_list_def)
  have "val_ok E ''src_ports'' (Intervals (ports a))" using a env_interval_dims(3) [OF E d] by simp
  from set_dim_ok [OF c d this] obtain c' where
    c': "set_dim_directly c ''src_ports'' (Intervals (ports a)) = Some c'" "cube_ok E c'"
    "cube_val c' = (cube_val c)(''src_ports'' := Intervals (ports a))" by blast
  have "set_item E c ''src_ports'' (Ext_Ports a) = Some c'"
    using c' c d by (simp add: set_item_def cube_ok_def)
  moreover have "get_item E c' ''src_ports'' = Some (Ext_Ports \<lparr>ports = ports a, named = [], excluded = []\<rparr>)"
  proof (rule get_ports_item [OF E c'(2), of "''src_ports''"])
    fix ys
    assume "cube_val c' ''src_ports'' = Intervals ys"
      "get_item E c' ''src_ports'' = Some (Ext_Ports (let a = add_ports (mk_port_set False) ys
        in if ''src_ports'' = ''dst_ports'' then a\<lparr>named := cc_named c', excluded := cc_excluded c'\<rparr> else a))"
    then show ?thesis using c'(3) a by (simp add: add_ports_def mk_port_set_def iset_or_nil)
  qed simp
  ultimately show ?thesis using c'(2) by blast
qed

lemma get_ports_ok:
  assumes "env_ok E" and "cube_ok E c" and "cube_val c ''dst_ports'' = Intervals xs"
  shows "get_item E c ''dst_ports'' =
     Some (Ext_Ports \<lparr>ports = xs, named = cc_named c, excluded = cc_excluded c\<rparr>)"
proof (rule get_ports_item [OF assms(1,2), of "''dst_ports''"])
  fix ys
  assume "cube_val c ''dst_ports'' = Intervals ys" "int_canonical ys"
    "get_item E c ''dst_ports'' = Some (Ext_Ports (let a = add_ports (mk_port_set False) ys
        in if ''dst_ports'' = ''dst_ports'' then a\<lparr>named := cc_named c, excluded := cc_excluded c\<rparr> else a))"
  then show ?thesis using assms(3) by (simp add: add_ports_def mk_port_set_def iset_or_nil)
qed simp

abbreviation peers_dim :: "dim \<Rightarrow> bool" where
  "peers_dim d \<equiv> d = ''src_peers'' \<or> d = ''dst_peers''"

lemma peers_dim_in: "peers_dim d \<Longrightarrow> d \<in> set all_dimensions_list \<and> d \<notin> {''hosts'', ''paths''}"
  by (auto simp: all_dimensions_list_def)

lemma set_peers_ok:
  assumes E: "env_ok E" and c: "cube_ok E c" and d: "peers_dim d"
    and s: "list_all peer_ok s" and num: "\<forall>e\<in>ps_points s. numbered (base_of E) e"
  shows "\<exists>c' xs. set_item E c d (Ext_Peers s) = Some c' \<and> cube_ok E c' \<and>
           cube_val c' = (cube_val c)(d := Intervals xs) \<and> int_canonical xs \<and>
           iset_set xs = index_of (base_of E) ` ps_points s \<and>
           cc_named c' = cc_named c \<and> cc_excluded c' = cc_excluded c"
proof -
  have B: "base_ok (base_of E)" using E by (simp add: env_ok_def)
  obtain xs where xs: "get_peer_interval_of (base_of E) s = Some xs" "int_canonical xs"
    "iset_set xs = index_of (base_of E) ` ps_points s"
    using get_peer_interval_of_ok [OF B s num] by blast
  note din = peers_dim_in [OF d, THEN conjunct1]
  have "val_ok E d (Intervals xs)"
    using xs(2) env_interval_dims(3) [OF E din peers_dim_in [OF d, THEN conjunct2]] by simp
  from set_dim_ok [OF c din this] obtain c' where
    c': "set_dim_directly c d (Intervals xs) = Some c'" "cube_ok E c'"
    "cube_val c' = (cube_val c)(d := Intervals xs)" "cc_named c' = cc_named c" "cc_excluded c' = cc_excluded c"
    by blast
  have "set_item E c d (Ext_Peers s) = Some c'"
    using c' c d din xs(1) by (auto simp: set_item_def cube_ok_def)
  then show ?thesis using c' xs by blast
qed

lemma get_peers_ok:
  assumes E: "env_ok E" and c: "cube_ok E c" and d: "peers_dim d"
    and xs: "cube_val c d = Intervals xs" "iset_set xs \<subseteq> valid_indices (base_of E)"
  shows "\<exists>s. get_item E c d = Some (Ext_Peers s) \<and> ps_ok s \<and>
           ps_points s = {e. numbered (base_of E) e \<and> index_of (base_of E) e \<in> iset_set xs}"
proof -
  have B: "base_ok (base_of E)" using E by (simp add: env_ok_def)
  note din = peers_dim_in [OF d, THEN conjunct1]
  have can: "int_canonical xs"
    using get_dim_ok(2) [OF c din] env_interval_dims(3) [OF E din peers_dim_in [OF d, THEN conjunct2]] xs(1)
    by simp
  obtain s where s: "get_peer_set_by_indices (base_of E) xs = Some s" "ps_ok s"
    "ps_points s = {e. numbered (base_of E) e \<and> index_of (base_of E) e \<in> iset_set xs}"
    using get_peer_set_by_indices_ok [OF B can xs(2)] by blast
  have dom: "env_domain E d = Intervals xs" if "dv_eq (fsm_of E) (Intervals xs) (env_domain E d)"
    using that by (cases "env_domain E d") simp_all
  have "get_item E c d = Some (Ext_Peers s)"
    using get_dim_ok(1) [OF c din] is_active_ok [OF E c din] env_domain_ok(1) [OF E din] d xs(1) dom s(1)
    by (auto simp: get_item_def)
  then show ?thesis using s by blast
qed

lemma index_preimage:
  assumes "base_ok B" and "\<forall>e\<in>S. numbered B e"
  shows "{e. numbered B e \<and> index_of B e \<in> index_of B ` S} = S"
proof (intro set_eqI iffI)
  fix e
  assume e: "e \<in> {e. numbered B e \<and> index_of B e \<in> index_of B ` S}"
  then obtain f where f: "f \<in> S" "index_of B e = index_of B f" by auto
  have "e = f" using index_of_inj [OF assms(1) _ _ f(2)] e f(1) assms(2) by simp
  then show "e \<in> S" using f(1) by simp
qed (use assms(2) in auto)

text \<open>
  C25. Setting a value of a well-formed cube and reading it back never raises. A set of destination
  ports comes back as it was, with its named and excluded ports. A set of source ports comes back
  with its numbers only: named and excluded ports are dropped without notice. A set of peers that
  are numbered comes back as a set with the same endpoints, whether the cube then restricts the
  dimension or not.
\<close>

theorem cube_set_get:
  assumes "env_ok E" and "cube_ok E c"
    and "int_canonical (ports a)" and "peers_dim d" and "list_all peer_ok s"
    and "\<forall>e\<in>ps_points s. numbered (base_of E) e"
  shows "(\<exists>c'. set_item E c ''dst_ports'' (Ext_Ports a) = Some c' \<and> cube_ok E c' \<and>
            get_item E c' ''dst_ports'' = Some (Ext_Ports a)) \<and>
         (\<exists>c'. set_item E c ''src_ports'' (Ext_Ports a) = Some c' \<and> cube_ok E c' \<and>
            get_item E c' ''src_ports'' = Some (Ext_Ports \<lparr>ports = ports a, named = [], excluded = []\<rparr>)) \<and>
         (\<exists>c' r. set_item E c d (Ext_Peers s) = Some c' \<and> cube_ok E c' \<and>
            get_item E c' d = Some (Ext_Peers r) \<and> ps_ok r \<and> ps_points r = ps_points s)"
proof -
  obtain c1 where c1: "set_item E c ''dst_ports'' (Ext_Ports a) = Some c1" "cube_ok E c1"
    "cube_val c1 = (cube_val c)(''dst_ports'' := Intervals (ports a))" "cc_named c1 = named a"
    "cc_excluded c1 = excluded a"
    using set_ports_ok [OF assms(1-3)] by blast
  have p: "get_item E c1 ''dst_ports'' = Some (Ext_Ports a)"
    using get_ports_ok [OF assms(1) c1(2), of "ports a"] c1(3-) by simp
  obtain c2 xs where c2: "set_item E c d (Ext_Peers s) = Some c2" "cube_ok E c2"
    "cube_val c2 = (cube_val c)(d := Intervals xs)" "iset_set xs = index_of (base_of E) ` ps_points s"
    using set_peers_ok [OF assms(1,2,4-6)] by blast
  have B: "base_ok (base_of E)" using assms(1) by (simp add: env_ok_def)
  have "iset_set xs \<subseteq> valid_indices (base_of E)" using assms(6) index_of_valid by (auto simp: c2(4))
  then obtain r where r: "get_item E c2 d = Some (Ext_Peers r)" "ps_ok r"
    "ps_points r = {e. numbered (base_of E) e \<and> index_of (base_of E) e \<in> iset_set xs}"
    using get_peers_ok [OF assms(1) c2(2) assms(4), of xs] c2(3) by auto
  have "ps_points r = ps_points s"
    unfolding r(3) c2(4) by (rule index_preimage [OF B assms(6)])
  then show ?thesis using c1(1,2) p c2(1,2) r(1,2) set_get_src_ports [OF assms(1-3)] by blast
qed

definition language_env :: "int interval_set \<Rightarrow> base_peers \<Rightarrow> string set env" where
  "language_env xs B =
     \<lparr>fsm_of = languages, table_of = the (init_dim_table languages xs), base_of = B\<rparr>"

lemma language_env_ok:
  assumes "int_canonical xs" and "xs \<noteq> []" and "base_ok B"
  shows "env_ok (language_env xs B)"
  using initial_env_ok [OF languages_laws languages_regexes assms] unfolding language_env_def by force

definition example_env :: "string set env" where
  "example_env = language_env get_all_peers_and_ip_blocks_interval example_numbering"

lemma all_peers_interval_ok:
  "int_canonical get_all_peers_and_ip_blocks_interval" "get_all_peers_and_ip_blocks_interval \<noteq> []"
  unfolding all_peers_interval by (simp_all add: canonical_def iv_valid_def index_defs)

lemma example_env_ok: "env_ok example_env" and example_base [simp]: "base_of example_env = example_numbering"
  using language_env_ok [OF all_peers_interval_ok example_numbering_ok]
  by (simp_all add: example_env_def language_env_def)

lemma example_numbered: "\<forall>e\<in>ps_points [example_pod ''b'', example_block 0 7]. numbered (base_of example_env) e"
  by (auto simp: numbered_def example_numbering_def)

lemma initial_words:
  assumes "init_dim_table F xs = Some dt"
  shows "\<exists>w p e. dfa_all_words F default_alphabet_regex = Some w \<and> dfa_path_domain F = Some p \<and>
           dfa_from_regex F '''' = Some e \<and>
           get_dimension_domain_by_name dt ''hosts'' = Some (Automaton w) \<and>
           get_dimension_domain_by_name dt ''paths'' = Some (Automaton p) \<and>
           get_empty_dimension_by_name dt ''hosts'' = Some (Automaton e) \<and>
           get_empty_dimension_by_name dt ''paths'' = Some (Automaton e)"
  using assms
  by (auto simp: init_dim_table_def Let_def dict_of_list_def get_dimension_domain_by_name_def
      get_empty_dimension_by_name_def split: bind_splits)

lemma language_words:
  assumes "d \<in> {''hosts'', ''paths''}" and "int_canonical xs" and "xs \<noteq> []"
  shows "\<not> dv_eq (fsm_of (language_env xs B)) (env_domain (language_env xs B) d) (env_empty (language_env xs B) d)"
proof -
  have parse: "f_parse languages s = Some (if CHR ''*'' \<in> set s then UNIV else {s})" for s
    by (simp add: languages_def)
  have init: "\<exists>dt. init_dim_table languages xs = Some dt"
    using init_dim_table_ok [OF languages_regexes assms(2,3)] by blast
  obtain w p e where wpe: "dfa_all_words languages default_alphabet_regex = Some w"
    "dfa_path_domain languages = Some p" "dfa_from_regex languages '''' = Some e"
    "env_domain (language_env xs B) ''hosts'' = Automaton w" "env_domain (language_env xs B) ''paths'' = Automaton p"
    "env_empty (language_env xs B) ''hosts'' = Automaton e" "env_empty (language_env xs B) ''paths'' = Automaton e"
    using init initial_words unfolding env_domain_def env_empty_def language_env_def by fastforce
  have "fsm w = UNIV" "fsm p = UNIV" "fsm e = {''''}"
    using wpe(1-3)
    by (auto simp: dfa_all_words_def dfa_path_domain_def dfa_from_regex_def parse default_alphabet_regex_def)
  moreover have "UNIV \<noteq> {[] :: char list}" by (metis UNIV_I list.distinct(1) singletonD)
  moreover have "fsm_of (language_env xs B) = languages" by (simp add: language_env_def)
  ultimately show ?thesis using assms(1) wpe(4-7) by (auto simp: dfa_eq_iff [OF languages_laws])
qed

lemma example_words_domain:
  assumes "d \<in> {''hosts'', ''paths''}"
  shows "\<not> dv_eq (fsm_of example_env) (env_domain example_env d) (env_empty example_env d)"
  using language_words [OF assms all_peers_interval_ok] by (simp add: example_env_def)

theorem cube_set_get_witness:
  "\<exists>c c' r. new_cube example_env [] = Some c \<and>
     set_item example_env c ''dst_peers'' (Ext_Peers [example_pod ''b'', example_block 0 7]) = Some c' \<and>
     get_item example_env c' ''dst_peers'' = Some (Ext_Peers r) \<and>
     ps_points r = ps_points [example_pod ''b'', example_block 0 7]"
proof -
  obtain c where c: "new_cube example_env [] = Some c" "cube_ok example_env c"
    using new_cube_ok [OF example_env_ok] by blast
  have "list_all peer_ok [example_pod ''b'', example_block 0 7]"
    using example_ps_ok(2) by (simp only: ps_ok_def)
  from cube_set_get [OF example_env_ok c(2) _ _ this example_numbered, of "mk_port_set False" "''dst_peers''"]
  show ?thesis using c(1) by (auto simp: mk_port_set_def)
qed

section \<open>Connections of a cube\<close>

lemma false_empty:
  assumes "env_ok E" and "cube_ok E c" and "\<not> no_false_empty E c"
  shows "plain_conn_props E c = Some make_empty_props"
proof -
  have "\<exists>d\<in>set all_dimensions_list. dv_eq (fsm_of E) (cube_val c d) (env_empty E d) \<and> d \<noteq> ''dst_ports''"
    using assms(3) by (auto simp: no_false_empty_def all_dimensions_list_def)
  then have "cube_is_empty E c = Some True" using cube_is_empty_ok [OF assms(1,2)] by auto
  then show ?thesis by (simp add: plain_conn_props_def)
qed

text \<open>
  C24. A well-formed cube without named and excluded ports becomes a set of connections that is
  well-formed and over all dimensions; the cube is not changed and nothing raises. The set has
  exactly the points of the cube, with one exception: the value that stands for an empty set of
  hosts or paths is the automaton that accepts the empty word, so a cube with exactly this value is
  taken as empty and gives no connections, whatever its points are.
\<close>

theorem conn_props_points:
  assumes "env_ok E" and "cube_ok E c" and "cc_named c = []" and "cc_excluded c = []"
  shows "\<exists>r. make_conn_props E c = Some (r, c) \<and> cubes_ok (fsm_of E) (table_of E) r \<and>
           all_dims r = all_dimensions_list \<and>
           (\<forall>p. point_in (fsm_of E) (table_of E) all_dimensions_list p \<longrightarrow>
                holds (fsm_of E) (table_of E) r p = (no_false_empty E c \<and> cube_points E c p))"
proof -
  obtain r where r: "plain_conn_props E c = Some r" "cubes_ok (fsm_of E) (table_of E) r"
    "all_dims r = all_dimensions_list"
    "\<forall>p. point_in (fsm_of E) (table_of E) all_dimensions_list p \<longrightarrow>
       holds (fsm_of E) (table_of E) r p = (no_false_empty E c \<and> cube_points E c p)"
  proof (cases "no_false_empty E c")
    case True
    then show thesis
      using plain_conn_props_ok [OF assms(1,2) True assms(3,4)] that unfolding props_of_cube_def by blast
  next
    case False
    then show thesis
      using false_empty [OF assms(1,2) False] empty_props_ok [OF assms(1)] that by blast
  qed
  obtain x where src: "get_item E c ''src_ports'' = Some x"
    by (rule get_ports_item [OF assms(1,2), of "''src_ports''"]) (auto intro: that)
  obtain a where dst: "get_item E c ''dst_ports'' = Some (Ext_Ports a)" "named a = []" "excluded a = []"
    using assms(3,4) by (rule_tac get_ports_item [OF assms(1,2), of "''dst_ports''"]) (auto intro: that)
  have "make_conn_props E c = Some (r, c)"
    using src dst r(1) by (simp add: make_conn_props_def)
  then show ?thesis using r(2-4) by blast
qed

theorem conn_props_points_witness:
  "\<exists>c r. make_from_dict example_env [(''dst_ports'', Ext_Ports (make_port_set_with_range 80 443))] = Some c \<and>
     make_conn_props example_env c = Some (r, c) \<and>
     cubes_ok (fsm_of example_env) (table_of example_env) r"
proof -
  obtain c where c: "new_cube example_env [] = Some c" "cube_ok example_env c"
    "\<forall>d\<in>set all_dimensions_list. cube_val c d = env_domain example_env d"
    using new_cube_ok [OF example_env_ok] by blast
  have a: "ports (make_port_set_with_range 80 443) = [Interval 80 443]"
    "named (make_port_set_with_range 80 443) = []" "excluded (make_port_set_with_range 80 443) = []"
    by (simp_all add: make_port_set_with_range_def add_port_range_def mk_port_set_def add_interval_def)
  have "int_canonical (ports (make_port_set_with_range 80 443))" unfolding a by simp
  from set_ports_ok [OF example_env_ok c(2) this] a obtain c' where
    c': "set_item example_env c ''dst_ports'' (Ext_Ports (make_port_set_with_range 80 443)) = Some c'"
    "cube_ok example_env c'" "cube_val c' = (cube_val c)(''dst_ports'' := Intervals [Interval 80 443])"
    "cc_named c' = []" "cc_excluded c' = []" by auto
  from conn_props_points [OF example_env_ok c'(2,4,5)] c(1) c'(1)
  show ?thesis by (auto simp: make_from_dict_def cube_update_def)
qed

end
