(* ===== verification/Peer_Container.thy ===== *)
theory Peer_Container
  imports Peers Port_Sets
begin

text \<open>
  \<open>nca/Resources/OtherResources/K8sService.py\<close> and \<open>nca/NetworkConfig/PeerContainer.py\<close>: services,
  and the topology (peers, namespaces, services) with the queries that policies are built from.
  The warnings that are only printed are left out; \<open>re.fullmatch\<close> is a parameter.
\<close>

section \<open>Services\<close>

datatype service_type = ClusterIP | NodePort | LoadBalancer | ExternalName

record service_port =
  port_num :: int
  sp_name :: string
  sp_protocol :: string
  target_port :: port

record k8s_service =
  svc_name :: string
  svc_namespace_name :: string
  svc_namespace :: "namespace option"
  svc_type :: service_type
  svc_selector :: "(string \<times> string) list"
  svc_ports :: "(string \<times> service_port) list"
  target_pods :: peer_set

definition mk_service :: "string \<Rightarrow> string \<Rightarrow> k8s_service" where
  "mk_service name ns =
     \<lparr>svc_name = name, svc_namespace_name = ns, svc_namespace = None, svc_type = ClusterIP,
      svc_selector = [], svc_ports = [], target_pods = []\<rparr>"

definition ns_option_eq :: "namespace option \<Rightarrow> namespace option \<Rightarrow> bool" where
  "ns_option_eq a b =
     (case (a, b) of (Some m, Some n) \<Rightarrow> ns_eq m n | (None, None) \<Rightarrow> True | _ \<Rightarrow> False)"

definition service_eq :: "k8s_service \<Rightarrow> k8s_service \<Rightarrow> bool" where
  "service_eq s t \<longleftrightarrow> svc_name s = svc_name t \<and> ns_option_eq (svc_namespace s) (svc_namespace t)"

definition service_full_name :: "string \<Rightarrow> namespace option \<Rightarrow> string option" where
  "service_full_name name ns = map_option (\<lambda>n. ns_name n @ ''/'' @ name) ns"

definition svc_full_name :: "k8s_service \<Rightarrow> string option" where
  "svc_full_name s = service_full_name (svc_name s) (svc_namespace s)"

definition set_type :: "k8s_service \<Rightarrow> service_type \<Rightarrow> k8s_service" where
  "set_type s ty = s\<lparr>svc_type := ty\<rparr>"

definition add_selector :: "k8s_service \<Rightarrow> string \<Rightarrow> string \<Rightarrow> k8s_service" where
  "add_selector s key val = s\<lparr>svc_selector := dict_set (=) (svc_selector s) key val\<rparr>"

definition get_single_port :: "k8s_service \<Rightarrow> service_port option" where
  "get_single_port s = (case svc_ports s of [(_, p)] \<Rightarrow> Some p | _ \<Rightarrow> None)"

definition get_port_by_name :: "k8s_service \<Rightarrow> string \<Rightarrow> service_port option" where
  "get_port_by_name s name = dict_get (=) (svc_ports s) name"

definition get_port_by_number :: "k8s_service \<Rightarrow> int \<Rightarrow> service_port option" where
  "get_port_by_number s n = List.find (\<lambda>p. port_num p = n) (map snd (svc_ports s))"

definition svc_add_port :: "k8s_service \<Rightarrow> service_port \<Rightarrow> k8s_service \<times> bool" where
  "svc_add_port s p =
     (if dict_get (=) (svc_ports s) (sp_name p) \<noteq> None then (s, False)
      else (s\<lparr>svc_ports := dict_set (=) (svc_ports s) (sp_name p) p\<rparr>, True))"

section \<open>The container\<close>

record peer_container =
  pc_peers :: peer_set
  representative_peers :: peer_set
  livesim_peers :: peer_set
  namespaces :: "(string \<times> namespace) list"
  services :: "(string \<times> k8s_service) list"

definition dict_eq :: "('v \<Rightarrow> 'v \<Rightarrow> bool) \<Rightarrow> (string \<times> 'v) list \<Rightarrow> (string \<times> 'v) list \<Rightarrow> bool" where
  "dict_eq eq a b \<longleftrightarrow>
     length a = length b \<and>
     list_all (\<lambda>(k, v). case dict_get (=) b k of Some w \<Rightarrow> eq v w | None \<Rightarrow> False) a"

definition container_eq :: "peer_container \<Rightarrow> peer_container \<Rightarrow> bool" where
  "container_eq a b \<longleftrightarrow>
     ps_eq (pc_peers a) (pc_peers b) \<and> dict_eq ns_eq (namespaces a) (namespaces b) \<and>
     dict_eq service_eq (services a) (services b)"

definition is_comparable_with_other_container :: "peer_container \<Rightarrow> peer_container \<Rightarrow> bool" where
  "is_comparable_with_other_container a b \<longleftrightarrow>
     ps_eq (pc_peers a) (pc_peers b) \<and> dict_eq service_eq (services a) (services b)"

definition get_num_peers :: "peer_container \<Rightarrow> nat" where
  "get_num_peers c = length (pc_peers c)"

definition delete_all_namespaces :: "peer_container \<Rightarrow> peer_container \<times> bool" where
  "delete_all_namespaces c =
     (if get_num_peers c > 0 then (c, False) else (c\<lparr>namespaces := []\<rparr>, True))"

definition get_namespace :: "peer_container \<Rightarrow> string \<Rightarrow> peer_container \<times> namespace" where
  "get_namespace c name =
     (case dict_get (=) (namespaces c) name of
        Some n \<Rightarrow> (c, n)
      | None \<Rightarrow> (c\<lparr>namespaces := dict_set (=) (namespaces c) name (k8s_namespace name)\<rparr>, k8s_namespace name))"

definition delete_all_peers :: "peer_container \<Rightarrow> peer_container \<times> bool" where
  "delete_all_peers c = (c\<lparr>pc_peers := [], representative_peers := [], livesim_peers := []\<rparr>, True)"

fun peer_clear_extra_labels :: "peer \<Rightarrow> peer" where
  "peer_clear_extra_labels (Pod_Peer p) = Pod_Peer (clear_extra_labels p)"
| "peer_clear_extra_labels (Host_Peer h) = Host_Peer (clear_extra_labels h)"
| "peer_clear_extra_labels (Ip_Peer b) = Ip_Peer (clear_extra_labels b)"
| "peer_clear_extra_labels (Dns_Peer d) = Dns_Peer (clear_extra_labels d)"

definition clear_pods_extra_labels :: "peer_container \<Rightarrow> peer_container" where
  "clear_pods_extra_labels c = c\<lparr>pc_peers := map peer_clear_extra_labels (pc_peers c)\<rparr>"

section \<open>Selecting peers\<close>

datatype filter_action = In_Values | Not_In | Contains | Start_With | End_With

definition contains_str :: "string \<Rightarrow> string \<Rightarrow> bool" where
  "contains_str s t = list_ex (prefix s) (suffixes t)"

text \<open>
  The test of one label, absent labels as \<open>None\<close>; the last three actions read the first value and
  raise without one.
\<close>

definition first_value_test :: "(string \<Rightarrow> string \<Rightarrow> bool) \<Rightarrow> string list \<Rightarrow> string \<Rightarrow> bool option" where
  "first_value_test P values s = (case values of [] \<Rightarrow> None | v # _ \<Rightarrow> Some (P v s))"

definition or_empty :: "string option \<Rightarrow> string" where
  "or_empty v = (case v of Some s \<Rightarrow> s | None \<Rightarrow> '''')"

definition in_values :: "string option \<Rightarrow> string list \<Rightarrow> bool" where
  "in_values v values = (case v of Some s \<Rightarrow> s \<in> set values | None \<Rightarrow> False)"

definition labels_match ::
  "filter_action \<Rightarrow> string list \<Rightarrow> string option \<Rightarrow> string option \<Rightarrow> bool option" where
  "labels_match action values a b =
     (let either = (\<lambda>P. do { x \<leftarrow> first_value_test P values (or_empty a);
                             if x then Some True else first_value_test P values (or_empty b) }) in
      case action of
        In_Values \<Rightarrow> Some (in_values a values \<or> in_values b values)
      | Not_In \<Rightarrow> Some (\<not> in_values a values \<and> \<not> in_values b values)
      | Contains \<Rightarrow> either contains_str
      | Start_With \<Rightarrow> either prefix
      | End_With \<Rightarrow> either suffix)"

definition filter_opt :: "('a \<Rightarrow> bool option) \<Rightarrow> 'a list \<Rightarrow> 'a list option" where
  "filter_opt P xs = map_option concat (map_opt (\<lambda>x. map_option (\<lambda>b. if b then [x] else []) (P x)) xs)"

definition get_peers_with_label ::
  "peer_container \<Rightarrow> string \<Rightarrow> string list \<Rightarrow> filter_action \<Rightarrow> namespace option \<Rightarrow> peer_set option" where
  "get_peers_with_label c key values action ns =
     filter_opt (\<lambda>p. if ns \<noteq> None \<and> \<not> ns_option_eq (peer_namespace p) ns then Some False
                     else labels_match action values (dict_get (=) (peer_labels p) key)
                            (dict_get (=) (peer_extra_labels p) key)) (pc_peers c)"

definition get_peers_with_key :: "peer_container \<Rightarrow> namespace option \<Rightarrow> string \<Rightarrow> bool \<Rightarrow> peer_set" where
  "get_peers_with_key c ns key does_not_exist =
     filter (\<lambda>p. \<not> (ns \<noteq> None \<and> \<not> ns_option_eq (peer_namespace p) ns) \<and>
                 (dict_get (=) (peer_labels p) key \<noteq> None \<or> dict_get (=) (peer_extra_labels p) key \<noteq> None)
                   \<noteq> does_not_exist) (pc_peers c)"

definition ns_label_match :: "filter_action \<Rightarrow> string list \<Rightarrow> string \<Rightarrow> bool option" where
  "ns_label_match action values s =
     (case action of
        In_Values \<Rightarrow> Some (s \<in> set values)
      | Not_In \<Rightarrow> Some (s \<notin> set values)
      | Contains \<Rightarrow> first_value_test contains_str values s
      | Start_With \<Rightarrow> first_value_test prefix values s
      | End_With \<Rightarrow> first_value_test suffix values s)"

definition get_namespace_pods_with_label ::
  "peer_container \<Rightarrow> string \<Rightarrow> string list \<Rightarrow> filter_action \<Rightarrow> peer_set option" where
  "get_namespace_pods_with_label c key values action =
     filter_opt (\<lambda>p. case peer_namespace p of
         None \<Rightarrow> Some False
       | Some n \<Rightarrow> ns_label_match action values (or_empty (dict_get (=) (ns_labels n) key))) (pc_peers c)"

definition get_namespace_pods_with_key :: "peer_container \<Rightarrow> string \<Rightarrow> bool \<Rightarrow> peer_set" where
  "get_namespace_pods_with_key c key does_not_exist =
     filter (\<lambda>p. case peer_namespace p of
         None \<Rightarrow> False
       | Some n \<Rightarrow> (dict_get (=) (ns_labels n) key \<noteq> None) \<noteq> does_not_exist) (pc_peers c)"

definition get_all_peers_group :: "peer_container \<Rightarrow> bool \<Rightarrow> bool \<Rightarrow> bool \<Rightarrow> peer_set option" where
  "get_all_peers_group c add_external_ips include_globals include_dns_entries =
     (let res = filter (\<lambda>p. \<not> (is_dns p \<and> \<not> include_dns_entries) \<and> (include_globals \<or> \<not> is_global_peer p))
                  (pc_peers c)
      in if add_external_ips then do { b \<leftarrow> get_all_ips_block False False; Some (set_add peer_eq res (Ip_Peer b)) }
         else Some res)"

definition get_namespace_pods :: "peer_container \<Rightarrow> namespace option \<Rightarrow> peer_set option" where
  "get_namespace_pods c ns =
     (if ns = None then get_all_peers_group c False True False
      else Some (filter (\<lambda>p. ns_option_eq (peer_namespace p) ns) (pc_peers c)))"

definition get_target_pods_with_service_name :: "peer_container \<Rightarrow> string \<Rightarrow> peer_set" where
  "get_target_pods_with_service_name c name =
     foldl ps_or [] (map (target_pods \<circ> snd) (filter (\<lambda>(k, s). svc_name s = name) (services c)))"

definition get_dns_entry_peers_matching_host_name ::
  "(string \<Rightarrow> string \<Rightarrow> bool) \<Rightarrow> peer_container \<Rightarrow> string \<Rightarrow> peer_set" where
  "get_dns_entry_peers_matching_host_name re_fullmatch c host =
     (let pattern = compute_re_pattern_from_host_name host
      in filter (\<lambda>p. case p of Dns_Peer d \<Rightarrow> pname d = host \<or> re_fullmatch pattern (pname d) | _ \<Rightarrow> False)
           (pc_peers c))"

definition get_pods_with_service_name_containing_given_string :: "peer_container \<Rightarrow> string \<Rightarrow> peer_set" where
  "get_pods_with_service_name_containing_given_string c name =
     foldl ps_or [] (map (target_pods \<circ> snd) (filter (\<lambda>(k, s). contains_str name k) (services c)))"

definition get_all_services_target_peers :: "peer_container \<Rightarrow> peer_set" where
  "get_all_services_target_peers c =
     foldl (set_add peer_eq) (foldl ps_or [] (map (target_pods \<circ> snd) (services c)))
       (filter is_dns (pc_peers c))"

definition get_services_target_peers_in_namespace :: "peer_container \<Rightarrow> namespace \<Rightarrow> peer_set" where
  "get_services_target_peers_in_namespace c ns =
     foldl (set_add peer_eq)
       (foldl ps_or [] (map (target_pods \<circ> snd)
          (filter (\<lambda>(k, s). ns_option_eq (svc_namespace s) (Some ns)) (services c))))
       (filter is_dns (pc_peers c))"

definition get_pods_with_service_account_name :: "peer_container \<Rightarrow> string \<Rightarrow> string \<Rightarrow> peer_set option" where
  "get_pods_with_service_account_name c account ns =
     filter_opt (\<lambda>p. case p of
         Pod_Peer q \<Rightarrow>
           if service_account_name q \<noteq> account then Some False
           else map_option (\<lambda>n. ns_name n = ns) (pnamespace q)
       | _ \<Rightarrow> Some False) (pc_peers c)"

fun peer_profiles :: "peer \<Rightarrow> string list" where
  "peer_profiles (Pod_Peer p) = profiles p"
| "peer_profiles (Host_Peer h) = profiles h"
| "peer_profiles _ = []"

definition get_profile_pods :: "peer_container \<Rightarrow> string \<Rightarrow> bool \<Rightarrow> peer_set" where
  "get_profile_pods c name first_profile_only =
     filter (\<lambda>p. has_profiles p \<and>
                 (if first_profile_only then hd (peer_profiles p) = name else name \<in> set (peer_profiles p)))
       (pc_peers c)"

definition get_all_dns_entries :: "peer_container \<Rightarrow> peer_set" where
  "get_all_dns_entries c = filter is_dns (pc_peers c)"

definition get_all_global_peers :: "peer_container \<Rightarrow> peer_set" where
  "get_all_global_peers c = filter is_global_peer (pc_peers c)"

definition get_all_namespaces_str_list :: "peer_container \<Rightarrow> string list" where
  "get_all_namespaces_str_list c = map fst (namespaces c)"

definition get_service_by_name_and_ns ::
  "peer_container \<Rightarrow> string \<Rightarrow> namespace option \<Rightarrow> k8s_service option option" where
  "get_service_by_name_and_ns c name ns =
     map_option (dict_get (=) (services c)) (service_full_name name ns)"

section \<open>Target pods of services\<close>

text \<open>
  The first loop reads one label of the selector after the other, and looks up the namespace each
  time; the second drops pods that do not define a named target port with the port's protocol.
  Only pods and host endpoints have named ports to look at.
\<close>

definition select_target_pods ::
  "peer_container \<times> k8s_service \<Rightarrow> string \<times> string \<Rightarrow> (peer_container \<times> k8s_service) option" where
  "select_target_pods st kv =
     (let (c, s) = st; (c, ns) = get_namespace c (svc_namespace_name s); s = s\<lparr>svc_namespace := Some ns\<rparr>
      in do { sel \<leftarrow> get_peers_with_label c (fst kv) [snd kv] In_Values (Some ns);
              Some (c, s\<lparr>target_pods := ps_and (target_pods s) sel\<rparr>) })"

definition pod_lacks_port :: "service_port \<Rightarrow> string \<Rightarrow> peer \<Rightarrow> bool option" where
  "pod_lacks_port port name p =
     (if is_ip p \<or> is_dns p then None
      else Some (case dict_get (=) (get_named_ports p) name of
                   None \<Rightarrow> True | Some (_, protocol) \<Rightarrow> protocol \<noteq> sp_protocol port))"

definition drop_pods_without_port :: "k8s_service \<Rightarrow> service_port \<Rightarrow> k8s_service option" where
  "drop_pods_without_port s port =
     (case target_port port of
        Port_Num _ \<Rightarrow> Some s
      | Port_Name name \<Rightarrow>
          do { bad \<leftarrow> filter_opt (pod_lacks_port port name) (target_pods s);
               Some (s\<lparr>target_pods := ps_sub (target_pods s) bad\<rparr>) })"

definition populate_service :: "peer_container \<Rightarrow> k8s_service \<Rightarrow> peer_container option" where
  "populate_service c s =
     (let s = (if svc_selector s \<noteq> [] then s\<lparr>target_pods := pc_peers c\<rparr> else s)
      in do { (c, s) \<leftarrow> fold_opt select_target_pods (c, s) (svc_selector s);
              s \<leftarrow> fold_opt drop_pods_without_port s (map snd (svc_ports s));
              name \<leftarrow> svc_full_name s;
              Some (c\<lparr>services := dict_set (=) (services c) name s\<rparr>) })"

definition set_services_and_populate_target_pods ::
  "peer_container \<Rightarrow> k8s_service list \<Rightarrow> peer_container option" where
  "set_services_and_populate_target_pods c svcs = fold_opt populate_service c svcs"

definition mk_peer_container ::
  "peer_set \<Rightarrow> (string \<times> namespace) list \<Rightarrow> k8s_service list \<Rightarrow> peer_set \<Rightarrow> peer_set \<Rightarrow> peer_container option" where
  "mk_peer_container peers nss svcs representative livesim =
     set_services_and_populate_target_pods
       \<lparr>pc_peers = peers, representative_peers = representative, livesim_peers = livesim,
        namespaces = nss, services = []\<rparr> svcs"


section \<open>What the selections find\<close>

lemma filter_opt_Some:
  "(\<And>x. x \<in> set xs \<Longrightarrow> P x = Some (Q x)) \<Longrightarrow> filter_opt P xs = Some (filter Q xs)"
proof (induction xs)
  case (Cons x xs)
  then have "filter_opt P xs = Some (filter Q xs)" by simp
  then obtain ys where "map_opt (\<lambda>x. map_option (\<lambda>b. if b then [x] else []) (P x)) xs = Some ys"
    "concat ys = filter Q xs" by (auto simp: filter_opt_def)
  then show ?case using Cons.prems [of x] by (simp add: filter_opt_def)
qed (simp add: filter_opt_def)

definition in_namespace :: "namespace option \<Rightarrow> peer \<Rightarrow> bool" where
  "in_namespace ns p \<longleftrightarrow> ns = None \<or> ns_option_eq (peer_namespace p) ns"

definition labelled :: "string \<Rightarrow> string list \<Rightarrow> peer \<Rightarrow> bool" where
  "labelled key values p \<longleftrightarrow>
     (\<exists>v\<in>set values. dict_get (=) (peer_labels p) key = Some v \<or> dict_get (=) (peer_extra_labels p) key = Some v)"

lemma labels_match_in:
  "labels_match In_Values values (dict_get (=) (peer_labels p) key) (dict_get (=) (peer_extra_labels p) key) =
     Some (labelled key values p)"
  "labels_match Not_In values (dict_get (=) (peer_labels p) key) (dict_get (=) (peer_extra_labels p) key) =
     Some (\<not> labelled key values p)"
  by (auto simp: labels_match_def labelled_def in_values_def split: option.splits)

lemma peers_with_label:
  "get_peers_with_label c key values In_Values ns =
     Some (filter (\<lambda>p. in_namespace ns p \<and> labelled key values p) (pc_peers c))"
  "get_peers_with_label c key values Not_In ns =
     Some (filter (\<lambda>p. in_namespace ns p \<and> \<not> labelled key values p) (pc_peers c))"
  unfolding get_peers_with_label_def
  by (rule filter_opt_Some, simp add: labels_match_in in_namespace_def)+

text \<open>Sets of endpoints without blocks, filtered from one set.\<close>

lemma filter_ips [simp]:
  assumes "\<forall>p\<in>set s. \<not> is_ip p"
  shows "ps_without_ip_block (filter P s) = filter P s" and "ps_ip_block (filter P s) = empty_block"
proof -
  have no: "\<forall>p\<in>set (filter P s). \<not> is_ip p" using assms by simp
  then show "ps_without_ip_block (filter P s) = filter P s"
    by (auto simp: ps_without_ip_block_def intro!: filter_cong)
  have "foldl (\<lambda>r p. case p of Ip_Peer b \<Rightarrow> block_ior r b | _ \<Rightarrow> r) r t = r" if "\<forall>p\<in>set t. \<not> is_ip p" for r t
    using that by (induction t) (auto simp: is_ip_def split: peer.splits)
  then show "ps_ip_block (filter P s) = empty_block" using no by (simp add: ps_ip_block_def)
qed

lemma filter_mem:
  assumes "set_ok peer_eq s" and "p \<in> set s"
  shows "set_mem peer_eq p (filter P s) \<longleftrightarrow> P p"
proof -
  have "inj_on peer_key (set s)" using assms(1) by (simp add: peers.ok_distinct distinct_map)
  then show ?thesis using assms(2) by (auto simp: peers.mem_keys inj_on_def)
qed

lemma filter_sets:
  assumes ok: "set_ok peer_eq s" and no: "\<forall>p\<in>set s. \<not> is_ip p"
  shows "ps_and (filter Q s) (filter P s) = filter (\<lambda>p. Q p \<and> P p) s"
    and "ps_sub (filter Q s) (filter P s) = filter (\<lambda>p. Q p \<and> \<not> P p) s"
proof -
  have e: "block_peer_set (block_and empty_block empty_block) = []" "block_peer_set (block_sub empty_block empty_block) = []"
    by (simp_all add: block_peer_set_def block_and_def block_sub_def iset_and_def iset_sub_def)
  show "ps_and (filter Q s) (filter P s) = filter (\<lambda>p. Q p \<and> P p) s"
    "ps_sub (filter Q s) (filter P s) = filter (\<lambda>p. Q p \<and> \<not> P p) s"
    using filter_mem [OF ok, of _ P]
    by (auto simp: ps_and_def ps_sub_def filter_ips [OF no] e ps_or_def set_union_def set_inter_def set_diff_def
        intro!: filter_cong)
qed

text \<open>The pods a service is meant to reach.\<close>

definition defines_port :: "service_port \<Rightarrow> peer \<Rightarrow> bool" where
  "defines_port port p =
     (case target_port port of
        Port_Num _ \<Rightarrow> True
      | Port_Name name \<Rightarrow> (\<exists>n. dict_get (=) (get_named_ports p) name = Some (n, sp_protocol port)))"

definition service_target :: "namespace \<Rightarrow> k8s_service \<Rightarrow> peer \<Rightarrow> bool" where
  "service_target ns s p \<longleftrightarrow>
     ns_option_eq (peer_namespace p) (Some ns) \<and>
     (\<forall>(k, v)\<in>set (svc_selector s). labelled k [v] p) \<and> (\<forall>port\<in>snd ` set (svc_ports s). defines_port port p)"

lemma get_namespace_again:
  assumes "get_namespace c name = (c', ns)"
  shows "get_namespace c' name = (c', ns)" and "pc_peers c' = pc_peers c" and "services c' = services c"
  using assms by (auto simp: get_namespace_def dict_get_set_eq split: option.splits)

lemma select_loop:
  assumes "get_namespace c (svc_namespace_name s) = (c, ns)" and "svc_namespace s = Some ns"
    and "set_ok peer_eq (pc_peers c)" and "\<forall>p\<in>set (pc_peers c). \<not> is_ip p"
    and "target_pods s = filter Q (pc_peers c)"
  shows "fold_opt select_target_pods (c, s) kvs =
    Some (c, s\<lparr>target_pods := filter (\<lambda>p. Q p \<and> (kvs \<noteq> [] \<longrightarrow> in_namespace (Some ns) p) \<and>
       (\<forall>(k, v)\<in>set kvs. labelled k [v] p)) (pc_peers c)\<rparr>)"
  using assms(1,2,5)
proof (induction kvs arbitrary: s Q)
  case Nil
  then show ?case by simp
next
  case (Cons kv kvs)
  let ?s = "s\<lparr>target_pods := filter (\<lambda>p. Q p \<and> in_namespace (Some ns) p \<and> labelled (fst kv) [snd kv] p) (pc_peers c)\<rparr>"
  have "s\<lparr>svc_namespace := Some ns\<rparr> = s" using Cons.prems(2) by (cases s) simp
  then have "select_target_pods (c, s) kv = Some (c, ?s)"
    using Cons.prems
    by (simp add: select_target_pods_def peers_with_label filter_sets [OF assms(3,4)])
  moreover have "fold_opt select_target_pods (c, ?s) kvs =
    Some (c, ?s\<lparr>target_pods := filter (\<lambda>p. (Q p \<and> in_namespace (Some ns) p \<and> labelled (fst kv) [snd kv] p) \<and>
       (kvs \<noteq> [] \<longrightarrow> in_namespace (Some ns) p) \<and> (\<forall>(k, v)\<in>set kvs. labelled k [v] p)) (pc_peers c)\<rparr>)"
    by (rule Cons.IH) (use Cons.prems in simp_all)
  ultimately show ?case
    by (cases kv) (auto intro!: filter_cong arg_cong [where f = "\<lambda>x. s\<lparr>target_pods := x\<rparr>"])
qed

lemma drop_loop:
  assumes "set_ok peer_eq peers" and "\<forall>p\<in>set peers. \<not> is_ip p \<and> \<not> is_dns p"
    and "target_pods s = filter Q peers"
  shows "fold_opt drop_pods_without_port s sps =
    Some (s\<lparr>target_pods := filter (\<lambda>p. Q p \<and> (\<forall>port\<in>set sps. defines_port port p)) peers\<rparr>)"
  using assms(3)
proof (induction sps arbitrary: s Q)
  case (Cons port sps)
  have no: "\<forall>p\<in>set peers. \<not> is_ip p" using assms(2) by simp
  let ?s = "s\<lparr>target_pods := filter (\<lambda>p. Q p \<and> defines_port port p) peers\<rparr>"
  have "drop_pods_without_port s port = Some ?s"
  proof (cases "target_port port")
    case (Port_Num n)
    then show ?thesis using Cons.prems by (cases s) (simp add: drop_pods_without_port_def defines_port_def)
  next
    case (Port_Name name)
    have "filter_opt (pod_lacks_port port name) (target_pods s) =
        Some (filter (\<lambda>p. \<not> defines_port port p) (target_pods s))"
      by (rule filter_opt_Some)
        (use assms(2) Cons.prems Port_Name in \<open>auto simp: pod_lacks_port_def defines_port_def split: option.split\<close>)
    moreover have "filter (\<lambda>p. \<not> defines_port port p) (filter Q peers) =
        filter (\<lambda>p. Q p \<and> \<not> defines_port port p) peers" by (simp add: conj_commute)
    moreover have "ps_sub (filter Q peers) (filter (\<lambda>p. Q p \<and> \<not> defines_port port p) peers) =
        filter (\<lambda>p. Q p \<and> defines_port port p) peers"
      unfolding filter_sets [OF assms(1) no] by (rule filter_cong) auto
    ultimately show ?thesis using Cons.prems Port_Name by (simp add: drop_pods_without_port_def)
  qed
  moreover have "fold_opt drop_pods_without_port ?s sps =
    Some (?s\<lparr>target_pods := filter (\<lambda>p. (Q p \<and> defines_port port p) \<and> (\<forall>port\<in>set sps. defines_port port p)) peers\<rparr>)"
    by (rule Cons.IH) simp
  ultimately show ?case
    by (auto intro!: filter_cong arg_cong [where f = "\<lambda>x. s\<lparr>target_pods := x\<rparr>"])
qed simp

text \<open>A service with a selector.\<close>

lemma populate_with_selector:
  assumes "svc_selector s \<noteq> []" and "set_ok peer_eq (pc_peers c)"
    and "\<forall>p\<in>set (pc_peers c). \<not> is_ip p \<and> \<not> is_dns p"
    and "get_namespace c (svc_namespace_name s) = (c1, ns)"
  shows "\<exists>s'. populate_service c s =
           Some (c1\<lparr>services := dict_set (=) (services c) (ns_name ns @ ''/'' @ svc_name s) s'\<rparr>) \<and>
           s' = s\<lparr>svc_namespace := Some ns, target_pods := filter (service_target ns s) (pc_peers c)\<rparr>"
proof -
  obtain kv kvs where sel: "svc_selector s = kv # kvs" using assms(1) by (cases "svc_selector s") auto
  have no: "\<forall>p\<in>set (pc_peers c). \<not> is_ip p" using assms(3) by simp
  note c1 = get_namespace_again [OF assms(4)]
  let ?Q = "\<lambda>p. in_namespace (Some ns) p \<and> labelled (fst kv) [snd kv] p"
  let ?s1 = "s\<lparr>target_pods := filter ?Q (pc_peers c), svc_namespace := Some ns\<rparr>"
  have "select_target_pods (c, s\<lparr>target_pods := pc_peers c\<rparr>) kv = Some (c1, ?s1)"
    using assms(4) filter_sets(1) [OF assms(2) no, of "\<lambda>_. True" ?Q] c1(2)
    by (simp add: select_target_pods_def peers_with_label)
  moreover have "fold_opt select_target_pods (c1, ?s1) kvs =
    Some (c1, ?s1\<lparr>target_pods := filter (\<lambda>p. ?Q p \<and> (kvs \<noteq> [] \<longrightarrow> in_namespace (Some ns) p) \<and>
       (\<forall>(k, v)\<in>set kvs. labelled k [v] p)) (pc_peers c1)\<rparr>)" (is "_ = Some (c1, ?s2)")
    by (rule select_loop) (use c1 assms(2) no in simp_all)
  ultimately have "fold_opt select_target_pods (c, s\<lparr>target_pods := pc_peers c\<rparr>) (svc_selector s) = Some (c1, ?s2)"
    using sel by simp
  moreover obtain s3 where s3: "fold_opt drop_pods_without_port ?s2 (map snd (svc_ports s)) = Some s3"
    "s3 = ?s2\<lparr>target_pods := filter (\<lambda>p. (?Q p \<and> (kvs \<noteq> [] \<longrightarrow> in_namespace (Some ns) p) \<and>
       (\<forall>(k, v)\<in>set kvs. labelled k [v] p)) \<and> (\<forall>port\<in>set (map snd (svc_ports s)). defines_port port p)) (pc_peers c)\<rparr>"
    using drop_loop [OF assms(2,3), of ?s2] c1(2) by simp
  ultimately have "populate_service c s =
      Some (c1\<lparr>services := dict_set (=) (services c) (ns_name ns @ ''/'' @ svc_name s) s3\<rparr>)"
    using assms(1) c1(3) by (simp add: populate_service_def svc_full_name_def service_full_name_def)
  moreover have "target_pods s3 = filter (service_target ns s) (pc_peers c)"
    using sel by (cases kv) (force simp: s3(2) service_target_def in_namespace_def intro!: filter_cong)
  ultimately show ?thesis using s3(2) by auto
qed

section \<open>Properties\<close>

text \<open>
  Selecting by label with \<open>In\<close> gives exactly the peers of the namespace that have one of
  the values as a label or extra label, and \<open>NotIn\<close> gives exactly the others: the two split the
  peers of the namespace, and peers without the key are with \<open>NotIn\<close>.
\<close>

theorem label_selection_partition:
  "get_peers_with_label c key values In_Values ns =
     Some (filter (\<lambda>p. in_namespace ns p \<and> labelled key values p) (pc_peers c)) \<and>
   get_peers_with_label c key values Not_In ns =
     Some (filter (\<lambda>p. in_namespace ns p \<and> \<not> labelled key values p) (pc_peers c))"
  by (simp add: peers_with_label)

text \<open>
  C40. A service with a selector gets as target pods exactly the peers in its namespace that have
  every label of the selector and define every named target port with the port's protocol; it is
  stored under its full name and the other services stay as they are. The peers are pods and host
  endpoints.
\<close>

theorem populate_service_targets:
  assumes "svc_selector s \<noteq> []" and "set_ok peer_eq (pc_peers c)"
    and "\<forall>p\<in>set (pc_peers c). \<not> is_ip p \<and> \<not> is_dns p"
    and "get_namespace c (svc_namespace_name s) = (c1, ns)"
  shows "\<exists>s'. populate_service c s =
           Some (c1\<lparr>services := dict_set (=) (services c) (ns_name ns @ ''/'' @ svc_name s) s'\<rparr>) \<and>
           target_pods s' = filter (service_target ns s) (pc_peers c) \<and> svc_namespace s' = Some ns"
  using populate_with_selector [OF assms] by auto

text \<open>An example: two pods, one with the label and port that the service asks for.\<close>

definition example_service :: k8s_service where
  "example_service =
     (mk_service ''web'' ''default'')\<lparr>svc_selector := [(''app'', ''x'')],
        svc_ports := [(''http'', \<lparr>port_num = 80, sp_name = ''http'', sp_protocol = ''TCP'', target_port = Port_Name ''p''\<rparr>)]\<rparr>"

definition example_app :: "string \<Rightarrow> string \<Rightarrow> peer" where
  "example_app name app =
     Pod_Peer (add_named_port (set_label (mk_pod name example_ns '''' '''' '''') ''app'' app) ''p'' 8080 ''TCP'')"

definition example_container :: peer_container where
  "example_container =
     \<lparr>pc_peers = [example_app ''a'' ''x'', example_app ''b'' ''y''], representative_peers = [],
      livesim_peers = [], namespaces = [], services = []\<rparr>"

theorem populate_service_targets_witness:
  "\<exists>c s'. populate_service example_container example_service = Some c \<and>
     dict_get (=) (services c) ''default/web'' = Some s' \<and> target_pods s' = [example_app ''a'' ''x'']"
proof -
  have k: "peer_key (example_app n x) = Pod_Key (''default/'' @ n)" "\<not> is_ip (example_app n x)"
    "\<not> is_dns (example_app n x)" "peer_namespace (example_app n x) = Some example_ns"
    "peer_labels (example_app n x) = [(''app'', x)]" "peer_extra_labels (example_app n x) = []"
    "get_named_ports (example_app n x) = [(''p'', 8080, ''TCP'')]" for n x
    by (simp_all add: example_app_def mk_pod_def owner_workload_def example_ns_def k8s_namespace_def Let_def
        add_named_port_def set_label_def is_ip_def is_dns_def)
  have h: "svc_selector example_service \<noteq> []" "set_ok peer_eq (pc_peers example_container)"
    "\<forall>p\<in>set (pc_peers example_container). \<not> is_ip p \<and> \<not> is_dns p"
    by (simp_all add: example_service_def example_container_def peers.ok_distinct k)
  have g: "get_namespace example_container (svc_namespace_name example_service) =
      (example_container\<lparr>namespaces := [(''default'', example_ns)]\<rparr>, example_ns)"
    by (simp add: get_namespace_def example_container_def example_service_def mk_service_def example_ns_def)
  have "filter (service_target example_ns example_service) (pc_peers example_container) = [example_app ''a'' ''x'']"
    by (simp add: example_container_def service_target_def k example_service_def mk_service_def ns_option_eq_def
        ns_eq_def labelled_def defines_port_def)
  then show ?thesis
    using populate_service_targets [OF h g] by (auto simp: example_service_def mk_service_def example_ns_def
        k8s_namespace_def dict_get_set_eq)
qed

end
