(* ===== verification/Policies.thy ===== *)
theory Policies
  imports Connectivity Peer_Container Complex_Main
begin

text \<open>
  \<open>nca/Resources/PolicyResources\<close>: the base class of policies with its lazily computed connection
  sets, and the policies of Kubernetes, Calico, Istio, gateways and Istio sidecars. A policy is a
  record that extends the fields of \<open>NetworkPolicy\<close>; a method that first synchronises the policy
  returns the synchronised policy too.
\<close>

section \<open>Rules\<close>

record 'f policy_rule =
  rule_props :: "'f dim_value hcs"
  rule_props_copy :: "'f dim_value hcs"

text \<open>Rules of Kubernetes, Istio and gateway policies have one set of peers.\<close>

record 'f peer_rule = "'f policy_rule" +
  rule_peers :: peer_set

datatype calico_action = Calico_Deny | Calico_Allow | Calico_Log | Calico_Pass

record 'f calico_rule = "'f policy_rule" +
  rule_src :: peer_set
  rule_dst :: peer_set
  rule_action :: calico_action

record 'f sidecar_rule = "'f policy_rule" +
  egress_peer_set :: peer_set
  special_egress_peer_set :: peer_set

definition mk_peer_rule :: "peer_set \<Rightarrow> 'f dim_value hcs \<Rightarrow> 'f peer_rule" where
  "mk_peer_rule peers props = \<lparr>rule_props = props, rule_props_copy = make_empty_props, rule_peers = peers\<rparr>"

definition mk_calico_rule ::
  "peer_set \<Rightarrow> peer_set \<Rightarrow> calico_action \<Rightarrow> 'f dim_value hcs \<Rightarrow> 'f calico_rule" where
  "mk_calico_rule src dst action props =
     \<lparr>rule_props = props, rule_props_copy = make_empty_props, rule_src = src, rule_dst = dst,
      rule_action = action\<rparr>"

definition mk_sidecar_rule :: "peer_set \<Rightarrow> peer_set \<Rightarrow> 'f sidecar_rule" where
  "mk_sidecar_rule peers special =
     \<lparr>rule_props = make_empty_props, rule_props_copy = make_empty_props, egress_peer_set = peers,
      special_egress_peer_set = special\<rparr>"

definition action_str_to_action_type :: "string \<Rightarrow> calico_action option" where
  "action_str_to_action_type s =
     (if s = ''Deny'' then Some Calico_Deny
      else if s = ''Allow'' then Some Calico_Allow
      else if s = ''Log'' then Some Calico_Log
      else if s = ''Pass'' then Some Calico_Pass
      else None)"

definition props_eq :: "'f env \<Rightarrow> 'f dim_value hcs \<Rightarrow> 'f dim_value hcs \<Rightarrow> bool" where
  "props_eq E t u \<longleftrightarrow> hc_eq (env_dims E) t u"

definition peer_rule_eq :: "'f env \<Rightarrow> 'f peer_rule \<Rightarrow> 'f peer_rule \<Rightarrow> bool" where
  "peer_rule_eq E r s \<longleftrightarrow> props_eq E (rule_props r) (rule_props s)"

definition calico_rule_eq :: "'f env \<Rightarrow> 'f calico_rule \<Rightarrow> 'f calico_rule \<Rightarrow> bool" where
  "calico_rule_eq E r s \<longleftrightarrow> props_eq E (rule_props r) (rule_props s) \<and> rule_action r = rule_action s"

text \<open>
  \<open>IstioSidecarRule\<close> is a \<open>dataclass\<close> that declares no field: the generated \<open>==\<close> compares empty
  tuples, so all rules of sidecars are equal.
\<close>

definition sidecar_rule_eq :: "'f sidecar_rule \<Rightarrow> 'f sidecar_rule \<Rightarrow> bool" where
  "sidecar_rule_eq r s \<longleftrightarrow> True"

definition rule_contained_in ::
  "'f env \<Rightarrow> ('f, 'a) policy_rule_scheme \<Rightarrow> ('f, 'b) policy_rule_scheme \<Rightarrow> bool option" where
  "rule_contained_in E r s = hc_contained_in (env_dims E) (rule_props r) (rule_props s)"

section \<open>The base class\<close>

datatype policy_type =
    Unknown | K8sNetworkPolicy | CalicoNetworkPolicy | CalicoGlobalNetworkPolicy | CalicoProfile
  | IstioAuthorizationPolicy | IstioSidecar | Ingress | Gateway | VirtualService | GatewayPolicy | List_Type

definition input_kind_name_str_to_policy_type :: "string \<Rightarrow> policy_type option" where
  "input_kind_name_str_to_policy_type kind =
     (if kind = ''K8sNetworkPolicy'' then Some K8sNetworkPolicy
      else if kind = ''CalicoNetworkPolicy'' then Some CalicoNetworkPolicy
      else if kind = ''CalicoGlobalNetworkPolicy'' then Some CalicoGlobalNetworkPolicy
      else if kind = ''IstioAuthorizationPolicy'' then Some IstioAuthorizationPolicy
      else if kind = ''IstioSidecar'' then Some IstioSidecar
      else if kind = ''K8sIngress'' then Some Ingress
      else None)"

text \<open>Values of the loaded resources.\<close>

datatype yaml =
    Yaml_Null
  | Yaml_Bool bool
  | Yaml_Int int
  | Yaml_Str string
  | Yaml_List "yaml list"
  | Yaml_Dict "(string \<times> yaml) list"

fun yaml_truthy :: "yaml \<Rightarrow> bool" where
  "yaml_truthy Yaml_Null = False"
| "yaml_truthy (Yaml_Bool b) = b"
| "yaml_truthy (Yaml_Int n) = (n \<noteq> 0)"
| "yaml_truthy (Yaml_Str s) = (s \<noteq> '''')"
| "yaml_truthy (Yaml_List xs) = (xs \<noteq> [])"
| "yaml_truthy (Yaml_Dict kvs) = (kvs \<noteq> [])"

definition yaml_get :: "(string \<times> yaml) list \<Rightarrow> string \<Rightarrow> yaml" where
  "yaml_get kvs k = (case dict_get (=) kvs k of Some v \<Rightarrow> v | None \<Rightarrow> Yaml_Null)"

definition policy_type_of_strings :: "string \<Rightarrow> string \<Rightarrow> policy_type" where
  "policy_type_of_strings kind api_version =
     (if suffix ''List'' kind then List_Type
      else if contains_str ''calico'' api_version then
        (if kind = ''Profile'' then CalicoProfile
         else if kind = ''NetworkPolicy'' then CalicoNetworkPolicy
         else if kind = ''GlobalNetworkPolicy'' then CalicoGlobalNetworkPolicy
         else Unknown)
      else if contains_str ''istio'' api_version then
        (if kind = ''AuthorizationPolicy'' then IstioAuthorizationPolicy
         else if kind = ''Sidecar'' then IstioSidecar
         else if kind = ''Gateway'' then Gateway
         else if kind = ''VirtualService'' then VirtualService
         else Unknown)
      else if kind = ''NetworkPolicy'' then K8sNetworkPolicy
      else if kind = ''Ingress'' then Ingress
      else Unknown)"

definition get_policy_type_from_dict :: "yaml \<Rightarrow> policy_type" where
  "get_policy_type_from_dict policy =
     (case policy of
        Yaml_Dict kvs \<Rightarrow>
          (case (yaml_get kvs ''kind'', yaml_get kvs ''apiVersion'') of
             (Yaml_Str kind, Yaml_Str api) \<Rightarrow>
               if kind = '''' \<or> api = '''' then Unknown else policy_type_of_strings kind api
           | _ \<Rightarrow> Unknown)
      | _ \<Rightarrow> Unknown)"

record ('f, 'r) network_policy =
  pol_name :: string
  pol_namespace :: "namespace option"
  selected_peers :: peer_set
  ingress_rules :: "'r list"
  egress_rules :: "'r list"
  props_in_sync :: bool
  allow_ingress :: "'f dim_value hcs"
  deny_ingress :: "'f dim_value hcs"
  pass_ingress :: "'f dim_value hcs"
  allow_egress :: "'f dim_value hcs"
  deny_egress :: "'f dim_value hcs"
  pass_egress :: "'f dim_value hcs"
  affects_ingress :: bool
  affects_egress :: bool
  findings :: "string list"
  referenced_labels :: "string list"
  policy_kind :: policy_type
  has_ipv6_addresses :: bool

definition init_props ::
  "('f, 'r, 'a) network_policy_scheme \<Rightarrow> ('f, 'r, 'a) network_policy_scheme" where
  "init_props P =
     P\<lparr>allow_ingress := make_empty_props, deny_ingress := make_empty_props, pass_ingress := make_empty_props,
       allow_egress := make_empty_props, deny_egress := make_empty_props, pass_egress := make_empty_props\<rparr>"

definition new_policy :: "string \<Rightarrow> namespace option \<Rightarrow> ('f, 'r) network_policy" where
  "new_policy name ns =
     \<lparr>pol_name = name, pol_namespace = ns, selected_peers = [], ingress_rules = [], egress_rules = [],
      props_in_sync = False,
      allow_ingress = make_empty_props, deny_ingress = make_empty_props, pass_ingress = make_empty_props,
      allow_egress = make_empty_props, deny_egress = make_empty_props, pass_egress = make_empty_props,
      affects_ingress = False, affects_egress = False, findings = [], referenced_labels = [],
      policy_kind = Unknown, has_ipv6_addresses = False\<rparr>"

definition policy_full_name :: "('f, 'r, 'a) network_policy_scheme \<Rightarrow> string option \<Rightarrow> string" where
  "policy_full_name P config =
     (let res = (case pol_namespace P of None \<Rightarrow> pol_name P | Some n \<Rightarrow> ns_name n @ ''/'' @ pol_name P)
      in case config of None \<Rightarrow> res | Some c \<Rightarrow> if c = '''' then res else c @ ''/'' @ res)"

definition is_policy_empty :: "('f, 'r, 'a) network_policy_scheme \<Rightarrow> bool" where
  "is_policy_empty P \<longleftrightarrow> selected_peers P = []"

definition add_ingress_rule ::
  "('f, 'r, 'a) network_policy_scheme \<Rightarrow> 'r \<Rightarrow> ('f, 'r, 'a) network_policy_scheme" where
  "add_ingress_rule P r = P\<lparr>ingress_rules := ingress_rules P @ [r]\<rparr>"

definition add_egress_rule ::
  "('f, 'r, 'a) network_policy_scheme \<Rightarrow> 'r \<Rightarrow> ('f, 'r, 'a) network_policy_scheme" where
  "add_egress_rule P r = P\<lparr>egress_rules := egress_rules P @ [r]\<rparr>"

definition add_finding ::
  "('f, 'r, 'a) network_policy_scheme \<Rightarrow> string \<Rightarrow> ('f, 'r, 'a) network_policy_scheme" where
  "add_finding P x = P\<lparr>findings := findings P @ [x]\<rparr>"

text \<open>The rules are reduced to the domains of a query, and put back after it.\<close>

definition reorganize_rule ::
  "'f env \<Rightarrow> ('f, 'a) policy_rule_scheme \<Rightarrow> ('f, 'a) policy_rule_scheme option" where
  "reorganize_rule E r =
     (if hc_bool (rule_props_copy r) then Some r
      else do { t \<leftarrow> reduce_active (env_dims E) (rule_props r);
                Some (r\<lparr>rule_props_copy := hc_copy (rule_props r), rule_props := t\<rparr>) })"

definition reorganize_props_by_new_domains ::
  "'f env \<Rightarrow> ('f, ('f, 'b) policy_rule_scheme, 'a) network_policy_scheme \<Rightarrow>
   ('f, ('f, 'b) policy_rule_scheme, 'a) network_policy_scheme option" where
  "reorganize_props_by_new_domains E P =
     do { is \<leftarrow> map_opt (reorganize_rule E) (ingress_rules P);
          es \<leftarrow> map_opt (reorganize_rule E) (egress_rules P);
          Some (P\<lparr>ingress_rules := is, egress_rules := es, props_in_sync := False\<rparr>) }"

definition restore_rule :: "('f, 'a) policy_rule_scheme \<Rightarrow> ('f, 'a) policy_rule_scheme" where
  "restore_rule r =
     (if hc_bool (rule_props_copy r)
      then r\<lparr>rule_props := rule_props_copy r, rule_props_copy := make_empty_props\<rparr> else r)"

definition restore_props ::
  "('f, ('f, 'b) policy_rule_scheme, 'a) network_policy_scheme \<Rightarrow>
   ('f, ('f, 'b) policy_rule_scheme, 'a) network_policy_scheme" where
  "restore_props P =
     P\<lparr>ingress_rules := map restore_rule (ingress_rules P), egress_rules := map restore_rule (egress_rules P),
       props_in_sync := False\<rparr>"

section \<open>Results of policies\<close>

record 'f policy_connections =
  captured :: peer_set
  allowed_conns :: "'f dim_value hcs"
  denied_conns :: "'f dim_value hcs"
  pass_conns :: "'f dim_value hcs"
  all_allowed_conns :: "'f dim_value hcs"

definition new_policy_connections :: "'f policy_connections" where
  "new_policy_connections =
     \<lparr>captured = [], allowed_conns = make_empty_props, denied_conns = make_empty_props,
      pass_conns = make_empty_props, all_allowed_conns = make_empty_props\<rparr>"

record conns_filter =
  calc_allowed :: bool
  calc_denied :: bool
  calc_pass :: bool
  calc_all_allowed :: bool

definition mk_conns_filter :: "bool \<Rightarrow> bool \<Rightarrow> bool \<Rightarrow> bool \<Rightarrow> conns_filter" where
  "mk_conns_filter allowed denied pass all_allowed =
     \<lparr>calc_allowed = allowed, calc_denied = denied, calc_pass = pass,
      calc_all_allowed = (all_allowed \<or> allowed)\<rparr>"

definition only_allowed_connections :: conns_filter where
  "only_allowed_connections = mk_conns_filter True False False False"

definition only_denied_connections :: conns_filter where
  "only_denied_connections = mk_conns_filter False True False False"

definition only_all_allowed_connections :: conns_filter where
  "only_all_allowed_connections = mk_conns_filter False False False True"

definition update_by_filter ::
  "('f dim_value hcs \<Rightarrow> 'f dim_value hcs option) \<Rightarrow> 'f policy_connections \<Rightarrow> conns_filter \<Rightarrow>
   'f policy_connections option" where
  "update_by_filter f pc flt =
     (let upd = (\<lambda>b t. if b then f t else Some t)
      in do { a \<leftarrow> upd (calc_allowed flt) (allowed_conns pc);
              d \<leftarrow> upd (calc_denied flt) (denied_conns pc);
              p \<leftarrow> upd (calc_pass flt) (pass_conns pc);
              l \<leftarrow> upd (calc_all_allowed flt) (all_allowed_conns pc);
              Some (pc\<lparr>allowed_conns := a, denied_conns := d, pass_conns := p, all_allowed_conns := l\<rparr>) })"

definition and_by_filter ::
  "'f env \<Rightarrow> 'f policy_connections \<Rightarrow> 'f dim_value hcs \<Rightarrow> conns_filter \<Rightarrow> 'f policy_connections option" where
  "and_by_filter E pc props flt = update_by_filter (\<lambda>t. hc_iand (env_dims E) t props) pc flt"

definition sub_by_filter ::
  "'f env \<Rightarrow> 'f policy_connections \<Rightarrow> 'f dim_value hcs \<Rightarrow> conns_filter \<Rightarrow> 'f policy_connections option" where
  "sub_by_filter E pc props flt = update_by_filter (\<lambda>t. hc_isub (env_dims E) t props) pc flt"

section \<open>The kinds of policies\<close>

datatype allow_deny = Deny_Action | Allow_Action
datatype outbound_mode = Allow_Any | Registry_Only

type_synonym 'f k8s_policy = "('f, 'f peer_rule) network_policy"

record 'f calico_policy = "('f, 'f calico_rule) network_policy" +
  calico_order :: "rat option"

record 'f istio_policy = "('f, 'f peer_rule) network_policy" +
  istio_action :: allow_deny

record 'f gateway_policy = "('f, 'f peer_rule) network_policy" +
  gateway_action :: allow_deny
  vs_file_name :: string
  line_number :: int
  origin :: string

record 'f sidecar_policy = "('f, 'f sidecar_rule) network_policy" +
  default_sidecar :: bool
  outbound_mode :: outbound_mode

definition new_calico_policy :: "string \<Rightarrow> namespace option \<Rightarrow> 'f calico_policy" where
  "new_calico_policy name ns = network_policy.extend (new_policy name ns) \<lparr>calico_order = None\<rparr>"

definition new_istio_policy :: "string \<Rightarrow> namespace option \<Rightarrow> 'f istio_policy" where
  "new_istio_policy name ns = network_policy.extend (new_policy name ns) \<lparr>istio_action = Allow_Action\<rparr>"

definition new_gateway_policy ::
  "string \<Rightarrow> namespace option \<Rightarrow> allow_deny \<Rightarrow> string \<Rightarrow> int \<Rightarrow> string \<Rightarrow> 'f gateway_policy" where
  "new_gateway_policy name ns action file line org =
     network_policy.extend (new_policy name ns)
       \<lparr>gateway_action = action, vs_file_name = file, line_number = line,
        origin = (if org = '''' then name else org)\<rparr>"

definition new_sidecar_policy :: "string \<Rightarrow> namespace option \<Rightarrow> 'f sidecar_policy" where
  "new_sidecar_policy name ns =
     network_policy.extend (new_policy name ns) \<lparr>default_sidecar = False, outbound_mode = Allow_Any\<rparr>"

end
