(* ===== verification/Policy_Kinds.thy ===== *)
theory Policy_Kinds
  imports Policies
begin

text \<open>
  What the kinds of policies do: synchronising the connection sets with the rules (with the order
  of the rules for Calico), the connections a policy reports, comparisons, clones without a rule,
  and the tests that the sanity queries use.
\<close>

section \<open>Synchronising\<close>

definition union_rules ::
  "'f env \<Rightarrow> 'f dim_value hcs \<Rightarrow> ('f, 'a) policy_rule_scheme list \<Rightarrow> 'f dim_value hcs option" where
  "union_rules E t rs = fold_opt (\<lambda>t r. hc_ior (env_dims E) t (rule_props r)) t rs"

definition k8s_sync_props :: "'f env \<Rightarrow> 'f k8s_policy \<Rightarrow> 'f k8s_policy option" where
  "k8s_sync_props E P =
     (if props_in_sync P then Some P
      else (let P = init_props P in
            do { a \<leftarrow> union_rules E (allow_ingress P) (ingress_rules P);
                 b \<leftarrow> union_rules E (allow_egress P) (egress_rules P);
                 Some (P\<lparr>allow_ingress := a, allow_egress := b, props_in_sync := True\<rparr>) }))"

text \<open>A rule of a Calico policy takes what the rules of other actions before it left.\<close>

definition calico_step ::
  "'f env \<Rightarrow> bool \<Rightarrow> 'f calico_policy \<Rightarrow> 'f calico_rule \<Rightarrow> 'f calico_policy option" where
  "calico_step E is_ingress P r =
     (let sub = hc_isub (env_dims E); un = hc_ior (env_dims E);
          allow = (if is_ingress then allow_ingress P else allow_egress P);
          deny = (if is_ingress then deny_ingress P else deny_egress P);
          pass = (if is_ingress then pass_ingress P else pass_egress P);
          props = hc_copy (rule_props r)
      in case rule_action r of
           Calico_Allow \<Rightarrow>
             do { props \<leftarrow> sub props deny;
                  props \<leftarrow> sub props pass;
                  a \<leftarrow> un allow props;
                  Some (if is_ingress then P\<lparr>allow_ingress := a\<rparr> else P\<lparr>allow_egress := a\<rparr>) }
         | Calico_Deny \<Rightarrow>
             do { props \<leftarrow> sub props allow;
                  props \<leftarrow> sub props pass;
                  d \<leftarrow> un deny props;
                  Some (if is_ingress then P\<lparr>deny_ingress := d\<rparr> else P\<lparr>deny_egress := d\<rparr>) }
         | Calico_Pass \<Rightarrow>
             do { props \<leftarrow> sub props allow;
                  props \<leftarrow> sub props deny;
                  p \<leftarrow> un pass props;
                  Some (if is_ingress then P\<lparr>pass_ingress := p\<rparr> else P\<lparr>pass_egress := p\<rparr>) }
         | Calico_Log \<Rightarrow> Some P)"

definition update_opt_props_by_order ::
  "'f env \<Rightarrow> bool \<Rightarrow> 'f calico_policy \<Rightarrow> 'f calico_policy option" where
  "update_opt_props_by_order E is_ingress P =
     fold_opt (calico_step E is_ingress) P (if is_ingress then ingress_rules P else egress_rules P)"

definition calico_sync_props :: "'f env \<Rightarrow> 'f calico_policy \<Rightarrow> 'f calico_policy option" where
  "calico_sync_props E P =
     (if props_in_sync P then Some P
      else do { P \<leftarrow> update_opt_props_by_order E True (init_props P);
                P \<leftarrow> update_opt_props_by_order E False P;
                Some (P\<lparr>props_in_sync := True\<rparr>) })"

text \<open>
  The connections of the whole domain are computed for a field with an old name, so the egress
  connections of the policy stay empty.
\<close>

definition istio_sync_props :: "'f env \<Rightarrow> 'f istio_policy \<Rightarrow> 'f istio_policy option" where
  "istio_sync_props E P =
     (if props_in_sync P then Some P
      else (let P = init_props P in
            do { P \<leftarrow> (if istio_action P = Allow_Action
                       then do { a \<leftarrow> union_rules E (allow_ingress P) (ingress_rules P); Some (P\<lparr>allow_ingress := a\<rparr>) }
                       else do { d \<leftarrow> union_rules E (deny_ingress P) (ingress_rules P); Some (P\<lparr>deny_ingress := d\<rparr>) });
                 _ \<leftarrow> all_conns_props_per_domain_peers E;
                 Some (P\<lparr>props_in_sync := True\<rparr>) }))"

definition gateway_sync_props :: "'f env \<Rightarrow> 'f gateway_policy \<Rightarrow> 'f gateway_policy option" where
  "gateway_sync_props E P =
     (if props_in_sync P then Some P
      else (let P = init_props P in
            if gateway_action P = Allow_Action then
              do { a \<leftarrow> union_rules E (allow_ingress P) (ingress_rules P);
                   b \<leftarrow> union_rules E (allow_egress P) (egress_rules P);
                   Some (P\<lparr>allow_ingress := a, allow_egress := b, props_in_sync := True\<rparr>) }
            else
              do { a \<leftarrow> union_rules E (deny_ingress P) (ingress_rules P);
                   b \<leftarrow> union_rules E (deny_egress P) (egress_rules P);
                   Some (P\<lparr>deny_ingress := a, deny_egress := b, props_in_sync := True\<rparr>) }))"

definition sidecar_sync_props :: "'f env \<Rightarrow> 'f sidecar_policy \<Rightarrow> 'f sidecar_policy option" where
  "sidecar_sync_props E P =
     (if props_in_sync P then Some P
      else (let P = init_props P in
            do { a \<leftarrow> all_conns_props_per_domain_peers E;
                 b \<leftarrow> union_rules E (allow_egress P) (egress_rules P);
                 Some (P\<lparr>allow_ingress := a, allow_egress := b, props_in_sync := True\<rparr>) }))"

section \<open>The connections a policy reports\<close>

definition conns_of ::
  "('f, 'r, 'a) network_policy_scheme \<Rightarrow> bool \<Rightarrow> peer_set \<Rightarrow> 'f policy_connections" where
  "conns_of P is_ingress peers =
     new_policy_connections\<lparr>captured := peers,
       allowed_conns := hc_copy (if is_ingress then allow_ingress P else allow_egress P),
       denied_conns := hc_copy (if is_ingress then deny_ingress P else deny_egress P)\<rparr>"

definition captured_peers :: "('f, 'r, 'a) network_policy_scheme \<Rightarrow> bool \<Rightarrow> peer_set" where
  "captured_peers P is_ingress =
     (if (if is_ingress then affects_ingress P else affects_egress P) then selected_peers P else [])"

definition k8s_allowed_connections ::
  "'f env \<Rightarrow> bool \<Rightarrow> 'f k8s_policy \<Rightarrow> ('f k8s_policy \<times> 'f policy_connections) option" where
  "k8s_allowed_connections E is_ingress P =
     do { P \<leftarrow> k8s_sync_props E P;
          Some (P, new_policy_connections\<lparr>captured := captured_peers P is_ingress,
                     allowed_conns := hc_copy (if is_ingress then allow_ingress P else allow_egress P)\<rparr>) }"

definition calico_allowed_connections ::
  "'f env \<Rightarrow> bool \<Rightarrow> 'f calico_policy \<Rightarrow> ('f calico_policy \<times> 'f policy_connections) option" where
  "calico_allowed_connections E is_ingress P =
     do { P \<leftarrow> calico_sync_props E P;
          Some (P, (conns_of P is_ingress (captured_peers P is_ingress))
                     \<lparr>pass_conns := hc_copy (if is_ingress then pass_ingress P else pass_egress P)\<rparr>) }"

definition istio_allowed_connections ::
  "'f env \<Rightarrow> bool \<Rightarrow> 'f istio_policy \<Rightarrow> ('f istio_policy \<times> 'f policy_connections) option" where
  "istio_allowed_connections E is_ingress P =
     do { P \<leftarrow> istio_sync_props E P;
          Some (P, conns_of P is_ingress (if is_ingress then selected_peers P else [])) }"

definition gateway_allowed_connections ::
  "'f env \<Rightarrow> bool \<Rightarrow> 'f gateway_policy \<Rightarrow> ('f gateway_policy \<times> 'f policy_connections) option" where
  "gateway_allowed_connections E is_ingress P =
     do { P \<leftarrow> gateway_sync_props E P; Some (P, conns_of P is_ingress (captured_peers P is_ingress)) }"

definition sidecar_allowed_connections ::
  "'f env \<Rightarrow> bool \<Rightarrow> 'f sidecar_policy \<Rightarrow> ('f sidecar_policy \<times> 'f policy_connections) option" where
  "sidecar_allowed_connections E is_ingress P =
     do { P \<leftarrow> sidecar_sync_props E P;
          Some (P, conns_of P is_ingress (if is_ingress then [] else captured_peers P is_ingress)) }"

section \<open>Clones without a rule\<close>

definition clone_base ::
  "('f, 'r, 'a) network_policy_scheme \<Rightarrow> ('r \<Rightarrow> bool) \<Rightarrow> bool \<Rightarrow> ('f, 'r) network_policy" where
  "clone_base P skip ingress_rule =
     (new_policy (pol_name P) (pol_namespace P))
       \<lparr>selected_peers := selected_peers P, affects_egress := affects_egress P,
        affects_ingress := affects_ingress P, policy_kind := policy_kind P,
        egress_rules := filter (\<lambda>r. ingress_rule \<or> \<not> skip r) (egress_rules P),
        ingress_rules := filter (\<lambda>r. \<not> ingress_rule \<or> \<not> skip r) (ingress_rules P)\<rparr>"

definition k8s_clone_without_rule :: "'f env \<Rightarrow> 'f k8s_policy \<Rightarrow> 'f peer_rule \<Rightarrow> bool \<Rightarrow> 'f k8s_policy" where
  "k8s_clone_without_rule E P r ingress_rule = clone_base P (\<lambda>s. peer_rule_eq E s r) ingress_rule"

definition calico_clone_without_rule ::
  "'f env \<Rightarrow> 'f calico_policy \<Rightarrow> 'f calico_rule \<Rightarrow> bool \<Rightarrow> 'f calico_policy" where
  "calico_clone_without_rule E P r ingress_rule =
     network_policy.extend (clone_base P (\<lambda>s. calico_rule_eq E s r) ingress_rule)
       \<lparr>calico_order = calico_order P\<rparr>"

definition istio_clone_without_rule :: "'f env \<Rightarrow> 'f istio_policy \<Rightarrow> 'f peer_rule \<Rightarrow> 'f istio_policy" where
  "istio_clone_without_rule E P r =
     network_policy.extend ((clone_base P (\<lambda>s. peer_rule_eq E s r) True)\<lparr>egress_rules := []\<rparr>)
       \<lparr>istio_action = istio_action P\<rparr>"

definition gateway_clone_without_rule ::
  "'f env \<Rightarrow> 'f gateway_policy \<Rightarrow> 'f peer_rule \<Rightarrow> bool \<Rightarrow> 'f gateway_policy" where
  "gateway_clone_without_rule E P r ingress_rule =
     network_policy.extend (clone_base P (\<lambda>s. peer_rule_eq E s r) ingress_rule)
       \<lparr>gateway_action = gateway_action P, vs_file_name = vs_file_name P, line_number = line_number P,
        origin = (if origin P = '''' then pol_name P else origin P)\<rparr>"

text \<open>For a sidecar the flag must say egress; the clone has the default outbound mode.\<close>

definition sidecar_clone_without_rule ::
  "'f sidecar_policy \<Rightarrow> 'f sidecar_rule \<Rightarrow> bool \<Rightarrow> 'f sidecar_policy option" where
  "sidecar_clone_without_rule P r ingress_rule =
     (if ingress_rule then None
      else Some (network_policy.extend ((clone_base P (\<lambda>s. sidecar_rule_eq s r) False)\<lparr>ingress_rules := []\<rparr>)
             \<lparr>default_sidecar = default_sidecar P, outbound_mode = Allow_Any\<rparr>))"

section \<open>Emptiness and actions of rules\<close>

text \<open>The explanations and the numbers of the empty rules, counted from 1.\<close>

definition empty_rules :: "('r \<Rightarrow> string list) \<Rightarrow> 'r list \<Rightarrow> (nat \<times> string) list" where
  "empty_rules explain rs = concat (map (\<lambda>(i, r). map (\<lambda>s. (i, s)) (explain r)) (enumerate 1 rs))"

definition numbered_rule :: "string \<Rightarrow> nat \<Rightarrow> string \<Rightarrow> string" where
  "numbered_rule start i rest = start @ str_of_int (int i) @ rest"

definition number_set :: "(nat \<times> string) list \<Rightarrow> nat list" where
  "number_set xs = set_of (=) (map fst xs)"

definition k8s_has_empty_rules :: "'f k8s_policy \<Rightarrow> string \<Rightarrow> string list \<times> nat list \<times> nat list" where
  "k8s_has_empty_rules P config =
     (let name = policy_full_name P (Some config);
          empty = (\<lambda>r. if rule_peers r = [] then ['' in NetworkPolicy '' @ name @ '' does not select any pods''] else []);
          i = empty_rules empty (ingress_rules P); e = empty_rules empty (egress_rules P)
      in (map (\<lambda>(n, s). numbered_rule ''Ingress rule no. '' n s) i @
          map (\<lambda>(n, s). numbered_rule ''Egress rule no. '' n s) e, number_set i, number_set e))"

definition calico_has_empty_rules :: "'f calico_policy \<Rightarrow> string \<Rightarrow> string list \<times> nat list \<times> nat list" where
  "calico_has_empty_rules P config =
     (let name = policy_full_name P (Some config);
          empty = (\<lambda>r.
            (if rule_src r = [] then ['' in NetworkPolicy '' @ name @ '' selects no source pods''] else []) @
            (if rule_dst r = [] then ['' in NetworkPolicy '' @ name @ '' selects no destination pods''] else []));
          i = empty_rules empty (ingress_rules P); e = empty_rules empty (egress_rules P)
      in (map (\<lambda>(n, s). numbered_rule ''Ingress rule no. '' n s) i @
          map (\<lambda>(n, s). numbered_rule ''Egress rule no. '' n s) e, number_set i, number_set e))"

definition istio_has_empty_rules :: "'f istio_policy \<Rightarrow> string \<Rightarrow> string list \<times> nat list \<times> nat list" where
  "istio_has_empty_rules P config =
     (let name = policy_full_name P (Some config);
          i = empty_rules (\<lambda>r. if rule_peers r = []
                then ['' in AuthorizationPolicy '' @ name @ '' does not select any pods''] else []) (ingress_rules P)
      in (map (\<lambda>(n, s). numbered_rule ''Rule no. '' n s) i, number_set i, []))"

definition gateway_has_empty_rules :: "'f gateway_policy \<Rightarrow> string \<Rightarrow> string list \<times> nat list \<times> nat list" where
  "gateway_has_empty_rules P config =
     (let name = policy_full_name P (Some config);
          empty = (\<lambda>dir r. if rule_peers r = []
             then [''The generated policy '' @ name @ '' has an '' @ dir @ '' rule that does not select any pods''] else []);
          i = empty_rules (empty ''ingress'') (ingress_rules P); e = empty_rules (empty ''egress'') (egress_rules P)
      in (map snd i @ map snd e, number_set i, number_set e))"

definition sidecar_has_empty_rules :: "'f sidecar_policy \<Rightarrow> string \<Rightarrow> string list \<times> nat list \<times> nat list" where
  "sidecar_has_empty_rules P config =
     (let name = policy_full_name P (Some config);
          e = empty_rules (\<lambda>r. if egress_peer_set r = []
                then ['' in Sidecar '' @ name @ '' does not select any pods/services''] else []) (egress_rules P)
      in (map (\<lambda>(n, s). numbered_rule ''Rule no. '' n s) e, [], number_set e))"

definition any_rule_selects :: "('f, 'f peer_rule, 'a) network_policy_scheme \<Rightarrow> bool" where
  "any_rule_selects P \<longleftrightarrow>
     list_ex (\<lambda>r. rule_peers r \<noteq> []) (ingress_rules P) \<or> list_ex (\<lambda>r. rule_peers r \<noteq> []) (egress_rules P)"

definition has_rules_with_action :: "'f calico_rule list \<Rightarrow> calico_action \<Rightarrow> bool" where
  "has_rules_with_action rs action \<longleftrightarrow>
     list_ex (\<lambda>r. rule_src r \<noteq> [] \<and> rule_dst r \<noteq> [] \<and> rule_action r = action) rs"

definition calico_has_deny_rules :: "'f calico_policy \<Rightarrow> bool" where
  "calico_has_deny_rules P \<longleftrightarrow>
     has_rules_with_action (ingress_rules P) Calico_Deny \<or> has_rules_with_action (egress_rules P) Calico_Deny"

definition calico_has_allow_rules :: "'f calico_policy \<Rightarrow> bool" where
  "calico_has_allow_rules P \<longleftrightarrow>
     has_rules_with_action (ingress_rules P) Calico_Allow \<or> has_rules_with_action (egress_rules P) Calico_Allow"

definition istio_has_allow_rules :: "'f istio_policy \<Rightarrow> bool" where
  "istio_has_allow_rules P \<longleftrightarrow>
     istio_action P \<noteq> Deny_Action \<and> list_ex (\<lambda>r. rule_peers r \<noteq> []) (ingress_rules P)"

definition istio_has_deny_rules :: "'f istio_policy \<Rightarrow> bool" where
  "istio_has_deny_rules P \<longleftrightarrow>
     istio_action P \<noteq> Allow_Action \<and> list_ex (\<lambda>r. rule_peers r \<noteq> []) (ingress_rules P)"

definition gateway_has_allow_rules :: "'f gateway_policy \<Rightarrow> bool" where
  "gateway_has_allow_rules P \<longleftrightarrow> gateway_action P \<noteq> Deny_Action \<and> any_rule_selects P"

definition gateway_has_deny_rules :: "'f gateway_policy \<Rightarrow> bool" where
  "gateway_has_deny_rules P \<longleftrightarrow> gateway_action P \<noteq> Allow_Action \<and> any_rule_selects P"

definition rules_contain_conflicting_actions :: "'f calico_rule list \<Rightarrow> 'f calico_rule list \<Rightarrow> bool" where
  "rules_contain_conflicting_actions rs ss \<longleftrightarrow>
     has_rules_with_action rs Calico_Allow \<and> has_rules_with_action ss Calico_Deny \<or>
     has_rules_with_action rs Calico_Deny \<and> has_rules_with_action ss Calico_Allow"

definition calico_is_conflicting :: "'f calico_policy \<Rightarrow> 'f calico_policy \<Rightarrow> bool" where
  "calico_is_conflicting P Q \<longleftrightarrow>
     calico_order P = calico_order Q \<and>
     (affects_ingress P \<and> affects_ingress Q \<or> affects_egress P \<and> affects_egress Q) \<and>
     ps_and (selected_peers P) (selected_peers Q) \<noteq> [] \<and>
     (affects_ingress P \<and> affects_ingress Q \<and>
        rules_contain_conflicting_actions (ingress_rules P) (ingress_rules Q) \<or>
      affects_egress P \<and> affects_egress Q \<and>
        rules_contain_conflicting_actions (egress_rules P) (egress_rules Q))"

section \<open>Policies of all kinds\<close>

datatype 'f policy =
    K8s_Policy "'f k8s_policy"
  | Calico_Policy "'f calico_policy"
  | Istio_Policy "'f istio_policy"
  | Gateway_Policy "'f gateway_policy"
  | Sidecar_Policy "'f sidecar_policy"

fun policy_name :: "'f policy \<Rightarrow> string option \<Rightarrow> string" where
  "policy_name (K8s_Policy P) = policy_full_name P"
| "policy_name (Calico_Policy P) = policy_full_name P"
| "policy_name (Istio_Policy P) = policy_full_name P"
| "policy_name (Gateway_Policy P) = policy_full_name P"
| "policy_name (Sidecar_Policy P) = policy_full_name P"

fun selects :: "'f policy \<Rightarrow> peer_set" where
  "selects (K8s_Policy P) = selected_peers P"
| "selects (Calico_Policy P) = selected_peers P"
| "selects (Istio_Policy P) = selected_peers P"
| "selects (Gateway_Policy P) = selected_peers P"
| "selects (Sidecar_Policy P) = selected_peers P"

fun get_policy_kind :: "'f policy \<Rightarrow> policy_type" where
  "get_policy_kind (K8s_Policy P) = policy_kind P"
| "get_policy_kind (Calico_Policy P) = policy_kind P"
| "get_policy_kind (Istio_Policy P) = policy_kind P"
| "get_policy_kind (Gateway_Policy P) = policy_kind P"
| "get_policy_kind (Sidecar_Policy P) = policy_kind P"

fun sync_props :: "'f env \<Rightarrow> 'f policy \<Rightarrow> 'f policy option" where
  "sync_props E (K8s_Policy P) = map_option K8s_Policy (k8s_sync_props E P)"
| "sync_props E (Calico_Policy P) = map_option Calico_Policy (calico_sync_props E P)"
| "sync_props E (Istio_Policy P) = map_option Istio_Policy (istio_sync_props E P)"
| "sync_props E (Gateway_Policy P) = map_option Gateway_Policy (gateway_sync_props E P)"
| "sync_props E (Sidecar_Policy P) = map_option Sidecar_Policy (sidecar_sync_props E P)"

fun allowed_connections :: "'f env \<Rightarrow> bool \<Rightarrow> 'f policy \<Rightarrow> ('f policy \<times> 'f policy_connections) option" where
  "allowed_connections E i (K8s_Policy P) = map_option (map_prod K8s_Policy id) (k8s_allowed_connections E i P)"
| "allowed_connections E i (Calico_Policy P) =
     map_option (map_prod Calico_Policy id) (calico_allowed_connections E i P)"
| "allowed_connections E i (Istio_Policy P) = map_option (map_prod Istio_Policy id) (istio_allowed_connections E i P)"
| "allowed_connections E i (Gateway_Policy P) =
     map_option (map_prod Gateway_Policy id) (gateway_allowed_connections E i P)"
| "allowed_connections E i (Sidecar_Policy P) =
     map_option (map_prod Sidecar_Policy id) (sidecar_allowed_connections E i P)"

text \<open>The order of policies: Calico gives all Kubernetes policies the order 1000; no order is last.\<close>

fun get_order :: "'f policy \<Rightarrow> rat option" where
  "get_order (K8s_Policy P) = Some 1000"
| "get_order (Calico_Policy P) = calico_order P"
| "get_order _ = None"

definition base_policy_lt :: "'f policy \<Rightarrow> 'f policy \<Rightarrow> bool" where
  "base_policy_lt P Q =
     (case get_order P of
        None \<Rightarrow> False
      | Some x \<Rightarrow> (case get_order Q of None \<Rightarrow> True | Some y \<Rightarrow> x < y))"

definition policy_lt :: "'f policy \<Rightarrow> 'f policy \<Rightarrow> bool" where
  "policy_lt P Q =
     (case P of
        Istio_Policy p \<Rightarrow> (case Q of Istio_Policy q \<Rightarrow> istio_action p = Deny_Action | _ \<Rightarrow> False)
      | _ \<Rightarrow> base_policy_lt P Q)"

text \<open>\<open>==\<close> synchronises both policies when they are of one class.\<close>

definition base_policy_eq ::
  "'f env \<Rightarrow> ('r \<Rightarrow> 'r \<Rightarrow> bool) \<Rightarrow> ('f, 'r, 'a) network_policy_scheme \<Rightarrow> ('f, 'r, 'a) network_policy_scheme \<Rightarrow> bool"
where
  "base_policy_eq E rule_eq P Q \<longleftrightarrow>
     pol_name P = pol_name Q \<and> ns_option_eq (pol_namespace P) (pol_namespace Q) \<and>
     affects_egress P = affects_egress Q \<and> affects_ingress P = affects_ingress Q \<and>
     ps_eq (selected_peers P) (selected_peers Q) \<and>
     list_all2 rule_eq (ingress_rules P) (ingress_rules Q) \<and> list_all2 rule_eq (egress_rules P) (egress_rules Q) \<and>
     props_eq E (allow_ingress P) (allow_ingress Q) \<and> props_eq E (deny_ingress P) (deny_ingress Q) \<and>
     props_eq E (pass_ingress P) (pass_ingress Q) \<and> props_eq E (allow_egress P) (allow_egress Q) \<and>
     props_eq E (deny_egress P) (deny_egress Q) \<and> props_eq E (pass_egress P) (pass_egress Q)"

fun policy_eq :: "'f env \<Rightarrow> 'f policy \<Rightarrow> 'f policy \<Rightarrow> bool option" where
  "policy_eq E (K8s_Policy P) (K8s_Policy Q) =
     do { P \<leftarrow> k8s_sync_props E P; Q \<leftarrow> k8s_sync_props E Q; Some (base_policy_eq E (peer_rule_eq E) P Q) }"
| "policy_eq E (Calico_Policy P) (Calico_Policy Q) =
     do { P \<leftarrow> calico_sync_props E P; Q \<leftarrow> calico_sync_props E Q;
          Some (base_policy_eq E (calico_rule_eq E) P Q \<and> calico_order P = calico_order Q) }"
| "policy_eq E (Istio_Policy P) (Istio_Policy Q) =
     do { P \<leftarrow> istio_sync_props E P; Q \<leftarrow> istio_sync_props E Q;
          Some (base_policy_eq E (peer_rule_eq E) P Q \<and> istio_action P = istio_action Q) }"
| "policy_eq E (Gateway_Policy P) (Gateway_Policy Q) =
     do { P \<leftarrow> gateway_sync_props E P; Q \<leftarrow> gateway_sync_props E Q;
          Some (base_policy_eq E (peer_rule_eq E) P Q \<and> gateway_action P = gateway_action Q) }"
| "policy_eq E (Sidecar_Policy P) (Sidecar_Policy Q) =
     do { P \<leftarrow> sidecar_sync_props E P; Q \<leftarrow> sidecar_sync_props E Q;
          Some (base_policy_eq E sidecar_rule_eq P Q \<and> default_sidecar P = default_sidecar Q) }"
| "policy_eq E _ _ = Some False"

section \<open>Rules that contain a rule\<close>

datatype 'f any_rule =
    Peer_Rule "'f peer_rule"
  | Calico_Rule "'f calico_rule"
  | Sidecar_Rule "'f sidecar_rule"

fun ingress_rules_of :: "'f policy \<Rightarrow> 'f any_rule list" where
  "ingress_rules_of (K8s_Policy P) = map Peer_Rule (ingress_rules P)"
| "ingress_rules_of (Calico_Policy P) = map Calico_Rule (ingress_rules P)"
| "ingress_rules_of (Istio_Policy P) = map Peer_Rule (ingress_rules P)"
| "ingress_rules_of (Gateway_Policy P) = map Peer_Rule (ingress_rules P)"
| "ingress_rules_of (Sidecar_Policy P) = map Sidecar_Rule (ingress_rules P)"

fun egress_rules_of :: "'f policy \<Rightarrow> 'f any_rule list" where
  "egress_rules_of (K8s_Policy P) = map Peer_Rule (egress_rules P)"
| "egress_rules_of (Calico_Policy P) = map Calico_Rule (egress_rules P)"
| "egress_rules_of (Istio_Policy P) = map Peer_Rule (egress_rules P)"
| "egress_rules_of (Gateway_Policy P) = map Peer_Rule (egress_rules P)"
| "egress_rules_of (Sidecar_Policy P) = map Sidecar_Rule (egress_rules P)"

text \<open>Rules of sidecars have no \<open>contained_in\<close>, and only Calico rules an action.\<close>

fun any_contained_in :: "'f env \<Rightarrow> 'f any_rule \<Rightarrow> 'f any_rule \<Rightarrow> bool option" where
  "any_contained_in E (Sidecar_Rule r) s = None"
| "any_contained_in E (Peer_Rule r) (Peer_Rule s) = rule_contained_in E r s"
| "any_contained_in E (Peer_Rule r) (Calico_Rule s) = rule_contained_in E r s"
| "any_contained_in E (Peer_Rule r) (Sidecar_Rule s) = rule_contained_in E r s"
| "any_contained_in E (Calico_Rule r) (Peer_Rule s) = rule_contained_in E r s"
| "any_contained_in E (Calico_Rule r) (Calico_Rule s) = rule_contained_in E r s"
| "any_contained_in E (Calico_Rule r) (Sidecar_Rule s) = rule_contained_in E r s"

definition actions_contradict :: "'f any_rule \<Rightarrow> 'f any_rule \<Rightarrow> bool option" where
  "actions_contradict r s =
     (case (r, s) of (Calico_Rule a, Calico_Rule b) \<Rightarrow> Some (rule_action a \<noteq> rule_action b) | _ \<Rightarrow> None)"

definition issubset :: "peer_set \<Rightarrow> peer_set \<Rightarrow> bool" where
  "issubset s t \<longleftrightarrow> list_all (\<lambda>p. set_mem peer_eq p t) s"

text \<open>
  The loop over the rules of a policy, numbered from 1: the number of the first rule that contains
  the other one. The rule itself is skipped (Kubernetes, Istio) or ends the search (Calico). The
  result is the pair the method returns, with \<open>None\<close> for Python's.
\<close>

fun rule_containing_loop ::
  "'f env \<Rightarrow> 'f policy \<Rightarrow> 'f policy \<Rightarrow> 'f any_rule \<Rightarrow> int \<Rightarrow> ('f any_rule \<Rightarrow> bool option) \<Rightarrow> bool \<Rightarrow>
   (nat \<times> 'f any_rule) list \<Rightarrow> (nat \<times> bool) option option"
where
  "rule_containing_loop E P Q r index contradicts stop [] = Some None"
| "rule_containing_loop E P Q r index contradicts stop ((n, s) # rs) =
     do { same \<leftarrow> (if int n = index then policy_eq E P Q else Some False);
          if same then (if stop then Some None else rule_containing_loop E P Q r index contradicts stop rs)
          else do { c \<leftarrow> any_contained_in E r s;
                    if c then do { x \<leftarrow> contradicts s; Some (Some (n, x)) }
                    else rule_containing_loop E P Q r index contradicts stop rs } }"

text \<open>The other policy must be an Istio policy for the comparison with an Istio policy's action.\<close>

definition istio_actions_differ :: "'f istio_policy \<Rightarrow> 'f policy \<Rightarrow> bool option" where
  "istio_actions_differ P Q =
     (case Q of
        Istio_Policy q \<Rightarrow> Some (istio_action P \<noteq> istio_action q)
      | Gateway_Policy q \<Rightarrow> Some True
      | _ \<Rightarrow> None)"

fun rule_containing ::
  "'f env \<Rightarrow> 'f policy \<Rightarrow> 'f policy \<Rightarrow> 'f any_rule \<Rightarrow> int \<Rightarrow> 'f any_rule list \<Rightarrow> (nat \<times> bool) option option"
where
  "rule_containing E (K8s_Policy P) Q r index rs =
     (if \<not> issubset (selects Q) (selected_peers P) then Some None
      else rule_containing_loop E (K8s_Policy P) Q r index (\<lambda>_. Some False) False (enumerate 1 rs))"
| "rule_containing E (Calico_Policy P) Q r index rs =
     rule_containing_loop E (Calico_Policy P) Q r index (\<lambda>s. actions_contradict s r) True (enumerate 1 rs)"
| "rule_containing E (Istio_Policy P) Q r index rs =
     (if \<not> issubset (selects Q) (selected_peers P) then Some None
      else rule_containing_loop E (Istio_Policy P) Q r index (\<lambda>_. istio_actions_differ P Q) False (enumerate 1 rs))"
| "rule_containing E (Gateway_Policy P) Q r index rs = Some (Some (0, False))"
| "rule_containing E (Sidecar_Policy P) Q r index rs = Some (Some (0, False))"

definition ingress_rule_containing :: "'f env \<Rightarrow> 'f policy \<Rightarrow> 'f policy \<Rightarrow> int \<Rightarrow> (nat \<times> bool) option option" where
  "ingress_rule_containing E P Q index =
     do { r \<leftarrow> py_nth (ingress_rules_of Q) (index - 1);
          rule_containing E P Q r index (ingress_rules_of P) }"

definition egress_rule_containing :: "'f env \<Rightarrow> 'f policy \<Rightarrow> 'f policy \<Rightarrow> int \<Rightarrow> (nat \<times> bool) option option" where
  "egress_rule_containing E P Q index =
     do { r \<leftarrow> py_nth (egress_rules_of Q) (index - 1);
          rule_containing E P Q r index (egress_rules_of P) }"

end
