(* ===== verification/Connection_Sets.thy ===== *)
theory Connection_Sets
  imports Connectivity
begin

text \<open>
  What policies and layers rely on when they join and subtract sets of connections, as a locale:
  the laws of \<open>|=\<close> and \<open>-=\<close> with the condition under which subtraction is safe, and the two
  patterns the clients use, joining a list of sets and keeping what the sets of other actions
  left. The cube sets of \<open>ConnectivityProperties\<close> keep the laws.
\<close>

locale conn_sets =
  fixes un df :: "'c \<Rightarrow> 'c \<Rightarrow> 'c option"
    and good :: "'c \<Rightarrow> bool"
    and pts :: "'c \<Rightarrow> 'p set"
    and full :: "'c \<Rightarrow> bool"
    and dims :: "'c \<Rightarrow> 'd set"
  assumes un_ok: "good t \<Longrightarrow> good u \<Longrightarrow>
      \<exists>r. un t u = Some r \<and> good r \<and> pts r = pts t \<union> pts u \<and>
          (\<not> full u \<and> r = t \<or>
           dims r \<subseteq> (if full t then dims t else {}) \<union> (if full u then dims u else {}))"
    and df_ok: "good t \<Longrightarrow> good u \<Longrightarrow> full u \<Longrightarrow> full t \<or> dims u \<subseteq> dims t \<Longrightarrow>
      \<exists>r. df t u = Some r \<and> good r \<and> pts r = pts t - pts u \<and>
          (full r \<or> dims t \<union> dims u \<subseteq> dims r) \<and> (full r \<longrightarrow> full t \<and> dims r \<subseteq> dims t \<union> dims u)"
    and un_none: "good t \<Longrightarrow> good u \<Longrightarrow> \<not> full u \<Longrightarrow> un t u = Some t"
    and df_none: "good t \<Longrightarrow> good u \<Longrightarrow> \<not> full u \<Longrightarrow> df t u = Some t"
    and not_full: "good t \<Longrightarrow> \<not> full t \<Longrightarrow> pts t = {}"
begin

lemma df_points:
  assumes "good t" and "good u" and "full t \<or> dims u \<subseteq> dims t"
  shows "\<exists>r. df t u = Some r \<and> good r \<and> pts r = pts t - pts u"
proof (cases "full u")
  case True
  then show ?thesis using df_ok [OF assms(1,2) _ assms(3)] by blast
next
  case False
  then show ?thesis using df_none [OF assms(1,2)] not_full [OF assms(2)] assms(1) by simp
qed

text \<open>Nothing is left of nothing, when every subtraction is safe.\<close>

lemma df_from_empty:
  assumes "good t" and "\<not> full t" and "good u" and "dims u \<subseteq> dims t"
  shows "\<exists>r. df t u = Some r \<and> good r \<and> \<not> full r \<and> dims t \<subseteq> dims r \<and> pts r = {}"
proof (cases "full u")
  case True
  then show ?thesis using df_ok [OF assms(1,3) _ disjI2 [OF assms(4)]] assms(2) not_full [OF assms(1,2)] by auto
next
  case False
  then show ?thesis using df_none [OF assms(1,3)] not_full assms by auto
qed

lemma un_all:
  assumes "good t" and "\<forall>u\<in>set us. good (f u)"
  shows "\<exists>r. fold_opt (\<lambda>t u. un t (f u)) t us = Some r \<and> good r \<and> pts r = pts t \<union> (\<Union>u\<in>set us. pts (f u))"
  using assms
proof (induction us arbitrary: t)
  case (Cons u us)
  obtain r where r: "un t (f u) = Some r" "good r" "pts r = pts t \<union> pts (f u)"
    using un_ok [of t "f u"] Cons.prems by auto
  from Cons.IH [OF r(2)] Cons.prems(2) r show ?case by auto
qed simp

definition within :: "'d set \<Rightarrow> 'c \<Rightarrow> bool" where
  "within D c \<longleftrightarrow> (full c \<longrightarrow> dims c \<subseteq> D)"

lemma take_rest:
  assumes p: "good p" "dims p = D" and a: "good a" "within D a" and b: "good b" "within D b"
    and c: "good c" "within D c"
  shows "\<exists>x y z. df p a = Some x \<and> df x b = Some y \<and> un c y = Some z \<and> good z \<and> within D z \<and>
           pts z = pts c \<union> (pts p - pts a - pts b)"
proof -
  obtain x where x: "df p a = Some x" "good x" "pts x = pts p - pts a" "full x \<or> D \<subseteq> dims x" "within D x"
  proof (cases "full a")
    case True
    then have "full p \<or> dims a \<subseteq> dims p" using a(2) p(2) by (simp add: within_def)
    from df_ok [OF p(1) a(1) True this] obtain r where
      r: "df p a = Some r" "good r" "pts r = pts p - pts a" "full r \<or> dims p \<union> dims a \<subseteq> dims r"
        "full r \<longrightarrow> full p \<and> dims r \<subseteq> dims p \<union> dims a" by blast
    have "full r \<or> D \<subseteq> dims r" "within D r" using r(4,5) p(2) a(2) True unfolding within_def by blast+
    then show ?thesis using that r(1-3) by blast
  next
    case False
    then show ?thesis using that [of p] df_none [OF p(1) a(1)] not_full [OF a(1)] p by (simp add: within_def)
  qed
  obtain y where y: "df x b = Some y" "good y" "pts y = pts x - pts b" "within D y"
  proof (cases "full b")
    case True
    then have "full x \<or> dims b \<subseteq> dims x" using b(2) x(4) by (auto simp: within_def)
    from df_ok [OF x(2) b(1) True this] obtain r where
      r: "df x b = Some r" "good r" "pts r = pts x - pts b" "full r \<longrightarrow> full x \<and> dims r \<subseteq> dims x \<union> dims b"
      by blast
    have "within D r" using r(4) x(5) b(2) True unfolding within_def by blast
    then show ?thesis using that r(1-3) by blast
  next
    case False
    then show ?thesis using that [of x] df_none [OF x(2) b(1)] not_full [OF b(1)] x by simp
  qed
  obtain z where z: "un c y = Some z" "good z" "pts z = pts c \<union> pts y"
    "\<not> full y \<and> z = c \<or> dims z \<subseteq> (if full c then dims c else {}) \<union> (if full y then dims y else {})"
    using un_ok [OF c(1) y(2)] by blast
  have "within D z" using z(4) c(2) y(4) by (auto simp: within_def split: if_splits)
  then show ?thesis using x y z by (intro exI [of _ x] exI [of _ y] exI [of _ z]) auto
qed

end

section \<open>Sets of connections\<close>

definition good_conns :: "'f env \<Rightarrow> 'f dim_value hcs \<Rightarrow> bool" where
  "good_conns E t \<longleftrightarrow>
     env_ok E \<and> cubes_ok (fsm_of E) (table_of E) t \<and> all_dims t = all_dimensions_list \<and> is_props t"

definition conn_points :: "'f env \<Rightarrow> 'f dim_value hcs \<Rightarrow> (dim \<Rightarrow> item) set" where
  "conn_points E t = {p. point_in (fsm_of E) (table_of E) all_dimensions_list p \<and> holds (fsm_of E) (table_of E) t p}"

interpretation conns: conn_sets "hc_ior (env_dims E)" "hc_isub (env_dims E)" "good_conns E" "conn_points E"
  hc_bool "\<lambda>t. set (active_dims t)" for E :: "'f env"
proof
  fix t u :: "'f dim_value hcs"
  assume t: "good_conns E t" and u: "good_conns E u"
  have M: "dim_values (env_dims E) (val_ok E)" using t env_values by (auto simp: good_conns_def)
  have wf: "cubes_ok (fsm_of E) (table_of E) t" "cubes_ok (fsm_of E) (table_of E) u" "all_dims u = all_dims t"
    "all_dims t = all_dimensions_list" "is_props t" "env_ok E"
    using t u by (simp_all add: good_conns_def)
  show "\<exists>r. hc_ior (env_dims E) t u = Some r \<and> good_conns E r \<and> conn_points E r = conn_points E t \<union> conn_points E u \<and>
      (\<not> hc_bool u \<and> r = t \<or>
       set (active_dims r) \<subseteq>
         (if hc_bool t then set (active_dims t) else {}) \<union> (if hc_bool u then set (active_dims u) else {}))"
  proof -
    obtain r where r: "hc_ior (env_dims E) t u = Some r" "dim_values.result_of (env_dims E) (val_ok E) (\<or>) r t u"
      using dim_values.hc_ior_ok [OF M wf(1-3)] by blast
    have "good_conns E r" "conn_points E r = conn_points E t \<union> conn_points E u"
      using r(2) wf(4-6) by (auto simp: dim_values.result_of_def [OF M] good_conns_def conn_points_def)
    then show ?thesis using r(1) dim_values.hc_ior_active [OF M wf(1-3) r(1)] by blast
  qed
  have all_empty: "\<not> hc_bool r" if "is_all u" "hc_isub (env_dims E) t u = Some r" for r
  proof -
    have "hc_clear (hc_clear t) = hc_clear t" by (cases t) simp_all
    then have "hc_isub (env_dims E) (hc_clear t) u = Some r" using that by (simp add: hc_isub_def)
    then show ?thesis
      using dim_values.hc_isub_empty [OF M, of "hc_clear t" u r] dim_values.clear_ok [OF M wf(1)] wf that(1)
      by (auto simp: dim_values.hc_wf_iff [OF M])
  qed
  show "\<exists>r. hc_isub (env_dims E) t u = Some r \<and> good_conns E r \<and> conn_points E r = conn_points E t - conn_points E u \<and>
      (hc_bool r \<or> set (active_dims t) \<union> set (active_dims u) \<subseteq> set (active_dims r)) \<and>
      (hc_bool r \<longrightarrow> hc_bool t \<and> set (active_dims r) \<subseteq> set (active_dims t) \<union> set (active_dims u))"
    if full: "hc_bool u" and safe: "hc_bool t \<or> set (active_dims u) \<subseteq> set (active_dims t)"
  proof -
    obtain r where r: "hc_isub (env_dims E) t u = Some r" "dim_values.result_of (env_dims E) (val_ok E) (\<lambda>a b. a \<and> \<not> b) r t u"
      using dim_values.hc_isub_ok [OF M wf(1-3) safe] by blast
    have "good_conns E r" "conn_points E r = conn_points E t - conn_points E u"
      using r(2) wf(4-6) by (auto simp: dim_values.result_of_def [OF M] good_conns_def conn_points_def)
    moreover have "hc_bool r \<longrightarrow> hc_bool t"
      using dim_values.hc_isub_empty [OF M wf(1) _ wf(2) _ r(1)] safe by blast
    ultimately show ?thesis
      using dim_values.hc_isub_active [OF M wf(1-3) safe full r(1)] all_empty [OF _ r(1)] r(1) by blast
  qed
  show "hc_ior (env_dims E) t u = Some t" if "\<not> hc_bool u"
    using that wf by (auto simp: hc_ior_def dim_values.hc_wf_iff [OF M])
  show "hc_isub (env_dims E) t u = Some t" if "\<not> hc_bool u"
    using that wf by (auto simp: hc_isub_def Let_def dim_values.hc_wf_iff [OF M])
next
  fix t :: "'f dim_value hcs"
  assume t: "good_conns E t" and "\<not> hc_bool t"
  then show "conn_points E t = {}"
    using dim_values.not_bool_sem [OF env_values, of E t] by (auto simp: good_conns_def conn_points_def)
qed

lemma empty_conns:
  fixes E :: "'f env"
  assumes "env_ok E"
  shows "good_conns E (make_empty_props :: 'f dim_value hcs)" and "conn_points E (make_empty_props :: 'f dim_value hcs) = {}"
    and "conns.within D (make_empty_props :: 'f dim_value hcs)"
  using empty_props_ok [OF assms] assms by (auto simp: good_conns_def conn_points_def conns.within_def)


lemma full_conns:
  fixes E :: "'f env"
  assumes "env_ok E"
  shows "good_conns E (make_all_props :: 'f dim_value hcs)"
    and "conn_points E (make_all_props :: 'f dim_value hcs) = {p. point_in (fsm_of E) (table_of E) all_dimensions_list p}"
  using all_props_ok [OF assms] assms by (auto simp: good_conns_def conn_points_def)

lemma plain_cube_conns:
  assumes "env_ok E" and "cube_ok E c" and "no_false_empty E c" and "cc_named c = []" and "cc_excluded c = []"
  shows "\<exists>r. make_conn_props E c = Some (r, c) \<and> good_conns E r \<and>
           conn_points E r = {p. point_in (fsm_of E) (table_of E) all_dimensions_list p \<and> cube_points E c p} \<and>
           conns.within (set (active_of E c)) r"
proof -
  obtain r where r: "plain_conn_props E c = Some r" "props_of_cube E c r"
    using plain_conn_props_ok [OF assms] by blast
  obtain x where src: "get_item E c ''src_ports'' = Some x"
    by (rule get_ports_item [OF assms(1,2), of "''src_ports''"]) (auto intro: that)
  obtain a where dst: "get_item E c ''dst_ports'' = Some (Ext_Ports a)" "named a = []" "excluded a = []"
    using assms(4,5) by (rule_tac get_ports_item [OF assms(1,2), of "''dst_ports''"]) (auto intro: that)
  have "make_conn_props E c = Some (r, c)"
    using src dst r(1) by (simp add: make_conn_props_def)
  moreover have "conns.within (set (active_of E c)) r"
    using r(2) empty_conns(3) [OF assms(1)] by (auto simp: props_of_cube_def conns.within_def)
  ultimately show ?thesis
    using r(2) assms(1) by (auto simp: props_of_cube_def good_conns_def conn_points_def)
qed

section \<open>Connections of a dictionary\<close>

text \<open>The value stands for the integers of an interval set, in a dimension of numbers.\<close>

definition sets_dim :: "'f env \<Rightarrow> dim \<Rightarrow> 'f ext_value \<Rightarrow> int set \<Rightarrow> bool" where
  "sets_dim E d v X \<longleftrightarrow>
     d \<in> set all_dimensions_list \<and> d \<notin> {''hosts'', ''paths''} \<and>
     (\<forall>c. cube_ok E c \<longrightarrow>
        (\<exists>c' xs. set_item E c d v = Some c' \<and> cube_ok E c' \<and> cube_val c' = (cube_val c)(d := Intervals xs) \<and>
           int_canonical xs \<and> iset_set xs = X \<and> cc_named c' = cc_named c \<and> cc_excluded c' = cc_excluded c))"

lemma peers_sets_dim:
  assumes "env_ok E" and "peers_dim d" and "ps_ok s" and "\<forall>e\<in>ps_points s. numbered (base_of E) e"
  shows "sets_dim E d (Ext_Peers s) (index_of (base_of E) ` ps_points s)"
  using set_peers_ok [OF assms(1) _ assms(2) _ assms(4)] peers_dim_in [OF assms(2)] assms(3)
  unfolding sets_dim_def ps_ok_def by blast

lemma protocols_sets_dim:
  assumes "env_ok E" and "int_canonical xs"
  shows "sets_dim E ''protocols'' (Ext_Value (Intervals xs)) (iset_set xs)"
proof -
  have d: "''protocols'' \<in> set all_dimensions_list" "''protocols'' \<notin> {''hosts'', ''paths''}"
    by (simp_all add: all_dimensions_list_def)
  have "val_ok E ''protocols'' (Intervals xs)"
    using env_interval_dims(3) [OF assms(1) d] assms(2) by simp
  note set = set_dim_ok [OF _ d(1) this]
  have "set_item E c ''protocols'' (Ext_Value (Intervals xs)) = set_dim_directly c ''protocols'' (Intervals xs)"
    if "cube_ok E c" for c
    using that d(1) by (simp add: set_item_def cube_ok_def)
  then show ?thesis
    unfolding sets_dim_def using set d assms(2) by metis
qed

text \<open>The dimensions of words are not taken for empty.\<close>

definition words_ok :: "'f env \<Rightarrow> bool" where
  "words_ok E \<longleftrightarrow> (\<forall>d\<in>{''hosts'', ''paths''}. \<not> dv_eq (fsm_of E) (env_domain E d) (env_empty E d))"

lemma update_sets:
  assumes "cube_ok E c" and "list_all2 (\<lambda>(d, v) (d', X). d = d' \<and> sets_dim E d v X) kvs dxs" and "distinct (map fst dxs)"
  shows "\<exists>c'. cube_update E c kvs = Some c' \<and> cube_ok E c' \<and> cc_named c' = cc_named c \<and> cc_excluded c' = cc_excluded c \<and>
           (\<forall>d. d \<notin> fst ` set dxs \<longrightarrow> cube_val c' d = cube_val c d) \<and>
           (\<forall>(d, X)\<in>set dxs. \<exists>xs. cube_val c' d = Intervals xs \<and> int_canonical xs \<and> iset_set xs = X)"
  using assms(2,1,3)
proof (induction arbitrary: c rule: list_all2_induct)
  case Nil
  then show ?case by (simp add: cube_update_def)
next
  case (Cons kv kvs dX dxs)
  obtain d v X where eq: "kv = (d, v)" "dX = (d, X)" and s: "sets_dim E d v X"
    using Cons.hyps(1) by (cases kv; cases dX) auto
  obtain c1 xs where c1: "set_item E c d v = Some c1" "cube_ok E c1" "cube_val c1 = (cube_val c)(d := Intervals xs)"
    "int_canonical xs" "iset_set xs = X" "cc_named c1 = cc_named c" "cc_excluded c1 = cc_excluded c"
    using s Cons.prems(1) unfolding sets_dim_def by blast
  have fresh: "d \<notin> fst ` set dxs" "distinct (map fst dxs)" using Cons.prems(2) by (simp_all add: eq)
  from Cons.IH [OF c1(2) fresh(2)] obtain c' where c': "cube_update E c1 kvs = Some c'" "cube_ok E c'"
    "cc_named c' = cc_named c1" "cc_excluded c' = cc_excluded c1"
    "\<forall>d. d \<notin> fst ` set dxs \<longrightarrow> cube_val c' d = cube_val c1 d"
    "\<forall>(d, X)\<in>set dxs. \<exists>xs. cube_val c' d = Intervals xs \<and> int_canonical xs \<and> iset_set xs = X"
    by blast
  have "cube_val c' d = Intervals xs" using c'(5) fresh(1) c1(3) by simp
  then show ?case
    using c' c1 by (intro exI [of _ c']) (auto simp: eq cube_update_def)
qed

definition dict_points :: "'f env \<Rightarrow> (dim \<times> int set) list \<Rightarrow> (dim \<Rightarrow> item) set" where
  "dict_points E dxs =
     {p. point_in (fsm_of E) (table_of E) all_dimensions_list p \<and> (\<forall>(d, X)\<in>set dxs. p d \<in> Num ` X)}"

lemma dict_conns:
  assumes E: "env_ok E" and w: "words_ok E"
    and kvs: "list_all2 (\<lambda>(d, v) (d', X). d = d' \<and> sets_dim E d v X) kvs dxs" and dist: "distinct (map fst dxs)"
  shows "\<exists>r. make_conn_props_from_dict E kvs = Some r \<and> good_conns E r \<and> conn_points E r = dict_points E dxs \<and>
           conns.within (fst ` set dxs) r"
proof -
  obtain c where c: "new_cube E [] = Some c" "cube_ok E c" "cc_named c = []" "cc_excluded c = []"
    "\<forall>d\<in>set all_dimensions_list. cube_val c d = env_domain E d"
    using new_cube_ok [OF E] by blast
  obtain c' where c': "cube_update E c kvs = Some c'" "cube_ok E c'" "cc_named c' = []" "cc_excluded c' = []"
    "\<forall>d. d \<notin> fst ` set dxs \<longrightarrow> cube_val c' d = cube_val c d"
    "\<forall>(d, X)\<in>set dxs. \<exists>xs. cube_val c' d = Intervals xs \<and> int_canonical xs \<and> iset_set xs = X"
    using update_sets [OF c(2) kvs dist] c(3,4) by auto
  have "\<exists>v. sets_dim E d v X" if dx: "(d, X) \<in> set dxs" for d X
  proof -
    obtain i where i: "i < length dxs" "dxs ! i = (d, X)" using dx by (auto simp: in_set_conv_nth)
    then show ?thesis using list_all2_nthD2 [OF kvs i(1)] by (cases "kvs ! i") auto
  qed
  then have dims: "d \<in> set all_dimensions_list" "d \<notin> {''hosts'', ''paths''}" if "(d, X) \<in> set dxs" for d X
    using that unfolding sets_dim_def by blast+
  have rest: "cube_val c' d = env_domain E d" if "d \<notin> fst ` set dxs" "d \<in> set all_dimensions_list" for d
    using c'(5) c(5) that by simp
  have "d \<notin> fst ` set dxs" if "d \<in> {''hosts'', ''paths''}" for d using dims(2) that by fastforce
  then have "no_false_empty E c'" using w rest by (auto simp: no_false_empty_def words_ok_def all_dimensions_list_def)
  from plain_cube_conns [OF E c'(2) this c'(3,4)] obtain r where
    r: "make_conn_props E c' = Some (r, c')" "good_conns E r"
      "conn_points E r = {p. point_in (fsm_of E) (table_of E) all_dimensions_list p \<and> cube_points E c' p}"
      "conns.within (set (active_of E c')) r" by blast
  have "set (active_of E c') \<subseteq> fst ` set dxs"
  proof
    fix d
    assume "d \<in> set (active_of E c')"
    then have d: "d \<in> set all_dimensions_list" "\<not> dv_eq (fsm_of E) (cube_val c' d) (env_domain E d)"
      by (simp_all add: active_of_def)
    then show "d \<in> fst ` set dxs" using rest [OF _ d(1)] values_dset(1) [OF E d(1) env_domain_ok(3) [OF E d(1)]] by metis
  qed
  then have "conns.within (fst ` set dxs) r" using r(4) by (auto simp: conns.within_def)
  moreover have "cube_points E c' p \<longleftrightarrow> (\<forall>(d, X)\<in>set dxs. p d \<in> Num ` X)"
    if p: "point_in (fsm_of E) (table_of E) all_dimensions_list p" for p
  proof
    have mem: "dv_mem (fsm_of E) (p d) (cube_val c' d) \<longleftrightarrow> p d \<in> Num ` X" if dx: "(d, X) \<in> set dxs" for d X
    proof -
      have "\<exists>xs. cube_val c' d = Intervals xs \<and> int_canonical xs \<and> iset_set xs = X"
        using bspec [OF c'(6) dx] by simp
      then obtain xs where xs: "cube_val c' d = Intervals xs" "int_canonical xs" "iset_set xs = X" by (elim exE conjE)
      have "iset_mem n xs \<longleftrightarrow> n \<in> X" for n using int_points.iset_mem_iff [OF xs(2)] xs(3) by simp
      then show ?thesis unfolding xs(1) by (cases "p d") auto
    qed
    show "\<forall>(d, X)\<in>set dxs. p d \<in> Num ` X" if "cube_points E c' p"
    proof (intro ballI, clarify)
      fix d X
      assume dx: "(d, X) \<in> set dxs"
      have "dv_mem (fsm_of E) (p d) (cube_val c' d)"
        using that dims(1) [OF dx] unfolding cube_points_def by blast
      then show "p d \<in> Num ` X" using mem [OF dx] by blast
    qed
    assume all: "\<forall>(d, X)\<in>set dxs. p d \<in> Num ` X"
    have "dv_mem (fsm_of E) (p d) (cube_val c' d)" if "d \<in> set all_dimensions_list" for d
    proof (cases "d \<in> fst ` set dxs")
      case True
      then obtain X where dx: "(d, X) \<in> set dxs" by force
      then show ?thesis using all mem [OF dx] by blast
    next
      case False
      then show ?thesis
        using rest that dim_values.in_space_mem [OF env_values [OF E] p that] env_domain_ok(1) [OF E that] by simp
    qed
    then show "cube_points E c' p" by (simp add: cube_points_def)
  qed
  ultimately show ?thesis
    using c(1) c'(1) r(1-3)
    by (intro exI [of _ r]) (auto simp: make_conn_props_from_dict_def make_from_dict_def dict_points_def)
qed


section \<open>Connections between peers\<close>

definition between :: "'f env \<Rightarrow> endpoint set \<Rightarrow> endpoint set \<Rightarrow> (dim \<Rightarrow> item) set" where
  "between E S T =
     {p. point_in (fsm_of E) (table_of E) all_dimensions_list p \<and>
         p ''src_peers'' \<in> Num ` index_of (base_of E) ` S \<and> p ''dst_peers'' \<in> Num ` index_of (base_of E) ` T}"

definition peers_ok :: "'f env \<Rightarrow> peer_set \<Rightarrow> bool" where
  "peers_ok E s \<longleftrightarrow> ps_ok s \<and> (\<forall>e\<in>ps_points s. numbered (base_of E) e)"

lemma between_conns:
  assumes "env_ok E" and "words_ok E" and "peers_ok E s" and "peers_ok E t"
  shows "\<exists>r. conns_between E s t = Some r \<and> good_conns E r \<and> conn_points E r = between E (ps_points s) (ps_points t) \<and>
           conns.within {''src_peers'', ''dst_peers''} r"
proof -
  let ?dxs = "[(''src_peers'', index_of (base_of E) ` ps_points s), (''dst_peers'', index_of (base_of E) ` ps_points t)]"
  have "list_all2 (\<lambda>(d, v) (d', X). d = d' \<and> sets_dim E d v X)
      [(''src_peers'', Ext_Peers s), (''dst_peers'', Ext_Peers t)] ?dxs"
    using peers_sets_dim [OF assms(1)] assms(3,4) by (simp add: peers_ok_def)
  from dict_conns [OF assms(1,2) this] show ?thesis
    by (auto simp: conns_between_def between_def dict_points_def)
qed

lemma protocol_conns:
  assumes "env_ok E" and "words_ok E" and "peers_ok E s" and "peers_ok E t" and "int_canonical xs"
  shows "\<exists>r. make_conn_props_from_dict E [(''src_peers'', Ext_Peers s), (''dst_peers'', Ext_Peers t),
                 (''protocols'', Ext_Value (Intervals xs))] = Some r \<and> good_conns E r \<and>
           conn_points E r = between E (ps_points s) (ps_points t) \<inter> {p. p ''protocols'' \<in> Num ` iset_set xs}"
proof -
  let ?dxs = "[(''src_peers'', index_of (base_of E) ` ps_points s), (''dst_peers'', index_of (base_of E) ` ps_points t),
               (''protocols'', iset_set xs)]"
  have "list_all2 (\<lambda>(d, v) (d', X). d = d' \<and> sets_dim E d v X)
      [(''src_peers'', Ext_Peers s), (''dst_peers'', Ext_Peers t), (''protocols'', Ext_Value (Intervals xs))] ?dxs"
    using peers_sets_dim [OF assms(1)] protocols_sets_dim [OF assms(1,5)] assms(3,4) by (simp add: peers_ok_def)
  from dict_conns [OF assms(1,2) this] show ?thesis
    by (auto simp: between_def dict_points_def)
qed

lemma valid_index_of:
  assumes B: "base_ok B" and n: "n \<in> valid_indices B"
  shows "\<exists>e. numbered B e \<and> index_of B e = n"
proof -
  consider (v4) "min_ipv4_index \<le> n" "n \<le> max_ipv4_index" | (v6) "min_ipv6_index \<le> n" "n \<le> max_ipv6_index"
    | (pod) "min_pod_index \<le> n" "n < min_pod_index + int (length (ordered_peer_list B))"
    using n by (auto simp: valid_indices_def)
  then show ?thesis
  proof cases
    case v4
    then have "index_of B (Address (IPv4 (word_of_int (n - min_ipv4_index)))) = n"
      by (simp add: index_of_def uint_word_of_int index_defs)
    then show ?thesis using numbered_def by fastforce
  next
    case v6
    then have "uint (word_of_int (n - min_ipv6_index) :: 128 word) = n - min_ipv6_index"
      by (simp only: uint_word_of_int) (simp add: index_defs)
    then have "index_of B (Address (IPv6 (word_of_int (n - min_ipv6_index)))) = n" by (simp add: index_of_def)
    then show ?thesis using numbered_def by fastforce
  next
    case pod
    define i where "i = nat (n - min_pod_index)"
    have i: "i < length (ordered_peer_list B)" "n = min_pod_index + int i" using pod by (simp_all add: i_def)
    have d: "distinct (map peer_key (ordered_peer_list B))" using B by (simp add: base_ok_def peers.ok_distinct)
    let ?k = "peer_key (ordered_peer_list B ! i)"
    have "takeWhile (\<lambda>p. peer_key p \<noteq> ?k) (ordered_peer_list B) = take i (ordered_peer_list B)"
      by (rule takeWhile_eq_take_P_nth) (use i(1) d nth_eq_iff_index_eq [OF d] in auto)
    then have "index_of B (Member ?k) = n" using i by (simp add: index_of_def position_def)
    moreover have "numbered B (Member ?k)" using i(1) by (simp add: numbered_def)
    ultimately show ?thesis by blast
  qed
qed

text \<open>
  The state of a query: the domains of the peers have no index that stands for no peer, and are
  the same for sources and destinations.
\<close>

definition query_env :: "'f env \<Rightarrow> bool" where
  "query_env E \<longleftrightarrow>
     env_ok E \<and> words_ok E \<and>
     (\<exists>xs. env_domain E ''src_peers'' = Intervals xs \<and> env_domain E ''dst_peers'' = Intervals xs \<and>
           iset_set xs \<subseteq> valid_indices (base_of E))"

lemma domain_conns:
  assumes "query_env E"
  shows "\<exists>r. all_conns_props_per_domain_peers E = Some r \<and> good_conns E r \<and>
           conn_points E r = {p. point_in (fsm_of E) (table_of E) all_dimensions_list p}"
proof -
  obtain xs where E: "env_ok E" "words_ok E" and xs: "env_domain E ''src_peers'' = Intervals xs"
    "env_domain E ''dst_peers'' = Intervals xs" "iset_set xs \<subseteq> valid_indices (base_of E)"
    using assms unfolding query_env_def by blast
  have d: "d \<in> set all_dimensions_list \<and> d \<notin> {''hosts'', ''paths''}" if "peers_dim d" for d
    using peers_dim_in [OF that] .
  have can: "int_canonical xs"
    using env_domain_ok(3) [OF E(1), of "''src_peers''"] env_interval_dims(3) [OF E(1), of "''src_peers''"] xs(1)
    by (simp add: all_dimensions_list_def)
  have B: "base_ok (base_of E)" using E(1) by (simp add: env_ok_def)
  obtain s where s: "get_peer_set_by_indices (base_of E) xs = Some s" "ps_ok s"
    "ps_points s = {e. numbered (base_of E) e \<and> index_of (base_of E) e \<in> iset_set xs}"
    using get_peer_set_by_indices_ok [OF B can xs(3)] by blast
  have "peers_ok E s" using s(2,3) by (simp add: peers_ok_def)
  from between_conns [OF E this this] obtain r where
    r: "conns_between E s s = Some r" "good_conns E r" "conn_points E r = between E (ps_points s) (ps_points s)" by blast
  have idx: "iset_set xs \<subseteq> index_of (base_of E) ` ps_points s"
  proof
    fix n
    assume n: "n \<in> iset_set xs"
    then obtain e where "numbered (base_of E) e" "index_of (base_of E) e = n"
      using xs(3) valid_index_of [OF B] by blast
    then show "n \<in> index_of (base_of E) ` ps_points s" using n by (auto simp: s(3))
  qed
  have dom: "get_dimension_domain_by_name (table_of E) d = Some (Intervals xs)" if "d \<in> {''src_peers'', ''dst_peers''}" for d
    using env_domain_ok(1) [OF E(1), of d] d xs(1,2) that by auto
  have "p d \<in> Num ` index_of (base_of E) ` ps_points s"
    if p: "point_in (fsm_of E) (table_of E) all_dimensions_list p" and d': "d \<in> {''src_peers'', ''dst_peers''}" for p d
  proof -
    have "dv_mem (fsm_of E) (p d) (Intervals xs)"
      using dim_values.in_space_mem [OF env_values [OF E(1)] p] d d' dom [OF d'] by auto
    then obtain n where "p d = Num n" "n \<in> iset_set xs"
      using int_points.iset_mem_iff [OF can] by (cases "p d") auto
    then show ?thesis using idx by blast
  qed
  then have "between E (ps_points s) (ps_points s) = {p. point_in (fsm_of E) (table_of E) all_dimensions_list p}"
    by (auto simp: between_def)
  then show ?thesis
    using r s(1) dom [of "''src_peers''"] by (simp add: all_conns_props_per_domain_peers_def)
qed


text \<open>An environment whose domains of peers are all IPv4 addresses and two pods.\<close>

definition two_pods_env :: "string set env" where
  "two_pods_env =
     language_env [Interval min_ipv4_index max_ipv4_index, Interval min_pod_index (min_pod_index + 1)] example_numbering"

lemma two_pods_base [simp]: "base_of two_pods_env = example_numbering"
  by (simp add: two_pods_env_def language_env_def)

lemma two_pods_query_env: "query_env two_pods_env"
proof -
  let ?xs = "[Interval min_ipv4_index max_ipv4_index, Interval min_pod_index (min_pod_index + 1)]"
  have can: "int_canonical ?xs" "?xs \<noteq> []" by (simp_all add: canonical_def iv_valid_def index_defs)
  have env: "env_ok two_pods_env"
    unfolding two_pods_env_def by (rule language_env_ok [OF can example_numbering_ok])
  obtain dt where dt: "init_dim_table languages ?xs = Some dt"
    using init_dim_table_ok [OF languages_regexes can] by blast
  have "env_domain two_pods_env d = Intervals ?xs" if "peers_dim d" for d
    using dt that
    by (auto simp: two_pods_env_def language_env_def env_domain_def init_dim_table_def Let_def dict_of_list_def
        get_dimension_domain_by_name_def split: bind_splits)
  moreover have "iset_set ?xs \<subseteq> valid_indices example_numbering"
    by (auto simp: valid_indices_def example_numbering_def iv_set_def)
  moreover have "words_ok two_pods_env"
    using language_words [OF _ can] by (auto simp: words_ok_def two_pods_env_def)
  ultimately show ?thesis using env by (simp add: query_env_def)
qed

lemmas two_pods_env_ok = two_pods_query_env [unfolded query_env_def, THEN conjunct1]

end
