(* ===== verification/Policy_Results.thy ===== *)
theory Policy_Results
  imports Policy_Kinds Connection_Sets
begin

text \<open>
  What the connection sets of a policy mean: the rules of a Calico policy are matched in order, the
  rules of the other kinds are joined. Also what clones, comparisons and the reduction of the
  rules to the domains of a query do.
\<close>

section \<open>Joining rules\<close>

lemma union_rules_points:
  assumes "env_ok E" and "\<forall>r\<in>set rs. good_conns E (rule_props r)"
  shows "\<exists>t. union_rules E make_empty_props rs = Some t \<and> good_conns E t \<and>
           conn_points E t = (\<Union>r\<in>set rs. conn_points E (rule_props r))"
  using conns.un_all [of E make_empty_props rs rule_props] empty_conns [OF assms(1)] assms(2)
  unfolding union_rules_def by simp

section \<open>First match\<close>

text \<open>The action of the first rule that is not only logged and has the connection.\<close>

fun first_match :: "'f env \<Rightarrow> 'f calico_rule list \<Rightarrow> (dim \<Rightarrow> item) \<Rightarrow> calico_action option" where
  "first_match E [] p = None"
| "first_match E (r # rs) p =
     (if rule_action r \<noteq> Calico_Log \<and> p \<in> conn_points E (rule_props r) then Some (rule_action r)
      else first_match E rs p)"

definition matched :: "'f env \<Rightarrow> 'f calico_rule list \<Rightarrow> calico_action \<Rightarrow> (dim \<Rightarrow> item) set" where
  "matched E rs a = {p. first_match E rs p = Some a}"

lemma first_match_append:
  "first_match E (rs @ ss) p = (case first_match E rs p of None \<Rightarrow> first_match E ss p | Some a \<Rightarrow> Some a)"
  by (induction rs) auto

lemma first_match_not_log: "first_match E rs p \<noteq> Some Calico_Log"
  by (induction rs) auto

lemma matched_snoc:
  "matched E (rs @ [r]) a =
     matched E rs a \<union>
     (if rule_action r = a \<and> a \<noteq> Calico_Log
      then conn_points E (rule_props r) - (matched E rs Calico_Allow \<union> matched E rs Calico_Deny \<union> matched E rs Calico_Pass)
      else {})"
proof -
  have "\<exists>b\<in>{Calico_Allow, Calico_Deny, Calico_Pass}. first_match E rs p = Some b" if "first_match E rs p \<noteq> None" for p
    using that first_match_not_log [of E rs p] by (cases "first_match E rs p"; cases "the (first_match E rs p)") auto
  then show ?thesis
    by (auto simp: matched_def first_match_append split: option.splits if_splits)
qed

lemma matched_Nil [simp]: "matched E [] a = {}"
  by (simp add: matched_def)

text \<open>The three sets of a direction.\<close>

fun action_props :: "bool \<Rightarrow> 'f calico_policy \<Rightarrow> calico_action \<Rightarrow> 'f dim_value hcs" where
  "action_props i P Calico_Allow = (if i then allow_ingress P else allow_egress P)"
| "action_props i P Calico_Deny = (if i then deny_ingress P else deny_egress P)"
| "action_props i P Calico_Pass = (if i then pass_ingress P else pass_egress P)"
| "action_props i P Calico_Log = make_empty_props"

definition set_action_props :: "bool \<Rightarrow> calico_action \<Rightarrow> 'f dim_value hcs \<Rightarrow> 'f calico_policy \<Rightarrow> 'f calico_policy" where
  "set_action_props i a t P =
     (case a of
        Calico_Allow \<Rightarrow> if i then P\<lparr>allow_ingress := t\<rparr> else P\<lparr>allow_egress := t\<rparr>
      | Calico_Deny \<Rightarrow> if i then P\<lparr>deny_ingress := t\<rparr> else P\<lparr>deny_egress := t\<rparr>
      | Calico_Pass \<Rightarrow> if i then P\<lparr>pass_ingress := t\<rparr> else P\<lparr>pass_egress := t\<rparr>
      | Calico_Log \<Rightarrow> P)"

lemma set_action_props [simp]:
  "b \<noteq> Calico_Log \<Longrightarrow> action_props j (set_action_props i b t P) a = (if i = j \<and> a = b then t else action_props j P a)"
  "ingress_rules (set_action_props i b t P) = ingress_rules P"
  "egress_rules (set_action_props i b t P) = egress_rules P"
  "captured_peers (set_action_props i b t P) = captured_peers P"
  by (cases b; cases a; auto simp: set_action_props_def captured_peers_def)+

lemma captured_sync [simp]: "captured_peers (P\<lparr>props_in_sync := b\<rparr>) = captured_peers P"
  by (simp add: captured_peers_def fun_eq_iff)

definition keeps :: "'f calico_policy \<Rightarrow> 'f calico_policy \<Rightarrow> bool" where
  "keeps P Q \<longleftrightarrow>
     ingress_rules Q = ingress_rules P \<and> egress_rules Q = egress_rules P \<and> captured_peers Q = captured_peers P"

fun other_actions :: "calico_action \<Rightarrow> calico_action \<times> calico_action" where
  "other_actions Calico_Allow = (Calico_Deny, Calico_Pass)"
| "other_actions Calico_Deny = (Calico_Allow, Calico_Pass)"
| "other_actions a = (Calico_Allow, Calico_Deny)"

lemma calico_step_eq:
  "calico_step E i P r =
     (if rule_action r = Calico_Log then Some P
      else do { x \<leftarrow> hc_isub (env_dims E) (rule_props r) (action_props i P (fst (other_actions (rule_action r))));
                y \<leftarrow> hc_isub (env_dims E) x (action_props i P (snd (other_actions (rule_action r))));
                z \<leftarrow> hc_ior (env_dims E) (action_props i P (rule_action r)) y;
                Some (set_action_props i (rule_action r) z P) })"
  by (cases "rule_action r"; cases i; simp add: calico_step_def set_action_props_def Let_def cong: bind_option_cong)


text \<open>
  Subtraction is safe when no rule has an active dimension that a later one has not: what earlier
  rules left is then never an empty set with fewer dimensions.
\<close>

abbreviation rule_dims :: "('f, 'a) policy_rule_scheme \<Rightarrow> dim set" where
  "rule_dims r \<equiv> set (active_dims (rule_props r))"

definition rules_ordered :: "'f calico_rule list \<Rightarrow> bool" where
  "rules_ordered rs \<longleftrightarrow>
     sorted_wrt (\<lambda>r s. rule_dims r \<subseteq> rule_dims s) (filter (\<lambda>r. rule_action r \<noteq> Calico_Log) rs)"

definition follows :: "'f env \<Rightarrow> bool \<Rightarrow> 'f calico_rule list \<Rightarrow> 'f calico_policy \<Rightarrow> bool" where
  "follows E i rs P \<longleftrightarrow>
     (\<forall>a. a \<noteq> Calico_Log \<longrightarrow>
        good_conns E (action_props i P a) \<and> conn_points E (action_props i P a) = matched E rs a \<and>
        (\<forall>D. (\<forall>r\<in>set rs. rule_action r \<noteq> Calico_Log \<longrightarrow> rule_dims r \<subseteq> D) \<longrightarrow> conns.within D (action_props i P a)))"

lemma calico_step_follows:
  assumes "follows E i rs P" and "good_conns E (rule_props r)"
    and "\<forall>s\<in>set rs. rule_action s \<noteq> Calico_Log \<longrightarrow> rule_action r \<noteq> Calico_Log \<longrightarrow> rule_dims s \<subseteq> rule_dims r"
  shows "\<exists>Q. calico_step E i P r = Some Q \<and> follows E i (rs @ [r]) Q \<and>
           (\<forall>a. action_props (\<not> i) Q a = action_props (\<not> i) P a) \<and> keeps P Q"
proof (cases "rule_action r = Calico_Log")
  case True
  then have "matched E (rs @ [r]) a = matched E rs a" for a by (auto simp: matched_snoc)
  then show ?thesis using assms(1) True by (auto simp: follows_def calico_step_eq keeps_def)
next
  case False
  define a where "a = rule_action r"
  obtain b c where bc: "other_actions a = (b, c)" by force
  have distinct: "a \<noteq> Calico_Log" "b \<noteq> Calico_Log" "c \<noteq> Calico_Log" and all: "\<forall>x. x \<noteq> Calico_Log \<longrightarrow> x \<in> {a, b, c}"
    using False bc calico_action.exhaust unfolding a_def by (cases "rule_action r"; auto)+
  have in_dims: "\<forall>s\<in>set rs. rule_action s \<noteq> Calico_Log \<longrightarrow> rule_dims s \<subseteq> rule_dims r" using assms(3) False by blast
  have ok: "good_conns E (action_props i P x)" "conn_points E (action_props i P x) = matched E rs x"
    "conns.within (rule_dims r) (action_props i P x)" if "x \<noteq> Calico_Log" for x
    using assms(1) in_dims that unfolding follows_def by blast+
  obtain x y z where step: "hc_isub (env_dims E) (rule_props r) (action_props i P b) = Some x"
    "hc_isub (env_dims E) x (action_props i P c) = Some y" "hc_ior (env_dims E) (action_props i P a) y = Some z"
    and z: "good_conns E z" "conns.within (rule_dims r) z"
      "conn_points E z = matched E rs a \<union> (conn_points E (rule_props r) - matched E rs b - matched E rs c)"
    using conns.take_rest [OF assms(2) refl ok(1,3) [OF distinct(2)] ok(1,3) [OF distinct(3)] ok(1,3) [OF distinct(1)]]
      ok(2) [OF distinct(1)] ok(2) [OF distinct(2)] ok(2) [OF distinct(3)] by metis
  let ?Q = "set_action_props i a z P"
  have "matched E (rs @ [r]) a = conn_points E z"
    using False bc unfolding z(3) matched_snoc a_def [symmetric] by (cases a) auto
  moreover have "matched E (rs @ [r]) x = matched E rs x" if "x \<noteq> a" for x
    using that by (simp add: matched_snoc a_def)
  ultimately have "follows E i (rs @ [r]) ?Q"
    using assms(1) z(1,2) distinct(1) unfolding follows_def conns.within_def by (auto simp: a_def)
  moreover have "calico_step E i P r = Some ?Q"
    using False step bc by (simp add: calico_step_eq a_def)
  ultimately show ?thesis using distinct(1) by (intro exI [of _ ?Q]) (auto simp: keeps_def)
qed

lemma calico_rules_follow:
  assumes "follows E i [] P" and "\<forall>r\<in>set rs. good_conns E (rule_props r)" and "rules_ordered rs"
  shows "\<exists>Q. fold_opt (calico_step E i) P rs = Some Q \<and> follows E i rs Q \<and>
           (\<forall>a. action_props (\<not> i) Q a = action_props (\<not> i) P a) \<and> keeps P Q"
  using assms(2,3)
proof (induction rs rule: rev_induct)
  case Nil
  then show ?case using assms(1) by (simp add: keeps_def)
next
  case (snoc r rs)
  have "rules_ordered rs" using snoc.prems(2) by (auto simp: rules_ordered_def sorted_wrt_append split: if_splits)
  then obtain Q where Q: "fold_opt (calico_step E i) P rs = Some Q" "follows E i rs Q"
    "\<forall>a. action_props (\<not> i) Q a = action_props (\<not> i) P a" "keeps P Q" using snoc by auto
  have "\<forall>s\<in>set rs. rule_action s \<noteq> Calico_Log \<longrightarrow> rule_action r \<noteq> Calico_Log \<longrightarrow> rule_dims s \<subseteq> rule_dims r"
    using snoc.prems(2) by (auto simp: rules_ordered_def sorted_wrt_append split: if_splits)
  from calico_step_follows [OF Q(2) _ this] snoc.prems(1) obtain R where
    "calico_step E i Q r = Some R" "follows E i (rs @ [r]) R"
    "\<forall>a. action_props (\<not> i) R a = action_props (\<not> i) Q a" "keeps Q R" by auto
  then show ?case using Q by (simp add: fold_opt_append keeps_def)
qed

lemma follows_empty:
  assumes "env_ok E" and "\<forall>a. action_props i P a = make_empty_props"
  shows "follows E i [] P"
  using empty_conns [OF assms(1)] assms(2) by (simp add: follows_def)

lemma calico_sync_follows:
  assumes "env_ok E" and "\<not> props_in_sync P"
    and "\<forall>r\<in>set (ingress_rules P) \<union> set (egress_rules P). good_conns E (rule_props r)"
    and "rules_ordered (ingress_rules P)" and "rules_ordered (egress_rules P)"
  shows "\<exists>Q. calico_sync_props E P = Some Q \<and> follows E True (ingress_rules P) Q \<and> follows E False (egress_rules P) Q \<and>
           captured_peers Q = captured_peers P"
proof -
  let ?P = "init_props P"
  have rules: "ingress_rules ?P = ingress_rules P" "egress_rules ?P = egress_rules P" "captured_peers ?P = captured_peers P"
    by (simp_all add: init_props_def captured_peers_def fun_eq_iff)
  have none: "\<forall>a. action_props i ?P a = make_empty_props" for i
    by (intro allI, case_tac a) (simp_all add: init_props_def)
  obtain Q where Q: "update_opt_props_by_order E True ?P = Some Q" "follows E True (ingress_rules P) Q"
    "\<forall>a. action_props False Q a = make_empty_props" "egress_rules Q = egress_rules P" "captured_peers Q = captured_peers P"
    using calico_rules_follow [OF follows_empty [OF assms(1) none], of "ingress_rules P" True] assms(3,4) none rules
    by (auto simp: update_opt_props_by_order_def keeps_def)
  obtain R where R: "update_opt_props_by_order E False Q = Some R" "follows E False (egress_rules P) R"
    "\<forall>a. action_props True R a = action_props True Q a" "captured_peers R = captured_peers Q"
    using calico_rules_follow [OF follows_empty [OF assms(1) Q(3)], of "egress_rules P"] assms(3,5) Q(4)
    by (auto simp: update_opt_props_by_order_def keeps_def)
  have same: "action_props i (R\<lparr>props_in_sync := True\<rparr>) a = action_props i R a" for i a by (cases a) simp_all
  have "follows E True (ingress_rules P) R" using Q(2) R(3) by (simp add: follows_def)
  then have "follows E True (ingress_rules P) (R\<lparr>props_in_sync := True\<rparr>)" "follows E False (egress_rules P) (R\<lparr>props_in_sync := True\<rparr>)"
    using R(2) by (simp_all only: follows_def same)
  moreover have "captured_peers (R\<lparr>props_in_sync := True\<rparr>) = captured_peers P"
    using Q(5) R(4) by simp
  ultimately show ?thesis using Q(1) R(1) assms(2) by (simp add: calico_sync_props_def)
qed


section \<open>What policies report\<close>

text \<open>
  C17. A Calico policy reports a connection as allowed, denied or passed exactly when that is
  the action of the first rule with the connection (rules that only log are skipped), in either
  direction, although it keeps three sets and subtracts them from each rule. This is proved for a
  policy that is not synchronized yet, whose rules have well-formed connections, and whose rules are
  ordered by their dimensions: every active dimension of a rule is active in all later rules (those
  that only log apart). The
  condition is not idle: without it, the subtraction from a set that became empty can add points.
\<close>

theorem calico_first_match:
  assumes "env_ok E" and "\<not> props_in_sync P"
    and "\<forall>r\<in>set (ingress_rules P) \<union> set (egress_rules P). good_conns E (rule_props r)"
    and "rules_ordered (ingress_rules P)" and "rules_ordered (egress_rules P)"
    and "rs = (if i then ingress_rules P else egress_rules P)"
  shows "\<exists>Q c. calico_allowed_connections E i P = Some (Q, c) \<and> captured c = captured_peers P i \<and>
           conn_points E (allowed_conns c) = {p. first_match E rs p = Some Calico_Allow} \<and>
           conn_points E (denied_conns c) = {p. first_match E rs p = Some Calico_Deny} \<and>
           conn_points E (pass_conns c) = {p. first_match E rs p = Some Calico_Pass}"
proof -
  obtain Q where Q: "calico_sync_props E P = Some Q" "follows E i rs Q" "captured_peers Q = captured_peers P"
    using calico_sync_follows [OF assms(1-5)] assms(6) by (cases i) auto
  have "conn_points E (action_props i Q a) = {p. first_match E rs p = Some a}" if "a \<noteq> Calico_Log" for a
    using Q(2) that by (simp add: follows_def matched_def)
  from this [of Calico_Allow] this [of Calico_Deny] this [of Calico_Pass] show ?thesis
    using Q(1,3) by (auto simp: calico_allowed_connections_def conns_of_def new_policy_connections_def)
qed

definition deny_all_first :: "string set calico_policy" where
  "deny_all_first =
     (new_calico_policy ''deny'' None)
       \<lparr>ingress_rules := [mk_calico_rule [] [] Calico_Log make_all_props, mk_calico_rule [] [] Calico_Deny make_all_props,
                         mk_calico_rule [] [] Calico_Allow make_all_props]\<rparr>"

theorem calico_first_match_witness:
  "\<exists>Q c. calico_allowed_connections two_pods_env True deny_all_first = Some (Q, c) \<and>
     conn_points two_pods_env (allowed_conns c) = {} \<and>
     conn_points two_pods_env (denied_conns c) = conn_points two_pods_env make_all_props"
proof -
  note full = full_conns [OF two_pods_env_ok]
  have rules: "ingress_rules deny_all_first =
      [mk_calico_rule [] [] Calico_Log make_all_props, mk_calico_rule [] [] Calico_Deny make_all_props,
       mk_calico_rule [] [] Calico_Allow make_all_props]" "egress_rules deny_all_first = []" "\<not> props_in_sync deny_all_first"
    by (simp_all add: deny_all_first_def new_calico_policy_def new_policy_def network_policy.defs)
  have "first_match two_pods_env (ingress_rules deny_all_first) p =
      (if p \<in> conn_points two_pods_env make_all_props then Some Calico_Deny else None)" for p
    by (simp add: rules mk_calico_rule_def)
  moreover have "\<forall>r\<in>set (ingress_rules deny_all_first) \<union> set (egress_rules deny_all_first). good_conns two_pods_env (rule_props r)"
    "rules_ordered (ingress_rules deny_all_first)" "rules_ordered (egress_rules deny_all_first)"
    using full(1) by (simp_all add: rules mk_calico_rule_def rules_ordered_def)
  ultimately show ?thesis
    using calico_first_match [OF two_pods_env_ok rules(3), of "ingress_rules deny_all_first" True] by auto
qed

text \<open>
  C18. Policies of Kubernetes, and gateway policies that allow, report as allowed exactly the
  connections of some rule, and deny and pass nothing; a gateway policy that denies reports the
  same connections as denied.
\<close>

theorem union_policies:
  fixes P :: "'f k8s_policy" and G :: "'f gateway_policy"
  assumes "env_ok E" and "\<not> props_in_sync P" and "\<not> props_in_sync G"
    and "\<forall>r\<in>set (ingress_rules P) \<union> set (egress_rules P) \<union> set (ingress_rules G) \<union> set (egress_rules G).
           good_conns E (rule_props r)"
  shows "(\<exists>Q c. k8s_allowed_connections E i P = Some (Q, c) \<and> captured c = captured_peers P i \<and>
            conn_points E (allowed_conns c) =
              (\<Union>r\<in>set (if i then ingress_rules P else egress_rules P). conn_points E (rule_props r)) \<and>
            denied_conns c = make_empty_props \<and> pass_conns c = make_empty_props) \<and>
         (\<exists>Q c. gateway_allowed_connections E i G = Some (Q, c) \<and> captured c = captured_peers G i \<and>
            conn_points E (if gateway_action G = Allow_Action then allowed_conns c else denied_conns c) =
              (\<Union>r\<in>set (if i then ingress_rules G else egress_rules G). conn_points E (rule_props r)) \<and>
            (if gateway_action G = Allow_Action then denied_conns c else allowed_conns c) = make_empty_props \<and>
            pass_conns c = make_empty_props)"
proof -
  have u: "\<exists>t. union_rules E make_empty_props rs = Some t \<and> conn_points E t = (\<Union>r\<in>set rs. conn_points E (rule_props r))"
    if "set rs \<subseteq> set (ingress_rules P) \<union> set (egress_rules P) \<union> set (ingress_rules G) \<union> set (egress_rules G)" for rs
    using union_rules_points [OF assms(1), of rs] assms(4) that by blast
  obtain a b where ab: "union_rules E make_empty_props (ingress_rules P) = Some a"
    "union_rules E make_empty_props (egress_rules P) = Some b"
    "conn_points E a = (\<Union>r\<in>set (ingress_rules P). conn_points E (rule_props r))"
    "conn_points E b = (\<Union>r\<in>set (egress_rules P). conn_points E (rule_props r))"
    using u [of "ingress_rules P"] u [of "egress_rules P"] by blast
  obtain c d where cd: "union_rules E make_empty_props (ingress_rules G) = Some c"
    "union_rules E make_empty_props (egress_rules G) = Some d"
    "conn_points E c = (\<Union>r\<in>set (ingress_rules G). conn_points E (rule_props r))"
    "conn_points E d = (\<Union>r\<in>set (egress_rules G). conn_points E (rule_props r))"
    using u [of "ingress_rules G"] u [of "egress_rules G"] by blast
  show ?thesis
    using ab cd assms(2,3)
    by (simp add: k8s_allowed_connections_def k8s_sync_props_def gateway_allowed_connections_def gateway_sync_props_def
        captured_peers_def conns_of_def new_policy_connections_def init_props_def Let_def)
qed

theorem union_policies_witness:
  "\<exists>Q c. k8s_allowed_connections two_pods_env True
           ((new_policy ''web'' None)\<lparr>ingress_rules := [mk_peer_rule [] make_all_props]\<rparr>) = Some (Q, c) \<and>
     conn_points two_pods_env (allowed_conns c) = conn_points two_pods_env make_all_props"
proof -
  let ?P = "(new_policy ''web'' None)\<lparr>ingress_rules := [mk_peer_rule [] make_all_props]\<rparr> :: string set k8s_policy"
  have "\<not> props_in_sync ?P" "\<not> props_in_sync (new_gateway_policy ''g'' None Deny_Action '''' 0 '''' :: string set gateway_policy)"
    by (simp_all add: new_gateway_policy_def new_policy_def network_policy.defs)
  from union_policies [OF two_pods_env_ok this, of True] show ?thesis
    using full_conns(1) [OF two_pods_env_ok]
    by (auto simp: new_gateway_policy_def new_policy_def network_policy.defs mk_peer_rule_def)
qed


text \<open>
  C21. An Istio policy reports its rules as allowed or denied by its action, and captures nothing
  for egress. It also computes the connections of the whole domain for egress, but stores them
  under another name: the allowed egress connections it reports stay empty, for every policy.
\<close>

theorem istio_egress_stays_empty:
  assumes "query_env E" and "\<not> props_in_sync P" and "\<forall>r\<in>set (ingress_rules P). good_conns E (rule_props r)"
  shows "(\<exists>Q c. istio_allowed_connections E True P = Some (Q, c) \<and> captured c = selected_peers P \<and>
            conn_points E (if istio_action P = Allow_Action then allowed_conns c else denied_conns c) =
              (\<Union>r\<in>set (ingress_rules P). conn_points E (rule_props r)) \<and>
            (if istio_action P = Allow_Action then denied_conns c else allowed_conns c) = make_empty_props) \<and>
         (\<exists>Q c t. istio_allowed_connections E False P = Some (Q, c) \<and> captured c = [] \<and>
            allowed_conns c = make_empty_props \<and> denied_conns c = make_empty_props \<and>
            all_conns_props_per_domain_peers E = Some t \<and>
            conn_points E t = {p. point_in (fsm_of E) (table_of E) all_dimensions_list p})"
proof -
  have E: "env_ok E" using assms(1) by (simp add: query_env_def)
  obtain a where a: "union_rules E make_empty_props (ingress_rules P) = Some a"
    "conn_points E a = (\<Union>r\<in>set (ingress_rules P). conn_points E (rule_props r))"
    using union_rules_points [OF E assms(3)] by blast
  obtain t where t: "all_conns_props_per_domain_peers E = Some t"
    "conn_points E t = {p. point_in (fsm_of E) (table_of E) all_dimensions_list p}"
    using domain_conns [OF assms(1)] by blast
  show ?thesis
    using a t assms(2)
    by (simp add: istio_allowed_connections_def istio_sync_props_def conns_of_def new_policy_connections_def init_props_def Let_def)
qed

theorem istio_egress_stays_empty_witness:
  "\<exists>Q c. istio_allowed_connections two_pods_env False (new_istio_policy ''allow'' None) = Some (Q, c) \<and>
     allowed_conns c = make_empty_props"
proof -
  let ?P = "new_istio_policy ''allow'' None :: string set istio_policy"
  have "\<not> props_in_sync ?P" "\<forall>r\<in>set (ingress_rules ?P). good_conns two_pods_env (rule_props r)"
    by (simp_all add: new_istio_policy_def new_policy_def network_policy.defs)
  from istio_egress_stays_empty [OF two_pods_query_env this] show ?thesis by blast
qed

section \<open>Clones and reductions\<close>

lemma restore_rule_reorganize:
  assumes "rule_props_copy r = make_empty_props" and "hc_bool (rule_props r)" and "reorganize_rule E r = Some s"
  shows "restore_rule s = r" and "reorganize_rule E s = Some s"
proof -
  have e: "\<not> hc_bool (make_empty_props :: 'a dim_value hcs)" by (simp add: make_empty_props_def new_props_def)
  obtain t where "reduce_active (env_dims E) (rule_props r) = Some t" "s = r\<lparr>rule_props_copy := rule_props r, rule_props := t\<rparr>"
    using assms e by (auto simp: reorganize_rule_def split: bind_splits)
  then show "restore_rule s = r" "reorganize_rule E s = Some s"
    using assms(1,2) by (simp_all add: restore_rule_def reorganize_rule_def)
qed

lemma reorganize_rules:
  assumes "env_ok E"
    and "\<forall>r\<in>set rs. good_conns E (rule_props r) \<and> hc_bool (rule_props r) \<and> rule_props_copy r = make_empty_props"
  shows "\<exists>ss. map_opt (reorganize_rule E) rs = Some ss \<and> map restore_rule ss = rs \<and> map_opt (reorganize_rule E) ss = Some ss \<and>
           list_all2 (\<lambda>r s. conn_points E (rule_props s) = conn_points E (rule_props r)) rs ss"
  using assms(2)
proof (induction rs)
  case (Cons r rs)
  have e: "\<not> hc_bool (make_empty_props :: 'a dim_value hcs)" by (simp add: make_empty_props_def new_props_def)
  have r: "cubes_ok (fsm_of E) (table_of E) (rule_props r)" "all_dims (rule_props r) = all_dimensions_list"
    "hc_bool (rule_props r)" "rule_props_copy r = make_empty_props"
    using Cons.prems by (simp_all add: good_conns_def)
  obtain t where t: "reduce_active (env_dims E) (rule_props r) = Some t"
    "\<forall>p. point_in (fsm_of E) (table_of E) all_dimensions_list p \<longrightarrow>
       holds (fsm_of E) (table_of E) t p = holds (fsm_of E) (table_of E) (rule_props r) p"
    using dim_values.reduce_active_points [OF env_values [OF assms(1)] r(1)] r(2) by auto
  let ?s = "r\<lparr>rule_props_copy := rule_props r, rule_props := t\<rparr>"
  have s: "reorganize_rule E r = Some ?s" using r(4) e t(1) by (simp add: reorganize_rule_def)
  have "conn_points E (rule_props ?s) = conn_points E (rule_props r)" using t(2) by (auto simp: conn_points_def)
  then show ?case using Cons s restore_rule_reorganize [OF r(4,3) s] by auto
qed simp

text \<open>
  C22. Reducing the rules of a policy to the domains of a query never raises, keeps the
  connections of every rule, does nothing when it is repeated, and \<open>restore_props\<close> gives the
  policy back, only not synchronised.
\<close>

theorem reorganize_restore:
  fixes P :: "('f, ('f, 'b) policy_rule_scheme, 'a) network_policy_scheme"
  assumes "env_ok E"
    and "\<forall>r\<in>set (ingress_rules P) \<union> set (egress_rules P).
           good_conns E (rule_props r) \<and> hc_bool (rule_props r) \<and> rule_props_copy r = make_empty_props"
  shows "\<exists>Q. reorganize_props_by_new_domains E P = Some Q \<and>
           reorganize_props_by_new_domains E Q = Some Q \<and> restore_props Q = P\<lparr>props_in_sync := False\<rparr> \<and>
           list_all2 (\<lambda>r s. conn_points E (rule_props s) = conn_points E (rule_props r)) (ingress_rules P) (ingress_rules Q) \<and>
           list_all2 (\<lambda>r s. conn_points E (rule_props s) = conn_points E (rule_props r)) (egress_rules P) (egress_rules Q)"
proof -
  obtain irs ers where rules: "map_opt (reorganize_rule E) (ingress_rules P) = Some irs" "map restore_rule irs = ingress_rules P"
    "map_opt (reorganize_rule E) irs = Some irs"
    "list_all2 (\<lambda>r s. conn_points E (rule_props s) = conn_points E (rule_props r)) (ingress_rules P) irs"
    "map_opt (reorganize_rule E) (egress_rules P) = Some ers" "map restore_rule ers = egress_rules P"
    "map_opt (reorganize_rule E) ers = Some ers"
    "list_all2 (\<lambda>r s. conn_points E (rule_props s) = conn_points E (rule_props r)) (egress_rules P) ers"
    using reorganize_rules [OF assms(1), of "ingress_rules P"] reorganize_rules [OF assms(1), of "egress_rules P"] assms(2)
    by blast
  have "P\<lparr>ingress_rules := ingress_rules P, egress_rules := egress_rules P, props_in_sync := False\<rparr> = P\<lparr>props_in_sync := False\<rparr>"
    by (cases P) simp
  then show ?thesis using rules by (simp add: reorganize_props_by_new_domains_def restore_props_def)
qed

theorem reorganize_restore_witness:
  "\<exists>Q. reorganize_props_by_new_domains two_pods_env
         ((new_policy ''web'' None)\<lparr>ingress_rules := [mk_peer_rule [] make_all_props]\<rparr>) = Some Q \<and>
       restore_props Q = (new_policy ''web'' None)\<lparr>ingress_rules := [mk_peer_rule [] make_all_props]\<rparr>"
proof -
  let ?P = "(new_policy ''web'' None)\<lparr>ingress_rules := [mk_peer_rule [] make_all_props]\<rparr> :: string set k8s_policy"
  have "\<forall>r\<in>set (ingress_rules ?P) \<union> set (egress_rules ?P). good_conns two_pods_env (rule_props r) \<and>
      hc_bool (rule_props r) \<and> rule_props_copy r = make_empty_props"
    using full_conns(1) [OF two_pods_env_ok] by (simp add: new_policy_def mk_peer_rule_def make_all_props_def new_props_def)
  moreover have "?P\<lparr>props_in_sync := False\<rparr> = ?P" by (simp add: new_policy_def)
  ultimately show ?thesis using reorganize_restore [OF two_pods_env_ok, of ?P] by auto
qed

end
