(* ===== verification/Network_Layers.thy ===== *)
theory Network_Layers
  imports Policy_Results
begin

text \<open>
  \<open>nca/NetworkConfig/NetworkLayer.py\<close>: layers of policies, the insertion of a policy into the
  sorted list of a layer, and the connections that a layer allows; and the egress rules of
  \<open>IstioSidecar.py\<close> that are built from the container. The tracker of explanations is left out.
\<close>

section \<open>Layers\<close>

datatype layer_name = K8s_Calico | Istio_Layer | K8s_Gateway | Istio_Gateway

record 'f network_layer =
  layer_kind :: layer_name
  policies_list :: "'f policy list"

definition create_network_layer :: "layer_name \<Rightarrow> 'f policy list \<Rightarrow> 'f network_layer" where
  "create_network_layer name ps = \<lparr>layer_kind = name, policies_list = ps\<rparr>"

definition policy_type_to_layer :: "policy_type \<Rightarrow> layer_name option" where
  "policy_type_to_layer ty =
     (if ty \<in> {K8sNetworkPolicy, CalicoNetworkPolicy, CalicoGlobalNetworkPolicy, CalicoProfile} then Some K8s_Calico
      else if ty \<in> {IstioAuthorizationPolicy, IstioSidecar} then Some Istio_Layer
      else if ty \<in> {Ingress} then Some K8s_Gateway
      else if ty \<in> {GatewayPolicy} then Some Istio_Gateway
      else None)"

text \<open>\<open>bisect.insort\<close> of the standard library: binary search from the right, by \<open>x < xs ! i\<close> only.\<close>

function bisect_right :: "('a \<Rightarrow> 'a \<Rightarrow> bool) \<Rightarrow> 'a \<Rightarrow> 'a list \<Rightarrow> nat \<Rightarrow> nat \<Rightarrow> nat" where
  "bisect_right lt x xs lo hi =
     (if lo < hi then
        (let mid = (lo + hi) div 2
         in if lt x (xs ! mid) then bisect_right lt x xs lo mid else bisect_right lt x xs (Suc mid) hi)
      else lo)"
  by auto
termination by (relation "measure (\<lambda>(lt, x, xs, lo, hi). hi - lo)") auto

declare bisect_right.simps [simp del]

definition py_insort :: "('a \<Rightarrow> 'a \<Rightarrow> bool) \<Rightarrow> 'a list \<Rightarrow> 'a \<Rightarrow> 'a list" where
  "py_insort lt xs x = (let i = bisect_right lt x xs 0 (length xs) in take i xs @ x # drop i xs)"

definition layer_add_policy :: "'f network_layer \<Rightarrow> 'f policy \<Rightarrow> 'f network_layer" where
  "layer_add_policy L P = L\<lparr>policies_list := py_insort policy_lt (policies_list L) P\<rparr>"

type_synonym 'f network_layers = "(layer_name \<times> 'f network_layer) list"

definition new_layers :: "'f network_layers" where
  "new_layers = [(K8s_Calico, create_network_layer K8s_Calico [])]"

text \<open>The default layer is dropped when it is empty after a policy was added.\<close>

definition layers_add_policy :: "'f network_layers \<Rightarrow> 'f policy \<Rightarrow> layer_name option \<Rightarrow> 'f network_layers" where
  "layers_add_policy ls P name =
     (case name of
        None \<Rightarrow> ls
      | Some n \<Rightarrow>
          (let ls = dict_set (=) ls n
                      (case dict_get (=) ls n of
                         None \<Rightarrow> create_network_layer n [P]
                       | Some L \<Rightarrow> layer_add_policy L P)
           in case dict_get (=) ls K8s_Calico of
                Some L \<Rightarrow> if policies_list L = [] then filter (\<lambda>(k, _). k \<noteq> K8s_Calico) ls else ls
              | None \<Rightarrow> ls))"

definition does_contain_only_gateway_layers :: "'f network_layers \<Rightarrow> bool" where
  "does_contain_only_gateway_layers ls \<longleftrightarrow> ls \<noteq> [] \<and> fst ` set ls \<subseteq> {K8s_Gateway, Istio_Gateway}"

definition does_contain_istio_layers :: "'f network_layers \<Rightarrow> bool" where
  "does_contain_istio_layers ls \<longleftrightarrow> {Istio_Layer, Istio_Gateway} \<inter> fst ` set ls \<noteq> {}"

section \<open>Connections of a layer\<close>

text \<open>One policy: the sets it reports lose what the policies before it decided.\<close>

definition merge_conns ::
  "'f env \<Rightarrow> bool \<Rightarrow> 'f policy_connections \<Rightarrow> 'f policy_connections \<Rightarrow> 'f policy_connections option" where
  "merge_conns E captures res c =
     (let sub = hc_isub (env_dims E); un = hc_ior (env_dims E);
          res = (if captures then res\<lparr>captured := ps_or (captured res) (captured c)\<rparr> else res)
      in do { d \<leftarrow> sub (denied_conns c) (allowed_conns res);
              d \<leftarrow> sub d (pass_conns res);
              a \<leftarrow> sub (allowed_conns c) (denied_conns res);
              a \<leftarrow> sub a (pass_conns res);
              p \<leftarrow> sub (pass_conns c) (denied_conns res);
              p \<leftarrow> sub p (allowed_conns res);
              allowed \<leftarrow> un (allowed_conns res) a;
              denied \<leftarrow> un (denied_conns res) d;
              pass \<leftarrow> un (pass_conns res) p;
              Some (res\<lparr>allowed_conns := allowed, denied_conns := denied, pass_conns := pass\<rparr>) })"

fun collect_policies ::
  "'f env \<Rightarrow> bool \<Rightarrow> ('f policy \<Rightarrow> bool option) \<Rightarrow> 'f policy_connections \<Rightarrow> 'f policy list \<Rightarrow>
   ('f policy list \<times> 'f policy_connections) option"
where
  "collect_policies E i captured_func res [] = Some ([], res)"
| "collect_policies E i captured_func res (P # ps) =
     do { (P', c) \<leftarrow> allowed_connections E i P;
          res' \<leftarrow> (if captured c \<noteq> [] then do { b \<leftarrow> captured_func P; merge_conns E b res c } else Some res);
          (ps', r) \<leftarrow> collect_policies E i captured_func res' ps;
          Some (P' # ps', r) }"

definition collect_policies_conns_optimized ::
  "'f env \<Rightarrow> bool \<Rightarrow> ('f policy \<Rightarrow> bool option) \<Rightarrow> 'f policy list \<Rightarrow> ('f policy list \<times> 'f policy_connections) option" where
  "collect_policies_conns_optimized E i captured_func ps =
     collect_policies E i captured_func new_policy_connections ps"

definition is_host_ep :: "peer \<Rightarrow> bool" where
  "is_host_ep p = (case p of Host_Peer _ \<Rightarrow> True | _ \<Rightarrow> False)"

text \<open>The captured side is the destination for ingress and the source for egress.\<close>

definition directed_conns :: "'f env \<Rightarrow> bool \<Rightarrow> peer_set \<Rightarrow> peer_set \<Rightarrow> 'f dim_value hcs option" where
  "directed_conns E i all side = (if i then conns_between E all side else conns_between E side all)"

definition add_all_allowed ::
  "'f env \<Rightarrow> 'f policy_connections \<Rightarrow> 'f dim_value hcs \<Rightarrow> 'f policy_connections option" where
  "add_all_allowed E res t =
     map_option (\<lambda>l. res\<lparr>all_allowed_conns := l\<rparr>) (hc_ior (env_dims E) (all_allowed_conns res) t)"

definition calico_xgress_conns ::
  "'f env \<Rightarrow> bool \<Rightarrow> peer_container \<Rightarrow> conns_filter \<Rightarrow> 'f policy list \<Rightarrow>
   ('f policy list \<times> 'f policy_connections) option"
where
  "calico_xgress_conns E i c flt ps =
     do { (ps, res) \<leftarrow> collect_policies_conns_optimized E i (\<lambda>_. Some True) ps;
          all_peers_and_ips \<leftarrow> get_all_peers_group c True True True;
          all_peers_no_ips \<leftarrow> get_all_peers_group c False True True;
          let base = filter (\<lambda>p. \<not> is_host_ep p) all_peers_no_ips;
          let not_captured = ps_sub base (captured res);
          res \<leftarrow> (if not_captured \<noteq> [] \<and> calc_all_allowed flt
                  then do { t \<leftarrow> directed_conns E i all_peers_and_ips not_captured; add_all_allowed E res t }
                  else Some res);
          let captured_pods = ps_and base (captured res);
          res \<leftarrow> (if captured_pods \<noteq> [] \<and> hc_bool (pass_conns res)
                  then do { t \<leftarrow> directed_conns E i all_peers_and_ips captured_pods;
                            x \<leftarrow> hc_and (env_dims E) (pass_conns res) t;
                            a \<leftarrow> hc_ior (env_dims E) (allowed_conns res) x;
                            Some (res\<lparr>allowed_conns := a\<rparr>) }
                  else Some res);
          res \<leftarrow> (if calc_all_allowed flt then add_all_allowed E res (allowed_conns res) else Some res);
          Some (ps, res) }"

text \<open>The kind is tested; a policy of a class without an action raises.\<close>

definition captured_cond_func :: "'f policy \<Rightarrow> bool option" where
  "captured_cond_func P =
     (if get_policy_kind P = IstioAuthorizationPolicy \<or> get_policy_kind P = GatewayPolicy then
        (case P of
           Istio_Policy p \<Rightarrow> Some (get_policy_kind P = IstioAuthorizationPolicy \<and> istio_action p = Allow_Action)
         | Gateway_Policy p \<Rightarrow> Some (get_policy_kind P = GatewayPolicy \<and> gateway_action p = Allow_Action)
         | _ \<Rightarrow> None)
      else Some True)"

definition conns_with_protocols ::
  "'f env \<Rightarrow> peer_set \<Rightarrow> peer_set \<Rightarrow> int interval_set \<Rightarrow> 'f dim_value hcs option" where
  "conns_with_protocols E src dst protocols =
     make_conn_props_from_dict E
       [(''src_peers'', Ext_Peers src), (''dst_peers'', Ext_Peers dst), (''protocols'', Ext_Value (Intervals protocols))]"

definition istio_non_captured ::
  "'f env \<Rightarrow> bool \<Rightarrow> peer_set \<Rightarrow> peer_set \<Rightarrow> peer_set \<Rightarrow> peer_set \<Rightarrow> 'f dim_value hcs \<Rightarrow> 'f dim_value hcs option" where
  "istio_non_captured E i all_peers_and_ips non_captured dns_entries cap denied =
     do { tcp \<leftarrow> get_protocol_set_with_single_protocol (PName ''TCP'');
          if i then
            do { all_nc \<leftarrow> conns_between E all_peers_and_ips non_captured;
                 let dns = ps_sub dns_entries cap;
                 t \<leftarrow> hc_sub (env_dims E) all_nc denied;
                 if dns \<noteq> [] then
                   do { d \<leftarrow> conns_with_protocols E all_peers_and_ips dns tcp;
                        d \<leftarrow> hc_sub (env_dims E) d denied;
                        hc_ior (env_dims E) t d }
                 else Some t }
          else
            do { nc_all \<leftarrow> conns_between E non_captured all_peers_and_ips;
                 nc_dns \<leftarrow> conns_with_protocols E non_captured dns_entries tcp;
                 t \<leftarrow> hc_or (env_dims E) nc_all nc_dns;
                 hc_sub (env_dims E) t denied } }"

definition istio_xgress_conns ::
  "'f env \<Rightarrow> bool \<Rightarrow> peer_container \<Rightarrow> conns_filter \<Rightarrow> 'f policy list \<Rightarrow>
   ('f policy list \<times> 'f policy_connections) option"
where
  "istio_xgress_conns E i c flt ps =
     do { (ps, res) \<leftarrow> collect_policies_conns_optimized E i captured_cond_func ps;
          if \<not> calc_all_allowed flt then Some (ps, res)
          else do { all_peers_and_ips \<leftarrow> get_all_peers_group c True True False;
                    all_peers_no_ips \<leftarrow> get_all_peers_group c False True False;
                    non_tcp \<leftarrow> get_non_tcp_protocols;
                    all_all \<leftarrow> conns_with_protocols E all_peers_and_ips all_peers_and_ips non_tcp;
                    t \<leftarrow> hc_or (env_dims E) (allowed_conns res) all_all;
                    res \<leftarrow> add_all_allowed E res t;
                    let non_captured = ps_sub all_peers_no_ips (captured res);
                    res \<leftarrow> (if non_captured \<noteq> []
                            then do { t \<leftarrow> istio_non_captured E i all_peers_and_ips non_captured
                                            (get_all_dns_entries c) (captured res) (denied_conns res);
                                      add_all_allowed E res t }
                            else Some res);
                    Some (ps, res) } }"

definition allowed_xgress_conns ::
  "'f env \<Rightarrow> layer_name \<Rightarrow> bool \<Rightarrow> peer_container \<Rightarrow> conns_filter \<Rightarrow> 'f policy list \<Rightarrow>
   ('f policy list \<times> 'f policy_connections) option"
where
  "allowed_xgress_conns E name =
     (if name = K8s_Calico \<or> name = K8s_Gateway then calico_xgress_conns E else istio_xgress_conns E)"

definition join_xgress ::
  "'f env \<Rightarrow> peer_container \<Rightarrow> conns_filter \<Rightarrow> 'f policy_connections \<Rightarrow> 'f policy_connections \<Rightarrow>
   'f policy_connections option"
where
  "join_xgress E c flt ing eg =
     (let un = hc_or (env_dims E); inter = hc_and (env_dims E); res = new_policy_connections
      in do { all_pods \<leftarrow> get_all_peers_group c False True False;
              all_ips \<leftarrow> get_all_ips_block_peer_set False;
              (ing, eg, res) \<leftarrow>
                (if calc_all_allowed flt
                 then do { t \<leftarrow> conns_between E all_pods all_ips;
                           ing \<leftarrow> add_all_allowed E ing t;
                           t \<leftarrow> conns_between E all_ips all_pods;
                           eg \<leftarrow> add_all_allowed E eg t;
                           l \<leftarrow> inter (all_allowed_conns ing) (all_allowed_conns eg);
                           Some (ing, eg, res\<lparr>all_allowed_conns := l\<rparr>) }
                 else Some (ing, eg, res));
              let res = res\<lparr>captured := ps_or (captured ing) (captured eg)\<rparr>;
              res \<leftarrow> (if calc_denied flt
                      then do { d \<leftarrow> un (denied_conns ing) (denied_conns eg); Some (res\<lparr>denied_conns := d\<rparr>) }
                      else Some res);
              if calc_allowed flt
              then do { a \<leftarrow> inter (allowed_conns ing) (all_allowed_conns eg);
                        b \<leftarrow> inter (allowed_conns eg) (all_allowed_conns ing);
                        l \<leftarrow> un a b;
                        Some (res\<lparr>allowed_conns := l\<rparr>) }
              else Some res })"

definition layer_allowed_connections ::
  "'f env \<Rightarrow> peer_container \<Rightarrow> conns_filter \<Rightarrow> 'f network_layer \<Rightarrow> ('f network_layer \<times> 'f policy_connections) option" where
  "layer_allowed_connections E c flt L =
     do { (ps, ing) \<leftarrow> allowed_xgress_conns E (layer_kind L) True c flt (policies_list L);
          (ps, eg) \<leftarrow> allowed_xgress_conns E (layer_kind L) False c flt ps;
          r \<leftarrow> join_xgress E c flt ing eg;
          Some (L\<lparr>policies_list := ps\<rparr>, r) }"

definition empty_layer_allowed_connections ::
  "'f env \<Rightarrow> peer_container \<Rightarrow> conns_filter \<Rightarrow> layer_name \<Rightarrow> 'f policy_connections option" where
  "empty_layer_allowed_connections E c flt name =
     map_option snd (layer_allowed_connections E c flt (create_network_layer name []))"

section \<open>Hosts of sidecars\<close>

text \<open>
  The pairs of sources and destinations of one namespace. The loop takes the first remaining peer
  and drops the peers of its namespace; it does not end when the peer is not among them.
\<close>

partial_function (option) combine_by_ns ::
  "peer_container \<Rightarrow> peer_set \<Rightarrow> (peer_set \<times> peer_set) list \<Rightarrow> peer_set \<Rightarrow> (peer_set \<times> peer_set) list option"
where
  "combine_by_ns c to_peers res from_peers =
     (case from_peers of
        [] \<Rightarrow> Some res
      | p # rest \<Rightarrow>
          if is_ip p then combine_by_ns c to_peers res rest
          else do { ns \<leftarrow> get_namespace_pods c (peer_namespace p);
                    combine_by_ns c to_peers (res @ [(ps_and from_peers ns, ps_and to_peers ns)]) (ps_sub from_peers ns) })"

definition combine_peer_sets_by_ns ::
  "peer_container \<Rightarrow> peer_set \<Rightarrow> peer_set \<Rightarrow> (peer_set \<times> peer_set) list option" where
  "combine_peer_sets_by_ns c from_peers to_peers = combine_by_ns c to_peers [] from_peers"

definition add_conns :: "'f env \<Rightarrow> bool \<Rightarrow> 'f dim_value hcs \<Rightarrow> 'f dim_value hcs option \<Rightarrow> 'f dim_value hcs option" where
  "add_conns E cond props t = (if cond then do { t \<leftarrow> t; hc_ior (env_dims E) props t } else Some props)"

definition sidecar_rule_conns ::
  "'f env \<Rightarrow> peer_container \<Rightarrow> 'f sidecar_policy \<Rightarrow> 'f sidecar_rule \<Rightarrow> 'f sidecar_rule option" where
  "sidecar_rule_conns E c P r =
     do { all_ips \<leftarrow> get_all_ips_block_peer_set False;
          props \<leftarrow> add_conns E (outbound_mode P = Allow_Any) (rule_props r) (conns_between E (selected_peers P) all_ips);
          let dns = ps_and (get_all_dns_entries c) (ps_or (egress_peer_set r) (special_egress_peer_set r));
          props \<leftarrow> add_conns E (selected_peers P \<noteq> [] \<and> dns \<noteq> []) props
            (do { tcp \<leftarrow> get_protocol_set_with_single_protocol (PName ''TCP'');
                  conns_with_protocols E (selected_peers P) dns tcp });
          props \<leftarrow> add_conns E (selected_peers P \<noteq> [] \<and> egress_peer_set r \<noteq> []) props
            (conns_between E (selected_peers P) (egress_peer_set r));
          pairs \<leftarrow> combine_peer_sets_by_ns c (selected_peers P) (special_egress_peer_set r);
          props \<leftarrow> fold_opt (\<lambda>props (from_peers, to_peers).
              add_conns E (from_peers \<noteq> [] \<and> to_peers \<noteq> []) props (conns_between E from_peers to_peers)) props pairs;
          Some (r\<lparr>rule_props := props\<rparr>) }"

definition create_opt_egress_props ::
  "'f env \<Rightarrow> peer_container \<Rightarrow> 'f sidecar_policy \<Rightarrow> 'f sidecar_policy option" where
  "create_opt_egress_props E c P =
     map_option (\<lambda>rs. P\<lparr>egress_rules := rs\<rparr>) (map_opt (sidecar_rule_conns E c P) (egress_rules P))"

end
