(* ===== verification/Layer_Results.thy ===== *)
theory Layer_Results
  imports Network_Layers
begin

text \<open>
  What layers do: where a policy is inserted, what the policies of a Kubernetes layer allow together
  with the defaults, and when the grouping of peers by namespaces ends.
\<close>

section \<open>Insertion\<close>

lemma bisect_right_bounds:
  assumes mono: "\<And>i j. i \<le> j \<Longrightarrow> j < length xs \<Longrightarrow> lt x (xs ! i) \<Longrightarrow> lt x (xs ! j)"
    and "lo \<le> hi" and "hi \<le> length xs" and "\<forall>i<lo. \<not> lt x (xs ! i)" and "\<forall>i<length xs. hi \<le> i \<longrightarrow> lt x (xs ! i)"
  shows "bisect_right lt x xs lo hi \<le> length xs \<and> (\<forall>i<bisect_right lt x xs lo hi. \<not> lt x (xs ! i)) \<and>
         (\<forall>i<length xs. bisect_right lt x xs lo hi \<le> i \<longrightarrow> lt x (xs ! i))"
  using assms(2-5)
proof (induction "hi - lo" arbitrary: lo hi rule: less_induct)
  case less
  show ?case
  proof (cases "lo < hi")
    case False
    then show ?thesis using less.prems by (simp add: bisect_right.simps)
  next
    case True
    let ?mid = "(lo + hi) div 2"
    have mid: "lo \<le> ?mid" "?mid < hi" using True by auto
    have step: "bisect_right lt x xs lo hi =
        (if lt x (xs ! ?mid) then bisect_right lt x xs lo ?mid else bisect_right lt x xs (Suc ?mid) hi)"
      unfolding bisect_right.simps [of lt x xs lo hi] Let_def using True by simp
    show ?thesis
    proof (cases "lt x (xs ! ?mid)")
      case lt: True
      have above: "\<forall>i<length xs. ?mid \<le> i \<longrightarrow> lt x (xs ! i)" using mono lt by blast
      have eq: "bisect_right lt x xs lo hi = bisect_right lt x xs lo ?mid" using step by (simp only: lt if_True)
      have "?mid - lo < hi - lo" "?mid \<le> length xs" using mid less.prems(2) by linarith+
      from less.hyps [OF this(1) mid(1) this(2) less.prems(3) above] show ?thesis unfolding eq .
    next
      case ge: False
      have below: "\<forall>i<Suc ?mid. \<not> lt x (xs ! i)"
        using mono ge less.prems(2) mid(2) by (meson less_Suc_eq_le less_le_trans)
      have eq: "bisect_right lt x xs lo hi = bisect_right lt x xs (Suc ?mid) hi" using step by (simp only: ge if_False)
      have "hi - Suc ?mid < hi - lo" "Suc ?mid \<le> hi" using mid by linarith+
      from less.hyps [OF this less.prems(2) below less.prems(4)] show ?thesis unfolding eq .
    qed
  qed
qed

lemma sorted_wrt_insert:
  assumes "sorted_wrt R (xs @ ys)" and "\<forall>a\<in>set xs. R a x" and "\<forall>b\<in>set ys. R x b"
  shows "sorted_wrt R (xs @ x # ys)"
  using assms by (simp add: sorted_wrt_append)

lemma py_insort_split:
  assumes "\<And>i j. i \<le> j \<Longrightarrow> j < length xs \<Longrightarrow> lt x (xs ! i) \<Longrightarrow> lt x (xs ! j)"
  shows "py_insort lt xs x = takeWhile (\<lambda>y. \<not> lt x y) xs @ x # dropWhile (\<lambda>y. \<not> lt x y) xs"
proof -
  let ?n = "bisect_right lt x xs 0 (length xs)"
  have n: "?n \<le> length xs" "\<forall>i<?n. \<not> lt x (xs ! i)" "\<forall>i<length xs. ?n \<le> i \<longrightarrow> lt x (xs ! i)"
    using bisect_right_bounds [where lt = lt and x = x and xs = xs and lo = 0 and hi = "length xs", OF assms] by auto
  have take: "takeWhile (\<lambda>y. \<not> lt x y) xs = take ?n xs"
    by (cases "?n < length xs") (use n in \<open>auto intro!: takeWhile_eq_take_P_nth simp: takeWhile_eq_all_conv in_set_conv_nth\<close>)
  then have "length (takeWhile (\<lambda>y. \<not> lt x y) xs) = ?n" using n(1) by simp
  then have "dropWhile (\<lambda>y. \<not> lt x y) xs = drop ?n xs" by (simp add: dropWhile_eq_drop)
  then show ?thesis using take by (simp add: py_insort_def Let_def)
qed

text \<open>Orders whose incomparability is transitive, as an interface of the sorted lists.\<close>

locale weak_order =
  fixes lt :: "'a \<Rightarrow> 'a \<Rightarrow> bool"
  assumes asym: "lt a b \<Longrightarrow> \<not> lt b a"
    and neg_trans: "\<not> lt a b \<Longrightarrow> \<not> lt b c \<Longrightarrow> \<not> lt a c"
begin

definition ordered :: "'a list \<Rightarrow> bool" where
  "ordered xs \<longleftrightarrow> sorted_wrt (\<lambda>a b. \<not> lt b a) xs"

lemma ordered_mono:
  assumes "ordered xs" and "i \<le> j" and "j < length xs" and "lt x (xs ! i)"
  shows "lt x (xs ! j)"
proof (cases "i = j")
  case False
  then have "\<not> lt (xs ! j) (xs ! i)" using assms(1-3) by (simp add: ordered_def sorted_wrt_iff_nth_less)
  then show ?thesis using neg_trans assms(4) by blast
qed (use assms in simp)

lemma insort_split:
  assumes "ordered xs"
  shows "py_insort lt xs x = takeWhile (\<lambda>y. \<not> lt x y) xs @ x # dropWhile (\<lambda>y. \<not> lt x y) xs"
  by (rule py_insort_split) (rule ordered_mono [OF assms])

lemma insort_ordered:
  assumes "ordered xs"
  shows "ordered (py_insort lt xs x)"
proof -
  let ?a = "takeWhile (\<lambda>y. \<not> lt x y) xs" and ?b = "dropWhile (\<lambda>y. \<not> lt x y) xs"
  have xs: "sorted_wrt (\<lambda>a b. \<not> lt b a) (?a @ ?b)" using assms by (simp add: ordered_def)
  have nonempty: "\<exists>y ys. zs = y # ys" if "b \<in> set zs" for b and zs :: "'a list" using that by (cases zs) auto
  have "lt x b" if "b \<in> set ?b" for b
  proof -
    from nonempty [OF that] obtain y ys where b: "?b = y # ys" by blast
    then have y: "lt x y" using hd_dropWhile [of "\<lambda>y. \<not> lt x y" xs] by simp
    have "\<not> lt b y \<or> b = y" using xs that unfolding b by (auto simp: sorted_wrt_append)
    then show ?thesis using y neg_trans by blast
  qed
  then have after: "\<forall>b\<in>set ?b. \<not> lt b x" using asym by blast
  have before: "\<forall>a\<in>set ?a. \<not> lt x a" using set_takeWhileD by metis
  from sorted_wrt_insert [OF xs before after] show ?thesis by (simp only: insort_split [OF assms] ordered_def)
qed

end

lemma policy_lt_base:
  "\<not> (\<exists>p. P = Istio_Policy p) \<Longrightarrow> policy_lt P Q = base_policy_lt P Q"
  by (cases P) (simp_all add: policy_lt_def)

interpretation by_order: weak_order base_policy_lt
  by unfold_locales (auto simp: base_policy_lt_def split: option.splits)

text \<open>
  C19. The list of a layer that is sorted by the order of the policies stays sorted when a policy
  is added that is no authorization policy of Istio (these have an order of their own, see below);
  the new policy goes after all policies with the same or a smaller order, and before the
  first policy that it precedes.
\<close>

theorem layer_order_invariant:
  assumes "\<not> (\<exists>p. P = Istio_Policy p)"
    and "sorted_wrt (\<lambda>a b. \<not> base_policy_lt b a) (policies_list L)"
  shows "sorted_wrt (\<lambda>a b. \<not> base_policy_lt b a) (policies_list (layer_add_policy L P)) \<and>
         policies_list (layer_add_policy L P) =
           takeWhile (\<lambda>q. \<not> base_policy_lt P q) (policies_list L) @ P #
           dropWhile (\<lambda>q. \<not> base_policy_lt P q) (policies_list L)"
proof -
  have o: "by_order.ordered (policies_list L)" using assms(2) by (simp add: by_order.ordered_def)
  have lt: "py_insort policy_lt (policies_list L) P = py_insort base_policy_lt (policies_list L) P"
    using py_insort_split [of "policies_list L" policy_lt P] by_order.ordered_mono [OF o] by_order.insort_split [OF o]
      policy_lt_base [OF assms(1)] by simp
  show ?thesis
    using by_order.insort_ordered [OF o, of P] by_order.insort_split [OF o, of P]
    by (simp add: layer_add_policy_def lt by_order.ordered_def)
qed

definition ordered_seven :: "string set policy" where
  "ordered_seven = Calico_Policy ((new_calico_policy ''c'' None)\<lparr>calico_order := Some 7\<rparr>)"

theorem layer_order_invariant_witness:
  "policies_list (layer_add_policy (create_network_layer K8s_Calico [K8s_Policy (new_policy ''k'' None)]) ordered_seven) =
    [ordered_seven, K8s_Policy (new_policy ''k'' None)]"
  using layer_order_invariant [of ordered_seven "create_network_layer K8s_Calico [K8s_Policy (new_policy ''k'' None)]"]
  by (simp add: create_network_layer_def base_policy_lt_def ordered_seven_def)

text \<open>A binary search that finds no larger element from its middle on stays at the right end.\<close>

lemma bisect_right_end:
  assumes "\<forall>i<hi. (lo + hi) div 2 \<le> i \<longrightarrow> \<not> lt x (xs ! i)" and "lo \<le> hi"
  shows "bisect_right lt x xs lo hi = hi"
  using assms
proof (induction "hi - lo" arbitrary: lo rule: less_induct)
  case less
  show ?case
  proof (cases "lo < hi")
    case True
    let ?mid = "(lo + hi) div 2"
    have mid: "lo \<le> ?mid" "?mid < hi" using True by auto
    have "\<forall>i<hi. (Suc ?mid + hi) div 2 \<le> i \<longrightarrow> \<not> lt x (xs ! i)" using less.prems(1) mid by auto
    then have "bisect_right lt x xs (Suc ?mid) hi = hi" using mid by (intro less.hyps) auto
    moreover have "\<not> lt x (xs ! ?mid)" using less.prems(1) mid by simp
    ultimately show ?thesis by (subst bisect_right.simps) (simp add: Let_def True)
  qed (use less.prems in \<open>simp add: bisect_right.simps\<close>)
qed

lemma insort_last: "\<forall>y\<in>set xs. \<not> lt x y \<Longrightarrow> py_insort lt xs x = xs @ [x]"
  using bisect_right_end [of "length xs" 0 lt x xs] by (simp add: py_insort_def)

lemma insort_istio:
  "py_insort policy_lt (map Istio_Policy qs) (Istio_Policy p) =
    (if istio_action p = Deny_Action then Istio_Policy p # map Istio_Policy qs else map Istio_Policy qs @ [Istio_Policy p])"
  by (subst py_insort_split)
    (auto simp: policy_lt_def takeWhile_eq_Nil_iff dropWhile_map takeWhile_map comp_def
      takeWhile_eq_all_conv [THEN iffD2] dropWhile_eq_Nil_conv [THEN iffD2])

lemma insort_deny_last:
  assumes "length as \<le> length ss"
  shows "py_insort policy_lt (map Istio_Policy as @ map Sidecar_Policy ss) (Istio_Policy d) =
           map Istio_Policy as @ map Sidecar_Policy ss @ [Istio_Policy d]"
proof -
  have "bisect_right policy_lt (Istio_Policy d) (map Istio_Policy as @ map Sidecar_Policy ss) 0 (length as + length ss) =
      length as + length ss"
    by (rule bisect_right_end) (use assms in \<open>auto simp: nth_append policy_lt_def\<close>)
  then show ?thesis by (simp add: py_insort_def)
qed

lemma add_in_sequence:
  assumes "\<forall>a\<in>set as. istio_action a = Allow_Action"
  shows "policies_list (foldl layer_add_policy L (map Istio_Policy as)) = policies_list L @ map Istio_Policy as"
    and "policies_list (foldl layer_add_policy L (map Sidecar_Policy ss)) = policies_list L @ map Sidecar_Policy ss"
proof -
  show "policies_list (foldl layer_add_policy L (map Istio_Policy as)) = policies_list L @ map Istio_Policy as"
    using assms
    by (induction as arbitrary: L) (simp_all add: layer_add_policy_def insort_last policy_lt_def split: policy.splits)
  show "policies_list (foldl layer_add_policy L (map Sidecar_Policy ss)) = policies_list L @ map Sidecar_Policy ss"
    by (induction ss arbitrary: L) (simp_all add: layer_add_policy_def insort_last policy_lt_def base_policy_lt_def)
qed

text \<open>
  C20. In a layer of Istio with authorization policies only, a policy that denies is added in front
  of all of them, and one that allows at the end. But comparing with a sidecar says nothing, and the
  binary search then goes to the right: a policy that denies, added after some policies that allow
  and then at least as many sidecars, goes to the end of the list, behind all the policies that
  allow, although it is to be evaluated before them.
\<close>

theorem istio_deny_after_sidecar:
  assumes "istio_action d = Deny_Action" and "\<forall>a\<in>set as. istio_action a = Allow_Action"
    and "length as \<le> length ss" and "istio_action a = Allow_Action"
  shows "policies_list (foldl layer_add_policy (create_network_layer Istio_Layer (map Istio_Policy ps))
           [Istio_Policy d, Istio_Policy a]) = Istio_Policy d # map Istio_Policy ps @ [Istio_Policy a] \<and>
         policies_list (foldl layer_add_policy (create_network_layer Istio_Layer [])
           (map Istio_Policy as @ map Sidecar_Policy ss @ [Istio_Policy d])) =
             map Istio_Policy as @ map Sidecar_Policy ss @ [Istio_Policy d]"
proof -
  have one: "policies_list (layer_add_policy (create_network_layer Istio_Layer (map Istio_Policy ps)) (Istio_Policy d)) =
      map Istio_Policy (d # ps)"
    by (simp add: layer_add_policy_def create_network_layer_def insort_istio assms(1))
  have "policies_list (layer_add_policy (layer_add_policy (create_network_layer Istio_Layer (map Istio_Policy ps))
      (Istio_Policy d)) (Istio_Policy a)) = map Istio_Policy (d # ps) @ [Istio_Policy a]"
    using insort_istio [of "d # ps" a] assms(4) by (simp add: layer_add_policy_def [of "layer_add_policy L P" for L P] one)
  moreover have "policies_list (foldl layer_add_policy (create_network_layer Istio_Layer [])
      (map Istio_Policy as @ map Sidecar_Policy ss)) = map Istio_Policy as @ map Sidecar_Policy ss"
    by (simp add: add_in_sequence [OF assms(2)] create_network_layer_def)
  ultimately show ?thesis
    using insort_deny_last [OF assms(3), of d] by (simp add: layer_add_policy_def [where P = "Istio_Policy d"])
qed

theorem istio_deny_after_sidecar_witness:
  "policies_list (foldl layer_add_policy (create_network_layer Istio_Layer [])
     [Istio_Policy (new_istio_policy ''allow'' None), Sidecar_Policy (new_sidecar_policy ''car'' None),
      Istio_Policy ((new_istio_policy ''deny'' None)\<lparr>istio_action := Deny_Action\<rparr>)]) =
   [Istio_Policy (new_istio_policy ''allow'' None), Sidecar_Policy (new_sidecar_policy ''car'' None),
    Istio_Policy ((new_istio_policy ''deny'' None)\<lparr>istio_action := Deny_Action\<rparr>) :: string set policy]"
proof -
  have "istio_action (new_istio_policy ''allow'' None :: string set istio_policy) = Allow_Action"
    by (simp add: new_istio_policy_def istio_policy.defs new_policy_def network_policy.defs)
  then show ?thesis
    using istio_deny_after_sidecar [of "(new_istio_policy ''deny'' None)\<lparr>istio_action := Deny_Action\<rparr>"
      "[new_istio_policy ''allow'' None :: string set istio_policy]" "[new_sidecar_policy ''car'' None]" "new_istio_policy ''allow'' None"]
    by simp
qed

section \<open>Grouping by namespace\<close>

definition same_ns :: "peer \<Rightarrow> peer \<Rightarrow> bool" where
  "same_ns p q \<longleftrightarrow> ns_option_eq (peer_namespace q) (peer_namespace p)"

lemma same_ns_equiv: "same_ns p p" "same_ns p q \<Longrightarrow> same_ns p r = same_ns q r"
  by (auto simp: same_ns_def ns_option_eq_def ns_eq_def split: option.splits)

lemma combine_by_ns_groups:
  fixes c :: peer_container
  assumes "set_ok peer_eq (pc_peers c)" and "\<forall>p\<in>set (pc_peers c). \<not> is_ip p"
    and "\<forall>p\<in>set (pc_peers c). Q p \<longrightarrow> peer_namespace p \<noteq> None"
    and "\<forall>p\<in>set (pc_peers c). \<forall>q\<in>set (pc_peers c). Q p \<longrightarrow> W q \<longrightarrow> same_ns p q \<longrightarrow> Q q"
    and "\<forall>p\<in>set (pc_peers c). Q p \<longrightarrow> W p"
  shows "\<exists>ps. combine_by_ns c to_peers res (filter Q (pc_peers c)) =
      Some (res @ map (\<lambda>p. (filter (\<lambda>q. W q \<and> same_ns p q) (pc_peers c), ps_and to_peers (filter (same_ns p) (pc_peers c)))) ps) \<and>
    set ps \<subseteq> set (filter Q (pc_peers c)) \<and> (\<forall>q\<in>set (filter Q (pc_peers c)). \<exists>p\<in>set ps. same_ns p q)"
  using assms(3-5)
proof (induction "length (filter Q (pc_peers c))" arbitrary: Q res rule: less_induct)
  case less
  show ?case
  proof (cases "filter Q (pc_peers c)")
    case Nil
    then show ?thesis by (subst combine_by_ns.simps) simp
  next
    case (Cons p rest)
    then have "p \<in> set (filter Q (pc_peers c))" by simp
    then have p: "p \<in> set (pc_peers c)" "Q p" by simp_all
    obtain n where "peer_namespace p = Some n" using less.prems(1) p by blast
    then have pods: "get_namespace_pods c (peer_namespace p) = Some (filter (same_ns p) (pc_peers c))"
      unfolding get_namespace_pods_def same_ns_def by simp
    let ?Q = "\<lambda>q. Q q \<and> \<not> same_ns p q"
    have "length (filter ?Q (pc_peers c)) = length (filter (\<lambda>q. \<not> same_ns p q) (filter Q (pc_peers c)))" by simp
    also have "\<dots> < length (filter Q (pc_peers c))"
      by (rule length_filter_less [of p]) (use p same_ns_equiv(1) in auto)
    finally have shorter: "length (filter ?Q (pc_peers c)) < length (filter Q (pc_peers c))" .
    have group: "filter (\<lambda>q. Q q \<and> same_ns p q) (pc_peers c) = filter (\<lambda>q. W q \<and> same_ns p q) (pc_peers c)"
    proof (rule filter_cong [OF refl])
      fix q
      assume "q \<in> set (pc_peers c)"
      then show "(Q q \<and> same_ns p q) = (W q \<and> same_ns p q)" using less.prems(2,3) p by blast
    qed
    have "\<forall>a\<in>set (pc_peers c). \<forall>b\<in>set (pc_peers c). ?Q a \<longrightarrow> W b \<longrightarrow> same_ns a b \<longrightarrow> ?Q b"
      using less.prems(2) same_ns_equiv by blast
    from less.hyps [OF shorter _ this] less.prems(1,3) obtain ps where
      ps: "combine_by_ns c to_peers (res @ [(filter (\<lambda>q. W q \<and> same_ns p q) (pc_peers c), ps_and to_peers (filter (same_ns p) (pc_peers c)))])
             (filter ?Q (pc_peers c)) =
           Some ((res @ [(filter (\<lambda>q. W q \<and> same_ns p q) (pc_peers c), ps_and to_peers (filter (same_ns p) (pc_peers c)))]) @
             map (\<lambda>p. (filter (\<lambda>q. W q \<and> same_ns p q) (pc_peers c), ps_and to_peers (filter (same_ns p) (pc_peers c)))) ps)"
        "set ps \<subseteq> set (filter ?Q (pc_peers c))" "\<forall>q\<in>set (filter ?Q (pc_peers c)). \<exists>p\<in>set ps. same_ns p q"
      by blast
    have "combine_by_ns c to_peers res (filter Q (pc_peers c)) =
        Some (res @ map (\<lambda>p. (filter (\<lambda>q. W q \<and> same_ns p q) (pc_peers c), ps_and to_peers (filter (same_ns p) (pc_peers c)))) (p # ps))"
      using ps(1) pods p assms(2) filter_sets [OF assms(1,2), of Q "same_ns p"]
      by (subst combine_by_ns.simps) (simp add: Cons [symmetric] group, simp add: Cons)
    moreover have "\<forall>q\<in>set (filter Q (pc_peers c)). \<exists>p\<in>set (p # ps). same_ns p q" using ps(3) by auto
    ultimately show ?thesis using ps(2) p by (intro exI [of _ "p # ps"]) auto
  qed
qed

text \<open>
  C23. Grouping the sources of a sidecar by namespaces ends, when they are peers of the container
  that have a namespace: the pairs are exactly the sources of one namespace with the targets in
  that namespace, for each namespace that a source has.
\<close>

theorem combine_peer_sets_ends:
  assumes "set_ok peer_eq (pc_peers c)" and "\<forall>p\<in>set (pc_peers c). \<not> is_ip p"
    and "sources = filter Q (pc_peers c)" and "\<forall>p\<in>set sources. peer_namespace p \<noteq> None"
  shows "\<exists>res. combine_peer_sets_by_ns c sources to_peers = Some res \<and>
           set res = {(filter (same_ns p) sources, ps_and to_peers (filter (same_ns p) (pc_peers c))) |p. p \<in> set sources}"
proof -
  obtain ps where ps: "combine_peer_sets_by_ns c sources to_peers =
      Some (map (\<lambda>p. (filter (\<lambda>q. Q q \<and> same_ns p q) (pc_peers c), ps_and to_peers (filter (same_ns p) (pc_peers c)))) ps)"
    "set ps \<subseteq> set sources" "\<forall>q\<in>set sources. \<exists>p\<in>set ps. same_ns p q"
    using combine_by_ns_groups [OF assms(1,2), of Q Q to_peers "[]"] assms(3,4)
    by (auto simp: combine_peer_sets_by_ns_def)
  have eq: "(filter (\<lambda>q. Q q \<and> same_ns p q) (pc_peers c), ps_and to_peers (filter (same_ns p) (pc_peers c))) =
      (filter (same_ns p) sources, ps_and to_peers (filter (same_ns p) (pc_peers c)))" for p
    using assms(3) by (simp add: conj_commute)
  have "same_ns p = same_ns q" if "same_ns p q" for p q using same_ns_equiv(2) [OF that] by blast
  then show ?thesis using ps unfolding eq by fastforce
qed


definition pods_container :: peer_container where
  "pods_container =
     \<lparr>pc_peers = [example_pod ''a'', example_pod ''b''], representative_peers = [], livesim_peers = [],
      namespaces = [], services = []\<rparr>"

lemma pods_container_ok:
  "set_ok peer_eq (pc_peers pods_container)" "\<forall>p\<in>set (pc_peers pods_container). \<not> is_ip p"
  "peer_namespace (example_pod n) = Some example_ns"
  by (simp_all add: pods_container_def peers.ok_distinct example_pod_def mk_pod_def owner_workload_def Let_def)

theorem combine_peer_sets_ends_witness:
  "\<exists>res. combine_peer_sets_by_ns pods_container [example_pod ''a'', example_pod ''b''] [] = Some res \<and>
     fst ` set res = {[example_pod ''a'', example_pod ''b'']}"
proof -
  have same: "same_ns (example_pod m) (example_pod n)" for m n
    by (simp add: same_ns_def pods_container_ok(3) ns_option_eq_def ns_eq_def)
  have sources: "[example_pod ''a'', example_pod ''b''] = filter (\<lambda>_. True) (pc_peers pods_container)"
    "\<forall>p\<in>set [example_pod ''a'', example_pod ''b'']. peer_namespace p \<noteq> None"
    by (simp_all add: pods_container_def pods_container_ok(3))
  obtain res where res: "combine_peer_sets_by_ns pods_container [example_pod ''a'', example_pod ''b''] [] = Some res"
    "set res = {(filter (same_ns p) [example_pod ''a'', example_pod ''b''],
                 ps_and [] (filter (same_ns p) (pc_peers pods_container))) |p. p \<in> set [example_pod ''a'', example_pod ''b'']}"
    using combine_peer_sets_ends [OF pods_container_ok(1,2) sources, of "[]"] by blast
  have image: "fst ` {(F p, G p) |p. p \<in> S} = F ` S" for F :: "peer \<Rightarrow> peer list" and G :: "peer \<Rightarrow> peer list" and S
    by force
  have "fst ` set res = (\<lambda>p. filter (same_ns p) [example_pod ''a'', example_pod ''b'']) ` set [example_pod ''a'', example_pod ''b'']"
    unfolding res(2) by (rule image)
  then show ?thesis using res(1) by (simp add: same)
qed

end
