(* ===== verification/Allow_Layers.thy ===== *)
theory Allow_Layers
  imports Layer_Results
begin

text \<open>
  Layers whose policies only allow: policies of Kubernetes, and gateway policies that allow. What
  such a layer computes is compared with a specification by sets of connections: the rules of the
  policies, and everything for peers that no policy captures.
\<close>

section \<open>Policies that only allow\<close>

text \<open>A policy whose sets, when they are synchronised, are the connections of its rules.\<close>

definition joined_ok :: "'f env \<Rightarrow> ('f, 'f peer_rule, 'a) network_policy_scheme \<Rightarrow> bool" where
  "joined_ok E P \<longleftrightarrow>
     (\<forall>r\<in>set (ingress_rules P) \<union> set (egress_rules P). good_conns E (rule_props r)) \<and> ps_ok (selected_peers P) \<and>
     (props_in_sync P \<longrightarrow>
        good_conns E (allow_ingress P) \<and> good_conns E (allow_egress P) \<and>
        conn_points E (allow_ingress P) = (\<Union>r\<in>set (ingress_rules P). conn_points E (rule_props r)) \<and>
        conn_points E (allow_egress P) = (\<Union>r\<in>set (egress_rules P). conn_points E (rule_props r)) \<and>
        deny_ingress P = make_empty_props \<and> deny_egress P = make_empty_props)"

definition only_allows :: "'f env \<Rightarrow> 'f policy \<Rightarrow> bool" where
  "only_allows E P \<longleftrightarrow>
     (case P of
        K8s_Policy p \<Rightarrow> joined_ok E p
      | Gateway_Policy g \<Rightarrow> joined_ok E g \<and> gateway_action g = Allow_Action
      | _ \<Rightarrow> False)"

fun rule_points :: "'f env \<Rightarrow> bool \<Rightarrow> 'f policy \<Rightarrow> (dim \<Rightarrow> item) set" where
  "rule_points E i (K8s_Policy p) = (\<Union>r\<in>set (if i then ingress_rules p else egress_rules p). conn_points E (rule_props r))"
| "rule_points E i (Gateway_Policy g) = (\<Union>r\<in>set (if i then ingress_rules g else egress_rules g). conn_points E (rule_props r))"
| "rule_points E i _ = {}"

fun captures :: "bool \<Rightarrow> 'f policy \<Rightarrow> peer_set" where
  "captures i (K8s_Policy p) = captured_peers p i"
| "captures i (Gateway_Policy g) = captured_peers g i"
| "captures i _ = []"

lemma unions:
  assumes "env_ok E" and "joined_ok E P"
  shows "\<exists>a. union_rules E make_empty_props (ingress_rules P) = Some a \<and> good_conns E a \<and>
           conn_points E a = (\<Union>r\<in>set (ingress_rules P). conn_points E (rule_props r))"
    and "\<exists>b. union_rules E make_empty_props (egress_rules P) = Some b \<and> good_conns E b \<and>
           conn_points E b = (\<Union>r\<in>set (egress_rules P). conn_points E (rule_props r))"
proof -
  have good: "\<forall>r\<in>set (ingress_rules P). good_conns E (rule_props r)" "\<forall>r\<in>set (egress_rules P). good_conns E (rule_props r)"
    using assms(2) by (simp_all add: joined_ok_def)
  show "\<exists>a. union_rules E make_empty_props (ingress_rules P) = Some a \<and> good_conns E a \<and>
           conn_points E a = (\<Union>r\<in>set (ingress_rules P). conn_points E (rule_props r))"
    by (rule union_rules_points [OF assms(1) good(1)])
  show "\<exists>b. union_rules E make_empty_props (egress_rules P) = Some b \<and> good_conns E b \<and>
           conn_points E b = (\<Union>r\<in>set (egress_rules P). conn_points E (rule_props r))"
    by (rule union_rules_points [OF assms(1) good(2)])
qed

text \<open>Both kinds are synchronised to the same fields.\<close>

lemma joined_sync:
  fixes P :: "('f, 'f peer_rule, 'a) network_policy_scheme"
  assumes "joined_ok E P" and "good_conns E a" and "good_conns E b"
    and "conn_points E a = (\<Union>r\<in>set (ingress_rules P). conn_points E (rule_props r))"
    and "conn_points E b = (\<Union>r\<in>set (egress_rules P). conn_points E (rule_props r))"
    and "Q = init_props P\<lparr>allow_ingress := a, allow_egress := b, props_in_sync := True\<rparr>"
  shows "joined_ok E Q" and "captured_peers Q = captured_peers P"
    and "ingress_rules Q = ingress_rules P" and "egress_rules Q = egress_rules P" and "props_in_sync Q"
  using assms by (simp_all add: joined_ok_def init_props_def captured_peers_def fun_eq_iff)

lemma k8s_sync_joined:
  assumes "env_ok E" and "joined_ok E p"
  shows "\<exists>q. k8s_sync_props E p = Some q \<and> joined_ok E q \<and> captured_peers q = captured_peers p \<and>
           ingress_rules q = ingress_rules p \<and> egress_rules q = egress_rules p \<and> props_in_sync q"
proof (cases "props_in_sync p")
  case True
  then show ?thesis using assms(2) by (simp add: k8s_sync_props_def)
next
  case False
  obtain a where a: "union_rules E make_empty_props (ingress_rules p) = Some a" "good_conns E a"
    "conn_points E a = (\<Union>r\<in>set (ingress_rules p). conn_points E (rule_props r))" using unions(1) [OF assms] by blast
  obtain b where b: "union_rules E make_empty_props (egress_rules p) = Some b" "good_conns E b"
    "conn_points E b = (\<Union>r\<in>set (egress_rules p). conn_points E (rule_props r))" using unions(2) [OF assms] by blast
  have "k8s_sync_props E p = Some (init_props p\<lparr>allow_ingress := a, allow_egress := b, props_in_sync := True\<rparr>)"
    using a(1) b(1) False by (simp add: k8s_sync_props_def init_props_def Let_def)
  then show ?thesis using joined_sync [OF assms(2) a(2) b(2) a(3) b(3) refl] by blast
qed

lemma gateway_sync_joined:
  assumes "env_ok E" and "joined_ok E g" and "gateway_action g = Allow_Action"
  shows "\<exists>q. gateway_sync_props E g = Some q \<and> joined_ok E q \<and> captured_peers q = captured_peers g \<and>
           ingress_rules q = ingress_rules g \<and> egress_rules q = egress_rules g \<and> props_in_sync q \<and>
           gateway_action q = Allow_Action"
proof (cases "props_in_sync g")
  case True
  then show ?thesis using assms(2,3) by (simp add: gateway_sync_props_def)
next
  case False
  obtain a where a: "union_rules E make_empty_props (ingress_rules g) = Some a" "good_conns E a"
    "conn_points E a = (\<Union>r\<in>set (ingress_rules g). conn_points E (rule_props r))" using unions(1) [OF assms(1,2)] by blast
  obtain b where b: "union_rules E make_empty_props (egress_rules g) = Some b" "good_conns E b"
    "conn_points E b = (\<Union>r\<in>set (egress_rules g). conn_points E (rule_props r))" using unions(2) [OF assms(1,2)] by blast
  let ?Q = "init_props g\<lparr>allow_ingress := a, allow_egress := b, props_in_sync := True\<rparr>"
  have "gateway_sync_props E g = Some ?Q" "gateway_action ?Q = Allow_Action"
    using a(1) b(1) False assms(3) by (simp_all add: gateway_sync_props_def init_props_def Let_def)
  then show ?thesis using joined_sync [OF assms(2) a(2) b(2) a(3) b(3) refl] by blast
qed

text \<open>The policy after a report, as before it.\<close>

definition same_policy :: "'f env \<Rightarrow> 'f policy \<Rightarrow> 'f policy \<Rightarrow> bool" where
  "same_policy E P Q \<longleftrightarrow>
     only_allows E Q \<and> (\<forall>i. rule_points E i Q = rule_points E i P) \<and> (\<forall>i. captures i Q = captures i P)"

lemma only_allows_conns:
  assumes "env_ok E" and "only_allows E P"
  shows "\<exists>Q c. allowed_connections E i P = Some (Q, c) \<and> same_policy E P Q \<and> captured c = captures i P \<and>
           good_conns E (allowed_conns c) \<and> conn_points E (allowed_conns c) = rule_points E i P \<and>
           denied_conns c = make_empty_props \<and> pass_conns c = make_empty_props"
proof -
  consider (k8s) p where "P = K8s_Policy p" "joined_ok E p"
    | (gateway) g where "P = Gateway_Policy g" "joined_ok E g" "gateway_action g = Allow_Action"
    using assms(2) by (auto simp: only_allows_def split: policy.splits)
  then show ?thesis
  proof cases
    case k8s
    obtain q where q: "k8s_sync_props E p = Some q" "joined_ok E q" "captured_peers q = captured_peers p"
      "ingress_rules q = ingress_rules p" "egress_rules q = egress_rules p" "props_in_sync q"
      using k8s_sync_joined [OF assms(1) k8s(2)] by blast
    then have "same_policy E P (K8s_Policy q)" by (simp add: same_policy_def only_allows_def k8s)
    then show ?thesis
      using q k8s(1) by (cases i) (simp_all add: k8s_allowed_connections_def new_policy_connections_def joined_ok_def)
  next
    case gateway
    obtain q where q: "gateway_sync_props E g = Some q" "joined_ok E q" "captured_peers q = captured_peers g"
      "ingress_rules q = ingress_rules g" "egress_rules q = egress_rules g" "props_in_sync q" "gateway_action q = Allow_Action"
      using gateway_sync_joined [OF assms(1) gateway(2,3)] by blast
    then have "same_policy E P (Gateway_Policy q)" by (simp add: same_policy_def only_allows_def gateway)
    then show ?thesis
      using q gateway(1) by (cases i)
        (simp_all add: gateway_allowed_connections_def conns_of_def new_policy_connections_def joined_ok_def)
  qed
qed

section \<open>Collecting them\<close>

lemma active_dims_conns:
  assumes "good_conns E t"
  shows "set (active_dims t) \<subseteq> set all_dimensions_list"
proof -
  have E: "env_ok E" and t: "cubes_ok (fsm_of E) (table_of E) t" "all_dims t = all_dimensions_list"
    using assms by (simp_all add: good_conns_def)
  obtain c al act ls where eq: "t = HC c al act ls" "act = dims_by_order al act"
    using iffD1 [OF dim_values.hc_wf_iff [OF env_values [OF E]] t(1)] by (elim exE conjE) (rule that)
  have "set act \<subseteq> set al" using dims_by_order_set [of al act] eq(2) by (metis inf_le1)
  then show ?thesis using t(2) eq(1) by simp
qed

lemma empty_minus:
  fixes E :: "'f env"
  assumes "env_ok E" and "good_conns E t"
  shows "\<exists>r. hc_isub (env_dims E) make_empty_props t = Some r \<and> good_conns E r \<and> \<not> hc_bool r"
  using conns.df_from_empty [OF empty_conns(1) [OF assms(1)] _ assms(2)] empty_props_ok(3,5) [OF assms(1)]
    active_dims_conns [OF assms(2)] by metis

lemma merge_allowed_only:
  assumes E: "env_ok E"
    and r: "good_conns E (allowed_conns res)" "denied_conns res = make_empty_props" "pass_conns res = make_empty_props"
    and c: "good_conns E (allowed_conns c)" "denied_conns c = make_empty_props" "pass_conns c = make_empty_props"
  shows "\<exists>a. merge_conns E b res c = Some (res\<lparr>captured := (if b then ps_or (captured res) (captured c) else captured res),
               allowed_conns := a\<rparr>) \<and> good_conns E a \<and>
             conn_points E a = conn_points E (allowed_conns res) \<union> conn_points E (allowed_conns c)"
proof -
  note e = empty_conns(1) [OF E] empty_props_ok(3) [OF E]
  obtain d where d: "hc_isub (env_dims E) make_empty_props (allowed_conns res) = Some d" "good_conns E d" "\<not> hc_bool d"
    using empty_minus [OF E r(1)] by blast
  obtain a where a: "hc_ior (env_dims E) (allowed_conns res) (allowed_conns c) = Some a" "good_conns E a"
    "conn_points E a = conn_points E (allowed_conns res) \<union> conn_points E (allowed_conns c)"
    using conns.un_ok [OF r(1) c(1)] by blast
  have none: "hc_isub (env_dims E) t make_empty_props = Some t" "hc_ior (env_dims E) t d = Some t" if "good_conns E t" for t
    using conns.df_none [OF that e] conns.un_none [OF that d(2,3)] by blast+
  show ?thesis
    using a d(1) none [OF c(1)] none(1) [OF d(2)] none [OF e(1)] r c
    by (intro exI [of _ a], cases res) (simp add: merge_conns_def Let_def)
qed

lemma captures_ok: "only_allows E P \<Longrightarrow> ps_ok (captures i P)"
  by (auto simp: only_allows_def joined_ok_def captured_peers_def ps_ok_def set_ok_def split: policy.splits)

text \<open>A policy that captures nothing is skipped with its rules.\<close>

definition active_points :: "'f env \<Rightarrow> bool \<Rightarrow> 'f policy list \<Rightarrow> (dim \<Rightarrow> item) set" where
  "active_points E i ps = (\<Union>P\<in>{P \<in> set ps. captures i P \<noteq> []}. rule_points E i P)"

definition captured_points :: "bool \<Rightarrow> 'f policy list \<Rightarrow> endpoint set" where
  "captured_points i ps = (\<Union>P\<in>set ps. ps_points (captures i P))"

definition allow_result :: "'f env \<Rightarrow> 'f policy_connections \<Rightarrow> bool" where
  "allow_result E r \<longleftrightarrow>
     good_conns E (allowed_conns r) \<and> ps_ok (captured r) \<and> denied_conns r = make_empty_props \<and>
     pass_conns r = make_empty_props \<and> all_allowed_conns r = make_empty_props"

lemma collect_allows:
  assumes "env_ok E" and "\<forall>P\<in>set ps. only_allows E P" and "allow_result E res" and "\<And>P. f P = Some True"
  shows "\<exists>qs r. collect_policies E i f res ps = Some (qs, r) \<and> list_all2 (same_policy E) ps qs \<and> allow_result E r \<and>
           conn_points E (allowed_conns r) = conn_points E (allowed_conns res) \<union> active_points E i ps \<and>
           ps_points (captured r) = ps_points (captured res) \<union> captured_points i ps"
  using assms(2,3)
proof (induction ps arbitrary: res)
  case Nil
  then show ?case by (simp add: active_points_def captured_points_def)
next
  case (Cons P ps)
  obtain Q c where c: "allowed_connections E i P = Some (Q, c)" "same_policy E P Q" "captured c = captures i P"
    "good_conns E (allowed_conns c)" "conn_points E (allowed_conns c) = rule_points E i P"
    "denied_conns c = make_empty_props" "pass_conns c = make_empty_props"
    using only_allows_conns [OF assms(1), of P i] Cons.prems(1) by auto
  have cap: "ps_ok (captures i P)" using captures_ok [of E P] Cons.prems(1) by simp
  obtain res' where res': "(if captured c \<noteq> [] then do { b \<leftarrow> f P; merge_conns E b res c } else Some res) = Some res'"
    "allow_result E res'"
    "conn_points E (allowed_conns res') = conn_points E (allowed_conns res) \<union> (if captures i P \<noteq> [] then rule_points E i P else {})"
    "ps_points (captured res') = ps_points (captured res) \<union> ps_points (captures i P)"
  proof (cases "captures i P = []")
    case True
    then show ?thesis using that [of res] c(3) Cons.prems(2) by simp
  next
    case False
    obtain a where a: "merge_conns E True res c =
        Some (res\<lparr>captured := ps_or (captured res) (captured c), allowed_conns := a\<rparr>)" "good_conns E a"
      "conn_points E a = conn_points E (allowed_conns res) \<union> conn_points E (allowed_conns c)"
      using merge_allowed_only [OF assms(1), of res c True] c(4,6,7) Cons.prems(2) unfolding allow_result_def by auto
    have "ps_ok (ps_or (captured res) (captures i P)) \<and>
        ps_points (ps_or (captured res) (captures i P)) = ps_points (captured res) \<union> ps_points (captures i P)"
      by (rule ps_or_ok) (use Cons.prems(2) cap in \<open>simp_all add: allow_result_def ps_ok_def\<close>)
    then show ?thesis
      using that [of "res\<lparr>captured := ps_or (captured res) (captured c), allowed_conns := a\<rparr>"] a False c(3,5)
        Cons.prems(2) assms(4) by (simp add: allow_result_def)
  qed
  obtain qs r where r: "collect_policies E i f res' ps = Some (qs, r)" "list_all2 (same_policy E) ps qs" "allow_result E r"
    "conn_points E (allowed_conns r) = conn_points E (allowed_conns res') \<union> active_points E i ps"
    "ps_points (captured r) = ps_points (captured res') \<union> captured_points i ps"
    using Cons.IH [OF _ res'(2)] Cons.prems(1) by auto
  have "active_points E i (P # ps) = (if captures i P \<noteq> [] then rule_points E i P else {}) \<union> active_points E i ps"
    by (auto simp: active_points_def)
  moreover have "captured_points i (P # ps) = ps_points (captures i P) \<union> captured_points i ps"
    by (simp add: captured_points_def)
  ultimately show ?case
    using c(1,2) res' r by (intro exI [of _ "Q # qs"] exI [of _ r]) (simp add: Un_assoc del: Option.bind_eq_Some_conv)
qed

section \<open>The peers of the container\<close>

definition container_ok :: "'f env \<Rightarrow> peer_container \<Rightarrow> bool" where
  "container_ok E c \<longleftrightarrow>
     ps_ok (pc_peers c) \<and> (\<forall>p\<in>set (pc_peers c). \<not> is_ip p) \<and> (\<forall>e\<in>ps_points (pc_peers c). numbered (base_of E) e)"

lemma ip_int_bound: "0 \<le> ip_int x" "ip_int x < 2 ^ ip_bits x"
  by (cases x; simp add: uint_lt2p [where 'a = 32, simplified] uint_lt2p [where 'a = 128, simplified])+

lemma all_ips_ok: "\<exists>b. get_all_ips_block False False = Some b \<and> block_ok b \<and> block_set b = UNIV"
proof -
  have ok: "cidr_ok (Cidr (IPv4 0) 0)" "cidr_ok (Cidr (IPv6 0) 0)" by (simp_all add: cidr_ok_def)
  have zero: "ip_int x div 2 ^ ip_bits x = 0" for x using ip_int_bound [of x] by simp
  have "x \<in> iv_set (cidr_interval (Cidr (IPv4 0) 0)) \<union> iv_set (cidr_interval (Cidr (IPv6 0) 0))" for x
    using zero [of x] unfolding cidr_interval_set [OF ok(1)] cidr_interval_set [OF ok(2)] Un_iff
    by (cases x) simp_all
  then have all: "iv_set (cidr_interval (Cidr (IPv4 0) 0)) \<union> iv_set (cidr_interval (Cidr (IPv6 0) 0)) = UNIV" by blast
  have one: "ip_canonical (add_interval [] (cidr_interval (Cidr (IPv4 0) 0)))"
    "iset_set (add_interval [] (cidr_interval (Cidr (IPv4 0) 0))) = iv_set (cidr_interval (Cidr (IPv4 0) 0))"
    using ips.add_interval_canonical [OF _ cidr_valid [OF ok(1)], of "[]"] ips.add_interval_set [OF _ cidr_valid [OF ok(1)], of "[]"]
    by simp_all
  show ?thesis
    using ips.add_interval_canonical [OF one(1) cidr_valid [OF ok(2)]] ips.add_interval_set [OF one(1) cidr_valid [OF ok(2)]]
      one(2) all
    by (simp add: get_all_ips_block_def block_add_cidr_def empty_block_def mk_ip_block_def)
qed

lemma filter_ps_ok: "ps_ok s \<Longrightarrow> ps_ok (filter P s)"
  by (auto simp: ps_ok_def peers.ok_distinct distinct_map_filter list_all_iff)

lemma filter_points: "ps_points (filter P s) \<subseteq> ps_points s"
  by (auto simp: ps_points_def)

lemma container_peers_ok:
  assumes "container_ok E c"
  shows "peers_ok E (filter P (pc_peers c))"
  using assms filter_ps_ok filter_points [of P "pc_peers c"] by (auto simp: container_ok_def peers_ok_def)

lemma peers_ok_ops:
  assumes "peers_ok E s" and "ps_ok t"
  shows "peers_ok E (ps_sub s t)" and "peers_ok E (ps_and s t)"
  using ps_sub_ok [OF _ assms(2), of s] ps_and_ok [OF _ assms(2), of s] assms(1) by (auto simp: peers_ok_def)

text \<open>The sets of peers that layers use.\<close>

definition known_points :: "peer_container \<Rightarrow> bool \<Rightarrow> endpoint set" where
  "known_points c dns = ps_points (filter (\<lambda>p. is_dns p \<longrightarrow> dns) (pc_peers c))"

lemma group_ok:
  assumes "container_ok E c"
  shows "\<exists>s. get_all_peers_group c False True dns = Some s \<and> s = filter (\<lambda>p. is_dns p \<longrightarrow> dns) (pc_peers c) \<and> peers_ok E s \<and>
           ps_points s = known_points c dns"
    and "\<exists>s. get_all_peers_group c True True dns = Some s \<and> peers_ok E s \<and> ps_points s = known_points c dns \<union> range Address"
proof -
  let ?s = "filter (\<lambda>p. is_dns p \<longrightarrow> dns) (pc_peers c)"
  have eq: "filter (\<lambda>p. \<not> (is_dns p \<and> \<not> dns)) (pc_peers c) = ?s" by (intro filter_cong) auto
  have ok: "peers_ok E ?s" by (rule container_peers_ok [OF assms])
  show "\<exists>s. get_all_peers_group c False True dns = Some s \<and> s = ?s \<and> peers_ok E s \<and> ps_points s = known_points c dns"
    using ok eq by (simp add: get_all_peers_group_def known_points_def)
  obtain b where b: "get_all_ips_block False False = Some b" "block_ok b" "block_set b = UNIV" using all_ips_ok by blast
  have "ps_ok (ps_or ?s [Ip_Peer b]) \<and> ps_points (ps_or ?s [Ip_Peer b]) = ps_points ?s \<union> ps_points [Ip_Peer b]"
    by (rule ps_or_ok) (use ok b(2) in \<open>simp_all add: peers_ok_def\<close>)
  moreover have "ps_or ?s [Ip_Peer b] = set_add peer_eq ?s (Ip_Peer b)" by (simp add: ps_or_def set_union_def)
  moreover have "ps_points [Ip_Peer b] = range Address" using b(3) by simp
  ultimately have "peers_ok E (set_add peer_eq ?s (Ip_Peer b))"
    "ps_points (set_add peer_eq ?s (Ip_Peer b)) = known_points c dns \<union> range Address"
    using ok by (auto simp: peers_ok_def known_points_def numbered_def)
  then show "\<exists>s. get_all_peers_group c True True dns = Some s \<and> peers_ok E s \<and> ps_points s = known_points c dns \<union> range Address"
    using b(1) eq by (simp add: get_all_peers_group_def)
qed

lemma all_ips_peers_ok: "\<exists>s. get_all_ips_block_peer_set False = Some s \<and> peers_ok E s \<and> ps_points s = range Address"
proof -
  obtain b where b: "get_all_ips_block False False = Some b" "block_ok b" "block_set b = UNIV" using all_ips_ok by blast
  have "ps_ok [Ip_Peer b]" using b(2) by (simp add: ps_ok_def set_ok_def)
  then show ?thesis using b by (auto simp: get_all_ips_block_peer_set_def peers_ok_def numbered_def)
qed

section \<open>What a layer allows\<close>

lemma and_conns:
  assumes "good_conns E t" and "good_conns E u"
  shows "\<exists>r. hc_and (env_dims E) t u = Some r \<and> good_conns E r \<and> conn_points E r = conn_points E t \<inter> conn_points E u"
proof -
  have M: "dim_values (env_dims E) (val_ok E)" using assms(1) env_values by (auto simp: good_conns_def)
  have wf: "cubes_ok (fsm_of E) (table_of E) t" "cubes_ok (fsm_of E) (table_of E) u" "all_dims u = all_dims t"
    using assms by (simp_all add: good_conns_def)
  obtain r where r: "hc_and (env_dims E) t u = Some r" "cubes_ok (fsm_of E) (table_of E) r" "all_dims r = all_dims t"
    "is_props r = is_props t" "\<forall>p. point_in (fsm_of E) (table_of E) (all_dims t) p \<longrightarrow>
      holds (fsm_of E) (table_of E) r p = (holds (fsm_of E) (table_of E) t p \<and> holds (fsm_of E) (table_of E) u p)"
    using dim_values.hc_and_points [OF M wf] by blast
  then have "conn_points E r = conn_points E t \<inter> conn_points E u" "good_conns E r"
    using assms by (auto simp: conn_points_def good_conns_def)
  then show ?thesis using r(1) by blast
qed

lemma or_conns:
  assumes "good_conns E t" and "good_conns E u"
  shows "\<exists>r. hc_or (env_dims E) t u = Some r \<and> good_conns E r \<and> conn_points E r = conn_points E t \<union> conn_points E u"
proof -
  have "env_ok E" using assms(1) by (simp add: good_conns_def)
  then have "hc_or (env_dims E) t u = hc_ior (env_dims E) t u"
    by (rule dim_values.hc_copy_or [OF env_values])
  then show ?thesis using conns.un_ok [OF assms] by auto
qed

text \<open>Everything is allowed for the peers that no policy captures, except for host endpoints.\<close>

definition directed :: "'f env \<Rightarrow> bool \<Rightarrow> endpoint set \<Rightarrow> endpoint set \<Rightarrow> (dim \<Rightarrow> item) set" where
  "directed E i S T = (if i then between E S T else between E T S)"

definition plain_points :: "peer_container \<Rightarrow> endpoint set" where
  "plain_points c = ps_points (filter (\<lambda>p. \<not> is_host_ep p) (pc_peers c))"

definition default_points :: "'f env \<Rightarrow> peer_container \<Rightarrow> bool \<Rightarrow> 'f policy list \<Rightarrow> (dim \<Rightarrow> item) set" where
  "default_points E c i ps =
     directed E i (known_points c True \<union> range Address) (plain_points c - captured_points i ps)"

lemma directed_conns_ok:
  assumes "env_ok E" and "words_ok E" and "peers_ok E s" and "peers_ok E t"
  shows "\<exists>r. directed_conns E i s t = Some r \<and> good_conns E r \<and> conn_points E r = directed E i (ps_points s) (ps_points t)"
  using between_conns [OF assms] between_conns [OF assms(1,2,4,3)] by (cases i) (auto simp: directed_conns_def directed_def)

lemma add_all_allowed_ok:
  assumes "good_conns E (all_allowed_conns res)" and "good_conns E t"
  shows "\<exists>l. add_all_allowed E res t = Some (res\<lparr>all_allowed_conns := l\<rparr>) \<and> good_conns E l \<and>
           conn_points E l = conn_points E (all_allowed_conns res) \<union> conn_points E t"
  using conns.un_ok [OF assms] by (auto simp: add_all_allowed_def)

lemma directed_empty [simp]: "directed E i S {} = {}"
  by (simp add: directed_def between_def)

lemma xgress_allows:
  assumes E: "env_ok E" "words_ok E" and c: "container_ok E c" and ps: "\<forall>P\<in>set ps. only_allows E P"
  shows "\<exists>qs r. calico_xgress_conns E i c flt ps = Some (qs, r) \<and> list_all2 (same_policy E) ps qs \<and>
           good_conns E (allowed_conns r) \<and> good_conns E (all_allowed_conns r) \<and> ps_ok (captured r) \<and>
           denied_conns r = make_empty_props \<and>
           conn_points E (allowed_conns r) = active_points E i ps \<and> ps_points (captured r) = captured_points i ps \<and>
           conn_points E (all_allowed_conns r) =
             (if calc_all_allowed flt then default_points E c i ps \<union> active_points E i ps else {})"
proof -
  note e = empty_conns(1,2) [OF E(1)]
  have start: "allow_result E new_policy_connections"
    using e by (simp add: allow_result_def new_policy_connections_def ps_ok_def set_ok_def)
  obtain qs r where r: "collect_policies_conns_optimized E i (\<lambda>_. Some True) ps = Some (qs, r)"
    "list_all2 (same_policy E) ps qs" "allow_result E r" "conn_points E (allowed_conns r) = active_points E i ps"
    "ps_points (captured r) = captured_points i ps"
    using collect_allows [OF E(1) ps start, of "\<lambda>_. Some True" i] e
    by (auto simp: collect_policies_conns_optimized_def new_policy_connections_def)
  obtain all_ips where all_ips: "get_all_peers_group c True True True = Some all_ips" "peers_ok E all_ips"
    "ps_points all_ips = known_points c True \<union> range Address" using group_ok(2) [OF c] by blast
  have no_ips: "get_all_peers_group c False True True = Some (pc_peers c)"
    using group_ok(1) [OF c, of True] by simp
  let ?base = "filter (\<lambda>p. \<not> is_host_ep p) (pc_peers c)"
  let ?nc = "ps_sub ?base (captured r)"
  have cap: "ps_ok (captured r)" using r(3) by (simp add: allow_result_def)
  have base: "peers_ok E ?base" by (rule container_peers_ok [OF c])
  have nc: "peers_ok E ?nc" "ps_points ?nc = plain_points c - captured_points i ps"
    using peers_ok_ops(1) [OF base cap] ps_sub_ok [OF _ cap, of ?base] base r(5) by (auto simp: peers_ok_def plain_points_def)
  have res: "good_conns E (all_allowed_conns r)" "conn_points E (all_allowed_conns r) = {}" "\<not> hc_bool (pass_conns r)"
    "denied_conns r = make_empty_props" "good_conns E (allowed_conns r)"
    using r(3) e empty_props_ok(3) [OF E(1)] by (simp_all add: allow_result_def)
  obtain t where t: "directed_conns E i all_ips ?nc = Some t" "good_conns E t" "conn_points E t = default_points E c i ps"
    using directed_conns_ok [OF E all_ips(2) nc(1), of i] by (auto simp: default_points_def all_ips(3) nc(2))
  obtain l where l: "(if ?nc \<noteq> [] \<and> calc_all_allowed flt
        then do { t \<leftarrow> directed_conns E i all_ips ?nc; add_all_allowed E r t } else Some r) =
      Some (r\<lparr>all_allowed_conns := l\<rparr>)" "good_conns E l"
    "conn_points E l = (if calc_all_allowed flt then default_points E c i ps else {})"
  proof (cases "?nc \<noteq> [] \<and> calc_all_allowed flt")
    case True
    then show ?thesis using that add_all_allowed_ok [OF res(1) t(2)] t(1,3) res(2) by auto
  next
    case False
    have "default_points E c i ps = {}" if "?nc = []"
      using arg_cong [OF that, of ps_points] unfolding nc(2) default_points_def by (simp only: ps_points_simps directed_empty)
    then show ?thesis using that [of "all_allowed_conns r"] False res(1,2) by (cases "?nc = []") simp_all
  qed
  obtain m where m: "(if calc_all_allowed flt
        then add_all_allowed E (r\<lparr>all_allowed_conns := l\<rparr>) (allowed_conns (r\<lparr>all_allowed_conns := l\<rparr>))
        else Some (r\<lparr>all_allowed_conns := l\<rparr>)) = Some (r\<lparr>all_allowed_conns := m\<rparr>)" "good_conns E m"
    "conn_points E m = (if calc_all_allowed flt then default_points E c i ps \<union> active_points E i ps else {})"
  proof (cases "calc_all_allowed flt")
    case True
    then show ?thesis
      using that add_all_allowed_ok [of E "r\<lparr>all_allowed_conns := l\<rparr>" "allowed_conns r"] l(2,3) res(5) r(4) by auto
  next
    case False
    then show ?thesis using that [of l] l by simp
  qed
  have "calico_xgress_conns E i c flt ps = Some (qs, r\<lparr>all_allowed_conns := m\<rparr>)"
    using l(1) m(1) res(3) by (simp add: calico_xgress_conns_def r(1) all_ips(1) no_ips Let_def split del: if_split)
  then show ?thesis using r(2,4,5) res(4,5) cap m(2,3) by auto
qed

text \<open>One direction, with the connections to addresses (ingress) or from them (egress).\<close>

definition direction_points :: "'f env \<Rightarrow> peer_container \<Rightarrow> bool \<Rightarrow> 'f policy list \<Rightarrow> (dim \<Rightarrow> item) set" where
  "direction_points E c i ps =
     default_points E c i ps \<union> active_points E i ps \<union> directed E i (known_points c False) (range Address)"

lemma join_xgress_ok:
  assumes E: "env_ok E" "words_ok E" and c: "container_ok E c" and all: "calc_all_allowed flt"
    and ing: "good_conns E (allowed_conns ing)" "good_conns E (all_allowed_conns ing)" "denied_conns ing = make_empty_props"
      "ps_ok (captured ing)"
    and eg: "good_conns E (allowed_conns eg)" "good_conns E (all_allowed_conns eg)" "denied_conns eg = make_empty_props"
      "ps_ok (captured eg)"
    and A: "A = conn_points E (all_allowed_conns ing) \<union> directed E True (known_points c False) (range Address)"
    and B: "B = conn_points E (all_allowed_conns eg) \<union> directed E False (known_points c False) (range Address)"
  shows "\<exists>r. join_xgress E c flt ing eg = Some r \<and> good_conns E (all_allowed_conns r) \<and> good_conns E (allowed_conns r) \<and>
           good_conns E (denied_conns r) \<and>
           conn_points E (all_allowed_conns r) = A \<inter> B \<and>
           conn_points E (allowed_conns r) = (if calc_allowed flt
             then conn_points E (allowed_conns ing) \<inter> B \<union> conn_points E (allowed_conns eg) \<inter> A else {}) \<and>
           conn_points E (denied_conns r) = {} \<and> pass_conns r = make_empty_props \<and> ps_ok (captured r) \<and>
           ps_points (captured r) = ps_points (captured ing) \<union> ps_points (captured eg)"
proof -
  note e = empty_conns(1,2) [OF E(1)]
  obtain pods where pods: "get_all_peers_group c False True False = Some pods" "peers_ok E pods"
    "ps_points pods = known_points c False" using group_ok(1) [OF c, of False] by blast
  obtain addrs where addrs: "get_all_ips_block_peer_set False = Some addrs" "peers_ok E addrs" "ps_points addrs = range Address"
    using all_ips_peers_ok by blast
  obtain t where t: "conns_between E pods addrs = Some t" "good_conns E t"
    "conn_points E t = directed E True (known_points c False) (range Address)"
    using between_conns [OF E pods(2) addrs(2)] by (auto simp: directed_def pods(3) addrs(3))
  obtain u where u: "conns_between E addrs pods = Some u" "good_conns E u"
    "conn_points E u = directed E False (known_points c False) (range Address)"
    using between_conns [OF E addrs(2) pods(2)] by (auto simp: directed_def pods(3) addrs(3))
  obtain a where a: "add_all_allowed E ing t = Some (ing\<lparr>all_allowed_conns := a\<rparr>)" "good_conns E a" "conn_points E a = A"
    using add_all_allowed_ok [OF ing(2) t(2)] unfolding A t(3) by blast
  obtain b where b: "add_all_allowed E eg u = Some (eg\<lparr>all_allowed_conns := b\<rparr>)" "good_conns E b" "conn_points E b = B"
    using add_all_allowed_ok [OF eg(2) u(2)] unfolding B u(3) by blast
  obtain l where l: "hc_and (env_dims E) a b = Some l" "good_conns E l" "conn_points E l = A \<inter> B"
    using and_conns [OF a(2) b(2)] a(3) b(3) by auto
  obtain d where d: "hc_or (env_dims E) make_empty_props (make_empty_props :: 'a dim_value hcs) = Some d" "good_conns E d"
    "conn_points E d = {}"
    using or_conns [OF e(1) e(1)] e(2) by auto
  obtain x where x: "hc_and (env_dims E) (allowed_conns ing) b = Some x" "good_conns E x"
    "conn_points E x = conn_points E (allowed_conns ing) \<inter> B" using and_conns [OF ing(1) b(2)] b(3) by auto
  obtain y where y: "hc_and (env_dims E) (allowed_conns eg) a = Some y" "good_conns E y"
    "conn_points E y = conn_points E (allowed_conns eg) \<inter> A" using and_conns [OF eg(1) a(2)] a(3) by auto
  obtain z where z: "hc_or (env_dims E) x y = Some z" "good_conns E z" "conn_points E z = conn_points E x \<union> conn_points E y"
    using or_conns [OF x(2) y(2)] by blast
  have cap: "ps_ok (ps_or (captured ing) (captured eg)) \<and>
      ps_points (ps_or (captured ing) (captured eg)) = ps_points (captured ing) \<union> ps_points (captured eg)"
    by (rule ps_or_ok) (use ing(4) eg(4) in \<open>simp_all add: ps_ok_def\<close>)
  show ?thesis
    using all pods(1) addrs(1) t(1) u(1) a(1) b(1) l d x(1) y(1) z cap x(3) y(3) e
    by (simp add: join_xgress_def Let_def new_policy_connections_def ing(3) eg(3))
qed

lemma same_policies:
  assumes "list_all2 (same_policy E) ps qs"
  shows "\<forall>Q\<in>set qs. only_allows E Q" and "active_points E i qs = active_points E i ps"
    and "captured_points i qs = captured_points i ps"
  using assms
proof (induction rule: list_all2_induct)
  case (Cons P ps Q qs)
  have "active_points E i (P # ps) = (if captures i P \<noteq> [] then rule_points E i P else {}) \<union> active_points E i ps" for P ps
    by (auto simp: active_points_def)
  moreover have "captured_points i (P # ps) = ps_points (captures i P) \<union> captured_points i ps" for P :: "'a policy" and ps
    by (simp add: captured_points_def)
  ultimately show "\<forall>R\<in>set (Q # qs). only_allows E R" "active_points E i (Q # qs) = active_points E i (P # ps)"
    "captured_points i (Q # qs) = captured_points i (P # ps)"
    using Cons by (simp_all add: same_policy_def)
qed (simp_all add: active_points_def captured_points_def)

lemma layer_allows:
  assumes E: "env_ok E" "words_ok E" and c: "container_ok E c" and ps: "\<forall>P\<in>set (policies_list L). only_allows E P"
    and kind: "layer_kind L = K8s_Calico \<or> layer_kind L = K8s_Gateway" and all: "calc_all_allowed flt"
    and D: "\<And>i. D i = direction_points E c i (policies_list L)"
  shows "\<exists>L' r. layer_allowed_connections E c flt L = Some (L', r) \<and> layer_kind L' = layer_kind L \<and>
           (\<forall>P\<in>set (policies_list L'). only_allows E P) \<and>
           good_conns E (all_allowed_conns r) \<and> good_conns E (allowed_conns r) \<and> good_conns E (denied_conns r) \<and>
           conn_points E (all_allowed_conns r) = D True \<inter> D False \<and>
           conn_points E (allowed_conns r) = (if calc_allowed flt
             then active_points E True (policies_list L) \<inter> D False \<union> active_points E False (policies_list L) \<inter> D True else {}) \<and>
           conn_points E (denied_conns r) = {} \<and> pass_conns r = make_empty_props \<and> ps_ok (captured r) \<and>
           ps_points (captured r) = captured_points True (policies_list L) \<union> captured_points False (policies_list L)"
proof -
  have x: "allowed_xgress_conns E (layer_kind L) = calico_xgress_conns E" using kind by (simp add: allowed_xgress_conns_def)
  obtain qs ing where ing: "calico_xgress_conns E True c flt (policies_list L) = Some (qs, ing)"
    "list_all2 (same_policy E) (policies_list L) qs" "good_conns E (allowed_conns ing)" "good_conns E (all_allowed_conns ing)"
    "ps_ok (captured ing)" "denied_conns ing = make_empty_props"
    "conn_points E (allowed_conns ing) = active_points E True (policies_list L)"
    "ps_points (captured ing) = captured_points True (policies_list L)"
    "conn_points E (all_allowed_conns ing) =
       default_points E c True (policies_list L) \<union> active_points E True (policies_list L)"
    using xgress_allows [OF E c ps, of True flt] all by auto
  note same = same_policies [OF ing(2)]
  obtain rs eg where eg: "calico_xgress_conns E False c flt qs = Some (rs, eg)"
    "list_all2 (same_policy E) qs rs" "good_conns E (allowed_conns eg)" "good_conns E (all_allowed_conns eg)"
    "ps_ok (captured eg)" "denied_conns eg = make_empty_props"
    "conn_points E (allowed_conns eg) = active_points E False qs" "ps_points (captured eg) = captured_points False qs"
    "conn_points E (all_allowed_conns eg) = default_points E c False qs \<union> active_points E False qs"
    using xgress_allows [OF E c same(1), of False flt] all by auto
  have eqs: "default_points E c False qs = default_points E c False (policies_list L)"
    by (simp add: default_points_def same(3))
  have D': "D True = conn_points E (all_allowed_conns ing) \<union> directed E True (known_points c False) (range Address)"
    "D False = conn_points E (all_allowed_conns eg) \<union> directed E False (known_points c False) (range Address)"
    by (simp_all add: D direction_points_def ing(9) eg(9) eqs same(2))
  obtain r where r: "join_xgress E c flt ing eg = Some r" "good_conns E (all_allowed_conns r)" "good_conns E (allowed_conns r)"
    "good_conns E (denied_conns r)" "conn_points E (all_allowed_conns r) = D True \<inter> D False"
    "conn_points E (allowed_conns r) = (if calc_allowed flt
       then conn_points E (allowed_conns ing) \<inter> D False \<union> conn_points E (allowed_conns eg) \<inter> D True else {})"
    "conn_points E (denied_conns r) = {}" "pass_conns r = make_empty_props" "ps_ok (captured r)"
    "ps_points (captured r) = ps_points (captured ing) \<union> ps_points (captured eg)"
    using join_xgress_ok [OF E c all ing(3,4,6,5) eg(3,4,6,5) D'] by blast
  have "layer_allowed_connections E c flt L = Some (L\<lparr>policies_list := rs\<rparr>, r)"
    using ing(1) eg(1) r(1) by (simp add: layer_allowed_connections_def x)
  then show ?thesis
    using r same_policies(1) [OF eg(2)] ing(7,8) eg(7,8) same(2,3)
    by (intro exI [of _ "L\<lparr>policies_list := rs\<rparr>"] exI [of _ r]) simp
qed

text \<open>
  C2. The layer of Kubernetes and Calico, or the layer of Kubernetes gateways, with policies that
  only allow (Kubernetes policies, and gateway policies that allow), asked with a filter that wants
  all allowed connections, computes its specification and never raises. (The layer of Istio
  gateways is left out: it adds connections that are not TCP.) In each direction a connection is allowed by a rule of a policy
  that captures some peer; or because the peer on the captured side (its destination for ingress,
  its source for egress) is no host endpoint and not captured; or because that side is an address.
  All allowed connections are those allowed in both directions, the allowed ones those that a rule
  allows in one direction and that the other direction allows, and nothing is denied.
\<close>

theorem allow_layer_semantics:
  assumes "env_ok E" and "words_ok E" and "container_ok E c" and "\<forall>P\<in>set (policies_list L). only_allows E P"
    and "layer_kind L \<in> {K8s_Calico, K8s_Gateway}" and "calc_all_allowed flt"
    and "ps = policies_list L"
  shows "\<exists>L' r. layer_allowed_connections E c flt L = Some (L', r) \<and>
           conn_points E (all_allowed_conns r) = direction_points E c True ps \<inter> direction_points E c False ps \<and>
           conn_points E (allowed_conns r) = (if calc_allowed flt
             then active_points E True ps \<inter> direction_points E c False ps \<union>
                  active_points E False ps \<inter> direction_points E c True ps else {}) \<and>
           conn_points E (denied_conns r) = {} \<and>
           ps_points (captured r) = captured_points True ps \<union> captured_points False ps"
  using layer_allows [OF assms(1-4) _ assms(6) refl] assms(5,7) by blast

lemma pods_container_peers: "container_ok two_pods_env pods_container"
  using pods_container_ok(1,2)
  by (auto simp: container_ok_def ps_ok_def pods_container_def numbered_def example_numbering_def example_pod_def)

definition isolate_a :: "string set policy" where
  "isolate_a = K8s_Policy ((new_policy ''isolate'' None)\<lparr>selected_peers := [example_pod ''a''], affects_ingress := True\<rparr>)"

lemma isolate_a_ok: "only_allows two_pods_env isolate_a"
  by (simp add: only_allows_def isolate_a_def joined_ok_def new_policy_def ps_ok_def peers.ok_distinct example_pod_def)

theorem allow_layer_semantics_witness:
  "\<exists>L' r. layer_allowed_connections two_pods_env pods_container only_allowed_connections
            (create_network_layer K8s_Calico [isolate_a]) = Some (L', r) \<and>
     conn_points two_pods_env (allowed_conns r) = {} \<and> ps_points (captured r) = {Member (Pod_Key ''default/a'')}"
proof -
  let ?L = "create_network_layer K8s_Calico [isolate_a]"
  have L: "\<forall>P\<in>set (policies_list ?L). only_allows two_pods_env P" "layer_kind ?L \<in> {K8s_Calico, K8s_Gateway}"
    "policies_list ?L = [isolate_a]"
    using isolate_a_ok by (simp_all add: create_network_layer_def)
  have flt: "calc_all_allowed only_allowed_connections"
    by (simp add: only_allowed_connections_def mk_conns_filter_def)
  have w: "words_ok two_pods_env" using two_pods_query_env by (simp add: query_env_def)
  have pts: "active_points two_pods_env i [isolate_a] = {}" for i
    by (auto simp: active_points_def isolate_a_def new_policy_def)
  have cap: "captured_points True [isolate_a] \<union> captured_points False [isolate_a] = {Member (Pod_Key ''default/a'')}"
    using not_ip_points [of "example_pod ''a''"]
    by (simp add: captured_points_def isolate_a_def captured_peers_def new_policy_def)
  show ?thesis
    using allow_layer_semantics [OF two_pods_env_ok w pods_container_peers L(1,2) flt L(3) [symmetric]]
    unfolding pts cap by auto
qed

end
