(* ===== verification/Network_Config.thy ===== *)
theory Network_Config
  imports Allow_Layers
begin

text \<open>
  \<open>nca/NetworkConfig/NetworkConfig.py\<close> and the containers and the queue of \<open>PoliciesFinder.py\<close>: the
  policies of a configuration with their layers, clones of configurations, the connections that a
  configuration allows, and the order in which policies are parsed. Calling the parsers and the
  tracker of explanations are left out.
\<close>

section \<open>The container of policies\<close>

type_synonym policy_key = "string \<times> policy_type"

record 'f policies_container =
  policies :: "(policy_key \<times> 'f policy) list"
  pol_layers :: "'f network_layers"

definition new_policies_container :: "'f policies_container" where
  "new_policies_container = \<lparr>policies = [], pol_layers = new_layers\<rparr>"

definition policy_key_of :: "'f policy \<Rightarrow> policy_key" where
  "policy_key_of P = (policy_name P None, get_policy_kind P)"

text \<open>A missing policy is ignored, as one with a known name and kind; an unknown kind raises.\<close>

definition append_policy :: "'f policies_container \<Rightarrow> 'f policy option \<Rightarrow> 'f policies_container option" where
  "append_policy C x =
     (case x of
        None \<Rightarrow> Some C
      | Some P \<Rightarrow>
          if get_policy_kind P = Unknown then None
          else if dict_get (=) (policies C) (policy_key_of P) \<noteq> None then Some C
          else Some (C\<lparr>policies := dict_set (=) (policies C) (policy_key_of P) P,
                       pol_layers := layers_add_policy (pol_layers C) P (policy_type_to_layer (get_policy_kind P))\<rparr>))"

section \<open>The queue of the finder\<close>

text \<open>Iterating over a value: characters of a text, keys of a dictionary.\<close>

fun yaml_iter :: "yaml \<Rightarrow> yaml list option" where
  "yaml_iter (Yaml_List xs) = Some xs"
| "yaml_iter (Yaml_Dict kvs) = Some (map (\<lambda>(k, _). Yaml_Str k) kvs)"
| "yaml_iter (Yaml_Str s) = Some (map (\<lambda>ch. Yaml_Str [ch]) s)"
| "yaml_iter _ = None"

definition yaml_items :: "(string \<times> yaml) list \<Rightarrow> yaml" where
  "yaml_items kvs = (case dict_get (=) kvs ''items'' of Some v \<Rightarrow> v | None \<Rightarrow> Yaml_List [])"

type_synonym parse_queue = "(yaml \<times> string \<times> policy_type) list"

definition yaml_depth :: "yaml \<Rightarrow> nat" where
  "yaml_depth y = (case y of Yaml_Dict _ \<Rightarrow> Suc (size y) | _ \<Rightarrow> 0)"

lemma dict_get_size: "dict_get (=) kvs k = Some v \<Longrightarrow> size v < size (Yaml_Dict kvs)"
proof (induction kvs)
  case (Cons kv kvs)
  then show ?case by (cases kv) (auto split: if_splits)
qed simp

lemma yaml_items_depth:
  assumes "yaml_iter (yaml_items kvs) = Some xs" and "x \<in> set xs"
  shows "yaml_depth x < yaml_depth (Yaml_Dict kvs)"
proof (cases x)
  case (Yaml_Dict kvs')
  then have "yaml_items kvs = Yaml_List xs" using assms by (cases "yaml_items kvs") auto
  then have "dict_get (=) kvs ''items'' = Some (Yaml_List xs)"
    using assms(2) by (auto simp: yaml_items_def split: option.splits)
  from dict_get_size [OF this] have "size (Yaml_List xs) < size (Yaml_Dict kvs)" .
  moreover have "size x \<le> size_list size xs" using assms(2) by (simp add: size_list_estimation')
  ultimately show ?thesis by (simp add: yaml_depth_def Yaml_Dict)
qed (simp_all add: yaml_depth_def)

text \<open>\<open>parse_yaml_code_for_policy\<close> with \<open>_add_policies_to_parse_queue\<close>: profiles go to the front.\<close>

function parse_yaml_code_for_policy :: "string \<Rightarrow> parse_queue \<Rightarrow> yaml \<Rightarrow> parse_queue option" where
  "parse_yaml_code_for_policy file q y =
     (case get_policy_type_from_dict y of
        Unknown \<Rightarrow> Some q
      | List_Type \<Rightarrow>
          (case y of
             Yaml_Dict kvs \<Rightarrow>
               (case yaml_iter (yaml_items kvs) of
                  None \<Rightarrow> None
                | Some xs \<Rightarrow> fold_opt (parse_yaml_code_for_policy file) q xs)
           | _ \<Rightarrow> None)
      | CalicoProfile \<Rightarrow> Some ((y, file, CalicoProfile) # q)
      | ty \<Rightarrow> Some (q @ [(y, file, ty)]))"
  by pat_completeness auto
termination by (relation "measure (\<lambda>(file, q, y). yaml_depth y)") (auto simp: yaml_items_depth)

declare parse_yaml_code_for_policy.simps [simp del]

definition add_policies_to_parse_queue :: "string \<Rightarrow> parse_queue \<Rightarrow> yaml list \<Rightarrow> parse_queue option" where
  "add_policies_to_parse_queue file q xs = fold_opt (parse_yaml_code_for_policy file) q xs"

definition add_items :: "string \<Rightarrow> parse_queue \<Rightarrow> (string \<times> yaml) list \<Rightarrow> parse_queue option" where
  "add_items file q kvs = do { xs \<leftarrow> yaml_iter (yaml_items kvs); add_policies_to_parse_queue file q xs }"

text \<open>The documents of a file, each a dictionary with items or a list of them.\<close>

definition add_policies :: "string \<Rightarrow> parse_queue \<Rightarrow> yaml list \<Rightarrow> parse_queue option" where
  "add_policies file q docs =
     fold_opt (\<lambda>q d. case d of
         Yaml_Dict kvs \<Rightarrow> add_items file q kvs
       | _ \<Rightarrow> do { xs \<leftarrow> yaml_iter d;
                   fold_opt (\<lambda>q x. case x of Yaml_Dict kvs \<Rightarrow> add_items file q kvs | _ \<Rightarrow> Some q) q xs }) q docs"

section \<open>Configurations\<close>

record 'f network_config =
  conf_name :: string
  conf_peers :: peer_container
  conf_policies :: "'f policies_container"
  conf_debug :: bool
  conf_labels :: "string list option"

definition conf_bool :: "'f network_config \<Rightarrow> bool" where
  "conf_bool C \<longleftrightarrow> policies (conf_policies C) \<noteq> []"

definition all_policies :: "'f network_config \<Rightarrow> 'f policy list" where
  "all_policies C = map snd (policies (conf_policies C))"

text \<open>\<open>==\<close> of configurations compares the dictionaries of policies; comparing may raise.\<close>

definition policies_eq ::
  "'f env \<Rightarrow> (policy_key \<times> 'f policy) list \<Rightarrow> (policy_key \<times> 'f policy) list \<Rightarrow> bool option" where
  "policies_eq E a b =
     (if length a \<noteq> length b then Some False
      else fold_opt (\<lambda>ok (k, P). if \<not> ok then Some False
             else (case dict_get (=) b k of None \<Rightarrow> Some False | Some Q \<Rightarrow> policy_eq E P Q)) True a)"

definition conf_eq :: "'f env \<Rightarrow> 'f network_config \<Rightarrow> 'f network_config \<Rightarrow> bool option" where
  "conf_eq E C D =
     (if conf_name C = conf_name D \<and> container_eq (conf_peers C) (conf_peers D)
      then policies_eq E (policies (conf_policies C)) (policies (conf_policies D)) else Some False)"

fun policy_findings :: "'f policy \<Rightarrow> string list" where
  "policy_findings (K8s_Policy P) = findings P"
| "policy_findings (Calico_Policy P) = findings P"
| "policy_findings (Istio_Policy P) = findings P"
| "policy_findings (Gateway_Policy P) = findings P"
| "policy_findings (Sidecar_Policy P) = findings P"

fun policy_labels :: "'f policy \<Rightarrow> string list" where
  "policy_labels (K8s_Policy P) = referenced_labels P"
| "policy_labels (Calico_Policy P) = referenced_labels P"
| "policy_labels (Istio_Policy P) = referenced_labels P"
| "policy_labels (Gateway_Policy P) = referenced_labels P"
| "policy_labels (Sidecar_Policy P) = referenced_labels P"

fun policy_ipv6 :: "'f policy \<Rightarrow> bool" where
  "policy_ipv6 (K8s_Policy P) = has_ipv6_addresses P"
| "policy_ipv6 (Calico_Policy P) = has_ipv6_addresses P"
| "policy_ipv6 (Istio_Policy P) = has_ipv6_addresses P"
| "policy_ipv6 (Gateway_Policy P) = has_ipv6_addresses P"
| "policy_ipv6 (Sidecar_Policy P) = has_ipv6_addresses P"

fun short_name :: "'f policy \<Rightarrow> string" where
  "short_name (K8s_Policy P) = pol_name P"
| "short_name (Calico_Policy P) = pol_name P"
| "short_name (Istio_Policy P) = pol_name P"
| "short_name (Gateway_Policy P) = pol_name P"
| "short_name (Sidecar_Policy P) = pol_name P"

fun policy_affects :: "bool \<Rightarrow> 'f policy \<Rightarrow> bool" where
  "policy_affects i (K8s_Policy P) = (if i then affects_ingress P else affects_egress P)"
| "policy_affects i (Calico_Policy P) = (if i then affects_ingress P else affects_egress P)"
| "policy_affects i (Istio_Policy P) = (if i then affects_ingress P else affects_egress P)"
| "policy_affects i (Gateway_Policy P) = (if i then affects_ingress P else affects_egress P)"
| "policy_affects i (Sidecar_Policy P) = (if i then affects_ingress P else affects_egress P)"

definition get_num_findings :: "'f network_config \<Rightarrow> nat" where
  "get_num_findings C = sum_list (map (\<lambda>P. length (policy_findings P)) (all_policies C))"

definition policy_types :: "policy_type list" where
  "policy_types =
     [Unknown, K8sNetworkPolicy, CalicoNetworkPolicy, CalicoGlobalNetworkPolicy, CalicoProfile,
      IstioAuthorizationPolicy, IstioSidecar, Ingress, Gateway, VirtualService, GatewayPolicy, List_Type]"

definition find_policy :: "'f network_config \<Rightarrow> string \<Rightarrow> policy_type option \<Rightarrow> 'f policy list" where
  "find_policy C name ty =
     (let types = (case ty of Some t \<Rightarrow> [t] | None \<Rightarrow> policy_types);
          ps = policies (conf_policies C);
          res = concat (map (\<lambda>t. case dict_get (=) ps (name, t) of Some P \<Rightarrow> [P] | None \<Rightarrow> []) types)
      in if res = [] \<and> \<not> contains_str ''//'' name
         then filter (\<lambda>P. name = short_name P \<and> (case ty of None \<Rightarrow> True | Some t \<Rightarrow> get_policy_kind P = t)) (all_policies C)
         else res)"

definition clone_without_policies :: "'f network_config \<Rightarrow> string \<Rightarrow> 'f network_config" where
  "clone_without_policies C name =
     \<lparr>conf_name = name, conf_peers = conf_peers C, conf_policies = new_policies_container,
      conf_debug = conf_debug C, conf_labels = None\<rparr>"

definition append_policy_to_config :: "'f network_config \<Rightarrow> 'f policy \<Rightarrow> 'f network_config option" where
  "append_policy_to_config C P =
     map_option (\<lambda>ps. C\<lparr>conf_policies := ps\<rparr>) (append_policy (conf_policies C) (Some P))"

definition clone_without_policy :: "'f env \<Rightarrow> 'f network_config \<Rightarrow> 'f policy \<Rightarrow> 'f network_config option" where
  "clone_without_policy E C P =
     fold_opt (\<lambda>D Q. do { same \<leftarrow> policy_eq E Q P; if same then Some D else append_policy_to_config D Q })
       (clone_without_policies C (conf_name C)) (all_policies C)"

definition clone_with_just_one_policy :: "'f network_config \<Rightarrow> string \<Rightarrow> policy_type option \<Rightarrow> 'f network_config option" where
  "clone_with_just_one_policy C name ty =
     (case find_policy C name ty of
        [P] \<Rightarrow> append_policy_to_config (clone_without_policies C (conf_name C @ ''/'' @ name)) P
      | _ \<Rightarrow> None)"

definition get_captured_pods :: "'f network_config \<Rightarrow> layer_name option \<Rightarrow> peer_set" where
  "get_captured_pods C name =
     (let ps = (case name of
                  None \<Rightarrow> all_policies C
                | Some n \<Rightarrow> (case dict_get (=) (pol_layers (conf_policies C)) n of
                              Some L \<Rightarrow> policies_list L | None \<Rightarrow> []))
      in foldl (\<lambda>s P. ps_or s (selects P)) [] ps)"

definition get_affected_pods :: "'f network_config \<Rightarrow> bool \<Rightarrow> layer_name \<Rightarrow> peer_set option" where
  "get_affected_pods C i name =
     map_option (\<lambda>L. foldl (\<lambda>s P. if policy_affects i P then ps_or s (selects P) else s) [] (policies_list L))
       (dict_get (=) (pol_layers (conf_policies C)) name)"

definition check_for_excluding_ipv6_addresses :: "'f network_config \<Rightarrow> bool \<Rightarrow> bool" where
  "check_for_excluding_ipv6_addresses C exclude \<longleftrightarrow> exclude \<and> list_all (\<lambda>P. \<not> policy_ipv6 P) (all_policies C)"

definition get_allowed_labels :: "'f network_config \<Rightarrow> 'f network_config \<times> string list" where
  "get_allowed_labels C =
     (case conf_labels C of
        Some ls \<Rightarrow> (C, ls)
      | None \<Rightarrow>
          (let ls = foldl (\<lambda>s P. set_union (=) s (policy_labels P)) [] (all_policies C)
           in (C\<lparr>conf_labels := Some ls\<rparr>, ls)))"

text \<open>
  \<open>dataclasses.replace\<close> makes a new filter with \<open>calc_all_allowed\<close> set to false; but it runs
  \<open>__post_init__\<close>, which sets it to true again when the allowed connections are asked for.
\<close>

definition without_all_allowed :: "conns_filter \<Rightarrow> conns_filter" where
  "without_all_allowed flt = mk_conns_filter (calc_allowed flt) (calc_denied flt) (calc_pass flt) False"

definition all_conns_props_per_config_peers :: "'f env \<Rightarrow> peer_container \<Rightarrow> 'f dim_value hcs option" where
  "all_conns_props_per_config_peers E c = do { s \<leftarrow> get_all_peers_group c True True True; conns_between E s s }"

definition host_conns :: "'f env \<Rightarrow> peer_set \<Rightarrow> 'f dim_value hcs option" where
  "host_conns E hosts =
     do { a \<leftarrow> make_conn_props_from_dict E [(''src_peers'', Ext_Peers hosts)];
          b \<leftarrow> make_conn_props_from_dict E [(''dst_peers'', Ext_Peers hosts)];
          hc_or (env_dims E) a b }"

text \<open>The connections of one layer are added to those of the layers before it.\<close>

definition add_layer_conns ::
  "'f env \<Rightarrow> peer_container \<Rightarrow> conns_filter \<Rightarrow> 'f dim_value hcs \<Rightarrow>
   'f network_layers \<times> 'f policy_connections \<Rightarrow> layer_name \<times> 'f network_layer \<Rightarrow>
   ('f network_layers \<times> 'f policy_connections) option"
where
  "add_layer_conns E c flt hep st entry =
     (case (st, entry) of ((ls, res), (name, L)) \<Rightarrow>
        do { (L', r) \<leftarrow> layer_allowed_connections E c flt L;
             r \<leftarrow> (if name \<noteq> K8s_Calico then sub_by_filter E r hep (without_all_allowed flt) else Some r);
             let res = res\<lparr>captured := ps_or (captured res) (captured r)\<rparr>;
             l \<leftarrow> (if calc_all_allowed flt then hc_iand (env_dims E) (all_allowed_conns res) (all_allowed_conns r)
                   else Some (all_allowed_conns res));
             a \<leftarrow> (if calc_allowed flt then hc_ior (env_dims E) (allowed_conns res) (allowed_conns r)
                   else Some (allowed_conns res));
             d \<leftarrow> (if calc_denied flt then hc_ior (env_dims E) (denied_conns res) (denied_conns r)
                   else Some (denied_conns res));
             Some (ls @ [(name, L')], res\<lparr>all_allowed_conns := l, allowed_conns := a, denied_conns := d\<rparr>) })"

definition initial_conns ::
  "'f env \<Rightarrow> peer_container \<Rightarrow> conns_filter \<Rightarrow> bool \<Rightarrow> 'f dim_value hcs \<Rightarrow> 'f policy_connections option" where
  "initial_conns E c flt only_hosts hep =
     (if only_hosts then
        do { r \<leftarrow> empty_layer_allowed_connections E c flt K8s_Calico; and_by_filter E r hep (without_all_allowed flt) }
      else if calc_all_allowed flt then
        do { t \<leftarrow> all_conns_props_per_config_peers E c; Some (new_policy_connections\<lparr>all_allowed_conns := t\<rparr>) }
      else Some new_policy_connections)"

definition config_allowed_connections ::
  "'f env \<Rightarrow> conns_filter \<Rightarrow> layer_name option \<Rightarrow> 'f network_config \<Rightarrow> ('f network_config \<times> 'f policy_connections) option"
where
  "config_allowed_connections E flt name C =
     (let c = conf_peers C; ls = pol_layers (conf_policies C) in
      case name of
        Some n \<Rightarrow>
          (case dict_get (=) ls n of
             None \<Rightarrow> map_option (\<lambda>r. (C, r)) (empty_layer_allowed_connections E c flt n)
           | Some L \<Rightarrow>
               do { (L', r) \<leftarrow> layer_allowed_connections E c flt L;
                    Some (C\<lparr>conf_policies := (conf_policies C)\<lparr>pol_layers := dict_set (=) ls n L'\<rparr>\<rparr>, r) })
      | None \<Rightarrow>
          do { peers \<leftarrow> get_all_peers_group c False True False;
               let hosts = filter is_host_ep peers;
               hep \<leftarrow> host_conns E hosts;
               start \<leftarrow> initial_conns E c flt (hosts \<noteq> [] \<and> dict_get (=) ls K8s_Calico = None) hep;
               (ls', res) \<leftarrow> fold_opt (add_layer_conns E c flt hep) ([], start) ls;
               a \<leftarrow> (if calc_allowed flt then hc_iand (env_dims E) (allowed_conns res) (all_allowed_conns res)
                     else Some (allowed_conns res));
               Some (C\<lparr>conf_policies := (conf_policies C)\<lparr>pol_layers := ls'\<rparr>\<rparr>, res\<lparr>allowed_conns := a\<rparr>) })"

definition filter_conns_by_peer_types :: "'f env \<Rightarrow> 'f network_config \<Rightarrow> 'f dim_value hcs \<Rightarrow> 'f dim_value hcs option" where
  "filter_conns_by_peer_types E C t =
     do { all_ips \<leftarrow> get_all_ips_block_peer_set False;
          let dns = get_all_dns_entries (conf_peers C);
          u \<leftarrow> conns_between E all_ips (ps_or all_ips dns);
          t \<leftarrow> hc_isub (env_dims E) t u;
          u \<leftarrow> make_conn_props_from_dict E [(''src_peers'', Ext_Peers dns)];
          hc_isub (env_dims E) t u }"

end
