(* ===== verification/Query_Answers.thy ===== *)
theory Query_Answers
  imports Network_Config "HOL-Library.Product_Lexorder"
begin

text \<open>
  \<open>nca/NetworkConfig/QueryOutputHandler.py\<close>: the answers of queries with their explanations, and the
  dictionaries and texts made of them; with the texts of peers and the titles of policies. The
  texts of connections are parameters.
\<close>

section \<open>Texts\<close>

text \<open>\<open>str\<close> of addresses, blocks and peers.\<close>

definition ip_str :: "ip_address \<Rightarrow> string" where
  "ip_str a = (if ip_version a = 4 then ipv4_str (ip_int a) else ipv6_str (ip_int a))"

definition iset_repr :: "ip_address interval_set \<Rightarrow> string" where
  "iset_repr xs =
     (if xs = [] then ''Empty''
      else join '','' (map (\<lambda>i. ip_str (istart i) @ (if istart i \<noteq> iend i then ''-'' @ ip_str (iend i) else '''')) xs))"

fun peer_str :: "peer \<Rightarrow> string" where
  "peer_str (Pod_Peer p) = full_name_str p"
| "peer_str (Host_Peer h) = pname h"
| "peer_str (Ip_Peer b) = iset_repr (ips b)"
| "peer_str (Dns_Peer d) = pname d"

definition ps_rep :: "peer_set \<Rightarrow> string" where
  "ps_rep s = (case s of [] \<Rightarrow> '''' | p # _ \<Rightarrow> peer_str p)"

definition policy_type_str :: "'f policy \<Rightarrow> string" where
  "policy_type_str P =
     (if get_policy_kind P = Ingress then ''Ingress resource''
      else if get_policy_kind P = GatewayPolicy then ''Istio Gateway/VirtualService resource''
      else ''NetworkPolicy'')"

definition policy_title :: "'f policy \<Rightarrow> string" where
  "policy_title P = policy_type_str P @ '' '' @ policy_name P None"

text \<open>\<open>split()\<close> at white space, and \<open>capitalize()\<close>.\<close>

function py_split :: "string \<Rightarrow> string list" where
  "py_split s =
     (let t = dropWhile is_space s
      in if t = [] then [] else takeWhile (\<lambda>c. \<not> is_space c) t # py_split (dropWhile (\<lambda>c. \<not> is_space c) t))"
  by auto
termination
proof (relation "measure length")
  fix s t :: string
  assume t: "t = dropWhile is_space s" "t \<noteq> []"
  then have "\<not> is_space (hd t)" using hd_dropWhile by metis
  then have "length (dropWhile (\<lambda>c. \<not> is_space c) t) < length t"
    using t(2) length_dropWhile_le [of "\<lambda>c. \<not> is_space c" "tl t"] by (cases t) auto
  moreover have "length t \<le> length s" unfolding t(1) by (rule length_dropWhile_le)
  ultimately show "(dropWhile (\<lambda>c. \<not> is_space c) t, s) \<in> measure length" by simp
qed simp

declare py_split.simps [simp del]

definition upper :: "char \<Rightarrow> char" where
  "upper c = (if c \<in> set ''abcdefghijklmnopqrstuvwxyz'' then char_of (of_char c - (32 :: nat)) else c)"

definition lower :: "char \<Rightarrow> char" where
  "lower c = (if c \<in> set ''ABCDEFGHIJKLMNOPQRSTUVWXYZ'' then char_of (of_char c + (32 :: nat)) else c)"

definition capitalize :: "string \<Rightarrow> string" where
  "capitalize s = (case s of [] \<Rightarrow> [] | c # cs \<Rightarrow> upper c # map lower cs)"

section \<open>Explanations\<close>

record common_pods =
  first_policy_type :: string
  first_policy_name :: string
  second_policy_type :: string
  second_policy_name :: string
  the_common_pods :: "string list"

record 'f peers_conns =
  src_peer :: "string list"
  dst_peer :: "string list"
  conns1 :: "'f dim_value hcs"
  conns2 :: "'f dim_value hcs"

datatype 'f explanation =
    Intersect_Pods string "common_pods list"
  | Policies_And_Rules string "string list" "(string \<times> nat list) list" "(string \<times> nat list) list"
  | Pods_Lists string "string list" "string list" bool
  | Connections_Diff string "'f peers_conns list" "string list" bool
  | Computed string "string option" "(string \<times> yaml) list"

definition common_pods_sort :: "common_pods list \<Rightarrow> common_pods list" where
  "common_pods_sort = sort_key (\<lambda>r. (first_policy_type r, first_policy_name r, second_policy_name r))"

definition peers_conns_sort :: "'f peers_conns list \<Rightarrow> 'f peers_conns list" where
  "peers_conns_sort = sort_key (\<lambda>r. (src_peer r, dst_peer r))"

record 'f query_answer =
  bool_result :: bool
  output_result :: string
  output_explanation :: "'f explanation list"
  numerical_result :: int
  query_not_executed :: bool

definition answer :: "bool \<Rightarrow> string \<Rightarrow> 'f explanation list \<Rightarrow> int \<Rightarrow> 'f query_answer" where
  "answer b s es n = \<lparr>bool_result = b, output_result = s, output_explanation = es, numerical_result = n, query_not_executed = False\<rparr>"

definition not_executed :: "bool \<Rightarrow> string \<Rightarrow> 'f query_answer" where
  "not_executed b s = (answer b s [] 0)\<lparr>query_not_executed := True\<rparr>"

section \<open>Output\<close>

definition yaml_strs :: "string list \<Rightarrow> yaml" where
  "yaml_strs xs = Yaml_List (map Yaml_Str xs)"

definition policy_name_from_title :: "string \<Rightarrow> string option" where
  "policy_name_from_title title = py_nth (py_split title) 1"

definition rules_to_dict :: "string \<Rightarrow> (string \<times> nat list) list \<Rightarrow> string \<Rightarrow> yaml option" where
  "rules_to_dict desc rules px =
     do { rs \<leftarrow> map_opt (\<lambda>(title, idxs).
              do { name \<leftarrow> policy_name_from_title title;
                   Some (Yaml_Dict [(''policy'', Yaml_Str name),
                     (px @ ''_rules_indexes'', yaml_strs (map (\<lambda>i. str_of_int (int i)) idxs))]) }) rules;
          Some (Yaml_Dict [(''description'', Yaml_Str (capitalize px @ '' rules'' @ desc)), (''pairs'', Yaml_List rs)]) }"

definition pods_to_dict :: "string \<Rightarrow> string list \<Rightarrow> string \<Rightarrow> (string \<times> yaml) list" where
  "pods_to_dict desc pods sx = [(''description'', Yaml_Str (desc @ sx)), (''pods'', yaml_strs pods)]"

definition common_pods_to_dict :: "string \<Rightarrow> common_pods list \<Rightarrow> yaml list" where
  "common_pods_to_dict desc rs =
     [Yaml_Dict [(''description'', Yaml_Str desc), (''examples'', Yaml_List (map (\<lambda>r.
        Yaml_Dict [(''policies'', yaml_strs [first_policy_name r, second_policy_name r]),
                   (''pods'', yaml_strs (the_common_pods r))]) rs))]]"

definition policies_and_rules_to_dict ::
  "string \<Rightarrow> string list \<Rightarrow> (string \<times> nat list) list \<Rightarrow> (string \<times> nat list) list \<Rightarrow> yaml list option" where
  "policies_and_rules_to_dict desc ps ing eg =
     do { a \<leftarrow> (if ps = [] then Some []
                else do { names \<leftarrow> map_opt policy_name_from_title ps;
                          Some [Yaml_Dict [(''description'', Yaml_Str (''Policies'' @ desc)), (''policies'', yaml_strs names)]] });
          b \<leftarrow> (if ing = [] then Some [] else map_option (\<lambda>d. [d]) (rules_to_dict desc ing ''ingress''));
          c \<leftarrow> (if eg = [] then Some [] else map_option (\<lambda>d. [d]) (rules_to_dict desc eg ''egress''));
          Some (a @ b @ c) }"

text \<open>Without a suffix, \<open>list\<close> of the dictionary gives its keys.\<close>

definition pods_lists_to_dict :: "string \<Rightarrow> string list \<Rightarrow> string list \<Rightarrow> bool \<Rightarrow> yaml list" where
  "pods_lists_to_dict desc pods egress add_suffix =
     (if \<not> add_suffix then map (\<lambda>(k, _). Yaml_Str k) (pods_to_dict desc pods '''')
      else (if pods = [] then [] else [Yaml_Dict (pods_to_dict desc pods ''ingress'')]) @
           (if egress = [] then [] else [Yaml_Dict (pods_to_dict desc egress ''egress'')]))"

definition diff_to_dict ::
  "('f dim_value hcs \<Rightarrow> string) \<Rightarrow> string \<Rightarrow> 'f peers_conns list \<Rightarrow> bool \<Rightarrow> yaml list" where
  "diff_to_dict show_conns desc rs diff =
     [Yaml_Dict [(''description'', Yaml_Str desc), (''connections'', Yaml_List (map (\<lambda>r.
        Yaml_Dict ([(''src'', yaml_strs (src_peer r)), (''dst'', yaml_strs (dst_peer r))] @
          (if diff then [(''conns_config1'', Yaml_Str (show_conns (conns1 r))), (''conns_config2'', Yaml_Str (show_conns (conns2 r)))]
           else [(''conn'', Yaml_Str (show_conns (conns1 r)))]))) rs))]]"

fun get_explanation_in_dict :: "('f dim_value hcs \<Rightarrow> string) \<Rightarrow> 'f explanation \<Rightarrow> yaml list option" where
  "get_explanation_in_dict show_conns (Intersect_Pods desc rs) = Some (common_pods_to_dict desc rs)"
| "get_explanation_in_dict show_conns (Policies_And_Rules desc ps ing eg) = policies_and_rules_to_dict desc ps ing eg"
| "get_explanation_in_dict show_conns (Pods_Lists desc pods egress add_suffix) =
     Some (pods_lists_to_dict desc pods egress add_suffix)"
| "get_explanation_in_dict show_conns (Connections_Diff desc rs configs diff) = Some (diff_to_dict show_conns desc rs diff)"
| "get_explanation_in_dict show_conns (Computed desc s d) = Some [Yaml_Dict d]"

definition rules_to_str :: "string \<Rightarrow> (string \<times> nat list) list \<Rightarrow> string \<Rightarrow> string" where
  "rules_to_str desc rules px =
     ''\<newline>'' @ capitalize px @ '' rules'' @ desc @ '':\<newline>'' @
     concat (map (\<lambda>(title, idxs). title @ '', '' @ px @ '' rules indexes: '' @
       join '', '' (map (\<lambda>i. str_of_int (int i)) idxs) @ ''\<newline>'') rules)"

definition pods_to_str :: "string \<Rightarrow> string list \<Rightarrow> string \<Rightarrow> string" where
  "pods_to_str desc pods sx = ''\<newline>'' @ desc @ sx @ '':\<newline>'' @ join '', '' pods @ ''\<newline>''"

text \<open>The text of a list of names, as Python writes it.\<close>

definition list_str :: "string list \<Rightarrow> string" where
  "list_str xs = ''['' @ join '', '' (map (\<lambda>s. [CHR 0x27] @ s @ [CHR 0x27]) xs) @ '']''"

definition common_pods_to_str :: "string \<Rightarrow> common_pods list \<Rightarrow> string" where
  "common_pods_to_str desc rs =
     desc @ '':\<newline>'' @ join ''\<newline>'' (map (\<lambda>r.
       first_policy_type r @ ''_1: '' @ first_policy_name r @ '', '' @ second_policy_type r @ ''_2: '' @
       second_policy_name r @ '', pods: '' @ join '', '' (the_common_pods r)) rs)"

definition policies_and_rules_to_str ::
  "string \<Rightarrow> string list \<Rightarrow> (string \<times> nat list) list \<Rightarrow> (string \<times> nat list) list \<Rightarrow> string" where
  "policies_and_rules_to_str desc ps ing eg =
     (if ps = [] then '''' else ''Policies'' @ desc @ '':\<newline>'' @ join '', '' ps @ ''\<newline>'') @
     (if ing = [] then '''' else rules_to_str desc ing ''ingress'') @
     (if eg = [] then '''' else rules_to_str desc eg ''egress'')"

definition pods_lists_to_str :: "string \<Rightarrow> string list \<Rightarrow> string list \<Rightarrow> bool \<Rightarrow> string" where
  "pods_lists_to_str desc pods egress add_suffix =
     (if \<not> add_suffix then pods_to_str desc pods ''''
      else (if pods = [] then '''' else pods_to_str desc pods ''ingress'') @
           (if egress = [] then '''' else pods_to_str desc egress ''egress''))"

definition diff_to_str ::
  "('f dim_value hcs \<Rightarrow> string) \<Rightarrow> ('f dim_value hcs \<Rightarrow> 'f dim_value hcs \<Rightarrow> string list \<Rightarrow> string) \<Rightarrow>
   string \<Rightarrow> 'f peers_conns list \<Rightarrow> string list \<Rightarrow> bool \<Rightarrow> string" where
  "diff_to_str show_conns print_diff desc rs configs diff =
     desc @ '':\<newline>'' @ join ''\<newline>'' (map (\<lambda>r.
       ''src: '' @ list_str (src_peer r) @ '', dst: '' @ list_str (dst_peer r) @
       (if diff then '', description: '' @ print_diff (conns1 r) (conns2 r) configs
        else '', conn: '' @ show_conns (conns1 r))) rs) @ ''\<newline>''"

fun get_explanation_in_str ::
  "('f dim_value hcs \<Rightarrow> string) \<Rightarrow> ('f dim_value hcs \<Rightarrow> 'f dim_value hcs \<Rightarrow> string list \<Rightarrow> string) \<Rightarrow>
   'f explanation \<Rightarrow> string option"
where
  "get_explanation_in_str show_conns print_diff (Intersect_Pods desc rs) = Some (common_pods_to_str desc rs)"
| "get_explanation_in_str show_conns print_diff (Policies_And_Rules desc ps ing eg) =
     Some (policies_and_rules_to_str desc ps ing eg)"
| "get_explanation_in_str show_conns print_diff (Pods_Lists desc pods egress add_suffix) =
     Some (pods_lists_to_str desc pods egress add_suffix)"
| "get_explanation_in_str show_conns print_diff (Connections_Diff desc rs configs diff) =
     Some (diff_to_str show_conns print_diff desc rs configs diff)"
| "get_explanation_in_str show_conns print_diff (Computed desc s d) = s"

text \<open>\<open>DictOutputHandler\<close> and \<open>StringOutputHandler\<close>.\<close>

definition dict_output :: "('f dim_value hcs \<Rightarrow> string) \<Rightarrow> string list \<Rightarrow> string \<Rightarrow> 'f query_answer \<Rightarrow> yaml option" where
  "dict_output show_conns configs query_name a =
     (let start = [(''query'', Yaml_Str query_name), (''configs'', yaml_strs configs)] in
      if query_not_executed a
      then Some (Yaml_Dict (start @ [(''executed'', Yaml_Int 0), (''description'', Yaml_Str (output_result a))]))
      else do { es \<leftarrow> map_opt (get_explanation_in_dict show_conns) (output_explanation a);
                Some (Yaml_Dict (start @ [(''numerical_result'', Yaml_Int (numerical_result a))] @
                  (if output_result a = '''' then [] else [(''textual_result'', Yaml_Str (output_result a))]) @
                  (if output_explanation a = [] then [] else [(''explanation'', Yaml_List (concat es))]))) })"

definition string_output ::
  "('f dim_value hcs \<Rightarrow> string) \<Rightarrow> ('f dim_value hcs \<Rightarrow> 'f dim_value hcs \<Rightarrow> string list \<Rightarrow> string) \<Rightarrow>
   bool \<Rightarrow> 'f query_answer \<Rightarrow> string option" where
  "string_output show_conns print_diff is_txt a =
     do { es \<leftarrow> map_opt (get_explanation_in_str show_conns print_diff) (output_explanation a);
          Some ((if is_txt \<and> output_result a \<noteq> '''' then output_result a @ ''\<newline>'' else '''') @ concat es) }"

end
