(* ===== verification/Queries.thy ===== *)
theory Queries
  imports Query_Answers
begin

text \<open>
  \<open>nca/NetworkConfig/NetworkConfigQuery.py\<close>: the queries on one configuration and on two. The
  policies that a query synchronises are not kept: synchronising again gives the same sets. Printed
  warnings, firewall rules and graphs are left out.
\<close>

record output_config =
  full_explanation :: bool
  exclude_ipv6_range :: bool
  output_endpoints :: string

definition default_output :: output_config where
  "default_output = \<lparr>full_explanation = False, exclude_ipv6_range = True, output_endpoints = ''deployments''\<rparr>"

section \<open>Queries on the policies of one configuration\<close>

definition layers_of :: "'f network_config \<Rightarrow> 'f network_layers" where
  "layers_of C = pol_layers (conf_policies C)"

definition gateway_layer :: "layer_name \<Rightarrow> bool" where
  "gateway_layer n \<longleftrightarrow> n = K8s_Gateway \<or> n = Istio_Gateway"

definition policy_empty :: "'f policy \<Rightarrow> bool" where
  "policy_empty P \<longleftrightarrow> selects P = []"

text \<open>A policy is compared with those before it; the search stops at an equal one.\<close>

fun overlaps_before :: "'f env \<Rightarrow> output_config \<Rightarrow> 'f policy \<Rightarrow> 'f policy list \<Rightarrow> common_pods list option" where
  "overlaps_before E O1 P [] = Some []"
| "overlaps_before E O1 P (Q # Qs) =
     do { same \<leftarrow> policy_eq E P Q;
          if same then Some []
          else do { rest \<leftarrow> overlaps_before E O1 P Qs;
                    let common = ps_and (selects P) (selects Q);
                    Some (if common = [] then rest
                          else \<lparr>first_policy_type = policy_type_str P, first_policy_name = policy_name P None,
                                second_policy_type = policy_type_str Q, second_policy_name = policy_name Q None,
                                the_common_pods = (if full_explanation O1 then sort (map peer_str common)
                                                   else [ps_rep common])\<rparr> # rest) } }"

definition layer_overlaps :: "'f env \<Rightarrow> output_config \<Rightarrow> 'f policy list \<Rightarrow> common_pods list option" where
  "layer_overlaps E O1 Ps =
     map_option concat (map_opt (\<lambda>P. if policy_empty P then Some [] else overlaps_before E O1 P Ps) Ps)"

definition disjointness :: "'f env \<Rightarrow> output_config \<Rightarrow> 'f network_config \<Rightarrow> 'f query_answer option" where
  "disjointness E O1 C =
     do { rs \<leftarrow> map_option concat (map_opt (\<lambda>(n, L).
                  if gateway_layer n then Some [] else layer_overlaps E O1 (policies_list L)) (layers_of C));
          Some (if rs = [] then answer True (''All policies are disjoint in '' @ conf_name C) [] 0
                else answer False (''There are policies capturing the same pods in '' @ conf_name C)
                       [Intersect_Pods ''policies with overlapping captured pods'' (common_pods_sort rs)] (int (length rs))) }"

fun has_empty_rules :: "'f policy \<Rightarrow> string \<Rightarrow> string list \<times> nat list \<times> nat list" where
  "has_empty_rules (K8s_Policy P) config = k8s_has_empty_rules P config"
| "has_empty_rules (Calico_Policy P) config = calico_has_empty_rules P config"
| "has_empty_rules (Istio_Policy P) config = istio_has_empty_rules P config"
| "has_empty_rules (Gateway_Policy P) config = gateway_has_empty_rules P config"
| "has_empty_rules (Sidecar_Policy P) config = sidecar_has_empty_rules P config"

text \<open>\<open>sorted\<close> of the standard library, for comparisons that are weak orders.\<close>

definition py_sorted :: "('a \<Rightarrow> 'a \<Rightarrow> bool) \<Rightarrow> 'a list \<Rightarrow> 'a list" where
  "py_sorted lt xs = foldl (py_insort lt) [] xs"

definition emptiness_step ::
  "string \<Rightarrow> nat \<times> string list \<times> (string \<times> nat list) list \<times> (string \<times> nat list) list \<Rightarrow> 'f policy \<Rightarrow>
   nat \<times> string list \<times> (string \<times> nat list) list \<times> (string \<times> nat list) list"
where
  "emptiness_step config acc P =
     (case (acc, has_empty_rules P config) of ((n, ps, ing, eg), (_, is, es)) \<Rightarrow>
        (n + (if policy_empty P then 1 else 0) + length is + length es,
         if policy_empty P then ps @ [policy_title P] else ps,
         if is = [] then ing else dict_set (=) ing (policy_title P) (sort is),
         if es = [] then eg else dict_set (=) eg (policy_title P) (sort es)))"

definition emptiness :: "'f network_config \<Rightarrow> 'f query_answer" where
  "emptiness C =
     (case foldl (emptiness_step (conf_name C)) (0, [], [], [])
             (py_sorted policy_lt (concat (map (policies_list \<circ> snd) (layers_of C)))) of (n, ps, ing, eg) \<Rightarrow>
        if n = 0 then answer False (''No empty NetworkPolicies and no empty rules in '' @ conf_name C) [] 0
        else answer True (''There are empty NetworkPolicies and/or empty ingress/egress rules in '' @ conf_name C)
               [Policies_And_Rules '' that does not select any pods'' ps ing eg] (int n))"

section \<open>Two configurations\<close>

text \<open>\<open>os.path.basename\<close> of the names of files.\<close>

definition base_name :: "string \<Rightarrow> string" where
  "base_name s = py_drop s (rfind CHR ''/'' s + 1)"

definition query_name :: "'f network_config \<Rightarrow> string" where
  "query_name C = (if take 2 (conf_name C) = ''./'' then base_name (conf_name C) else conf_name C)"

definition all_policies_eq :: "'f env \<Rightarrow> 'f network_config \<Rightarrow> 'f network_config \<Rightarrow> bool option" where
  "all_policies_eq E C D = policies_eq E (policies (conf_policies C)) (policies (conf_policies D))"

definition is_identical_topologies ::
  "'f env \<Rightarrow> 'f network_config \<Rightarrow> 'f network_config \<Rightarrow> bool \<Rightarrow> 'f query_answer option" where
  "is_identical_topologies E C D check_same_policies =
     (if \<not> is_comparable_with_other_container (conf_peers C) (conf_peers D)
      then Some (not_executed False
        ''The two configurations have different network topologies and thus are not comparable.'')
      else do { same \<leftarrow> (if check_same_policies then all_policies_eq E C D else Some False);
                Some (answer True (if same then query_name C @ '' and '' @ query_name D @
                        '' have the same network topology and the same set of policies.'' else '''') [] 0) })"

definition filter_conns_by_constraints ::
  "'f env \<Rightarrow> output_config \<Rightarrow> 'f network_config \<Rightarrow> 'f network_config \<Rightarrow> 'f dim_value hcs \<Rightarrow> 'f dim_value hcs \<Rightarrow>
   ('f dim_value hcs \<times> 'f dim_value hcs) option"
where
  "filter_conns_by_constraints E O1 C D t u =
     do { p1 \<leftarrow> props_all_peers E t;
          p2 \<leftarrow> props_all_peers E u;
          let all_peers = ps_or p1 p2;
          let exclude = check_for_excluding_ipv6_addresses C (exclude_ipv6_range O1) \<and>
                        check_for_excluding_ipv6_addresses D (exclude_ipv6_range O1);
          f \<leftarrow> (if exclude then do { b \<leftarrow> get_all_ips_block True False;
                                      let ps = filter_ip_blocks_by_mask all_peers b;
                                      conns_between E ps ps }
                else Some make_all_props);
          t \<leftarrow> filter_conns_by_peer_types E C t;
          t \<leftarrow> hc_and (env_dims E) t f;
          u \<leftarrow> filter_conns_by_peer_types E D u;
          u \<leftarrow> hc_and (env_dims E) u f;
          Some (t, u) }"

text \<open>The list of differences; without full explanations it is one of them.\<close>

definition different_conns ::
  "'f env \<Rightarrow> output_config \<Rightarrow> 'f network_config \<Rightarrow> 'f dim_value hcs \<Rightarrow> bool \<Rightarrow> bool \<Rightarrow> 'f peers_conns list option"
where
  "different_conns E O1 C t based_on_first remove_livesim =
     do { let livesim = livesim_peers (conf_peers C);
          t \<leftarrow> (if remove_livesim \<and> livesim \<noteq> []
                then do { ps \<leftarrow> get_all_peers_group (conf_peers C) True True True;
                          let ps = ps_sub ps livesim;
                          f \<leftarrow> conns_between E ps ps;
                          hc_iand (env_dims E) t f }
                else Some t);
          cubes \<leftarrow> hc_iter (env_dims E) t;
          rs \<leftarrow> map_opt (\<lambda>cube.
                  do { c \<leftarrow> get_connectivity_cube E t cube;
                       all_peers \<leftarrow> get_all_peers_group (conf_peers C) True True False;
                       (conns, src, dst) \<leftarrow> extract_src_dst_peers_from_cube E c all_peers (protocol_set True);
                       let strs = (\<lambda>s. if full_explanation O1 then sort (map peer_str s) else [ps_rep s]);
                       Some \<lparr>src_peer = strs src, dst_peer = strs dst,
                             conns1 = (if based_on_first then conns else make_empty_props),
                             conns2 = (if based_on_first then make_empty_props else conns)\<rparr> })
               (if full_explanation O1 then cubes else take 1 cubes);
          Some rs }"

fun is_gateway_policy :: "'f policy \<Rightarrow> bool" where
  "is_gateway_policy (Gateway_Policy P) = True"
| "is_gateway_policy _ = False"

definition clone_without_gateway_layers :: "'f network_config \<Rightarrow> 'f network_config option" where
  "clone_without_gateway_layers C =
     (if \<exists>(n, L)\<in>set (layers_of C). gateway_layer n \<and> policies_list L \<noteq> []
      then fold_opt (\<lambda>D P. if is_gateway_policy P then Some D else append_policy_to_config D P)
             (clone_without_policies C (conf_name C)) (all_policies C)
      else Some C)"

text \<open>The connections of a configuration, with the policies it synchronised dropped.\<close>

definition conns_of_config ::
  "'f env \<Rightarrow> conns_filter \<Rightarrow> layer_name option \<Rightarrow> 'f network_config \<Rightarrow> 'f policy_connections option" where
  "conns_of_config E flt name C = map_option snd (config_allowed_connections E flt name C)"

section \<open>Equivalence and containment\<close>

definition check_equivalence ::
  "'f env \<Rightarrow> output_config \<Rightarrow> 'f network_config \<Rightarrow> 'f network_config \<Rightarrow> layer_name option \<Rightarrow> 'f query_answer option" where
  "check_equivalence E O1 C D name =
     do { r1 \<leftarrow> conns_of_config E only_all_allowed_connections name C;
          r2 \<leftarrow> conns_of_config E only_all_allowed_connections name D;
          (t, u) \<leftarrow> filter_conns_by_constraints E O1 C D (all_allowed_conns r1) (all_allowed_conns r2);
          if props_eq E t u
          then Some (answer True (query_name C @ '' and '' @ query_name D @ '' are semantically equivalent.'') [] 0)
          else do { a \<leftarrow> hc_sub (env_dims E) t u;
                    b \<leftarrow> hc_sub (env_dims E) u t;
                    d1 \<leftarrow> different_conns E O1 C a True False;
                    d2 \<leftarrow> different_conns E O1 C b False False;
                    Some (answer False (query_name C @ '' and '' @ query_name D @ '' are not semantically equivalent.'')
                      [Connections_Diff (''Connections allowed in '' @ query_name C @ '' which are different in '' @ query_name D)
                         (peers_conns_sort (d1 @ d2)) [query_name C, query_name D] True] 1) } }"

definition of_bool_int :: "bool \<Rightarrow> int" where
  "of_bool_int b = (if b then 1 else 0)"

definition equivalence ::
  "'f env \<Rightarrow> output_config \<Rightarrow> 'f network_config \<Rightarrow> 'f network_config \<Rightarrow> layer_name option \<Rightarrow> 'f query_answer option" where
  "equivalence E O1 C D name =
     do { a \<leftarrow> is_identical_topologies E C D True;
          if output_result a \<noteq> '''' then Some (a\<lparr>numerical_result := of_bool_int (\<not> bool_result a)\<rparr>)
          else check_equivalence E O1 C D name }"

definition check_containment ::
  "'f env \<Rightarrow> output_config \<Rightarrow> 'f network_config \<Rightarrow> 'f network_config \<Rightarrow> bool \<Rightarrow> bool \<Rightarrow> bool \<Rightarrow> 'f query_answer option" where
  "check_containment E O1 C D cmd_line only_captured remove_livesim =
     do { r1 \<leftarrow> conns_of_config E (if only_captured then only_allowed_connections else only_all_allowed_connections) None C;
          r2 \<leftarrow> conns_of_config E only_all_allowed_connections None D;
          (t, u) \<leftarrow> filter_conns_by_constraints E O1 C D
                      (if only_captured then allowed_conns r1 else all_allowed_conns r1) (all_allowed_conns r2);
          contained \<leftarrow> hc_contained_in (env_dims E) t u;
          if contained
          then Some (answer True (query_name C @ '' is contained in '' @ query_name D) [] (of_bool_int (\<not> cmd_line)))
          else do { a \<leftarrow> hc_sub (env_dims E) t u;
                    ds \<leftarrow> different_conns E O1 C a True remove_livesim;
                    Some (answer False (query_name C @ '' is not contained in '' @ query_name D)
                      [Connections_Diff (''Connections allowed in '' @ query_name C @ '' which are not a subset of those in '' @
                         query_name D) (peers_conns_sort ds) [] False] (of_bool_int cmd_line)) } }"

definition containment ::
  "'f env \<Rightarrow> output_config \<Rightarrow> 'f network_config \<Rightarrow> 'f network_config \<Rightarrow> bool \<Rightarrow> bool \<Rightarrow> bool \<Rightarrow> 'f query_answer option" where
  "containment E O1 C D cmd_line only_captured remove_livesim =
     do { p1 \<leftarrow> get_all_peers_group (conf_peers C) False True True;
          p2 \<leftarrow> get_all_peers_group (conf_peers D) False True True;
          let missing = ps_sub p1 p2;
          if missing \<noteq> []
          then Some (answer False (query_name C @ '' is not contained in '' @ query_name D @ '' '')
                 [Pods_Lists (''Peers in '' @ query_name C @ '' which are not in '' @ query_name D)
                    (sort (map peer_str missing)) [] False] (of_bool_int cmd_line))
          else check_containment E O1 C D cmd_line only_captured remove_livesim }"

definition two_way_containment ::
  "'f env \<Rightarrow> output_config \<Rightarrow> 'f network_config \<Rightarrow> 'f network_config \<Rightarrow> bool \<Rightarrow> 'f query_answer option" where
  "two_way_containment E O1 C D cmd_line =
     do { a \<leftarrow> is_identical_topologies E C D True;
          if bool_result a \<and> output_result a \<noteq> '''' then Some a
          else do {
            c12 \<leftarrow> containment E O1 C D cmd_line False False;
            c21 \<leftarrow> containment E O1 D C cmd_line False False;
            let n1 = query_name C;
            let n2 = query_name D;
            Some (if bool_result c12 \<and> bool_result c21
              then answer True (''The two network configurations '' @ n1 @ '' and '' @ n2 @ '' are semantically equivalent.'')
                     [] (if cmd_line then 0 else 3)
              else if \<not> bool_result c12 \<and> \<not> bool_result c21
              then answer False (''Neither network configuration '' @ n1 @ '' and '' @ n2 @ '' are contained in the other'')
                     (output_explanation c21 @ output_explanation c12) (of_bool_int cmd_line)
              else if bool_result c12
              then answer False (''Network configuration '' @ n1 @ '' is a proper subset of '' @ n2 @ '' but '' @ output_result c21)
                     (output_explanation c21) (if cmd_line then 1 else 2)
              else answer False (''Network configuration '' @ n2 @ '' is a proper subset of '' @ n1 @ '' but '' @ output_result c12)
                     (output_explanation c12) 1) } }"

definition permits ::
  "'f env \<Rightarrow> output_config \<Rightarrow> 'f network_config \<Rightarrow> 'f network_config \<Rightarrow> bool \<Rightarrow> 'f query_answer option" where
  "permits E O1 C D cmd_line =
     (let ok = query_name D @ '' permits all connections specified in '' @ query_name C in
      if \<not> conf_bool C
      then Some (not_executed False
        ''There are no NetworkPolicies in the given permits config. No traffic is specified as permitted.'')
      else do {
        a \<leftarrow> is_identical_topologies E C D False;
        if output_result a \<noteq> ''''
        then Some (a\<lparr>numerical_result := (if cmd_line then of_bool_int (\<not> bool_result a) else 0),
                    output_result := (if bool_result a then ok else output_result a)\<rparr>)
        else if does_contain_only_gateway_layers (layers_of C)
        then Some (not_executed False ''Permitted traffic cannot be specified using Ingress/Gateway resources only'')
        else do { C' \<leftarrow> clone_without_gateway_layers C;
                  a \<leftarrow> containment E O1 C' D cmd_line True True;
                  let found = output_explanation a \<noteq> [];
                  Some (a\<lparr>numerical_result := (if cmd_line then numerical_result a else of_bool_int found),
                         output_result :=
                           (if found then query_name D @ '' does not permit connections specified in '' @ query_name C
                            else if bool_result a then ok else output_result a)\<rparr>) } })"

definition check_interferes ::
  "'f env \<Rightarrow> output_config \<Rightarrow> 'f network_config \<Rightarrow> 'f network_config \<Rightarrow> bool \<Rightarrow> 'f query_answer option" where
  "check_interferes E O1 C D cmd_line =
     do { r1 \<leftarrow> conns_of_config E only_allowed_connections None C;
          r2 \<leftarrow> conns_of_config E only_allowed_connections None D;
          (t, u) \<leftarrow> filter_conns_by_constraints E O1 C D (allowed_conns r1) (allowed_conns r2);
          contained \<leftarrow> hc_contained_in (env_dims E) t u;
          if contained
          then Some (answer False (query_name C @ '' does not interfere with '' @ query_name D) [] (of_bool_int cmd_line))
          else do { a \<leftarrow> hc_sub (env_dims E) t u;
                    ds \<leftarrow> different_conns E O1 C a True False;
                    Some (answer True (query_name C @ '' interferes with '' @ query_name D)
                      [Connections_Diff (''Allowed connections from '' @ query_name D @ '' which are extended in '' @ query_name C)
                         (peers_conns_sort ds) [query_name C, query_name D] True] (of_bool_int (\<not> cmd_line))) } }"

definition interferes ::
  "'f env \<Rightarrow> output_config \<Rightarrow> 'f network_config \<Rightarrow> 'f network_config \<Rightarrow> bool \<Rightarrow> 'f query_answer option" where
  "interferes E O1 C D cmd_line =
     do { a \<leftarrow> is_identical_topologies E C D False;
          if output_result a \<noteq> ''''
          then Some (a\<lparr>numerical_result := of_bool_int (if cmd_line then \<not> bool_result a else bool_result a)\<rparr>)
          else check_interferes E O1 C D cmd_line }"

definition pairwise_interferes ::
  "'f env \<Rightarrow> output_config \<Rightarrow> 'f network_config \<Rightarrow> 'f network_config \<Rightarrow> bool \<Rightarrow> 'f query_answer option" where
  "pairwise_interferes E O1 C D cmd_line = interferes E O1 C D cmd_line"

definition check_intersects ::
  "'f env \<Rightarrow> output_config \<Rightarrow> 'f network_config \<Rightarrow> 'f network_config \<Rightarrow> bool \<Rightarrow> 'f query_answer option" where
  "check_intersects E O1 C D only_captured =
     do { r1 \<leftarrow> conns_of_config E (if only_captured then only_allowed_connections else only_all_allowed_connections) None C;
          r2 \<leftarrow> conns_of_config E only_all_allowed_connections None D;
          (t, u) \<leftarrow> filter_conns_by_constraints E O1 C D
                      (if only_captured then allowed_conns r1 else all_allowed_conns r1) (all_allowed_conns r2);
          both \<leftarrow> hc_and (env_dims E) t u;
          if hc_bool both
          then do { ds \<leftarrow> different_conns E O1 C both True True;
                    Some (answer True (query_name D @ '' intersects with '' @ query_name C)
                      [Connections_Diff '''' (peers_conns_sort ds) [] False] 0) }
          else Some (answer False (''The connections allowed by '' @ query_name C @
                 '' do not intersect the connections allowed by '' @ query_name D) [] 1) }"

text \<open>The argument \<open>only_captured\<close> is not passed on.\<close>

definition intersects ::
  "'f env \<Rightarrow> output_config \<Rightarrow> 'f network_config \<Rightarrow> 'f network_config \<Rightarrow> 'f query_answer option" where
  "intersects E O1 C D =
     do { a \<leftarrow> is_identical_topologies E C D False;
          if output_result a \<noteq> '''' then Some a else check_intersects E O1 C D True }"

fun describe :: "string \<Rightarrow> 'f explanation \<Rightarrow> 'f explanation" where
  "describe desc (Intersect_Pods _ rs) = Intersect_Pods desc rs"
| "describe desc (Policies_And_Rules _ ps ing eg) = Policies_And_Rules desc ps ing eg"
| "describe desc (Pods_Lists _ pods egress add) = Pods_Lists desc pods egress add"
| "describe desc (Connections_Diff _ rs configs diff) = Connections_Diff desc rs configs diff"
| "describe desc (Computed _ s d) = Computed desc s d"

definition forbids ::
  "'f env \<Rightarrow> output_config \<Rightarrow> 'f network_config \<Rightarrow> 'f network_config \<Rightarrow> 'f query_answer option" where
  "forbids E O1 C D =
     (if \<not> conf_bool C
      then Some (not_executed False
        ''There are no NetworkPolicies in the given forbids config. No traffic is specified as forbidden.'')
      else if does_contain_only_gateway_layers (layers_of C)
      then Some (not_executed False ''Forbidden traffic cannot be specified using Ingress/Gateway resources only'')
      else do {
        C' \<leftarrow> clone_without_gateway_layers C;
        a \<leftarrow> intersects E O1 C' D;
        let a = (if numerical_result a = 1
                 then a\<lparr>output_result := output_result a @ ''\<newline>'' @ query_name D @ '' forbids connections specified in '' @
                        query_name C\<rparr> else a);
        a \<leftarrow> (case output_explanation a of
               [] \<Rightarrow> Some a
             | [x] \<Rightarrow> Some (a\<lparr>output_result := query_name D @ '' does not forbid connections specified in '' @ query_name C,
                           output_explanation := [describe (''Both '' @ query_name C @ '' and '' @ query_name D @
                             '' allow the following connection(s)'') x]\<rparr>)
             | _ \<Rightarrow> None);
        Some (a\<lparr>numerical_result := of_bool_int (bool_result a)\<rparr>) })"

section \<open>Vacuity and redundancy\<close>

definition vacuity :: "'f env \<Rightarrow> 'f network_config \<Rightarrow> 'f query_answer option" where
  "vacuity E C =
     do { D \<leftarrow> clone_without_gateway_layers C;
          r \<leftarrow> equivalence E default_output D (clone_without_policies C ''vacuousConfig'') None;
          Some (if bool_result r
            then answer True (''Network configuration '' @ conf_name C @ '' is vacuous - it allows all default connections'') [] 1
            else answer False (''Network configuration '' @ conf_name C @ '' is not vacuous'') [] 0) }"

definition redundant_policies :: "'f env \<Rightarrow> 'f network_config \<Rightarrow> 'f policy list \<Rightarrow> layer_name \<Rightarrow> string list option" where
  "redundant_policies E C Ps name =
     (if length Ps \<le> 1 then Some []
      else fold_opt (\<lambda>names P.
             do { D \<leftarrow> clone_without_policy E C P;
                  r \<leftarrow> equivalence E default_output C D (Some name);
                  Some (if bool_result r then set_add (=) names (policy_name P None) else names) }) [] Ps)"

text \<open>A rule of another class than those of the policy is in no list of its rules.\<close>

fun clone_without_rule :: "'f env \<Rightarrow> 'f policy \<Rightarrow> 'f any_rule \<Rightarrow> bool \<Rightarrow> 'f policy option" where
  "clone_without_rule E (K8s_Policy P) (Peer_Rule r) i = Some (K8s_Policy (k8s_clone_without_rule E P r i))"
| "clone_without_rule E (Calico_Policy P) (Calico_Rule r) i = Some (Calico_Policy (calico_clone_without_rule E P r i))"
| "clone_without_rule E (Istio_Policy P) (Peer_Rule r) i = Some (Istio_Policy (istio_clone_without_rule E P r))"
| "clone_without_rule E (Gateway_Policy P) (Peer_Rule r) i = Some (Gateway_Policy (gateway_clone_without_rule E P r i))"
| "clone_without_rule E (Sidecar_Policy P) (Sidecar_Rule r) i =
     map_option Sidecar_Policy (sidecar_clone_without_rule P r i)"
| "clone_without_rule E _ _ i = None"

definition rules_of :: "bool \<Rightarrow> 'f policy \<Rightarrow> 'f any_rule list" where
  "rules_of i P = (if i then ingress_rules_of P else egress_rules_of P)"

text \<open>A rule that equals another one of its policy is redundant.\<close>

definition redundant_rule ::
  "'f env \<Rightarrow> 'f network_config \<Rightarrow> 'f policy \<Rightarrow> layer_name \<Rightarrow> bool \<Rightarrow> 'f any_rule \<Rightarrow> bool option" where
  "redundant_rule E C P name i r =
     do { Q \<leftarrow> clone_without_rule E P r i;
          if int (length (rules_of i Q)) < int (length (rules_of i P)) - 1 then Some True
          else do { D \<leftarrow> clone_without_policy E C P;
                    D \<leftarrow> append_policy_to_config D Q;
                    r \<leftarrow> equivalence E default_output C D (Some name);
                    Some (bool_result r) } }"

definition find_redundant_rules ::
  "'f env \<Rightarrow> 'f network_config \<Rightarrow> 'f policy \<Rightarrow> layer_name \<Rightarrow> (nat list \<times> nat list) option" where
  "find_redundant_rules E C P name =
     (let find = (\<lambda>i. map_option concat (map_opt (\<lambda>(n, r).
                    do { red \<leftarrow> redundant_rule E C P name i r; Some (if red then [n] else []) })
                    (enumerate 1 (rules_of i P))))
      in do { ing \<leftarrow> find True; eg \<leftarrow> find False; Some (ing, eg) })"

type_synonym redundancies = "nat \<times> string list \<times> (string \<times> nat list) list \<times> (string \<times> nat list) list"

definition redundant_rules_step ::
  "'f env \<Rightarrow> 'f network_config \<Rightarrow> layer_name \<Rightarrow> string list \<Rightarrow> redundancies \<Rightarrow> 'f policy \<Rightarrow> redundancies option" where
  "redundant_rules_step E C name redundant acc P =
     (if policy_name P None \<in> set redundant then Some acc
      else do { (is, es) \<leftarrow> find_redundant_rules E C P name;
                case acc of (n, ps, ing, eg) \<Rightarrow>
                  Some (n + length is + length es, ps,
                        if is = [] then ing else dict_set (=) ing (policy_title P) (sort is),
                        if es = [] then eg else dict_set (=) eg (policy_title P) (sort es)) })"

text \<open>The redundant policies of a layer replace those of the layers before it; their number is added.\<close>

definition redundancy_step ::
  "'f env \<Rightarrow> 'f network_config \<Rightarrow> redundancies \<Rightarrow> layer_name \<times> 'f network_layer \<Rightarrow> redundancies option" where
  "redundancy_step E C acc entry =
     (case (acc, entry) of ((n, ps, ing, eg), (name, L)) \<Rightarrow>
        if gateway_layer name then Some acc
        else do { red \<leftarrow> redundant_policies E C (policies_list L) name;
                  let red = sort red;
                  fold_opt (redundant_rules_step E C name red) (n + length red, red, ing, eg)
                    (py_sorted policy_lt (policies_list L)) })"

definition redundancy :: "'f env \<Rightarrow> 'f network_config \<Rightarrow> 'f query_answer option" where
  "redundancy E C =
     do { (n, ps, ing, eg) \<leftarrow> fold_opt (redundancy_step E C) (0, [], [], []) (layers_of C);
          Some (if 0 < n
            then answer True (''Redundancies found in '' @ conf_name C)
                   [Policies_And_Rules ('' that are redundant in '' @ conf_name C) ps ing eg] (int n)
            else answer False (''No redundancy found in '' @ conf_name C) [] 0) }"

section \<open>Strong equivalence\<close>

fun policy_type_repr :: "policy_type \<Rightarrow> string" where
  "policy_type_repr Unknown = ''PolicyType.Unknown''"
| "policy_type_repr K8sNetworkPolicy = ''PolicyType.K8sNetworkPolicy''"
| "policy_type_repr CalicoNetworkPolicy = ''PolicyType.CalicoNetworkPolicy''"
| "policy_type_repr CalicoGlobalNetworkPolicy = ''PolicyType.CalicoGlobalNetworkPolicy''"
| "policy_type_repr CalicoProfile = ''PolicyType.CalicoProfile''"
| "policy_type_repr IstioAuthorizationPolicy = ''PolicyType.IstioAuthorizationPolicy''"
| "policy_type_repr IstioSidecar = ''PolicyType.IstioSidecar''"
| "policy_type_repr Ingress = ''PolicyType.Ingress''"
| "policy_type_repr Gateway = ''PolicyType.Gateway''"
| "policy_type_repr VirtualService = ''PolicyType.VirtualService''"
| "policy_type_repr GatewayPolicy = ''PolicyType.GatewayPolicy''"
| "policy_type_repr List_Type = ''PolicyType.List''"

definition policy_key_strs :: "'f network_config \<Rightarrow> string list" where
  "policy_key_strs C =
     set_of (=) (map (\<lambda>((name, ty), _). name @ ''['' @ policy_type_repr ty @ '']'') (policies (conf_policies C)))"

fun policies_equivalent ::
  "'f env \<Rightarrow> output_config \<Rightarrow> 'f network_config \<Rightarrow> 'f network_config \<Rightarrow> 'f policy list \<Rightarrow> 'f query_answer option" where
  "policies_equivalent E O1 C D [] =
     Some (answer True (query_name C @ '' and '' @ query_name D @ '' are strongly equivalent.'') [] 0)"
| "policies_equivalent E O1 C D (P # Ps) =
     do { C1 \<leftarrow> clone_with_just_one_policy C (policy_name P None) None;
          D1 \<leftarrow> clone_with_just_one_policy D (policy_name P None) None;
          r \<leftarrow> equivalence E O1 C1 D1 None;
          if bool_result r then policies_equivalent E O1 C D Ps
          else Some (answer False (policy_title P @ '' is not equivalent in '' @ query_name C @ '' and in '' @ query_name D)
                       (output_explanation r) 1) }"

definition strong_equivalence ::
  "'f env \<Rightarrow> output_config \<Rightarrow> 'f network_config \<Rightarrow> 'f network_config \<Rightarrow> 'f query_answer option" where
  "strong_equivalence E O1 C D =
     do { a \<leftarrow> is_identical_topologies E C D True;
          if output_result a \<noteq> '''' then Some (a\<lparr>numerical_result := of_bool_int (\<not> bool_result a)\<rparr>)
          else case (set_diff (=) (policy_key_strs C) (policy_key_strs D), set_diff (=) (policy_key_strs D) (policy_key_strs C)) of
            (k # _, _) \<Rightarrow> Some (answer False (query_name C @ '' contains a network policy named '' @ k @ '', but '' @
                                  query_name D @ '' does not'') [] 1)
          | ([], k # _) \<Rightarrow> Some (answer False (query_name D @ '' contains a network policy named '' @ k @ '', but '' @
                                  query_name C @ '' does not'') [] 1)
          | ([], []) \<Rightarrow> policies_equivalent E O1 C D (all_policies C) }"

section \<open>Captured pods\<close>

definition pod_name :: "output_config \<Rightarrow> peer \<Rightarrow> string option" where
  "pod_name O1 p =
     (if output_endpoints O1 = ''deployments''
      then (case p of Pod_Peer q \<Rightarrow> Some (workload_name q) | _ \<Rightarrow> None) else Some (peer_str p))"

definition uncaptured_xgress_pods ::
  "output_config \<Rightarrow> 'f network_config \<Rightarrow> layer_name \<Rightarrow> bool \<Rightarrow> string list option" where
  "uncaptured_xgress_pods O1 C name i =
     do { pods \<leftarrow> get_all_peers_group (conf_peers C) False True False;
          affected \<leftarrow> get_affected_pods C i name;
          names \<leftarrow> map_opt (pod_name O1) (ps_sub pods affected);
          Some (set_of (=) names) }"

fun layer_str :: "layer_name \<Rightarrow> string" where
  "layer_str K8s_Calico = ''K8s_Calico''"
| "layer_str Istio_Layer = ''Istio''"
| "layer_str K8s_Gateway = ''K8sGateway''"
| "layer_str Istio_Gateway = ''IstioGateway''"

definition uncaptured_pods_by_layer ::
  "output_config \<Rightarrow> 'f network_config \<Rightarrow> layer_name \<Rightarrow> bool \<Rightarrow> ('f explanation list \<times> nat) option" where
  "uncaptured_pods_by_layer O1 C name ingress_only =
     (if dict_get (=) (layers_of C) name = None then Some ([], 0)
      else do { ing \<leftarrow> uncaptured_xgress_pods O1 C name True;
                eg \<leftarrow> (if ingress_only then Some [] else uncaptured_xgress_pods O1 C name False);
                let n = length ing + length eg;
                Some (if n = 0 then ([], 0)
                      else ([Pods_Lists (''workload resources that are not captured by any '' @ layer_str name @
                               '' policy that affects '') (sort ing) (sort eg) True], n)) })"

definition all_captured :: "output_config \<Rightarrow> 'f network_config \<Rightarrow> 'f query_answer option" where
  "all_captured O1 C =
     do { pods \<leftarrow> get_all_peers_group (conf_peers C) False True False;
          if \<not> conf_bool C \<or> does_contain_only_gateway_layers (layers_of C)
          then Some (answer False (''There are no network policies in '' @ conf_name C @
                       ''. All workload resources are non captured'') [] (int (length pods)))
          else do { (e1, n1) \<leftarrow> uncaptured_pods_by_layer O1 C K8s_Calico False;
                    (e2, n2) \<leftarrow> uncaptured_pods_by_layer O1 C Istio_Layer True;
                    Some (if n1 = 0 \<and> n2 = 0
                      then answer True (''All pods are captured by at least one policy in '' @ conf_name C) [] 0
                      else answer False (''There are workload resources not captured by any policy in '' @ conf_name C)
                             (e1 @ e2) (int (n1 + n2))) } }"

section \<open>Sanity\<close>

fun has_allow_rules :: "'f policy \<Rightarrow> bool" where
  "has_allow_rules (K8s_Policy P) = any_rule_selects P"
| "has_allow_rules (Calico_Policy P) = calico_has_allow_rules P"
| "has_allow_rules (Istio_Policy P) = istio_has_allow_rules P"
| "has_allow_rules (Gateway_Policy P) = gateway_has_allow_rules P"
| "has_allow_rules (Sidecar_Policy P) = False"

fun has_deny_rules :: "'f policy \<Rightarrow> bool" where
  "has_deny_rules (Calico_Policy P) = calico_has_deny_rules P"
| "has_deny_rules (Istio_Policy P) = istio_has_deny_rules P"
| "has_deny_rules (Gateway_Policy P) = gateway_has_deny_rules P"
| "has_deny_rules _ = False"

text \<open>The policies with the order of the first one in the list are compared with the next one.\<close>

fun conflict_loop :: "'f calico_policy list \<Rightarrow> 'f calico_policy list \<Rightarrow> ('f calico_policy \<times> 'f calico_policy) option" where
  "conflict_loop cur [] = None"
| "conflict_loop cur (P # Ps) =
     (case cur of
        [] \<Rightarrow> conflict_loop [P] Ps
      | Q # _ \<Rightarrow>
          if policy_lt (Calico_Policy Q) (Calico_Policy P) then conflict_loop [P] Ps
          else (case filter (calico_is_conflicting P) cur of
                  [] \<Rightarrow> conflict_loop (cur @ [P]) Ps
                | R # _ \<Rightarrow> Some (P, R)))"

definition calico_policies :: "'f network_config \<Rightarrow> 'f calico_policy list" where
  "calico_policies C =
     (case dict_get (=) (layers_of C) K8s_Calico of
        None \<Rightarrow> []
      | Some L \<Rightarrow> concat (map (\<lambda>P. case P of Calico_Policy p \<Rightarrow> [p] | _ \<Rightarrow> []) (policies_list L)))"

definition has_conflicting_policies_with_same_order :: "'f network_config \<Rightarrow> string option" where
  "has_conflicting_policies_with_same_order C =
     map_option (\<lambda>(P, Q). policy_title (Calico_Policy P) @ '' and '' @ policy_title (Calico_Policy Q) @
         '' have same order but conflicting rules. Behavior is undefined.'')
       (if length (calico_policies C) \<le> 1 then None else conflict_loop [] (calico_policies C))"

text \<open>An order of zero counts as no order.\<close>

definition lower_order :: "'f policy \<Rightarrow> 'f policy \<Rightarrow> bool" where
  "lower_order Q P =
     (case (get_order Q, get_order P) of (Some a, Some b) \<Rightarrow> a \<noteq> 0 \<and> b \<noteq> 0 \<and> a < b | _ \<Rightarrow> False)"

fun containing_allow ::
  "'f env \<Rightarrow> 'f network_config \<Rightarrow> 'f policy \<Rightarrow> 'f network_config \<Rightarrow> 'f policy list \<Rightarrow> 'f policy option option" where
  "containing_allow E C P C1 [] = Some None"
| "containing_allow E C P C1 (Q # Qs) =
     (if lower_order Q P then Some None
      else do { same \<leftarrow> policy_eq E Q P;
                if same \<or> \<not> issubset (selects P) (selects Q) then containing_allow E C P C1 Qs
                else do { D1 \<leftarrow> clone_with_just_one_policy C (policy_name Q None) None;
                          r \<leftarrow> containment E default_output C1 D1 False True False;
                          if bool_result r then Some (Some Q) else containing_allow E C P C1 Qs } })"

definition check_deny_containment ::
  "'f env \<Rightarrow> 'f network_config \<Rightarrow> 'f network_config \<Rightarrow> layer_name \<Rightarrow> bool option" where
  "check_deny_containment E C D name =
     do { r1 \<leftarrow> conns_of_config E only_denied_connections (Some name) C;
          r2 \<leftarrow> conns_of_config E only_denied_connections (Some name) D;
          hc_contained_in (env_dims E) (denied_conns r1) (denied_conns r2) }"

fun containing_deny ::
  "'f env \<Rightarrow> 'f network_config \<Rightarrow> 'f policy \<Rightarrow> 'f network_config \<Rightarrow> layer_name \<Rightarrow> 'f policy list \<Rightarrow> 'f policy option option" where
  "containing_deny E C P C1 name [] = Some None"
| "containing_deny E C P C1 name (Q # Qs) =
     (if lower_order Q P then Some None
      else do { same \<leftarrow> policy_eq E Q P;
                if same \<or> \<not> has_deny_rules Q then containing_deny E C P C1 name Qs
                else do { D1 \<leftarrow> clone_with_just_one_policy C (policy_name Q None) None;
                          b \<leftarrow> check_deny_containment E C1 D1 name;
                          if b then Some (Some Q) else containing_deny E C P C1 name Qs } })"

definition layer_list :: "'f network_config \<Rightarrow> layer_name \<Rightarrow> 'f policy list option" where
  "layer_list C name = map_option policies_list (dict_get (=) (layers_of C) name)"

fun other_rule_containing ::
  "'f env \<Rightarrow> 'f policy \<Rightarrow> int \<Rightarrow> bool \<Rightarrow> 'f policy list \<Rightarrow> ('f policy \<times> nat \<times> bool) option option" where
  "other_rule_containing E P index i [] = Some None"
| "other_rule_containing E P index i (Q # Qs) =
     (if lower_order Q P then Some None
      else do { r \<leftarrow> (if i then ingress_rule_containing E Q P index else egress_rule_containing E Q P index);
                case r of
                  Some (n, contradict) \<Rightarrow>
                    if n \<noteq> 0 then Some (Some (Q, n, contradict)) else other_rule_containing E P index i Qs
                | None \<Rightarrow> other_rule_containing E P index i Qs })"

definition redundant_rule_text ::
  "'f env \<Rightarrow> 'f network_config \<Rightarrow> 'f policy \<Rightarrow> nat \<Rightarrow> bool \<Rightarrow> layer_name \<Rightarrow> string option" where
  "redundant_rule_text E C P index i name =
     do { Ps \<leftarrow> layer_list C name;
          r \<leftarrow> other_rule_containing E P (int index) i Ps;
          let start = (if i then ''In'' else ''E'') @ ''gress rule no. '' @ str_of_int (int index) @ '' in '' @ policy_title P @
            '' is redundant in '' @ conf_name C;
          case r of
            None \<Rightarrow> Some (start @ ''\<newline>'')
          | Some (Q, n, contradict) \<Rightarrow>
              do { same \<leftarrow> policy_eq E Q P;
                   Some (start @ '' since it is contained in '' @ (if i then ''in'' else ''e'') @ ''gress rule no. '' @
                     str_of_int (int n) @ (if same then '' of its NetworkPolicy'' else '' of '' @ policy_title Q) @
                     (if contradict then ''\<newline>'' @ [CHR 9] @
                        ''Note that the action of the containing rule and the rule are different.'' else '''') @ ''\<newline>'') } }"

definition redundant_policy_text :: "'f env \<Rightarrow> 'f network_config \<Rightarrow> 'f policy \<Rightarrow> layer_name \<Rightarrow> string option" where
  "redundant_policy_text E C P name =
     do { let start = policy_title P @ '' is redundant'';
          C1 \<leftarrow> clone_with_just_one_policy C (policy_name P None) None;
          v \<leftarrow> vacuity E C1;
          if bool_result v then Some (start @ ''. Note that it does not change default connectivity\<newline>'')
          else if \<not> has_deny_rules P \<and> \<not> has_allow_rules P
          then Some (start @ ''. Note that it contains no effective allow/deny rules\<newline>'')
          else do {
            Ps \<leftarrow> layer_list C name;
            a \<leftarrow> (if has_allow_rules P then containing_allow E C P C1 Ps else Some None);
            d \<leftarrow> (if has_deny_rules P \<and> (\<not> has_allow_rules P \<or> a \<noteq> None) then containing_deny E C P C1 name Ps
                   else Some None);
            case (a, d) of
              (None, None) \<Rightarrow> Some (start @ ''\<newline>'')
            | (Some A, None) \<Rightarrow>
                Some (if has_deny_rules P then start @ ''\<newline>''
                      else start @ '': it is contained in '' @ policy_title A @ ''\<newline>'')
            | (None, Some D) \<Rightarrow>
                Some (if has_allow_rules P then start @ ''\<newline>''
                      else start @ '': it is contained in '' @ policy_title D @ ''\<newline>'')
            | (Some A, Some D) \<Rightarrow>
                do { same \<leftarrow> policy_eq E D A;
                     Some (if same then start @ '': it is contained in '' @ policy_title A @ ''\<newline>''
                           else start @ '': its allow rules are covered by '' @ policy_title A @
                             '', its deny rules are covered by '' @ policy_title D @ ''\<newline>'') } } }"

text \<open>The number of issues, the two texts, and the findings added to policies.\<close>

type_synonym sanity_issues = "nat \<times> string \<times> string \<times> (policy_key \<times> string) list"

definition sanity_rules ::
  "'f env \<Rightarrow> 'f network_config \<Rightarrow> 'f policy \<Rightarrow> layer_name \<Rightarrow> bool \<Rightarrow> nat list \<Rightarrow> nat list \<Rightarrow> sanity_issues \<Rightarrow> sanity_issues option" where
  "sanity_rules E C P name i redundant skip st =
     fold_opt (\<lambda>(n, ps, rs, fs) index.
         if index \<notin> set skip \<and> index \<in> set redundant
         then do { t \<leftarrow> redundant_rule_text E C P index i name; Some (n + 1, ps, rs @ t, fs @ [(policy_key_of P, t)]) }
         else Some (n, ps, rs, fs))
       st [1..<length (rules_of i P) + 1]"

definition sanity_policy ::
  "'f env \<Rightarrow> 'f network_config \<Rightarrow> bool \<Rightarrow> layer_name \<Rightarrow> string list \<Rightarrow> sanity_issues \<Rightarrow> 'f policy \<Rightarrow> sanity_issues option" where
  "sanity_policy E C vacuous name redundant st P =
     (case st of (n, ps, rs, fs) \<Rightarrow>
        if policy_empty P
        then (let t = policy_title P @ '' is empty - it does not select any pods\<newline>''
              in Some (n + 1, ps @ t, rs, fs @ [(policy_key_of P, t)]))
        else (case has_empty_rules P '''' of (texts, ei, ee) \<Rightarrow>
          (let n = n + length texts;
               rs = (if texts = [] then rs else rs @ join ''\<newline>'' texts @ ''\<newline>'');
               fs = fs @ map (\<lambda>t. (policy_key_of P, t)) texts
           in if vacuous then Some (n, ps, rs, fs)
              else if policy_name P None \<in> set redundant
              then do { t \<leftarrow> redundant_policy_text E C P name; Some (n + 1, ps @ t, rs, fs @ [(policy_key_of P, t)]) }
              else do { (ri, re) \<leftarrow> find_redundant_rules E C P name;
                        st \<leftarrow> sanity_rules E C P name True ri ei (n, ps, rs, fs);
                        sanity_rules E C P name False re ee st })))"

definition sanity_layer ::
  "'f env \<Rightarrow> 'f network_config \<Rightarrow> bool \<Rightarrow> sanity_issues \<Rightarrow> layer_name \<times> 'f network_layer \<Rightarrow> sanity_issues option" where
  "sanity_layer E C vacuous st entry =
     (if gateway_layer (fst entry) then Some st
      else do { red \<leftarrow> redundant_policies E C (policies_list (snd entry)) (fst entry);
                fold_opt (sanity_policy E C vacuous (fst entry) red) st (policies_list (snd entry)) })"

definition sanity :: "'f env \<Rightarrow> 'f network_config \<Rightarrow> ('f query_answer \<times> (policy_key \<times> string) list) option" where
  "sanity E C =
     (if \<not> conf_bool C
      then Some (answer False (''No NetworkPolicies in '' @ conf_name C @ ''. Nothing to check sanity on.'') [] 0, [])
      else case has_conflicting_policies_with_same_order C of
        Some t \<Rightarrow>
          Some (answer False t [] 1,
            (case conflict_loop [] (calico_policies C) of
               Some (P, Q) \<Rightarrow> [(policy_key_of (Calico_Policy P), t), (policy_key_of (Calico_Policy Q), t)] | None \<Rightarrow> []))
      | None \<Rightarrow>
          do { v \<leftarrow> vacuity E C;
               let start = (if bool_result v
                 then (1, output_result v @ ''\<newline>'' @ (if length (policies (conf_policies C)) = 1
                          then [CHR 9] @ ''Note that it contains a single policy.\<newline>'' else ''''), '''', [])
                 else (0, '''', '''', []));
               (n, ps, rs, fs) \<leftarrow> fold_opt (sanity_layer E C (bool_result v)) start (layers_of C);
               Some (answer (n = 0)
                 (''NetworkConfig '' @ conf_name C @ (if n = 0 then '' passed sanity check'' else '' failed sanity check:''))
                 [Computed '''' (Some (ps @ rs)) []] (int n), fs) })"

section \<open>The map of connections\<close>

fun split_on :: "char \<Rightarrow> string \<Rightarrow> string list" where
  "split_on c [] = [[]]"
| "split_on c (x # xs) =
     (if x = c then [] # split_on c xs
      else (case split_on c xs of [] \<Rightarrow> [[x]] | w # ws \<Rightarrow> (x # w) # ws))"

text \<open>The subset of the output: namespaces and deployments as texts with commas, and sets of labels.\<close>

record output_subset =
  namespace_subset :: string
  deployment_subset :: string
  label_subset :: "(string \<times> string) list list"

definition are_labels_all_included :: "(string \<times> string) list \<Rightarrow> (string \<times> string) list \<Rightarrow> bool" where
  "are_labels_all_included target pool \<longleftrightarrow> list_all (\<lambda>(k, v). dict_get (=) pool k = Some v) target"

definition in_deployment :: "string \<Rightarrow> peer \<Rightarrow> bool" where
  "in_deployment names p =
     (case p of
        Pod_Peer q \<Rightarrow> owner_name q \<noteq> '''' \<and>
          list_ex (\<lambda>n. contains_str n (if CHR ''/'' \<in> set n then workload_name q else owner_name q)) (split_on CHR '','' names)
      | _ \<Rightarrow> False)"

definition is_in_subset :: "output_subset option \<Rightarrow> peer \<Rightarrow> bool" where
  "is_in_subset sub p =
     (case sub of
        None \<Rightarrow> True
      | Some s \<Rightarrow>
          namespace_subset s \<noteq> '''' \<and>
            (case peer_namespace p of None \<Rightarrow> ''None'' | Some n \<Rightarrow> ns_name n) \<in> set (split_on CHR '','' (namespace_subset s)) \<or>
          deployment_subset s \<noteq> '''' \<and> in_deployment (deployment_subset s) p \<or>
          label_subset s \<noteq> [] \<and> peer_labels p \<noteq> [] \<and>
            list_ex (\<lambda>l. are_labels_all_included l (peer_labels p)) (label_subset s))"

definition compute_subset :: "output_subset option \<Rightarrow> peer_set \<Rightarrow> peer_set" where
  "compute_subset sub ps = (if sub = None then ps else filter (is_in_subset sub) ps)"

definition convert_props_to_split_by_tcp ::
  "'f env \<Rightarrow> 'f dim_value hcs \<Rightarrow> ('f dim_value hcs \<times> 'f dim_value hcs) option" where
  "convert_props_to_split_by_tcp E t =
     do { tcp \<leftarrow> get_protocol_set_with_single_protocol (PName ''TCP'');
          f \<leftarrow> make_conn_props_from_dict E [(''protocols'', Ext_Value (Intervals tcp))];
          a \<leftarrow> hc_and (env_dims E) t f;
          b \<leftarrow> hc_sub (env_dims E) t a;
          Some (a, b) }"

text \<open>The connections of the map and the peers that it compares, before they are written.\<close>

definition connectivity_map_conns ::
  "'f env \<Rightarrow> output_config \<Rightarrow> output_subset option \<Rightarrow> 'f network_config \<Rightarrow> ('f dim_value hcs \<times> peer_set) option" where
  "connectivity_map_conns E O1 sub C =
     do { r \<leftarrow> conns_of_config E only_all_allowed_connections None C;
          let t = all_allowed_conns r;
          ps \<leftarrow> get_all_peers_group (conf_peers C) False True True;
          qs \<leftarrow> props_all_peers E t;
          let ps = ps_or ps qs;
          (t, ps) \<leftarrow> (if check_for_excluding_ipv6_addresses C (exclude_ipv6_range O1)
                      then do { b \<leftarrow> get_all_ips_block True False;
                                let ps = filter_ip_blocks_by_mask ps b;
                                f \<leftarrow> conns_between E ps ps;
                                t \<leftarrow> hc_iand (env_dims E) t f;
                                Some (t, ps) }
                      else Some (t, ps));
          let sps = compute_subset sub ps;
          t \<leftarrow> (if length sps \<noteq> length ps
                then do { a \<leftarrow> make_conn_props_from_dict E [(''src_peers'', Ext_Peers sps)];
                          b \<leftarrow> make_conn_props_from_dict E [(''dst_peers'', Ext_Peers sps)];
                          f \<leftarrow> hc_or (env_dims E) a b;
                          hc_iand (env_dims E) t f }
                else Some t);
          t \<leftarrow> filter_conns_by_peer_types E C t;
          Some (t, ps) }"

section \<open>Semantic differences\<close>

text \<open>A category of differences: its name, the removed and the added connections.\<close>

type_synonym 'f diff_category = "string \<times> 'f dim_value hcs option \<times> 'f dim_value hcs option"

definition between_and ::
  "'f env \<Rightarrow> peer_set \<Rightarrow> peer_set \<Rightarrow> 'f dim_value hcs \<Rightarrow> bool \<Rightarrow> 'f dim_value hcs option" where
  "between_and E a b t both =
     do { u \<leftarrow> conns_between E a b;
          u \<leftarrow> (if both then do { v \<leftarrow> conns_between E b a; hc_or (env_dims E) u v } else Some u);
          hc_iand (env_dims E) u t }"

definition changed_conns ::
  "'f env \<Rightarrow> peer_set \<Rightarrow> peer_set \<Rightarrow> 'f dim_value hcs \<Rightarrow> 'f dim_value hcs option" where
  "changed_conns E a b t =
     do { u \<leftarrow> conns_between E a b;
          v \<leftarrow> conns_between E b a;
          w \<leftarrow> hc_or (env_dims E) u v;
          hc_and (env_dims E) t w }"

definition compute_diff ::
  "'f env \<Rightarrow> output_config \<Rightarrow> 'f network_config \<Rightarrow> 'f network_config \<Rightarrow> 'f diff_category list option" where
  "compute_diff E O1 C D =
     do { old \<leftarrow> get_all_peers_group (conf_peers C) False True True;
          new \<leftarrow> get_all_peers_group (conf_peers D) False True True;
          let kept = ps_and old new;
          let removed = ps_sub old kept;
          let added = ps_sub new kept;
          let pods = ps_and (ps_or (get_captured_pods C None) (get_captured_pods D None)) kept;
          ips \<leftarrow> get_all_ips_block_peer_set
                  (check_for_excluding_ipv6_addresses C (exclude_ipv6_range O1) \<and>
                   check_for_excluding_ipv6_addresses D (exclude_ipv6_range O1));
          r1 \<leftarrow> conns_of_config E only_all_allowed_connections None C;
          r2 \<leftarrow> conns_of_config E only_all_allowed_connections None D;
          (t, u) \<leftarrow> filter_conns_by_constraints E O1 C D (all_allowed_conns r1) (all_allowed_conns r2);
          lost \<leftarrow> hc_sub (env_dims E) t u;
          gained \<leftarrow> hc_sub (env_dims E) u t;
          c11 \<leftarrow> between_and E removed removed t False;
          c11 \<leftarrow> props_without_auto_conns E c11;
          c12 \<leftarrow> between_and E removed ips t True;
          c21 \<leftarrow> between_and E removed kept t True;
          c21 \<leftarrow> props_without_auto_conns E c21;
          r31 \<leftarrow> changed_conns E pods kept lost;
          r31 \<leftarrow> props_without_auto_conns E r31;
          a31 \<leftarrow> changed_conns E pods kept gained;
          a31 \<leftarrow> props_without_auto_conns E a31;
          r32 \<leftarrow> changed_conns E pods ips lost;
          a32 \<leftarrow> changed_conns E pods ips gained;
          c41 \<leftarrow> between_and E kept added u True;
          c41 \<leftarrow> props_without_auto_conns E c41;
          c51 \<leftarrow> between_and E added added u False;
          c51 \<leftarrow> props_without_auto_conns E c51;
          c52 \<leftarrow> between_and E added ips u True;
          Some [(''Lost connections between removed peers'', Some c11, None),
                (''Lost connections between removed peers and ipBlocks'', Some c12, None),
                (''Lost connections between removed peers and persistent peers'', Some c21, None),
                (''Changed connections between persistent peers'', Some r31, Some a31),
                (''Changed connections between persistent peers and ipBlocks'', Some r32, Some a32),
                (''New connections between persistent peers and added peers'', None, Some c41),
                (''New connections between added peers'', None, Some c51),
                (''New connections between added peers and ipBlocks'', None, Some c52)] }"

definition changes :: "'f dim_value hcs option \<Rightarrow> nat" where
  "changes x = (case x of Some t \<Rightarrow> if hc_bool t then 1 else 0 | None \<Rightarrow> 0)"

text \<open>The answer without the explanations, which are firewall rules.\<close>

definition semantic_diff ::
  "'f env \<Rightarrow> output_config \<Rightarrow> 'f network_config \<Rightarrow> 'f network_config \<Rightarrow> bool \<Rightarrow> 'f query_answer option" where
  "semantic_diff E O1 C D cmd_line =
     do { a \<leftarrow> is_identical_topologies E C D True;
          if bool_result a \<and> output_result a \<noteq> '''' then Some a
          else do { cs \<leftarrow> compute_diff E O1 C D;
                    let n = sum_list (map (\<lambda>(_, removed, added). changes added + changes removed) cs);
                    Some (if 0 < n
                      then answer False (query_name C @ '' and '' @ query_name D @ '' are not semantically equivalent.'') []
                             (if cmd_line then 1 else int n)
                      else answer True (query_name C @ '' and '' @ query_name D @ '' are semantically equivalent.'') [] 0) } }"

end
