(* ===== verification/Config_Results.thy ===== *)
theory Config_Results
  imports Network_Config "HOL-Library.Multiset"
begin

text \<open>
  What a configuration allows, for layers whose policies only allow, as a specification by sets of
  connections; the effect of host endpoints; and the order of the queue of policies.
\<close>

section \<open>Adding layers\<close>

lemma iand_conns:
  assumes "good_conns E t" and "good_conns E u"
  shows "\<exists>r. hc_iand (env_dims E) t u = Some r \<and> good_conns E r \<and> conn_points E r = conn_points E t \<inter> conn_points E u"
proof -
  have "env_ok E" using assms(1) by (simp add: good_conns_def)
  then have "hc_and (env_dims E) t u = hc_iand (env_dims E) t u"
    by (rule dim_values.hc_copy_and [OF env_values])
  then show ?thesis using and_conns [OF assms] by auto
qed

definition fine :: "'f env \<Rightarrow> 'f policy_connections \<Rightarrow> bool" where
  "fine E r \<longleftrightarrow>
     good_conns E (all_allowed_conns r) \<and> good_conns E (allowed_conns r) \<and> good_conns E (denied_conns r) \<and>
     ps_ok (captured r)"

lemma add_layer_step:
  assumes layer: "layer_allowed_connections E c flt L = Some (L', r0)"
    and sub: "(if name \<noteq> K8s_Calico then sub_by_filter E r0 hep (without_all_allowed flt) else Some r0) = Some r"
    and r: "fine E r" and res: "fine E res" and all: "calc_all_allowed flt"
  shows "\<exists>res'. add_layer_conns E c flt hep (ls, res) (name, L) = Some (ls @ [(name, L')], res') \<and> fine E res' \<and>
           conn_points E (all_allowed_conns res') = conn_points E (all_allowed_conns res) \<inter> conn_points E (all_allowed_conns r) \<and>
           conn_points E (allowed_conns res') =
             conn_points E (allowed_conns res) \<union> (if calc_allowed flt then conn_points E (allowed_conns r) else {}) \<and>
           conn_points E (denied_conns res') =
             conn_points E (denied_conns res) \<union> (if calc_denied flt then conn_points E (denied_conns r) else {}) \<and>
           ps_points (captured res') = ps_points (captured res) \<union> ps_points (captured r)"
proof -
  obtain l where l: "hc_iand (env_dims E) (all_allowed_conns res) (all_allowed_conns r) = Some l" "good_conns E l"
    "conn_points E l = conn_points E (all_allowed_conns res) \<inter> conn_points E (all_allowed_conns r)"
    using iand_conns [of E "all_allowed_conns res" "all_allowed_conns r"] r res by (auto simp: fine_def)
  obtain a where a: "hc_ior (env_dims E) (allowed_conns res) (allowed_conns r) = Some a" "good_conns E a"
    "conn_points E a = conn_points E (allowed_conns res) \<union> conn_points E (allowed_conns r)"
    using conns.un_ok [of E "allowed_conns res" "allowed_conns r"] r res by (auto simp: fine_def)
  obtain d where d: "hc_ior (env_dims E) (denied_conns res) (denied_conns r) = Some d" "good_conns E d"
    "conn_points E d = conn_points E (denied_conns res) \<union> conn_points E (denied_conns r)"
    using conns.un_ok [of E "denied_conns res" "denied_conns r"] r res by (auto simp: fine_def)
  have cap: "ps_ok (ps_or (captured res) (captured r)) \<and>
      ps_points (ps_or (captured res) (captured r)) = ps_points (captured res) \<union> ps_points (captured r)"
    by (rule ps_or_ok) (use r res in \<open>simp_all add: fine_def ps_ok_def\<close>)
  let ?res = "res\<lparr>captured := ps_or (captured res) (captured r), all_allowed_conns := l,
    allowed_conns := (if calc_allowed flt then a else allowed_conns res),
    denied_conns := (if calc_denied flt then d else denied_conns res)\<rparr>"
  have "add_layer_conns E c flt hep (ls, res) (name, L) = Some (ls @ [(name, L')], ?res)"
    using layer sub l(1) a(1) d(1) all by (cases "calc_allowed flt"; cases "calc_denied flt") (simp_all add: add_layer_conns_def)
  then show ?thesis using l(2,3) a(2,3) d(2,3) cap res by (intro exI [of _ ?res]) (simp add: fine_def)
qed

text \<open>Subtracting nothing changes nothing.\<close>

lemma sub_nothing:
  assumes "fine E r" and "pass_conns r = make_empty_props" and "env_ok E" and "good_conns E hep" and "\<not> hc_bool hep"
  shows "sub_by_filter E r hep flt = Some r"
proof -
  have "hc_isub (env_dims E) t hep = Some t" if "good_conns E t" for t
    using conns.df_none [OF that assms(4,5)] .
  then show ?thesis
    using assms(1,2) empty_conns(1) [OF assms(3)]
    by (cases r) (simp add: sub_by_filter_def update_by_filter_def fine_def)
qed

definition layer_points :: "'f env \<Rightarrow> peer_container \<Rightarrow> 'f policy list \<Rightarrow> (dim \<Rightarrow> item) set" where
  "layer_points E c ps = direction_points E c True ps \<inter> direction_points E c False ps"

definition layer_rule_points :: "'f env \<Rightarrow> peer_container \<Rightarrow> 'f policy list \<Rightarrow> (dim \<Rightarrow> item) set" where
  "layer_rule_points E c ps =
     active_points E True ps \<inter> direction_points E c False ps \<union> active_points E False ps \<inter> direction_points E c True ps"

definition allow_entry :: "'f env \<Rightarrow> layer_name \<times> 'f network_layer \<Rightarrow> bool" where
  "allow_entry E entry \<longleftrightarrow>
     layer_kind (snd entry) = fst entry \<and> fst entry \<in> {K8s_Calico, K8s_Gateway} \<and>
     (\<forall>P\<in>set (policies_list (snd entry)). only_allows E P)"

lemma allow_entry_result:
  assumes E: "env_ok E" "words_ok E" and c: "container_ok E c" and entry: "allow_entry E (name, L)"
    and all: "calc_all_allowed flt"
  shows "\<exists>L' r. layer_allowed_connections E c flt L = Some (L', r) \<and> fine E r \<and> pass_conns r = make_empty_props \<and>
           conn_points E (all_allowed_conns r) = layer_points E c (policies_list L) \<and>
           conn_points E (allowed_conns r) = (if calc_allowed flt then layer_rule_points E c (policies_list L) else {}) \<and>
           conn_points E (denied_conns r) = {} \<and>
           ps_points (captured r) = captured_points True (policies_list L) \<union> captured_points False (policies_list L)"
proof -
  have "\<forall>P\<in>set (policies_list L). only_allows E P" "layer_kind L = K8s_Calico \<or> layer_kind L = K8s_Gateway"
    using entry by (auto simp: allow_entry_def)
  from layer_allows [OF E c this all refl] show ?thesis
    unfolding fine_def layer_points_def layer_rule_points_def by blast
qed

lemma add_allow_layers:
  assumes E: "env_ok E" "words_ok E" and c: "container_ok E c" and all: "calc_all_allowed flt"
    and hep: "good_conns E hep" "\<not> hc_bool hep"
    and "\<forall>entry\<in>set ls. allow_entry E entry" and "fine E res"
  shows "\<exists>ls' res'. fold_opt (add_layer_conns E c flt hep) (done, res) ls = Some (ls', res') \<and> fine E res' \<and>
           conn_points E (all_allowed_conns res') =
             conn_points E (all_allowed_conns res) \<inter> (\<Inter>(_, L)\<in>set ls. layer_points E c (policies_list L)) \<and>
           conn_points E (allowed_conns res') = conn_points E (allowed_conns res) \<union>
             (if calc_allowed flt then \<Union>(_, L)\<in>set ls. layer_rule_points E c (policies_list L) else {}) \<and>
           conn_points E (denied_conns res') = conn_points E (denied_conns res) \<and>
           ps_points (captured res') = ps_points (captured res) \<union>
             (\<Union>(_, L)\<in>set ls. captured_points True (policies_list L) \<union> captured_points False (policies_list L))"
  using assms(7,8)
proof (induction ls arbitrary: res "done")
  case (Cons entry ls)
  obtain name L where entry: "entry = (name, L)" by (cases entry)
  have "allow_entry E (name, L)" using Cons.prems(1) by (simp add: entry)
  from allow_entry_result [OF E c this all] obtain L' r where
    r: "layer_allowed_connections E c flt L = Some (L', r)" "fine E r" "pass_conns r = make_empty_props"
      "conn_points E (all_allowed_conns r) = layer_points E c (policies_list L)"
      "conn_points E (allowed_conns r) = (if calc_allowed flt then layer_rule_points E c (policies_list L) else {})"
      "conn_points E (denied_conns r) = {}"
      "ps_points (captured r) = captured_points True (policies_list L) \<union> captured_points False (policies_list L)"
    by blast
  have sub: "(if name \<noteq> K8s_Calico then sub_by_filter E r hep (without_all_allowed flt) else Some r) = Some r"
    using sub_nothing [OF r(2,3) E(1) hep] by simp
  obtain res1 where res1: "add_layer_conns E c flt hep (done, res) (name, L) = Some (done @ [(name, L')], res1)" "fine E res1"
    "conn_points E (all_allowed_conns res1) = conn_points E (all_allowed_conns res) \<inter> conn_points E (all_allowed_conns r)"
    "conn_points E (allowed_conns res1) =
       conn_points E (allowed_conns res) \<union> (if calc_allowed flt then conn_points E (allowed_conns r) else {})"
    "conn_points E (denied_conns res1) =
       conn_points E (denied_conns res) \<union> (if calc_denied flt then conn_points E (denied_conns r) else {})"
    "ps_points (captured res1) = ps_points (captured res) \<union> ps_points (captured r)"
    using add_layer_step [OF r(1) sub r(2) Cons.prems(2) all] by blast
  obtain ls' res' where res': "fold_opt (add_layer_conns E c flt hep) (done @ [(name, L')], res1) ls = Some (ls', res')"
    "fine E res'"
    "conn_points E (all_allowed_conns res') =
       conn_points E (all_allowed_conns res1) \<inter> (\<Inter>(_, L)\<in>set ls. layer_points E c (policies_list L))"
    "conn_points E (allowed_conns res') = conn_points E (allowed_conns res1) \<union>
       (if calc_allowed flt then \<Union>(_, L)\<in>set ls. layer_rule_points E c (policies_list L) else {})"
    "conn_points E (denied_conns res') = conn_points E (denied_conns res1)"
    "ps_points (captured res') = ps_points (captured res1) \<union>
       (\<Union>(_, L)\<in>set ls. captured_points True (policies_list L) \<union> captured_points False (policies_list L))"
    using Cons.IH [OF _ res1(2), of "done @ [(name, L')]"] Cons.prems(1) by auto
  have "fold_opt (add_layer_conns E c flt hep) (done, res) (entry # ls) = Some (ls', res')"
    using res1(1) res'(1) by (simp add: entry)
  then show ?case
    using res'(2-6) res1(3-6) r(4-7)
    by (intro exI [of _ ls'] exI [of _ res']) (simp add: entry Int_assoc Un_assoc)
qed simp

section \<open>Host endpoints\<close>

lemma peers_dims: "peers_dim ''src_peers''" "peers_dim ''dst_peers''"
  by simp_all

lemma side_conns:
  assumes E: "env_ok E" "words_ok E" and s: "peers_ok E s" and d: "peers_dim d"
  shows "\<exists>r. make_conn_props_from_dict E [(d, Ext_Peers s)] = Some r \<and> good_conns E r \<and>
           conn_points E r = dict_points E [(d, index_of (base_of E) ` ps_points s)]"
proof -
  have "list_all2 (\<lambda>(d, v) (d', X). d = d' \<and> sets_dim E d v X) [(d, Ext_Peers s)]
      [(d, index_of (base_of E) ` ps_points s)]"
    using peers_sets_dim [OF E(1) d] s by (simp add: peers_ok_def)
  from dict_conns [OF E this] show ?thesis by auto
qed

definition host_points :: "'f env \<Rightarrow> peer_container \<Rightarrow> (dim \<Rightarrow> item) set" where
  "host_points E c =
     (let H = index_of (base_of E) ` ps_points (filter is_host_ep (pc_peers c))
      in dict_points E [(''src_peers'', H)] \<union> dict_points E [(''dst_peers'', H)])"

lemma host_filter: "filter is_host_ep (filter (\<lambda>p. is_dns p \<longrightarrow> b) s) = filter is_host_ep s"
proof -
  have "is_host_ep p \<Longrightarrow> \<not> is_dns p" for p by (cases p) (simp_all add: is_host_ep_def is_dns_def)
  then show ?thesis unfolding filter_filter by (intro filter_cong) auto
qed

lemma host_conns_ok:
  assumes E: "env_ok E" "words_ok E" and c: "container_ok E c"
  shows "\<exists>hep. host_conns E (filter is_host_ep (pc_peers c)) = Some hep \<and> good_conns E hep \<and>
           conn_points E hep = host_points E c"
proof -
  have s: "peers_ok E (filter is_host_ep (pc_peers c))" by (rule container_peers_ok [OF c])
  obtain a where a: "make_conn_props_from_dict E [(''src_peers'', Ext_Peers (filter is_host_ep (pc_peers c)))] = Some a"
    "good_conns E a" "conn_points E a =
      dict_points E [(''src_peers'', index_of (base_of E) ` ps_points (filter is_host_ep (pc_peers c)))]"
    using side_conns [OF E s peers_dims(1)] by blast
  obtain b where b: "make_conn_props_from_dict E [(''dst_peers'', Ext_Peers (filter is_host_ep (pc_peers c)))] = Some b"
    "good_conns E b" "conn_points E b =
      dict_points E [(''dst_peers'', index_of (base_of E) ` ps_points (filter is_host_ep (pc_peers c)))]"
    using side_conns [OF E s peers_dims(2)] by blast
  obtain r where "hc_or (env_dims E) a b = Some r" "good_conns E r" "conn_points E r = conn_points E a \<union> conn_points E b"
    using or_conns [OF a(2) b(2)] by blast
  then show ?thesis using a(1,3) b(1,3) by (simp add: host_conns_def host_points_def Let_def)
qed

text \<open>Without host endpoints, no connection involves one.\<close>

lemma no_peers_conns:
  fixes E :: "'f env"
  assumes E: "env_ok E" and d: "peers_dim d"
  shows "make_conn_props_from_dict E [(d, Ext_Peers [])] = Some (make_empty_props :: 'f dim_value hcs)"
proof -
  have s: "sets_dim E d (Ext_Peers []) {}"
    using peers_sets_dim [OF E d, of "[]"] by (simp add: ps_ok_def set_ok_def)
  obtain c where c: "new_cube E [] = Some c" "cube_ok E c" "cc_named c = []" "cc_excluded c = []"
    using new_cube_ok [OF E] by blast
  obtain c' xs where c': "set_item E c d (Ext_Peers []) = Some c'" "cube_ok E c'" "cube_val c' = (cube_val c)(d := Intervals xs)"
    "int_canonical xs" "iset_set xs = {}" "cc_named c' = cc_named c" "cc_excluded c' = cc_excluded c"
    using s c(2) unfolding sets_dim_def by blast
  have "xs = []" using c'(4,5) int_points.iset_bool_set [OF c'(4)] by simp
  moreover have "d \<in> set all_dimensions_list" "d \<notin> {''hosts'', ''paths''}" using s by (simp_all add: sets_dim_def)
  moreover have "env_empty E d = Intervals []" using env_interval_dims(2) [OF E] calculation(2,3) by blast
  ultimately have "cube_is_empty E c' = Some True"
    using cube_is_empty_ok [OF E c'(2)] c'(3,6,7) c(3,4) by auto
  then have plain: "plain_conn_props E c' = Some make_empty_props" by (simp add: plain_conn_props_def)
  obtain x where src: "get_item E c' ''src_ports'' = Some x"
    by (rule get_ports_item [OF E c'(2), of "''src_ports''"]) (auto intro: that)
  obtain a where dst: "get_item E c' ''dst_ports'' = Some (Ext_Ports a)" "named a = []" "excluded a = []"
    using c'(6,7) c(3,4) by (rule_tac get_ports_item [OF E c'(2), of "''dst_ports''"]) (auto intro: that)
  show ?thesis
    using c(1) c'(1) src dst plain
    by (simp add: make_conn_props_from_dict_def make_from_dict_def cube_update_def make_conn_props_def)
qed

lemma no_host_conns:
  fixes E :: "'f env"
  assumes "env_ok E"
  shows "host_conns E [] = Some (make_empty_props :: 'f dim_value hcs)" and "\<not> hc_bool (make_empty_props :: 'f dim_value hcs)"
proof -
  show b: "\<not> hc_bool (make_empty_props :: 'f dim_value hcs)" using empty_props_ok [OF assms] by simp
  have "hc_or (env_dims E) make_empty_props make_empty_props = hc_ior (env_dims E) make_empty_props make_empty_props"
    by (rule dim_values.hc_copy_or [OF env_values [OF assms]])
  moreover note conns.un_none [OF empty_conns(1) [OF assms] empty_conns(1) [OF assms] b]
  ultimately show "host_conns E [] = Some (make_empty_props :: 'f dim_value hcs)"
    by (simp add: host_conns_def no_peers_conns [OF assms])
qed

section \<open>What a configuration allows\<close>

lemma new_conns_fine:
  assumes "env_ok E" and "good_conns E t"
  shows "fine E (new_policy_connections\<lparr>all_allowed_conns := t\<rparr>)"
  using assms empty_conns(1) [OF assms(1)] by (simp add: fine_def new_policy_connections_def ps_ok_def set_ok_def)

definition everything :: "'f env \<Rightarrow> peer_container \<Rightarrow> (dim \<Rightarrow> item) set" where
  "everything E c = between E (known_points c True \<union> range Address) (known_points c True \<union> range Address)"

lemma all_pairs_ok:
  assumes E: "env_ok E" "words_ok E" and c: "container_ok E c"
  shows "\<exists>t. all_conns_props_per_config_peers E c = Some t \<and> good_conns E t \<and> conn_points E t = everything E c"
proof -
  obtain s where s: "get_all_peers_group c True True True = Some s" "peers_ok E s"
    "ps_points s = known_points c True \<union> range Address" using group_ok(2) [OF c] by blast
  obtain t where "conns_between E s s = Some t" "good_conns E t" "conn_points E t = between E (ps_points s) (ps_points s)"
    using between_conns [OF E s(2) s(2)] by blast
  then show ?thesis using s by (simp add: all_conns_props_per_config_peers_def everything_def)
qed

lemma and_allowed_last:
  assumes "fine E res"
  shows "\<exists>a. (if calc_allowed flt then hc_iand (env_dims E) (allowed_conns res) (all_allowed_conns res)
              else Some (allowed_conns res)) = Some a \<and>
           conn_points E a = conn_points E (allowed_conns res) \<inter>
             (if calc_allowed flt then conn_points E (all_allowed_conns res) else UNIV)"
  using iand_conns [of E "allowed_conns res" "all_allowed_conns res"] assms by (auto simp: fine_def)

lemma host_peers: "filter is_host_ep (filter (\<lambda>p. is_dns p \<longrightarrow> False) (pc_peers c)) = filter is_host_ep (pc_peers c)"
  by (rule host_filter)

text \<open>
  C1. In a configuration without host endpoints whose layers are only that of Kubernetes and Calico
  and that of Kubernetes gateways, and whose policies only allow (Kubernetes policies, and gateway
  policies that allow), asked with a filter that wants all allowed connections: the configuration
  computes its specification and never raises. (With host endpoints it does not, as shown
  below; the layers of Istio have other defaults.) All allowed connections are those
  between peers of the configuration and addresses that every layer allows; the allowed ones are
  those of them that a rule of some layer allows; nothing is denied; a peer is captured when a
  policy of some layer captures it.
\<close>

theorem config_allow_semantics:
  assumes "env_ok E" and "words_ok E" and "container_ok E (conf_peers C)"
    and "\<forall>entry\<in>set (pol_layers (conf_policies C)). allow_entry E entry"
    and "filter is_host_ep (pc_peers (conf_peers C)) = []" and "calc_all_allowed flt"
    and "ls = map (policies_list \<circ> snd) (pol_layers (conf_policies C))" and "c = conf_peers C"
    and "A = everything E c \<inter> (\<Inter>ps\<in>set ls. layer_points E c ps)"
  shows "\<exists>C' r. config_allowed_connections E flt None C = Some (C', r) \<and>
           conn_points E (all_allowed_conns r) = A \<and>
           conn_points E (allowed_conns r) = (if calc_allowed flt then A \<inter> (\<Union>ps\<in>set ls. layer_rule_points E c ps) else {}) \<and>
           conn_points E (denied_conns r) = {} \<and>
           ps_points (captured r) = (\<Union>ps\<in>set ls. captured_points True ps \<union> captured_points False ps)"
proof -
  note e = empty_conns(1,2) [OF assms(1)]
  have c: "container_ok E c" and all: "calc_all_allowed flt" using assms(3,6,8) by simp_all
  have hosts: "filter is_host_ep (filter (\<lambda>p. is_dns p \<longrightarrow> False) (pc_peers c)) = []"
    using assms(5,8) host_peers [of c] by simp
  have group: "get_all_peers_group c False True False = Some (filter (\<lambda>p. is_dns p \<longrightarrow> False) (pc_peers c))"
    using group_ok(1) [OF c, of False] by simp
  obtain t where t: "all_conns_props_per_config_peers E c = Some t" "good_conns E t" "conn_points E t = everything E c"
    using all_pairs_ok [OF assms(1,2) c] by blast
  let ?start = "new_policy_connections\<lparr>all_allowed_conns := t\<rparr>" and ?hep = "make_empty_props :: 'a dim_value hcs"
  obtain ls' res where res:
    "fold_opt (add_layer_conns E c flt ?hep) ([], ?start) (pol_layers (conf_policies C)) = Some (ls', res)" "fine E res"
    "conn_points E (all_allowed_conns res) = conn_points E (all_allowed_conns ?start) \<inter>
       (\<Inter>(_, L)\<in>set (pol_layers (conf_policies C)). layer_points E c (policies_list L))"
    "conn_points E (allowed_conns res) = conn_points E (allowed_conns ?start) \<union>
       (if calc_allowed flt then \<Union>(_, L)\<in>set (pol_layers (conf_policies C)). layer_rule_points E c (policies_list L) else {})"
    "conn_points E (denied_conns res) = conn_points E (denied_conns ?start)"
    "ps_points (captured res) = ps_points (captured ?start) \<union> (\<Union>(_, L)\<in>set (pol_layers (conf_policies C)).
       captured_points True (policies_list L) \<union> captured_points False (policies_list L))"
    using add_allow_layers [OF assms(1,2) c all e(1) no_host_conns(2) [OF assms(1)] assms(4)
        new_conns_fine [OF assms(1) t(2)], of "[]"] by blast
  have start: "conn_points E (allowed_conns ?start) = {}" "conn_points E (denied_conns ?start) = {}" "captured ?start = []"
    using e(2) by (simp_all add: new_policy_connections_def)
  have A: "conn_points E (all_allowed_conns res) = A" using res(3) t(3) by (auto simp: assms(7,9))
  obtain a where a: "(if calc_allowed flt then hc_iand (env_dims E) (allowed_conns res) (all_allowed_conns res)
      else Some (allowed_conns res)) = Some a" "conn_points E a = conn_points E (allowed_conns res) \<inter>
      (if calc_allowed flt then conn_points E (all_allowed_conns res) else UNIV)"
    using and_allowed_last [OF res(2)] by blast
  have "config_allowed_connections E flt None C = Some (C\<lparr>conf_policies := (conf_policies C)\<lparr>pol_layers := ls'\<rparr>\<rparr>,
      res\<lparr>allowed_conns := a\<rparr>)"
    unfolding config_allowed_connections_def Let_def
    using group hosts no_host_conns(1) [OF assms(1)] all t(1) res(1) a(1)
    by (simp add: initial_conns_def assms(8) [symmetric] split del: if_split)
  moreover have "conn_points E a =
      (if calc_allowed flt then A \<inter> (\<Union>ps\<in>set ls. layer_rule_points E c ps) else {})"
    using a(2) A res(4) start(1) by (auto simp: assms(7))
  ultimately show ?thesis using A res(5,6) start(2,3) by (auto simp: assms(7))
qed

definition isolating_config :: "string set network_config" where
  "isolating_config =
     \<lparr>conf_name = ''isolate'', conf_peers = pods_container,
      conf_policies = \<lparr>policies = [((''default/isolate'', K8sNetworkPolicy), isolate_a)],
                      pol_layers = [(K8s_Calico, create_network_layer K8s_Calico [isolate_a])]\<rparr>,
      conf_debug = False, conf_labels = None\<rparr>"

theorem config_allow_semantics_witness:
  "\<exists>C' r. config_allowed_connections two_pods_env only_allowed_connections None isolating_config = Some (C', r) \<and>
     conn_points two_pods_env (allowed_conns r) = {} \<and> ps_points (captured r) = {Member (Pod_Key ''default/a'')}"
proof -
  have w: "words_ok two_pods_env" using two_pods_query_env by (simp add: query_env_def)
  have c: "container_ok two_pods_env (conf_peers isolating_config)"
    using pods_container_peers by (simp add: isolating_config_def)
  have entry: "\<forall>entry\<in>set (pol_layers (conf_policies isolating_config)). allow_entry two_pods_env entry"
    using isolate_a_ok by (simp add: isolating_config_def allow_entry_def create_network_layer_def)
  have hosts: "filter is_host_ep (pc_peers (conf_peers isolating_config)) = []"
    by (simp add: isolating_config_def pods_container_def is_host_ep_def example_pod_def)
  have flt: "calc_all_allowed only_allowed_connections"
    by (simp add: only_allowed_connections_def mk_conns_filter_def)
  have ls: "[[isolate_a]] = map (policies_list \<circ> snd) (pol_layers (conf_policies isolating_config))"
    by (simp add: isolating_config_def create_network_layer_def)
  have pts: "active_points two_pods_env i [isolate_a] = {}" for i
    by (auto simp: active_points_def isolate_a_def new_policy_def)
  have cap: "captured_points True [isolate_a] \<union> captured_points False [isolate_a] = {Member (Pod_Key ''default/a'')}"
    using not_ip_points [of "example_pod ''a''"]
    by (simp add: captured_points_def isolate_a_def captured_peers_def new_policy_def)
  have rules: "layer_rule_points two_pods_env c [isolate_a] = {}" for c by (simp add: layer_rule_points_def pts)
  show ?thesis
    using config_allow_semantics [OF two_pods_env_ok w c entry hosts flt ls refl refl] by (auto simp: rules cap)
qed

section \<open>Host endpoints and other layers\<close>

lemma empty_layer_entry: "allow_entry E (K8s_Calico, create_network_layer K8s_Calico [])"
  by (simp add: allow_entry_def create_network_layer_def)

text \<open>The filter without all allowed connections still has them when allowed ones are asked for.\<close>

lemma without_all_allowed_simps [simp]:
  "calc_allowed (without_all_allowed flt) = calc_allowed flt" "calc_denied (without_all_allowed flt) = calc_denied flt"
  "calc_pass (without_all_allowed flt) = calc_pass flt" "calc_all_allowed (without_all_allowed flt) = calc_allowed flt"
  by (simp_all add: without_all_allowed_def mk_conns_filter_def)

lemma start_with_hosts:
  assumes E: "env_ok E" "words_ok E" and c: "container_ok E c" and all: "calc_all_allowed flt"
    and hep: "good_conns E hep"
  shows "\<exists>res. initial_conns E c flt True hep = Some res \<and> fine E res \<and> conn_points E (allowed_conns res) = {} \<and>
           conn_points E (all_allowed_conns res) =
             layer_points E c [] \<inter> (if calc_allowed flt then conn_points E hep else UNIV)"
proof -
  obtain L' r where r: "layer_allowed_connections E c flt (create_network_layer K8s_Calico []) = Some (L', r)" "fine E r"
    "pass_conns r = make_empty_props" "conn_points E (all_allowed_conns r) = layer_points E c []"
    "conn_points E (allowed_conns r) = (if calc_allowed flt then layer_rule_points E c [] else {})"
    using allow_entry_result [OF E c empty_layer_entry all] by (auto simp: create_network_layer_def)
  have cut: "\<exists>u. (if b then hc_iand (env_dims E) t hep else Some t) = Some u \<and> good_conns E u \<and>
      conn_points E u = conn_points E t \<inter> (if b then conn_points E hep else UNIV)" if "good_conns E t" for b t
    using iand_conns [OF that hep] that by auto
  obtain a where a: "(if calc_allowed flt then hc_iand (env_dims E) (allowed_conns r) hep else Some (allowed_conns r)) = Some a"
    "good_conns E a" "conn_points E a = conn_points E (allowed_conns r) \<inter> (if calc_allowed flt then conn_points E hep else UNIV)"
    using cut [of "allowed_conns r" "calc_allowed flt"] r(2) by (auto simp: fine_def)
  obtain d where d: "(if calc_denied flt then hc_iand (env_dims E) (denied_conns r) hep else Some (denied_conns r)) = Some d"
    "good_conns E d" using cut [of "denied_conns r" "calc_denied flt"] r(2) by (auto simp: fine_def)
  obtain p where p: "(if calc_pass flt then hc_iand (env_dims E) (pass_conns r) hep else Some (pass_conns r)) = Some p"
    using cut [of "pass_conns r" "calc_pass flt"] empty_conns(1) [OF E(1)] r(3) by auto
  obtain l where l: "(if calc_allowed flt then hc_iand (env_dims E) (all_allowed_conns r) hep else Some (all_allowed_conns r)) = Some l"
    "good_conns E l"
    "conn_points E l = conn_points E (all_allowed_conns r) \<inter> (if calc_allowed flt then conn_points E hep else UNIV)"
    using cut [of "all_allowed_conns r" "calc_allowed flt"] r(2) by (auto simp: fine_def)
  let ?res = "r\<lparr>allowed_conns := a, denied_conns := d, pass_conns := p, all_allowed_conns := l\<rparr>"
  have "initial_conns E c flt True hep = Some ?res"
    using r(1) a(1) d(1) p l(1)
    by (simp add: initial_conns_def empty_layer_allowed_connections_def and_by_filter_def update_by_filter_def Let_def
        split del: if_split)
  moreover have "layer_rule_points E c [] = {}" by (simp add: layer_rule_points_def active_points_def)
  ultimately show ?thesis
    using r(2,4,5) a(2,3) d(2) l(2,3) by (intro exI [of _ ?res]) (simp add: fine_def)
qed

text \<open>Subtracting from sets that are not empty.\<close>

lemma sub_hosts:
  assumes "fine E r" and "good_conns E hep" and "pass_conns r = make_empty_props" and "\<not> calc_denied flt"
    and "calc_allowed flt \<Longrightarrow> conn_points E (allowed_conns r) \<noteq> {} \<and> conn_points E (all_allowed_conns r) \<noteq> {}"
  shows "\<exists>r'. sub_by_filter E r hep (without_all_allowed flt) = Some r' \<and> fine E r' \<and>
           conn_points E (all_allowed_conns r') =
             conn_points E (all_allowed_conns r) - (if calc_allowed flt then conn_points E hep else {})"
proof -
  have E: "env_ok E" using assms(2) by (simp add: good_conns_def)
  have cut: "\<exists>u. hc_isub (env_dims E) t hep = Some u \<and> good_conns E u \<and> conn_points E u = conn_points E t - conn_points E hep"
    if "good_conns E t" "conn_points E t \<noteq> {}" for t
    using conns.df_points [OF that(1) assms(2)] conns.not_full [OF that(1)] that(2) by blast
  have good: "good_conns E (allowed_conns r)" "good_conns E (all_allowed_conns r)" using assms(1) by (simp_all add: fine_def)
  obtain a where a: "(if calc_allowed flt then hc_isub (env_dims E) (allowed_conns r) hep else Some (allowed_conns r)) = Some a"
    "good_conns E a" using cut [OF good(1)] assms(5) good(1) by (cases "calc_allowed flt") auto
  obtain l where l: "(if calc_allowed flt then hc_isub (env_dims E) (all_allowed_conns r) hep else Some (all_allowed_conns r)) = Some l"
    "good_conns E l"
    "conn_points E l = conn_points E (all_allowed_conns r) - (if calc_allowed flt then conn_points E hep else {})"
    using cut [OF good(2)] assms(5) good(2) by (cases "calc_allowed flt") auto
  obtain p where p: "(if calc_pass flt then hc_isub (env_dims E) (pass_conns r) hep else Some (pass_conns r)) = Some p"
    using empty_minus [OF E assms(2)] assms(3) by (cases "calc_pass flt") auto
  let ?r = "r\<lparr>allowed_conns := a, denied_conns := denied_conns r, pass_conns := p, all_allowed_conns := l\<rparr>"
  have "sub_by_filter E r hep (without_all_allowed flt) = Some ?r"
    using a(1) l(1) p assms(4) by (simp add: sub_by_filter_def update_by_filter_def Let_def split del: if_split)
  then show ?thesis using assms(1) a(2) l(2,3) by (intro exI [of _ ?r]) (simp add: fine_def)
qed

text \<open>
  C3. Host endpoints, no layer of Calico, and one layer of gateway policies that only allow, some
  of whose rules allow a connection. Asked for all allowed connections only, the configuration
  gives those that the empty layer of Calico and the layer of gateways both allow. Asked for the
  allowed connections too, it gives no connection at all: the start keeps only the connections of
  host endpoints, and the layer of gateways loses exactly these.
\<close>

theorem hosts_lose_all_allowed:
  assumes "env_ok E" and "words_ok E" and "container_ok E (conf_peers C)"
    and "pol_layers (conf_policies C) = [(K8s_Gateway, L)]" and "allow_entry E (K8s_Gateway, L)"
    and "filter is_host_ep (pc_peers (conf_peers C)) \<noteq> []"
    and "calc_all_allowed flt" and "\<not> calc_denied flt" and "c = conf_peers C"
    and "layer_rule_points E c (policies_list L) \<noteq> {}"
  shows "\<exists>C' r. config_allowed_connections E flt None C = Some (C', r) \<and>
           conn_points E (all_allowed_conns r) =
             (if calc_allowed flt then {} else layer_points E c [] \<inter> layer_points E c (policies_list L)) \<and>
           conn_points E (allowed_conns r) = {}"
proof -
  have c: "container_ok E c" using assms(3,9) by simp
  let ?hosts = "filter is_host_ep (pc_peers c)"
  have hosts: "filter is_host_ep (filter (\<lambda>p. is_dns p \<longrightarrow> False) (pc_peers c)) = ?hosts" "?hosts \<noteq> []"
    using host_peers [of c] assms(6,9) by simp_all
  have group: "get_all_peers_group c False True False = Some (filter (\<lambda>p. is_dns p \<longrightarrow> False) (pc_peers c))"
    using group_ok(1) [OF c, of False] by simp
  obtain hep where hep: "host_conns E ?hosts = Some hep" "good_conns E hep"
    using host_conns_ok [OF assms(1,2) c] by blast
  obtain start where start: "initial_conns E c flt True hep = Some start" "fine E start" "conn_points E (allowed_conns start) = {}"
    "conn_points E (all_allowed_conns start) = layer_points E c [] \<inter> (if calc_allowed flt then conn_points E hep else UNIV)"
    using start_with_hosts [OF assms(1,2) c assms(7) hep(2)] by blast
  obtain L' r where r: "layer_allowed_connections E c flt L = Some (L', r)" "fine E r" "pass_conns r = make_empty_props"
    "conn_points E (all_allowed_conns r) = layer_points E c (policies_list L)"
    "conn_points E (allowed_conns r) = (if calc_allowed flt then layer_rule_points E c (policies_list L) else {})"
    using allow_entry_result [OF assms(1,2) c assms(5,7)] by blast
  have "layer_rule_points E c (policies_list L) \<subseteq> layer_points E c (policies_list L)"
    by (auto simp: layer_rule_points_def layer_points_def direction_points_def)
  then obtain r' where r': "sub_by_filter E r hep (without_all_allowed flt) = Some r'" "fine E r'"
    "conn_points E (all_allowed_conns r') =
       conn_points E (all_allowed_conns r) - (if calc_allowed flt then conn_points E hep else {})"
    using sub_hosts [OF r(2) hep(2) r(3) assms(8)] assms(10) r(4,5) by auto
  have sub: "(if K8s_Gateway \<noteq> K8s_Calico then sub_by_filter E r hep (without_all_allowed flt) else Some r) = Some r'"
    using r'(1) by simp
  obtain res where res: "add_layer_conns E c flt hep ([], start) (K8s_Gateway, L) = Some ([(K8s_Gateway, L')], res)" "fine E res"
    "conn_points E (all_allowed_conns res) = conn_points E (all_allowed_conns start) \<inter> conn_points E (all_allowed_conns r')"
    "conn_points E (allowed_conns res) =
       conn_points E (allowed_conns start) \<union> (if calc_allowed flt then conn_points E (allowed_conns r') else {})"
    using add_layer_step [OF r(1) sub r'(2) start(2) assms(7), of "[]"] by (auto simp del: without_all_allowed_simps)
  obtain a where a: "(if calc_allowed flt then hc_iand (env_dims E) (allowed_conns res) (all_allowed_conns res)
      else Some (allowed_conns res)) = Some a" "conn_points E a = conn_points E (allowed_conns res) \<inter>
      (if calc_allowed flt then conn_points E (all_allowed_conns res) else UNIV)"
    using and_allowed_last [OF res(2)] by blast
  have "config_allowed_connections E flt None C =
      Some (C\<lparr>conf_policies := (conf_policies C)\<lparr>pol_layers := [(K8s_Gateway, L')]\<rparr>\<rparr>, res\<lparr>allowed_conns := a\<rparr>)"
    unfolding config_allowed_connections_def Let_def
    using group hosts hep(1) start(1) res(1) a(1) by (simp add: assms(4) assms(9) [symmetric] split del: if_split)
  then show ?thesis
    using a(2) res(3,4) start(3,4) r'(3) r(4) by (cases "calc_allowed flt") (auto simp: Int_assoc)
qed

text \<open>A configuration with a pod, a host endpoint and a gateway policy that lets everything into the pod.\<close>

lemma language_peer_domains:
  assumes "int_canonical xs" and "xs \<noteq> []" and "base_ok B" and "E = language_env xs B"
  shows "env_ok E" and "words_ok E" and "peers_dim d \<Longrightarrow> env_domain E d = Intervals xs"
proof -
  obtain dt where dt: "init_dim_table languages xs = Some dt"
    using init_dim_table_ok [OF languages_regexes assms(1,2)] by blast
  show "env_domain E d = Intervals xs" if "peers_dim d"
    using dt that
    by (auto simp: assms(4) language_env_def env_domain_def init_dim_table_def Let_def dict_of_list_def
        get_dimension_domain_by_name_def split: bind_splits)
  show "env_ok E" unfolding assms(4) by (rule language_env_ok [OF assms(1-3)])
  show "words_ok E" using language_words [OF _ assms(1,2)] by (auto simp: words_ok_def assms(4))
qed

lemma between_point:
  assumes E: "env_ok E" and dom: "\<And>d. peers_dim d \<Longrightarrow> env_domain E d = Intervals xs" and can: "int_canonical xs"
    and e: "e \<in> S" "index_of (base_of E) e \<in> iset_set xs" and f: "f \<in> T" "index_of (base_of E) f \<in> iset_set xs"
  shows "between E S T \<noteq> {}"
proof -
  have dims: "get_dimension_domain_by_name (table_of E) d = Some (Intervals xs)"
    if "d = ''src_peers'' \<or> d = ''dst_peers''" for d
  proof -
    have "peers_dim d" using that by auto
    then show ?thesis using env_domain_ok(1) [OF E] peers_dim_in dom by simp
  qed
  obtain p where p: "point_in (fsm_of E) (table_of E) all_dimensions_list p"
    using dim_values.space_point [OF env_values [OF E]] by blast
  let ?p = "p(''src_peers'' := Num (index_of (base_of E) e), ''dst_peers'' := Num (index_of (base_of E) f))"
  have mem: "iset_mem (index_of (base_of E) e) xs" "iset_mem (index_of (base_of E) f) xs"
    using e(2) f(2) int_points.iset_mem_iff [OF can] by simp_all
  have "v_mem (env_dims E) (?p d) w"
    if "d \<in> set all_dimensions_list" "dim_domain (env_dims E) d = Some w" for d w
    using that dims [of d] mem dim_values.in_space_mem [OF env_values [OF E] p that] by (auto simp: fun_upd_apply)
  then have "point_in (fsm_of E) (table_of E) all_dimensions_list ?p"
    using p unfolding in_space_def list_all_iff by (auto split: option.splits)
  then have "?p \<in> between E S T" using e(1) f(1) by (simp add: between_def)
  then show ?thesis by blast
qed

definition example_host :: peer where
  "example_host = Host_Peer \<lparr>pname = ''node'', pnamespace = None, labels = [], extra_labels = [], named_ports = [], profiles = []\<rparr>"

definition host_numbering :: base_peers where
  "host_numbering =
     \<lparr>ordered_peer_list = [example_pod ''a'', example_host], peer_to_index = [(example_pod ''a'', 0), (example_host, 1)]\<rparr>"

definition host_env :: "string set env" where
  "host_env = language_env [Interval min_ipv4_index max_ipv4_index, Interval min_pod_index (min_pod_index + 1)] host_numbering"

definition hosts_container :: peer_container where
  "hosts_container =
     \<lparr>pc_peers = [example_pod ''a'', example_host], representative_peers = [], livesim_peers = [],
      namespaces = [], services = []\<rparr>"

definition let_in :: "string set gateway_policy" where
  "let_in = (new_gateway_policy ''gw'' None Allow_Action '''' 0 '''')\<lparr>selected_peers := [example_pod ''a''],
     affects_ingress := True, ingress_rules := [mk_peer_rule [] make_all_props]\<rparr>"

definition hosts_config :: "string set network_config" where
  "hosts_config =
     \<lparr>conf_name = ''hosts'', conf_peers = hosts_container,
      conf_policies = \<lparr>policies = [((''gw'', GatewayPolicy), Gateway_Policy let_in)],
                      pol_layers = [(K8s_Gateway, create_network_layer K8s_Gateway [Gateway_Policy let_in])]\<rparr>,
      conf_debug = False, conf_labels = None\<rparr>"

lemma host_example:
  "base_of host_env = host_numbering" "env_ok host_env" "words_ok host_env"
  "peers_dim d \<Longrightarrow> env_domain host_env d =
     Intervals [Interval min_ipv4_index max_ipv4_index, Interval min_pod_index (min_pod_index + 1)]"
  "container_ok host_env hosts_container"
proof -
  have key: "peer_key example_host = Host_Key ''node''" "peer_ok example_host" "\<not> is_ip example_host"
    by (simp_all add: example_host_def)
  have B: "base_ok host_numbering"
    using key by (simp add: base_ok_def host_numbering_def peers.ok_distinct max_num_of_pods_def)
  show base: "base_of host_env = host_numbering" by (simp add: host_env_def language_env_def)
  have can: "int_canonical [Interval min_ipv4_index max_ipv4_index, Interval min_pod_index (min_pod_index + 1)]"
    by (simp add: canonical_def iv_valid_def index_defs)
  note dom = language_peer_domains [OF can _ B host_env_def]
  show "env_ok host_env" "words_ok host_env" using dom(1,2) by simp_all
  show "env_domain host_env d =
     Intervals [Interval min_ipv4_index max_ipv4_index, Interval min_pod_index (min_pod_index + 1)]" if "peers_dim d"
    using dom(3) that by simp
  show "container_ok host_env hosts_container"
    using key by (simp add: container_ok_def hosts_container_def base ps_ok_def peers.ok_distinct numbered_def host_numbering_def)
qed

lemma let_in_ok: "only_allows host_env (Gateway_Policy let_in)"
  using full_conns(1) [OF host_example(2)]
  by (simp add: only_allows_def joined_ok_def let_in_def new_gateway_policy_def new_policy_def network_policy.defs
      mk_peer_rule_def ps_ok_def peers.ok_distinct)

lemma let_in_points: "layer_rule_points host_env hosts_container [Gateway_Policy let_in] \<noteq> {}"
proof -
  have cap: "captures True (Gateway_Policy let_in) = [example_pod ''a'']" "captures False (Gateway_Policy let_in) = []"
    by (simp_all add: let_in_def new_gateway_policy_def new_policy_def network_policy.defs captured_peers_def)
  have act: "active_points host_env True [Gateway_Policy let_in] =
      {p. point_in (fsm_of host_env) (table_of host_env) all_dimensions_list p}"
    using full_conns(2) [OF host_example(2)]
    by (simp add: active_points_def let_in_def new_gateway_policy_def new_policy_def network_policy.defs
        captured_peers_def mk_peer_rule_def)
  have plain: "plain_points hosts_container = {Member (Pod_Key ''default/a'')}"
  proof -
    have "\<not> is_host_ep (example_pod ''a'')" "is_host_ep example_host"
      by (simp_all add: is_host_ep_def example_pod_def example_host_def)
    then show ?thesis
      using not_ip_points [of "example_pod ''a''"] by (simp add: plain_points_def hosts_container_def)
  qed
  have dir: "between host_env {Member (Pod_Key ''default/a'')} (range Address) \<subseteq>
      direction_points host_env hosts_container False [Gateway_Policy let_in]"
    by (auto simp: direction_points_def default_points_def directed_def between_def captured_points_def plain cap(2)
        simp del: captures.simps)
  have "between host_env {Member (Pod_Key ''default/a'')} (range Address) \<noteq> {}"
    using between_point [OF host_example(2,4), of "Member (Pod_Key ''default/a'')" "{Member (Pod_Key ''default/a'')}"
        "Address (IPv4 0)" "range Address"]
    by (simp add: host_example(1) index_of_def host_numbering_def position_def canonical_def iv_valid_def iv_set_def index_defs)
  then obtain p where p: "p \<in> between host_env {Member (Pod_Key ''default/a'')} (range Address)" by blast
  then have "p \<in> active_points host_env True [Gateway_Policy let_in]" by (simp add: act between_def)
  then show ?thesis using p dir by (auto simp: layer_rule_points_def)
qed

theorem hosts_lose_all_allowed_witness:
  "\<exists>C' r. config_allowed_connections host_env only_allowed_connections None hosts_config = Some (C', r) \<and>
     conn_points host_env (all_allowed_conns r) = {} \<and> conn_points host_env (allowed_conns r) = {}"
proof -
  let ?L = "create_network_layer K8s_Gateway [Gateway_Policy let_in]"
  have L: "pol_layers (conf_policies hosts_config) = [(K8s_Gateway, ?L)]" "hosts_container = conf_peers hosts_config"
    "layer_rule_points host_env hosts_container (policies_list ?L) \<noteq> {}" "container_ok host_env (conf_peers hosts_config)"
    using let_in_points host_example(5) by (simp_all add: hosts_config_def create_network_layer_def)
  have entry: "allow_entry host_env (K8s_Gateway, ?L)"
    using let_in_ok by (simp add: allow_entry_def create_network_layer_def)
  have hosts: "filter is_host_ep (pc_peers (conf_peers hosts_config)) \<noteq> []"
    by (simp add: hosts_config_def hosts_container_def is_host_ep_def example_host_def)
  have flt: "calc_all_allowed only_allowed_connections" "\<not> calc_denied only_allowed_connections"
    "calc_allowed only_allowed_connections"
    by (simp_all add: only_allowed_connections_def mk_conns_filter_def)
  show ?thesis
    using hosts_lose_all_allowed [OF host_example(2,3) L(4,1) entry hosts flt(1,2) L(2,3)] flt(3) by auto
qed

section \<open>The order of the queue\<close>

text \<open>The policies of a document in the order in which they stand, lists inside lists included.\<close>

function found_policies :: "string \<Rightarrow> yaml \<Rightarrow> parse_queue option" where
  "found_policies file y =
     (case get_policy_type_from_dict y of
        Unknown \<Rightarrow> Some []
      | List_Type \<Rightarrow>
          (case y of
             Yaml_Dict kvs \<Rightarrow>
               (case yaml_iter (yaml_items kvs) of
                  None \<Rightarrow> None
                | Some xs \<Rightarrow> map_option concat (map_opt (found_policies file) xs))
           | _ \<Rightarrow> None)
      | ty \<Rightarrow> Some [(y, file, ty)])"
  by pat_completeness auto
termination by (relation "measure (\<lambda>(file, y). yaml_depth y)") (auto simp: yaml_items_depth)

declare found_policies.simps [simp del]

definition enqueue :: "parse_queue \<Rightarrow> parse_queue \<Rightarrow> parse_queue" where
  "enqueue q es =
     rev (filter (\<lambda>(_, _, ty). ty = CalicoProfile) es) @ q @ filter (\<lambda>(_, _, ty). ty \<noteq> CalicoProfile) es"

lemma enqueue_simps [simp]: "enqueue q [] = q" "enqueue q (es @ fs) = enqueue (enqueue q es) fs"
  by (simp_all add: enqueue_def)

lemma fold_enqueue:
  assumes "\<And>x q. x \<in> set xs \<Longrightarrow> f q x = map_option (enqueue q) (g x)"
  shows "fold_opt f q xs = map_option (\<lambda>es. enqueue q (concat es)) (map_opt g xs)"
  using assms
proof (induction xs arbitrary: q)
  case (Cons x xs)
  then show ?case by (cases "g x"; cases "map_opt g xs") auto
qed simp

lemma parse_enqueues: "parse_yaml_code_for_policy file q y = map_option (enqueue q) (found_policies file y)"
proof (induction y arbitrary: q rule: measure_induct_rule [where f = yaml_depth])
  case (less y)
  show ?case
  proof (cases "get_policy_type_from_dict y = List_Type")
    case True
    show ?thesis
    proof (cases y)
      case (Yaml_Dict kvs)
      show ?thesis
      proof (cases "yaml_iter (yaml_items kvs)")
        case (Some xs)
        have "parse_yaml_code_for_policy file q x = map_option (enqueue q) (found_policies file x)" if "x \<in> set xs" for x q
          using less [of x q] yaml_items_depth [OF Some that] Yaml_Dict by simp
        from fold_enqueue [of xs "parse_yaml_code_for_policy file" "found_policies file" q, OF this] show ?thesis
          using True Some unfolding parse_yaml_code_for_policy.simps [where y = y] found_policies.simps [where y = y]
          by (simp add: Yaml_Dict option.map_comp comp_def)
      next
        case None
        then show ?thesis
          using True unfolding parse_yaml_code_for_policy.simps [where y = y] found_policies.simps [where y = y]
          by (simp add: Yaml_Dict)
      qed
    qed (use True in \<open>simp_all add: parse_yaml_code_for_policy.simps [of _ _ y for y] found_policies.simps [of _ y for y]\<close>)
  next
    case False
    then show ?thesis
      by (cases "get_policy_type_from_dict y")
        (simp_all add: parse_yaml_code_for_policy.simps [where y = y] found_policies.simps [where y = y] enqueue_def)
  qed
qed

definition found_items :: "string \<Rightarrow> (string \<times> yaml) list \<Rightarrow> parse_queue option" where
  "found_items file kvs = do { xs \<leftarrow> yaml_iter (yaml_items kvs); map_option concat (map_opt (found_policies file) xs) }"

definition found_in_document :: "string \<Rightarrow> yaml \<Rightarrow> parse_queue option" where
  "found_in_document file d =
     (case d of
        Yaml_Dict kvs \<Rightarrow> found_items file kvs
      | _ \<Rightarrow> do { xs \<leftarrow> yaml_iter d;
                  map_option concat (map_opt (\<lambda>x. case x of Yaml_Dict kvs \<Rightarrow> found_items file kvs | _ \<Rightarrow> Some []) xs) })"

lemma fold_concat:
  assumes "\<And>x q. x \<in> set xs \<Longrightarrow> f q x = map_option (enqueue q) (g x)"
  shows "fold_opt f q xs = map_option (enqueue q) (map_option concat (map_opt g xs))"
  using fold_enqueue [of xs f g q, OF assms] by (simp add: option.map_comp comp_def)

lemma items_enqueue: "add_items file q kvs = map_option (enqueue q) (found_items file kvs)"
  unfolding add_items_def found_items_def add_policies_to_parse_queue_def
  by (cases "yaml_iter (yaml_items kvs)") (simp_all add: fold_concat [OF parse_enqueues])

text \<open>
  C5. Adding the documents of a file to the queue finds their policies in order, those of lists
  inside lists too, and raises exactly when items cannot be iterated over. Profiles are put before
  all policies of the queue, the last one found first, and the other policies behind it in the
  order of the documents: when the queue is parsed, every profile is known before a policy is.
\<close>

theorem queue_profiles_first:
  "add_policies file q docs =
     map_option (\<lambda>es. rev (filter (\<lambda>(_, _, ty). ty = CalicoProfile) (concat es)) @ q @
                      filter (\<lambda>(_, _, ty). ty \<noteq> CalicoProfile) (concat es)) (map_opt (found_in_document file) docs)"
proof -
  have nested: "(case x of Yaml_Dict kvs \<Rightarrow> add_items file q kvs | _ \<Rightarrow> Some q) =
      map_option (enqueue q) (case x of Yaml_Dict kvs \<Rightarrow> found_items file kvs | _ \<Rightarrow> Some [])" for x q
    by (cases x) (simp_all add: items_enqueue)
  have "(case d of Yaml_Dict kvs \<Rightarrow> add_items file q kvs
         | _ \<Rightarrow> do { xs \<leftarrow> yaml_iter d;
                     fold_opt (\<lambda>q x. case x of Yaml_Dict kvs \<Rightarrow> add_items file q kvs | _ \<Rightarrow> Some q) q xs }) =
      map_option (enqueue q) (found_in_document file d)" for d q
    unfolding found_in_document_def
    by (cases d; cases "yaml_iter d") (simp_all add: items_enqueue fold_concat [OF nested])
  from fold_enqueue [of docs "\<lambda>q d. case d of Yaml_Dict kvs \<Rightarrow> add_items file q kvs
         | _ \<Rightarrow> do { xs \<leftarrow> yaml_iter d;
                     fold_opt (\<lambda>q x. case x of Yaml_Dict kvs \<Rightarrow> add_items file q kvs | _ \<Rightarrow> Some q) q xs }"
      "found_in_document file" q, OF this]
  show ?thesis by (simp add: add_policies_def enqueue_def)
qed

section \<open>The container of policies\<close>

text \<open>
  What holds of a container: keys are the names and kinds of their policies; the layers hold
  exactly the policies whose kind has a layer, each in its own layer; and no layer is empty, except
  for the default layer of a container without layered policies.
\<close>

definition layered :: "'f policy \<Rightarrow> bool" where
  "layered P \<longleftrightarrow> policy_type_to_layer (get_policy_kind P) \<noteq> None"

definition layer_policies :: "'f network_layers \<Rightarrow> 'f policy multiset" where
  "layer_policies ls = mset (concat (map (policies_list \<circ> snd) ls))"

definition layers_inv :: "'f network_layers \<Rightarrow> bool" where
  "layers_inv ls \<longleftrightarrow>
     distinct (map fst ls) \<and>
     (\<forall>(n, L)\<in>set ls. layer_kind L = n \<and>
        (\<forall>P\<in>set (policies_list L). policy_type_to_layer (get_policy_kind P) = Some n)) \<and>
     ((\<forall>(n, L)\<in>set ls. policies_list L \<noteq> []) \<or> ls = new_layers)"

definition container_inv :: "'f policies_container \<Rightarrow> bool" where
  "container_inv C \<longleftrightarrow>
     distinct (map fst (policies C)) \<and>
     (\<forall>(k, P)\<in>set (policies C). k = policy_key_of P \<and> get_policy_kind P \<noteq> Unknown) \<and>
     layers_inv (pol_layers C) \<and>
     layer_policies (pol_layers C) = mset (filter layered (map snd (policies C)))"

lemma dict_split:
  "dict_get (=) d k = Some v \<Longrightarrow>
   \<exists>a b. d = a @ (k, v) # b \<and> k \<notin> fst ` set a \<and> (\<forall>w. dict_set (=) d k w = a @ (k, w) # b)"
proof (induction d)
  case (Cons e d)
  obtain k' v' where e: "e = (k', v')" by (cases e)
  show ?case
  proof (cases "k' = k")
    case True
    then show ?thesis using Cons.prems by (intro exI [of _ "[]"] exI [of _ d]) (simp add: e)
  next
    case False
    then obtain a b where "d = a @ (k, v) # b" "k \<notin> fst ` set a" "\<forall>w. dict_set (=) d k w = a @ (k, w) # b"
      using Cons.IH Cons.prems e by auto
    then show ?thesis using False by (intro exI [of _ "e # a"] exI [of _ b]) (simp add: e)
  qed
qed simp

lemma py_insort_mset: "mset (py_insort lt xs x) = add_mset x (mset xs)"
proof -
  have "mset (take i xs) + mset (drop i xs) = mset xs" for i by (metis append_take_drop_id mset_append)
  then show ?thesis by (simp add: py_insort_def Let_def)
qed

lemma layer_add_policy_simps [simp]:
  "layer_kind (layer_add_policy L P) = layer_kind L"
  "mset (policies_list (layer_add_policy L P)) = add_mset P (mset (policies_list L))"
  "set (policies_list (layer_add_policy L P)) = insert P (set (policies_list L))"
  "policies_list (layer_add_policy L P) \<noteq> []"
  using py_insort_mset [of policy_lt "policies_list L" P]
  by (auto simp: layer_add_policy_def dest: arg_cong [where f = set_mset] arg_cong [where f = size])

text \<open>The layers after one more policy, before an empty default layer is dropped.\<close>

lemma put_policy:
  assumes "distinct (map fst ls)" and n: "policy_type_to_layer (get_policy_kind P) = Some n"
    and "\<forall>(m, L)\<in>set ls. layer_kind L = m \<and>
           (\<forall>Q\<in>set (policies_list L). policy_type_to_layer (get_policy_kind Q) = Some m)"
    and "ls' = dict_set (=) ls n (case dict_get (=) ls n of None \<Rightarrow> create_network_layer n [P] | Some L \<Rightarrow> layer_add_policy L P)"
  shows "distinct (map fst ls')" and "layer_policies ls' = add_mset P (layer_policies ls)"
    and "\<forall>(m, L)\<in>set ls'. layer_kind L = m \<and>
           (\<forall>Q\<in>set (policies_list L). policy_type_to_layer (get_policy_kind Q) = Some m)"
    and "(m, L) \<in> set ls' \<Longrightarrow> policies_list L = [] \<Longrightarrow> (m, L) \<in> set ls \<and> m \<noteq> n"
proof -
  show "distinct (map fst ls')" unfolding assms(4) by (rule dict_set_distinct [OF assms(1)])
  have cases: "layer_policies ls' = add_mset P (layer_policies ls) \<and>
      (\<forall>(m, L)\<in>set ls'. layer_kind L = m \<and>
         (\<forall>Q\<in>set (policies_list L). policy_type_to_layer (get_policy_kind Q) = Some m)) \<and>
      (\<forall>(m, L)\<in>set ls'. policies_list L = [] \<longrightarrow> (m, L) \<in> set ls \<and> m \<noteq> n)"
  proof (cases "dict_get (=) ls n")
    case None
    then have fresh: "n \<notin> fst ` set ls" by (simp add: dict_get_None_iff)
    then have eq: "ls' = ls @ [(n, create_network_layer n [P])]"
      unfolding assms(4) None by (subst dict_set_fresh) (auto simp: rev_image_eqI)
    have "m \<noteq> n" if "(m, L) \<in> set ls" for m L using that fresh by force
    then show ?thesis using assms(3) n unfolding eq by (auto simp: layer_policies_def create_network_layer_def)
  next
    case (Some L)
    obtain a b where ab: "ls = a @ (n, L) # b" "\<forall>w. dict_set (=) ls n w = a @ (n, w) # b"
      using dict_split [OF Some] by blast
    have eq: "ls' = a @ (n, layer_add_policy L P) # b" unfolding assms(4) Some using ab(2) by simp
    have "m \<noteq> n" if "(m, K) \<in> set a \<union> set b" for m K using that assms(1) unfolding ab(1) by force
    then show ?thesis using assms(3) n unfolding eq ab(1) by (auto simp: layer_policies_def)
  qed
  then show "layer_policies ls' = add_mset P (layer_policies ls)"
    and "\<forall>(m, L)\<in>set ls'. layer_kind L = m \<and>
           (\<forall>Q\<in>set (policies_list L). policy_type_to_layer (get_policy_kind Q) = Some m)"
    by blast+
  show "(m, L) \<in> set ls \<and> m \<noteq> n" if "(m, L) \<in> set ls'" "policies_list L = []" using cases that by blast
qed

lemma layers_add_inv:
  assumes "layers_inv ls"
  shows "layers_inv (layers_add_policy ls P (policy_type_to_layer (get_policy_kind P))) \<and>
         layer_policies (layers_add_policy ls P (policy_type_to_layer (get_policy_kind P))) =
           (if layered P then add_mset P (layer_policies ls) else layer_policies ls)"
proof (cases "policy_type_to_layer (get_policy_kind P)")
  case None
  then show ?thesis using assms by (simp add: layers_add_policy_def layered_def)
next
  case (Some n)
  define ls' where "ls' =
    dict_set (=) ls n (case dict_get (=) ls n of None \<Rightarrow> create_network_layer n [P] | Some L \<Rightarrow> layer_add_policy L P)"
  have put: "distinct (map fst ls')" "layer_policies ls' = add_mset P (layer_policies ls)"
    "\<forall>(m, L)\<in>set ls'. layer_kind L = m \<and>
       (\<forall>Q\<in>set (policies_list L). policy_type_to_layer (get_policy_kind Q) = Some m)"
    "\<And>m L. (m, L) \<in> set ls' \<Longrightarrow> policies_list L = [] \<Longrightarrow> (m, L) \<in> set ls \<and> m \<noteq> n"
    using put_policy [OF _ Some _ ls'_def] assms unfolding layers_inv_def by blast+
  have add: "layers_add_policy ls P (Some n) =
      (case dict_get (=) ls' K8s_Calico of
         Some L \<Rightarrow> if policies_list L = [] then filter (\<lambda>(k, _). k \<noteq> K8s_Calico) ls' else ls' | None \<Rightarrow> ls')"
    unfolding ls'_def by (simp add: layers_add_policy_def Let_def)
  show ?thesis
  proof (cases "\<forall>(m, L)\<in>set ls. policies_list L \<noteq> []")
    case True
    then have ne: "\<forall>(m, L)\<in>set ls'. policies_list L \<noteq> []" using put(4) by blast
    then have "layers_add_policy ls P (Some n) = ls'"
      unfolding add by (auto split: option.splits dest: dict_get_Some)
    then show ?thesis using put(1-3) ne by (simp add: Some layered_def layers_inv_def)
  next
    case False
    then have ls: "ls = new_layers" using assms by (auto simp: layers_inv_def)
    define L where "L = (if n = K8s_Calico then layer_add_policy (create_network_layer n []) P else create_network_layer n [P])"
    have "layers_add_policy ls P (Some n) = [(n, L)]"
      unfolding ls L_def by (simp add: layers_add_policy_def new_layers_def create_network_layer_def Let_def)
    moreover have "policies_list (layer_add_policy K P) = [P]" if "policies_list K = []" for K
      by (simp add: layer_add_policy_def that py_insort_def bisect_right.simps)
    then have "policies_list L = [P]" "layer_kind L = n"
      by (simp_all add: L_def create_network_layer_def)
    ultimately show ?thesis
      using Some by (simp add: ls new_layers_def create_network_layer_def layers_inv_def layer_policies_def layered_def)
  qed
qed

text \<open>
  C4. A new container and every container that \<open>append_policy\<close> makes are consistent: policies are
  found under their names and kinds, and the layers hold exactly the policies that have a layer,
  each in the layer of its kind and as often as the dictionary, with no empty layer but the default
  one. A policy with a new key is added at the end; one with a known key, or none, changes nothing.
\<close>

theorem append_policy_invariant:
  assumes "container_inv C" and "append_policy C x = Some C'"
  shows "container_inv (new_policies_container :: 'f policies_container) \<and> container_inv C' \<and>
         policies C' = policies C @
           (case x of Some P \<Rightarrow> if policy_key_of P \<in> fst ` set (policies C) then [] else [(policy_key_of P, P)] | None \<Rightarrow> [])"
proof -
  have new: "container_inv (new_policies_container :: 'f policies_container)"
    by (simp add: container_inv_def new_policies_container_def layers_inv_def new_layers_def create_network_layer_def
        layer_policies_def)
  show ?thesis
  proof (cases x)
    case None
    then show ?thesis using assms new by (simp add: append_policy_def)
  next
    case (Some P)
    show ?thesis
    proof (cases "policy_key_of P \<in> fst ` set (policies C)")
      case True
      then show ?thesis using assms new Some
        by (auto simp: append_policy_def dict_get_None_iff split: if_splits)
    next
      case False
      let ?ls = "layers_add_policy (pol_layers C) P (policy_type_to_layer (get_policy_kind P))"
      have set: "dict_set (=) (policies C) (policy_key_of P) P = policies C @ [(policy_key_of P, P)]"
        using False by (intro dict_set_fresh) (auto simp: rev_image_eqI)
      have C': "C' = C\<lparr>policies := policies C @ [(policy_key_of P, P)], pol_layers := ?ls\<rparr>" "get_policy_kind P \<noteq> Unknown"
        using assms(2) False by (simp_all add: append_policy_def Some dict_get_None_iff set split: if_splits)
      have ls: "layers_inv ?ls" "layer_policies ?ls =
          (if layered P then add_mset P (layer_policies (pol_layers C)) else layer_policies (pol_layers C))"
        using layers_add_inv [of "pol_layers C" P] assms(1) by (simp_all add: container_inv_def)
      have "container_inv C'"
        using assms(1) ls C'(2) False by (auto simp: container_inv_def C'(1))
      then show ?thesis using new False by (simp add: Some C'(1))
    qed
  qed
qed

definition ingress_policy :: "string set policy" where
  "ingress_policy = Gateway_Policy (let_in\<lparr>policy_kind := Ingress\<rparr>)"

theorem append_policy_invariant_witness:
  "\<exists>C. append_policy new_policies_container (Some ingress_policy) = Some C \<and> container_inv C \<and>
     policies C = [((''gw'', Ingress), ingress_policy)] \<and> map fst (pol_layers C) = [K8s_Gateway]"
proof -
  have inv: "container_inv (new_policies_container :: string set policies_container)"
    by (simp add: container_inv_def new_policies_container_def layers_inv_def new_layers_def create_network_layer_def
        layer_policies_def)
  have key: "policy_key_of ingress_policy = (''gw'', Ingress)" "get_policy_kind ingress_policy = Ingress"
    by (simp_all add: policy_key_of_def ingress_policy_def let_in_def new_gateway_policy_def new_policy_def
        network_policy.defs policy_full_name_def)
  let ?C = "\<lparr>policies = [((''gw'', Ingress), ingress_policy)], pol_layers = [(K8s_Gateway, create_network_layer K8s_Gateway [ingress_policy])]\<rparr>"
  have app: "append_policy new_policies_container (Some ingress_policy) = Some ?C"
    by (simp add: append_policy_def key new_policies_container_def layers_add_policy_def policy_type_to_layer_def
        new_layers_def create_network_layer_def)
  have "container_inv ?C" using append_policy_invariant [OF inv app] by (elim conjE)
  then show ?thesis using app by simp
qed

end
