(* ===== verification/Query_Results.thy ===== *)
theory Query_Results
  imports Queries Config_Results
begin

text \<open>
  What the answers of queries say of the configurations, and what their explanations lose: the
  titles of policies, captured pods, overlapping policies, redundant policies of several layers,
  policies of one name, and missing peers.
\<close>

section \<open>Titles\<close>

lemma split_word:
  assumes "w \<noteq> []" and "\<forall>c\<in>set w. \<not> is_space c" and "is_space c"
  shows "py_split (w @ c # rest) = w # py_split rest"
proof -
  obtain a v where w: "w = a # v" using assms(1) by (cases w) auto
  have "dropWhile is_space (w @ c # rest) = w @ c # rest" using assms(2) by (simp add: w)
  moreover have "takeWhile (\<lambda>c. \<not> is_space c) (w @ c # rest) = w" using assms(2,3) by (subst takeWhile_append2) auto
  moreover have "dropWhile (\<lambda>c. \<not> is_space c) (w @ c # rest) = c # rest" using assms(2,3) by (subst dropWhile_append2) auto
  moreover have "py_split (c # rest) = py_split rest"
    using assms(3) by (subst (1 2) py_split.simps) (simp add: Let_def)
  ultimately show ?thesis by (subst py_split.simps) (simp add: Let_def w)
qed

lemma split_last:
  assumes "w \<noteq> []" and "\<forall>c\<in>set w. \<not> is_space c"
  shows "py_split w = [w]"
proof -
  obtain a v where w: "w = a # v" using assms(1) by (cases w) auto
  have "dropWhile is_space w = w" using assms(2) by (simp add: w)
  moreover have "takeWhile (\<lambda>c. \<not> is_space c) w = w" "dropWhile (\<lambda>c. \<not> is_space c) w = []"
    using assms(2) by (auto simp: takeWhile_eq_all_conv dropWhile_eq_Nil_conv)
  moreover have "py_split [] = []" by (subst py_split.simps) simp
  ultimately show ?thesis using assms(1) by (subst py_split.simps) (simp only: Let_def if_False refl)
qed

text \<open>
  C11. The dictionary of an explanation takes the second word of the title of a policy as its
  name. For a policy with a name without spaces this is its full name for network policies, but
  the word \<open>resource\<close> for Ingress resources and \<open>Gateway/VirtualService\<close> for the resources of Istio
  gateways; and a bare name, which is what the redundancy query lists, raises.
\<close>

theorem title_second_word:
  assumes "policy_name P None = n" and "n \<noteq> []" and "\<forall>c\<in>set n. \<not> is_space c"
  shows "policy_name_from_title (policy_title P) =
           Some (if get_policy_kind P = Ingress then ''resource''
                 else if get_policy_kind P = GatewayPolicy then ''Gateway/VirtualService'' else n) \<and>
         policy_name_from_title n = None \<and>
         get_explanation_in_dict show_conns (Policies_And_Rules desc (n # ns) ing eg) = None"
proof -
  have sp: "is_space CHR '' ''" by (simp add: is_space_def)
  have words: "\<forall>c\<in>set w. \<not> is_space c" if "w \<in> {''Ingress'', ''Istio'', ''NetworkPolicy'', ''resource'', ''Gateway/VirtualService''}" for w
    using that by (auto simp: is_space_def)
  have ne: "w \<noteq> []" if "w \<in> {''Ingress'', ''Istio'', ''NetworkPolicy'', ''resource'', ''Gateway/VirtualService''}" for w
    using that by auto
  note one = split_word [OF ne words sp] and last = split_last [OF assms(2,3)]
  have "py_split (''Ingress'' @ CHR '' '' # ''resource'' @ CHR '' '' # n) = [''Ingress'', ''resource'', n]"
    by (simp only: one [of "''Ingress''"] one [of "''resource''"] insert_iff simp_thms last)
  moreover have "py_split (''Istio'' @ CHR '' '' # ''Gateway/VirtualService'' @ CHR '' '' # ''resource'' @ CHR '' '' # n) =
      [''Istio'', ''Gateway/VirtualService'', ''resource'', n]"
    by (simp only: one [of "''Istio''"] one [of "''Gateway/VirtualService''"] one [of "''resource''"] insert_iff simp_thms last)
  moreover have "py_split (''NetworkPolicy'' @ CHR '' '' # n) = [''NetworkPolicy'', n]"
    by (simp only: one [of "''NetworkPolicy''"] insert_iff simp_thms last)
  moreover have none: "policy_name_from_title n = None" by (simp add: policy_name_from_title_def last py_nth_def)
  ultimately show ?thesis
    by (simp add: policy_name_from_title_def policy_title_def policy_type_str_def assms(1) py_nth_def last
        policies_and_rules_to_dict_def)
qed

theorem title_second_word_witness:
  "policy_name_from_title (policy_title ingress_policy) = Some ''resource'' \<and> policy_name_from_title ''gw'' = None"
proof -
  have "policy_name ingress_policy None = ''gw''" "get_policy_kind ingress_policy = Ingress"
    by (simp_all add: ingress_policy_def let_in_def new_gateway_policy_def new_policy_def network_policy.defs policy_full_name_def)
  with title_second_word [OF this(1)] show ?thesis by (simp add: is_space_def)
qed

section \<open>Captured pods\<close>

text \<open>The difference of peers that are no addresses keeps the order.\<close>

lemma peers_minus:
  assumes "\<forall>p\<in>set s. \<not> is_ip p" and "ps_ok s" and "ps_ok t"
  shows "ps_sub s t = filter (\<lambda>p. Member (peer_key p) \<notin> ps_points t) s"
proof -
  have s: "ps_without_ip_block s = s" using assms(1) by (simp add: ps_without_ip_block_def filter_id_conv)
  have "block_set (ps_ip_block s) = {}" "block_ok (ps_ip_block s)"
    using ps_ip_block_ok [OF assms(2)] not_ip_set_points [OF assms(1)] by auto
  then have "block_set (block_sub (ps_ip_block s) (ps_ip_block t)) = {}" "block_ok (block_sub (ps_ip_block s) (ps_ip_block t))"
    using block_ops [OF ps_ip_block_ok(1) [OF assms(2)] ps_ip_block_ok(1) [OF assms(3)]] by auto
  then have "block_peer_set (block_sub (ps_ip_block s) (ps_ip_block t)) = []"
    using ips.iset_bool_set by (auto simp: block_peer_set_def)
  moreover have "set_mem peer_eq p (ps_without_ip_block t) \<longleftrightarrow> Member (peer_key p) \<in> ps_points t" for p
    using peers.mem_keys [of p "ps_without_ip_block t"] ps_points_eq [OF assms(3)] by auto
  ultimately show ?thesis
    by (simp add: ps_sub_def ps_or_def set_union_def set_diff_def s)
qed

lemma selected_union:
  assumes "\<forall>P\<in>set Ps. ps_ok (selects P)" and "ps_ok s"
  shows "ps_ok (foldl (\<lambda>s P. if policy_affects i P then ps_or s (selects P) else s) s Ps) \<and>
         ps_points (foldl (\<lambda>s P. if policy_affects i P then ps_or s (selects P) else s) s Ps) =
           ps_points s \<union> (\<Union>P\<in>{P \<in> set Ps. policy_affects i P}. ps_points (selects P))"
  using assms
proof (induction Ps arbitrary: s)
  case (Cons P Ps)
  have "ps_ok (ps_or s (selects P)) \<and> ps_points (ps_or s (selects P)) = ps_points s \<union> ps_points (selects P)"
    by (rule ps_or_ok) (use Cons.prems in \<open>simp_all add: ps_ok_def\<close>)
  then show ?case using Cons.IH [of "ps_or s (selects P)"] Cons.IH [of s] Cons.prems by auto
qed simp

definition captured_by_layer :: "'f network_layer \<Rightarrow> bool \<Rightarrow> peer \<Rightarrow> bool" where
  "captured_by_layer L i p \<longleftrightarrow>
     (\<exists>P\<in>set (policies_list L). policy_affects i P \<and> Member (peer_key p) \<in> ps_points (selects P))"

text \<open>The pods that no policy of a layer captures; none if there is no such layer.\<close>

definition uncaptured :: "'f network_config \<Rightarrow> layer_name \<times> bool \<Rightarrow> peer set" where
  "uncaptured C check =
     (case dict_get (=) (layers_of C) (fst check) of
        None \<Rightarrow> {}
      | Some L \<Rightarrow> {p \<in> set (pc_peers (conf_peers C)). \<not> is_dns p \<and> \<not> captured_by_layer L (snd check) p})"

definition capture_checks :: "(layer_name \<times> bool) list" where
  "capture_checks = [(K8s_Calico, True), (K8s_Calico, False), (Istio_Layer, True)]"

lemma pod_names:
  assumes "\<forall>p\<in>set ps. \<not> is_ip p \<and> \<not> is_dns p"
  shows "map_opt (pod_name O1) ps =
    (if output_endpoints O1 = ''deployments'' \<and> (\<exists>h. Host_Peer h \<in> set ps) then None
     else Some (map (\<lambda>p. the (pod_name O1 p)) ps))"
  using assms
proof (induction ps)
  case (Cons p ps)
  then show ?case by (cases p) (auto simp: pod_name_def is_dns_def)
qed simp

lemma length_set_of: "length (set_of (=) xs) = card (set xs)"
  using names.of_keys [of xs] distinct_card [of "set_of (=) xs"] by (simp add: names.ok_distinct)

lemma uncaptured_xgress:
  assumes c: "container_ok E (conf_peers C)" and L: "dict_get (=) (layers_of C) name = Some L"
    and sel: "\<forall>P\<in>set (policies_list L). ps_ok (selects P)"
  shows "if output_endpoints O1 = ''deployments'' \<and> (\<exists>h. Host_Peer h \<in> uncaptured C (name, i))
         then uncaptured_xgress_pods O1 C name i = None
         else \<exists>ns. uncaptured_xgress_pods O1 C name i = Some ns \<and>
                length ns = card ((\<lambda>p. the (pod_name O1 p)) ` uncaptured C (name, i))"
proof -
  obtain s where s: "get_all_peers_group (conf_peers C) False True False = Some s"
    "s = filter (\<lambda>p. is_dns p \<longrightarrow> False) (pc_peers (conf_peers C))" "peers_ok E s"
    using group_ok(1) [OF c, of False] by blast
  define aff where "aff = foldl (\<lambda>s P. if policy_affects i P then ps_or s (selects P) else s) [] (policies_list L)"
  have aff: "ps_ok aff" "ps_points aff = (\<Union>P\<in>{P \<in> set (policies_list L). policy_affects i P}. ps_points (selects P))"
    using selected_union [OF sel, of "[]" i] by (simp_all add: aff_def ps_ok_def set_ok_def)
  have affected: "get_affected_pods C i name = Some aff"
    using L by (simp add: get_affected_pods_def layers_of_def aff_def)
  have ip: "\<forall>p\<in>set s. \<not> is_ip p" "ps_ok s" using c s(2,3) by (auto simp: container_ok_def peers_ok_def)
  define d where "d = ps_sub s aff"
  have d: "set d = uncaptured C (name, i)"
    unfolding d_def peers_minus [OF ip aff(1)] uncaptured_def aff(2) using L s(2) by (auto simp: captured_by_layer_def)
  have "\<forall>p\<in>set d. \<not> is_ip p \<and> \<not> is_dns p"
    unfolding d_def peers_minus [OF ip aff(1)] using ip(1) s(2) by auto
  note names = pod_names [OF this, of O1]
  have "uncaptured_xgress_pods O1 C name i = map_option (set_of (=)) (map_opt (pod_name O1) d)"
    using s(1) affected by (cases "map_opt (pod_name O1) d") (simp_all add: uncaptured_xgress_pods_def d_def)
  then show ?thesis unfolding names d by (simp add: length_set_of d)
qed

text \<open>The number of missing names of a check, and whether it raises.\<close>

definition missing_names :: "output_config \<Rightarrow> 'f network_config \<Rightarrow> layer_name \<times> bool \<Rightarrow> nat" where
  "missing_names O1 C check = card ((\<lambda>p. the (pod_name O1 p)) ` uncaptured C check)"

definition unnamed_host :: "output_config \<Rightarrow> 'f network_config \<Rightarrow> layer_name \<times> bool \<Rightarrow> bool" where
  "unnamed_host O1 C check \<longleftrightarrow> output_endpoints O1 = ''deployments'' \<and> (\<exists>h. Host_Peer h \<in> uncaptured C check)"

lemma no_missing_names: "missing_names O1 C check = 0 \<longleftrightarrow> uncaptured C check = {}"
  by (cases "dict_get (=) (layers_of C) (fst check)") (auto simp: missing_names_def uncaptured_def)

lemma uncaptured_by_layer:
  assumes "container_ok E (conf_peers C)" and "\<forall>entry\<in>set (layers_of C). \<forall>P\<in>set (policies_list (snd entry)). ps_ok (selects P)"
  shows "if unnamed_host O1 C (name, True) \<or> \<not> only \<and> unnamed_host O1 C (name, False)
         then uncaptured_pods_by_layer O1 C name only = None
         else \<exists>es. uncaptured_pods_by_layer O1 C name only =
                Some (es, missing_names O1 C (name, True) + (if only then 0 else missing_names O1 C (name, False)))"
proof (cases "dict_get (=) (layers_of C) name")
  case None
  then show ?thesis
    by (simp add: uncaptured_pods_by_layer_def missing_names_def unnamed_host_def uncaptured_def)
next
  case (Some L)
  have "\<forall>P\<in>set (policies_list L). ps_ok (selects P)" using dict_get_Some [OF Some] assms(2) by force
  from uncaptured_xgress [OF assms(1) Some this, of O1]
  have one: "if unnamed_host O1 C (name, i) then uncaptured_xgress_pods O1 C name i = None
      else \<exists>ns. uncaptured_xgress_pods O1 C name i = Some ns \<and> length ns = missing_names O1 C (name, i)" for i
    by (simp add: unnamed_host_def missing_names_def)
  show ?thesis
    using one [of True] one [of False] Some
    by (cases only) (auto simp: uncaptured_pods_by_layer_def split: if_splits)
qed

lemma capture_check_sums:
  "(\<exists>check\<in>set capture_checks. Q check) \<longleftrightarrow> Q (K8s_Calico, True) \<or> Q (K8s_Calico, False) \<or> Q (Istio_Layer, True)"
  "(\<Sum>check\<leftarrow>capture_checks. n check) = n (K8s_Calico, True) + n (K8s_Calico, False) + (n (Istio_Layer, True) :: nat)"
  "(\<forall>check\<in>set capture_checks. uncaptured C check = {}) \<longleftrightarrow>
     missing_names O1 C (K8s_Calico, True) + missing_names O1 C (K8s_Calico, False) = 0 \<and>
     missing_names O1 C (Istio_Layer, True) = 0"
  by (simp_all add: capture_checks_def no_missing_names)

lemma all_captured_checks:
  assumes "container_ok E (conf_peers C)" and "\<forall>entry\<in>set (layers_of C). \<forall>P\<in>set (policies_list (snd entry)). ps_ok (selects P)"
    and "conf_bool C" and "\<not> does_contain_only_gateway_layers (layers_of C)"
  shows "if \<exists>check\<in>set capture_checks. unnamed_host O1 C check then all_captured O1 C = None
    else \<exists>a. all_captured O1 C = Some a \<and> (bool_result a \<longleftrightarrow> (\<forall>check\<in>set capture_checks. uncaptured C check = {})) \<and>
      numerical_result a = int (\<Sum>check\<leftarrow>capture_checks. missing_names O1 C check)"
proof -
  obtain s where s: "get_all_peers_group (conf_peers C) False True False = Some s"
    using group_ok(1) [OF assms(1), of False] by auto
  note by_layer = uncaptured_by_layer [OF assms(1,2), of O1]
  show ?thesis
    using by_layer [of K8s_Calico False] by_layer [of Istio_Layer True] s assms(3,4)
    unfolding capture_check_sums(1,2) capture_check_sums(3) [where ?O1.0 = O1]
    by (cases "unnamed_host O1 C (K8s_Calico, True) \<or> unnamed_host O1 C (K8s_Calico, False)";
        cases "unnamed_host O1 C (Istio_Layer, True)")
      (auto simp: all_captured_def answer_def)
qed

text \<open>
  C7. In a configuration with policies that has not only layers of gateways, the query for captured
  pods answers yes exactly when every pod is captured for ingress and for egress by a policy of the
  layer of Kubernetes and Calico, and for ingress by one of the layer of Istio, as far as there are
  these layers; its number counts the different names of the pods that are missing in each check;
  it raises exactly when deployments are asked for and a host endpoint is not captured. In every
  other configuration it never raises, answers no, and counts all pods and host endpoints. The sets
  of peers that the policies select are sets in the sense of the model: no peer twice.
\<close>

theorem all_captured_decides:
  assumes "container_ok E (conf_peers C)" and "\<forall>entry\<in>set (layers_of C). \<forall>P\<in>set (policies_list (snd entry)). ps_ok (selects P)"
  shows "if conf_bool C \<and> \<not> does_contain_only_gateway_layers (layers_of C) then
           (all_captured O1 C = None \<longleftrightarrow>
              output_endpoints O1 = ''deployments'' \<and> (\<exists>check\<in>set capture_checks. \<exists>h. Host_Peer h \<in> uncaptured C check)) \<and>
           (\<forall>a. all_captured O1 C = Some a \<longrightarrow>
              (bool_result a \<longleftrightarrow> (\<forall>check\<in>set capture_checks. uncaptured C check = {})) \<and>
              numerical_result a =
                int (\<Sum>check\<leftarrow>capture_checks. card ((\<lambda>p. the (pod_name O1 p)) ` uncaptured C check)))
         else \<exists>a. all_captured O1 C = Some a \<and> \<not> bool_result a \<and>
              numerical_result a = int (length (filter (\<lambda>p. \<not> is_dns p) (pc_peers (conf_peers C))))"
proof (cases "conf_bool C \<and> \<not> does_contain_only_gateway_layers (layers_of C)")
  case False
  obtain s where "get_all_peers_group (conf_peers C) False True False = Some s"
    "s = filter (\<lambda>p. \<not> is_dns p) (pc_peers (conf_peers C))"
    using group_ok(1) [OF assms(1), of False] by auto
  then show ?thesis using False by (auto simp: all_captured_def answer_def)
next
  case True
  then show ?thesis
    using all_captured_checks [OF assms, of O1] unfolding missing_names_def unnamed_host_def by (auto split: if_splits)
qed

theorem all_captured_decides_witness:
  "\<exists>a. all_captured (default_output\<lparr>output_endpoints := ''pods''\<rparr>) isolating_config = Some a \<and>
     \<not> bool_result a \<and> numerical_result a = 3"
proof -
  let ?O = "default_output\<lparr>output_endpoints := ''pods''\<rparr>"
  have c: "container_ok two_pods_env (conf_peers isolating_config)"
    using pods_container_peers by (simp add: isolating_config_def)
  have sel: "\<forall>entry\<in>set (layers_of isolating_config). \<forall>P\<in>set (policies_list (snd entry)). ps_ok (selects P)"
    by (simp add: layers_of_def isolating_config_def create_network_layer_def isolate_a_def new_policy_def ps_ok_def
        peers.ok_distinct example_pod_def)
  have b: "conf_bool isolating_config" "\<not> does_contain_only_gateway_layers (layers_of isolating_config)"
    by (simp_all add: conf_bool_def isolating_config_def layers_of_def does_contain_only_gateway_layers_def)
  have pods: "set (pc_peers (conf_peers isolating_config)) = {example_pod ''a'', example_pod ''b''}"
    "\<not> is_dns (example_pod x)" for x
    by (auto simp: isolating_config_def pods_container_def example_pod_def is_dns_def)
  have layer: "dict_get (=) (layers_of isolating_config) K8s_Calico = Some (create_network_layer K8s_Calico [isolate_a])"
    "dict_get (=) (layers_of isolating_config) Istio_Layer = None"
    by (simp_all add: layers_of_def isolating_config_def)
  have cap: "captured_by_layer (create_network_layer K8s_Calico [isolate_a]) True (example_pod ''a'')"
    "\<not> captured_by_layer (create_network_layer K8s_Calico [isolate_a]) True (example_pod ''b'')"
    "\<not> captured_by_layer (create_network_layer K8s_Calico [isolate_a]) False (example_pod x)" for x
    by (simp_all add: captured_by_layer_def create_network_layer_def isolate_a_def new_policy_def example_pod_def
        mk_pod_def owner_workload_def Let_def)
  have un: "uncaptured isolating_config (K8s_Calico, True) = {example_pod ''b''}"
    "uncaptured isolating_config (K8s_Calico, False) = {example_pod ''a'', example_pod ''b''}"
    "uncaptured isolating_config (Istio_Layer, True) = {}"
    using cap pods by (auto simp: uncaptured_def layer)
  have names: "the (pod_name ?O (example_pod ''a'')) \<noteq> the (pod_name ?O (example_pod ''b''))"
    by (simp add: pod_name_def example_pod_def mk_pod_def owner_workload_def Let_def)
  note r = all_captured_decides [OF c sel, of ?O, unfolded if_P [OF conjI [OF b]]]
  have "all_captured ?O isolating_config \<noteq> None" using r by (simp add: default_output_def)
  then obtain a where "all_captured ?O isolating_config = Some a" by blast
  then show ?thesis using r names by (auto simp: capture_checks_def un)
qed

section \<open>Redundant policies of several layers\<close>

lemma redundant_rules_keep:
  assumes "fold_opt (redundant_rules_step E C name red) (n, ps, ing, eg) Ps = Some (n', ps', ing', eg')"
  shows "ps' = ps \<and> n \<le> n'"
  using assms
proof (induction Ps arbitrary: n ps ing eg)
  case (Cons P Ps)
  obtain n1 ps1 ing1 eg1 where step: "redundant_rules_step E C name red (n, ps, ing, eg) P = Some (n1, ps1, ing1, eg1)"
    and rest: "fold_opt (redundant_rules_step E C name red) (n1, ps1, ing1, eg1) Ps = Some (n', ps', ing', eg')"
    using Cons.prems by (auto split: option.splits)
  have "ps1 = ps \<and> n \<le> n1" using step by (auto simp: redundant_rules_step_def bind_eq_Some_conv split: if_splits)
  then show ?case using Cons.IH [OF rest] by simp
qed simp

lemma redundancy_layers:
  assumes "fold_opt (redundancy_step E C) (n, ps, ing, eg) ls = Some (n', ps', ing', eg')"
  shows "\<exists>reds. map_opt (\<lambda>(name, L). redundant_policies E C (policies_list L) name)
             (filter (\<lambda>(name, L). \<not> gateway_layer name) ls) = Some reds \<and>
           n + sum_list (map length reds) \<le> n' \<and> ps' = (if reds = [] then ps else sort (last reds))"
  using assms
proof (induction ls arbitrary: n ps ing eg)
  case (Cons entry ls)
  obtain name L where entry: "entry = (name, L)" by (cases entry)
  obtain n1 ps1 ing1 eg1 where step: "redundancy_step E C (n, ps, ing, eg) entry = Some (n1, ps1, ing1, eg1)"
    and rest: "fold_opt (redundancy_step E C) (n1, ps1, ing1, eg1) ls = Some (n', ps', ing', eg')"
    using Cons.prems by (auto split: option.splits)
  obtain reds where reds: "map_opt (\<lambda>(name, L). redundant_policies E C (policies_list L) name)
      (filter (\<lambda>(name, L). \<not> gateway_layer name) ls) = Some reds"
    "n1 + sum_list (map length reds) \<le> n'" "ps' = (if reds = [] then ps1 else sort (last reds))"
    using Cons.IH [OF rest] by blast
  show ?case
  proof (cases "gateway_layer name")
    case True
    then show ?thesis using step reds by (simp add: redundancy_step_def entry)
  next
    case False
    then obtain red where red: "redundant_policies E C (policies_list L) name = Some red"
      "fold_opt (redundant_rules_step E C name (sort red)) (n + length red, sort red, ing, eg)
         (py_sorted policy_lt (policies_list L)) = Some (n1, ps1, ing1, eg1)"
      using step by (auto simp: redundancy_step_def entry bind_eq_Some_conv Let_def)
    have "ps1 = sort red" "n + length red \<le> n1" using redundant_rules_keep [OF red(2)] by simp_all
    then show ?thesis using reds False red(1) by (simp add: entry)
  qed
qed simp

text \<open>
  C8. The redundancy query counts the redundant policies of every layer that is no gateway
  layer, but its explanation lists only those of the last of these layers: each layer replaces the
  list.
\<close>

theorem redundancy_lists_last_layer:
  assumes "redundancy E C = Some a"
  shows "\<exists>reds. map_opt (\<lambda>(name, L). redundant_policies E C (policies_list L) name)
             (filter (\<lambda>(name, L). \<not> gateway_layer name) (layers_of C)) = Some reds \<and>
           int (sum_list (map length reds)) \<le> numerical_result a \<and>
           (bool_result a \<longleftrightarrow> 0 < numerical_result a) \<and>
           (bool_result a \<longrightarrow> (\<exists>ing eg. output_explanation a =
              [Policies_And_Rules ('' that are redundant in '' @ conf_name C) (if reds = [] then [] else sort (last reds)) ing eg]))"
proof -
  obtain n ps ing eg where f: "fold_opt (redundancy_step E C) (0, [], [], []) (layers_of C) = Some (n, ps, ing, eg)"
    and a: "a = (if 0 < n
            then answer True (''Redundancies found in '' @ conf_name C)
                   [Policies_And_Rules ('' that are redundant in '' @ conf_name C) ps ing eg] (int n)
            else answer False (''No redundancy found in '' @ conf_name C) [] 0)"
    using assms by (auto simp: redundancy_def bind_eq_Some_conv)
  from redundancy_layers [OF f] show ?thesis by (auto simp: a answer_def)
qed

theorem redundancy_lists_last_layer_witness:
  "\<exists>a. redundancy two_pods_env isolating_config = Some a \<and> numerical_result a = 0 \<and> \<not> bool_result a"
proof -
  have ls: "layers_of isolating_config = [(K8s_Calico, create_network_layer K8s_Calico [isolate_a])]"
    by (simp add: layers_of_def isolating_config_def)
  have rules: "rules_of i isolate_a = []" for i by (simp add: rules_of_def isolate_a_def new_policy_def)
  have red: "redundant_policies two_pods_env isolating_config [isolate_a] K8s_Calico = Some []"
    by (simp add: redundant_policies_def)
  have sorted: "py_sorted policy_lt [isolate_a] = [isolate_a]"
    by (simp add: py_sorted_def py_insort_def bisect_right.simps)
  have "redundancy_step two_pods_env isolating_config (0, [], [], [])
      (K8s_Calico, create_network_layer K8s_Calico [isolate_a]) = Some (0, [], [], [])"
    by (simp add: redundancy_step_def gateway_layer_def create_network_layer_def red sorted redundant_rules_step_def
        find_redundant_rules_def rules enumerate_eq_zip)
  then have r: "redundancy two_pods_env isolating_config =
      Some (answer False (''No redundancy found in '' @ conf_name isolating_config) [] 0)"
    by (simp add: redundancy_def ls)
  show ?thesis using redundancy_lists_last_layer [OF r] r by (simp add: answer_def)
qed

section \<open>Policies of one name\<close>

lemma filter_two:
  assumes "a \<in> set xs" and "b \<in> set xs" and "a \<noteq> b" and "P a" and "P b"
  shows "2 \<le> length (filter P xs)"
proof -
  have "card {a, b} \<le> card (set (filter P xs))" using assms by (intro card_mono) auto
  also have "\<dots> \<le> length (filter P xs)" by (rule card_length)
  finally show ?thesis using assms(3) by simp
qed

lemma found_twice:
  assumes "((n, t1), P1) \<in> set (policies (conf_policies C))" and "((n, t2), P2) \<in> set (policies (conf_policies C))"
    and "t1 \<noteq> t2"
  shows "clone_with_just_one_policy C n None = None"
proof -
  let ?get = "\<lambda>t. dict_get (=) (policies (conf_policies C)) (n, t)"
  define res where "res = concat (map (\<lambda>t. case ?get t of Some P \<Rightarrow> [P] | None \<Rightarrow> []) policy_types)"
  have "length (concat (map (\<lambda>t. case ?get t of Some P \<Rightarrow> [P] | None \<Rightarrow> []) ts)) = length (filter (\<lambda>t. ?get t \<noteq> None) ts)" for ts
    by (induction ts) (auto split: option.splits)
  then have "length res = length (filter (\<lambda>t. ?get t \<noteq> None) policy_types)" by (simp only: res_def)
  moreover have "?get t1 \<noteq> None" using assms(1) unfolding dict_get_None_iff by force
  moreover have "?get t2 \<noteq> None" using assms(2) unfolding dict_get_None_iff by force
  moreover have "t \<in> set policy_types" for t by (cases t) (simp_all add: policy_types_def)
  ultimately have two: "2 \<le> length res" using filter_two [of t1 policy_types t2] assms(3) by simp
  then have "res \<noteq> []" by auto
  then have "find_policy C n None = res" unfolding find_policy_def Let_def option.case res_def [symmetric] by simp
  then show ?thesis using two by (auto simp: clone_with_just_one_policy_def split: list.splits)
qed

lemma never_equivalent:
  assumes "P \<in> set Ps" and "clone_with_just_one_policy C (policy_name P None) None = None"
  shows "\<not> (\<exists>a. policies_equivalent E O1 C D Ps = Some a \<and> bool_result a)"
  using assms
proof (induction Ps)
  case (Cons Q Ps)
  then show ?case by (cases "Q = P") (auto simp: bind_eq_Some_conv answer_def split: if_splits)
qed simp

text \<open>
  C9. When a configuration has policies of different kinds with the same full name, the query
  for strong equivalence never says that it is equivalent to a configuration whose policies are
  not all equal to its own, whatever they allow: it looks policies up by their names only, finds
  two of them and raises, unless it says no before.
\<close>

theorem same_name_never_equivalent:
  assumes "((n, t1), P1) \<in> set (policies (conf_policies C))" and "((n, t2), P2) \<in> set (policies (conf_policies C))"
    and "t1 \<noteq> t2" and "policy_name P1 None = n" and "all_policies_eq E C D \<noteq> Some True"
  shows "\<not> (\<exists>a. strong_equivalence E O1 C D = Some a \<and> bool_result a)"
proof -
  have "P1 \<in> set (all_policies C)" using assms(1) by (force simp: all_policies_def)
  from never_equivalent [OF this] found_twice [OF assms(1-3)] assms(4)
  have "\<not> (\<exists>a. policies_equivalent E O1 C D (all_policies C) = Some a \<and> bool_result a)" by simp
  then show ?thesis using assms(5)
    by (auto simp: strong_equivalence_def is_identical_topologies_def not_executed_def answer_def bind_eq_Some_conv
        split: if_splits list.splits)
qed

definition synced_policy :: "string \<Rightarrow> peer_set \<Rightarrow> string set policy" where
  "synced_policy n s = K8s_Policy ((new_policy n None)\<lparr>selected_peers := s, affects_ingress := True, props_in_sync := True,
     policy_kind := K8sNetworkPolicy\<rparr>)"

definition config_of :: "string set policy list \<Rightarrow> string set network_config" where
  "config_of Ps =
     \<lparr>conf_name = ''net'', conf_peers = pods_container,
      conf_policies = \<lparr>policies = map (\<lambda>P. (policy_key_of P, P)) Ps,
                      pol_layers = [(K8s_Calico, create_network_layer K8s_Calico (filter (\<lambda>P. get_policy_kind P = K8sNetworkPolicy) Ps))]\<rparr>,
      conf_debug = False, conf_labels = None\<rparr>"

theorem same_name_never_equivalent_witness:
  "\<not> (\<exists>a. strong_equivalence two_pods_env default_output (config_of [synced_policy ''gw'' [example_pod ''a''], ingress_policy])
            (config_of [synced_policy ''gw'' [example_pod ''b''], ingress_policy]) = Some a \<and> bool_result a)"
proof (rule same_name_never_equivalent)
  let ?C = "config_of [synced_policy ''gw'' [example_pod ''a''], ingress_policy]"
  let ?D = "config_of [synced_policy ''gw'' [example_pod ''b''], ingress_policy]"
  have keys: "policy_key_of (synced_policy n s) = (n, K8sNetworkPolicy)" "policy_key_of ingress_policy = (''gw'', Ingress)" for n s
    by (simp_all add: policy_key_of_def synced_policy_def ingress_policy_def let_in_def new_gateway_policy_def new_policy_def
        network_policy.defs policy_full_name_def)
  show "((''gw'', K8sNetworkPolicy), synced_policy ''gw'' [example_pod ''a'']) \<in> set (policies (conf_policies ?C))"
    "((''gw'', Ingress), ingress_policy) \<in> set (policies (conf_policies ?C))" "K8sNetworkPolicy \<noteq> Ingress"
    by (simp_all add: config_of_def keys)
  show "policy_name (synced_policy ''gw'' [example_pod ''a'']) None = ''gw''"
    by (simp add: synced_policy_def new_policy_def policy_full_name_def)
  have "ps_eq [example_pod ''a''] [example_pod ''b''] = False"
    by (subst ps_eq_ok) (simp_all add: ps_ok_def peers.ok_distinct example_pod_def mk_pod_def owner_workload_def Let_def)
  then have "policy_eq two_pods_env (synced_policy ''gw'' [example_pod ''a'']) (synced_policy ''gw'' [example_pod ''b'']) = Some False"
    by (simp add: synced_policy_def k8s_sync_props_def base_policy_eq_def new_policy_def)
  then show "all_policies_eq two_pods_env ?C ?D \<noteq> Some True"
    by (simp add: all_policies_eq_def policies_eq_def config_of_def keys)
qed

section \<open>Missing peers\<close>

text \<open>
  C10. When a peer of the first configuration is not in the second one, the containment query
  says no without computing connections. Its text names the missing peers, but its dictionary has
  only the two words \<open>description\<close> and \<open>pods\<close>: the keys of the dictionary that was meant.
\<close>

theorem missing_peers_not_named:
  assumes "get_all_peers_group (conf_peers C) False True True = Some p1"
    and "get_all_peers_group (conf_peers D) False True True = Some p2"
    and "missing = ps_sub p1 p2" and "missing \<noteq> []"
  shows "\<exists>a. containment E O1 C D cmd_line only_captured remove_livesim = Some a \<and> \<not> bool_result a \<and>
           numerical_result a = of_bool_int cmd_line \<and>
           dict_output show_conns configs query a = Some (Yaml_Dict
             [(''query'', Yaml_Str query), (''configs'', yaml_strs configs),
              (''numerical_result'', Yaml_Int (of_bool_int cmd_line)),
              (''textual_result'', Yaml_Str (query_name C @ '' is not contained in '' @ query_name D @ '' '')),
              (''explanation'', Yaml_List [Yaml_Str ''description'', Yaml_Str ''pods''])]) \<and>
           string_output show_conns print_diff False a =
             Some (''\<newline>Peers in '' @ query_name C @ '' which are not in '' @ query_name D @ '':\<newline>'' @
                   join '', '' (sort (map peer_str missing)) @ ''\<newline>'')"
  using assms
  by (simp add: containment_def answer_def dict_output_def string_output_def pods_to_dict_def pods_to_str_def
      pods_lists_to_dict_def pods_lists_to_str_def)

theorem missing_peers_not_named_witness:
  "\<exists>a. containment two_pods_env default_output isolating_config
          (isolating_config\<lparr>conf_peers := pods_container\<lparr>pc_peers := [example_pod ''a'']\<rparr>\<rparr>) False False False = Some a \<and>
     string_output (\<lambda>_. '''') (\<lambda>_ _ _. '''') False a = Some ''\<newline>Peers in isolate which are not in isolate:\<newline>default/b\<newline>''"
proof -
  let ?D = "isolating_config\<lparr>conf_peers := pods_container\<lparr>pc_peers := [example_pod ''a'']\<rparr>\<rparr>"
  have g: "get_all_peers_group (conf_peers isolating_config) False True True = Some [example_pod ''a'', example_pod ''b'']"
    "get_all_peers_group (conf_peers ?D) False True True = Some [example_pod ''a'']"
    by (simp_all add: get_all_peers_group_def isolating_config_def pods_container_def)
  have m: "[example_pod ''b''] = ps_sub [example_pod ''a'', example_pod ''b''] [example_pod ''a'']"
    by (subst peers_minus) (simp_all add: ps_ok_def peers.ok_distinct example_pod_def mk_pod_def owner_workload_def Let_def)
  have n: "query_name isolating_config = ''isolate''" "query_name ?D = ''isolate''"
    by (simp_all add: query_name_def isolating_config_def)
  have s: "peer_str (example_pod ''b'') = ''default/b''"
    by (simp add: example_pod_def mk_pod_def owner_workload_def Let_def example_ns_def k8s_namespace_def)
  show ?thesis
    using missing_peers_not_named [OF g m, where E = two_pods_env and ?O1.0 = default_output and cmd_line = False and
        only_captured = False and remove_livesim = False and show_conns = "\<lambda>_. ''''" and print_diff = "\<lambda>_ _ _. ''''"]
    by (auto simp: n s)
qed

section \<open>Overlapping policies\<close>

definition overlap :: "'f policy \<Rightarrow> 'f policy \<Rightarrow> bool" where
  "overlap P Q \<longleftrightarrow> ps_points (selects P) \<inter> ps_points (selects Q) \<noteq> {}"

lemma and_empty:
  assumes s: "ps_ok s" and t: "ps_ok t"
  shows "ps_and s t = [] \<longleftrightarrow> ps_points s \<inter> ps_points t = {}"
proof -
  note and_ok = ps_and_ok [OF s t]
  have "peer_points p \<noteq> {}" if "p \<in> set (ps_and s t)" for p
  proof -
    let ?b = "block_and (ps_ip_block s) (ps_ip_block t)"
    have b: "block_ok ?b" using block_ops [OF ps_ip_block_ok(1) [OF s] ps_ip_block_ok(1) [OF t]] by blast
    have "p \<in> set (set_inter peer_eq (ps_without_ip_block s) (ps_without_ip_block t)) \<union> set (block_peer_set ?b)"
      using that peers.union_subset unfolding ps_and_def ps_or_def by blast
    then consider "\<not> is_ip p" | "p = Ip_Peer ?b" "ips ?b \<noteq> []"
      by (auto simp: set_inter_def ps_without_ip_block_def block_peer_set_def split: if_splits)
    then show ?thesis
    proof cases
      case 2
      then show ?thesis using ips.iset_bool_set b by auto
    qed (simp add: not_ip_points)
  qed
  then have "ps_points (ps_and s t) \<noteq> {}" if "ps_and s t \<noteq> []"
    using that by (cases "ps_and s t") auto
  then show ?thesis using and_ok by auto
qed

definition comparable :: "'f env \<Rightarrow> 'f policy list \<Rightarrow> bool" where
  "comparable E Ps \<longleftrightarrow>
     (\<forall>P\<in>set Ps. ps_ok (selects P) \<and> (\<forall>Q\<in>set Ps. policy_eq E P Q = Some (P = Q)))"

text \<open>The policies that come before a policy and overlap with it.\<close>

definition overlapping_before :: "'f policy list \<Rightarrow> 'f policy \<Rightarrow> 'f policy list" where
  "overlapping_before Ps P = filter (overlap P) (takeWhile (\<lambda>Q. Q \<noteq> P) Ps)"

lemma overlaps_before_length:
  assumes "\<forall>Q\<in>set Qs. ps_ok (selects Q) \<and> policy_eq E P Q = Some (P = Q)" and "ps_ok (selects P)"
  shows "\<exists>rs. overlaps_before E O1 P Qs = Some rs \<and> length rs = length (overlapping_before Qs P)"
  using assms(1)
proof (induction Qs)
  case (Cons Q Qs)
  then show ?case
    using and_empty [OF assms(2), of "selects Q"]
    by (cases "P = Q") (auto simp: overlapping_before_def overlap_def Let_def)
qed (simp add: overlapping_before_def)

lemma layer_overlaps_length:
  assumes "comparable E Ps"
  shows "\<exists>rs. layer_overlaps E O1 Ps = Some rs \<and> length rs = (\<Sum>P\<leftarrow>Ps. length (overlapping_before Ps P))"
proof -
  have one: "\<exists>rs. (if policy_empty P then Some [] else overlaps_before E O1 P Ps) = Some rs \<and>
      length rs = length (overlapping_before Ps P)" if "P \<in> set Ps" for P
  proof (cases "policy_empty P")
    case True
    then show ?thesis by (auto simp: policy_empty_def overlapping_before_def overlap_def filter_empty_conv)
  next
    case False
    then show ?thesis using overlaps_before_length [of Ps E P O1] assms that by (auto simp: comparable_def)
  qed
  from map_opt_rel [of Ps "\<lambda>P. if policy_empty P then Some [] else overlaps_before E O1 P Ps"
      "\<lambda>P rs. length rs = length (overlapping_before Ps P)", OF one] obtain rss where
    "map_opt (\<lambda>P. if policy_empty P then Some [] else overlaps_before E O1 P Ps) Ps = Some rss"
    "list_all2 (\<lambda>P rs. length rs = length (overlapping_before Ps P)) Ps rss" by blast
  moreover from this(2) have "map length rss = map (\<lambda>P. length (overlapping_before Ps P)) Ps"
    by (auto simp: list_all2_conv_all_nth intro!: nth_equalityI)
  ultimately show ?thesis by (auto simp: layer_overlaps_def length_concat)
qed

lemma before_or_after:
  "P \<in> set xs \<Longrightarrow> Q \<in> set xs \<Longrightarrow> P \<noteq> Q \<Longrightarrow> Q \<in> set (takeWhile (\<lambda>x. x \<noteq> P) xs) \<or> P \<in> set (takeWhile (\<lambda>x. x \<noteq> Q) xs)"
  by (induction xs) auto

lemma no_overlap_iff:
  "(\<Sum>P\<leftarrow>Ps. length (overlapping_before Ps P)) = 0 \<longleftrightarrow> (\<forall>P\<in>set Ps. \<forall>Q\<in>set Ps. P \<noteq> Q \<longrightarrow> \<not> overlap P Q)"
proof -
  have sym: "overlap P Q \<longleftrightarrow> overlap Q P" for P Q :: "'a policy" by (auto simp: overlap_def)
  have "(\<forall>P\<in>set Ps. overlapping_before Ps P = []) \<longleftrightarrow> (\<forall>P\<in>set Ps. \<forall>Q\<in>set Ps. P \<noteq> Q \<longrightarrow> \<not> overlap P Q)"
    (is "?l \<longleftrightarrow> ?r")
  proof
    assume l: ?l
    show ?r
    proof (intro ballI impI)
      fix P Q
      assume PQ: "P \<in> set Ps" "Q \<in> set Ps" "P \<noteq> Q"
      from before_or_after [OF PQ] show "\<not> overlap P Q"
      proof
        assume "Q \<in> set (takeWhile (\<lambda>x. x \<noteq> P) Ps)"
        moreover have "overlapping_before Ps P = []" using l PQ(1) by blast
        ultimately show ?thesis unfolding overlapping_before_def filter_empty_conv by blast
      next
        assume "P \<in> set (takeWhile (\<lambda>x. x \<noteq> Q) Ps)"
        moreover have "overlapping_before Ps Q = []" using l PQ(2) by blast
        ultimately have "\<not> overlap Q P" unfolding overlapping_before_def filter_empty_conv by blast
        then show ?thesis by (simp add: sym [of P Q])
      qed
    qed
  next
    assume r: ?r
    show ?l
    proof
      fix P
      assume P: "P \<in> set Ps"
      have "\<not> overlap P Q" if "Q \<in> set (takeWhile (\<lambda>Q. Q \<noteq> P) Ps)" for Q
        using set_takeWhileD [OF that] r P by auto
      then show "overlapping_before Ps P = []" by (simp add: overlapping_before_def filter_empty_conv)
    qed
  qed
  then show ?thesis by (simp add: sum_list_eq_0_iff)
qed

definition open_layers :: "'f network_config \<Rightarrow> 'f network_layers" where
  "open_layers C = filter (\<lambda>(n, L). \<not> gateway_layer n) (layers_of C)"

lemma all_overlaps_length:
  assumes "\<forall>(n, L)\<in>set (filter (\<lambda>(n, L). \<not> gateway_layer n) ls). comparable E (policies_list L)"
  shows "\<exists>rs. map_option concat (map_opt (\<lambda>(n, L). if gateway_layer n then Some [] else layer_overlaps E O1 (policies_list L)) ls) = Some rs \<and>
           length rs = (\<Sum>(n, L)\<leftarrow>filter (\<lambda>(n, L). \<not> gateway_layer n) ls. \<Sum>P\<leftarrow>policies_list L. length (overlapping_before (policies_list L) P))"
  using assms
proof (induction ls)
  case (Cons entry ls)
  obtain n L where entry: "entry = (n, L)" by (cases entry)
  obtain rss where rss: "map_opt (\<lambda>(n, L). if gateway_layer n then Some [] else layer_overlaps E O1 (policies_list L)) ls = Some rss"
    "length (concat rss) = (\<Sum>(n, L)\<leftarrow>filter (\<lambda>(n, L). \<not> gateway_layer n) ls. \<Sum>P\<leftarrow>policies_list L. length (overlapping_before (policies_list L) P))"
    using Cons.IH Cons.prems by (auto split: if_splits)
  show ?case
  proof (cases "gateway_layer n")
    case False
    then obtain rs where "layer_overlaps E O1 (policies_list L) = Some rs"
      "length rs = (\<Sum>P\<leftarrow>policies_list L. length (overlapping_before (policies_list L) P))"
      using layer_overlaps_length [of E "policies_list L" O1] Cons.prems by (auto simp: entry)
    then show ?thesis using rss False by (simp add: entry)
  qed (use rss in \<open>simp add: entry\<close>)
qed simp

text \<open>
  C6. When policies of a layer are equal only to themselves, the query for disjointness says yes
  exactly when no two different policies of a layer that is no gateway layer select a common peer
  or address; its number counts, for every policy, those before it that overlap with it.
\<close>

theorem disjointness_decides:
  assumes "\<forall>(n, L)\<in>set (open_layers C). comparable E (policies_list L)"
  shows "\<exists>a. disjointness E O1 C = Some a \<and>
           (bool_result a \<longleftrightarrow> (\<forall>(n, L)\<in>set (open_layers C). \<forall>P\<in>set (policies_list L). \<forall>Q\<in>set (policies_list L).
              P \<noteq> Q \<longrightarrow> \<not> overlap P Q)) \<and>
           numerical_result a = int (\<Sum>(n, L)\<leftarrow>open_layers C. \<Sum>P\<leftarrow>policies_list L. length (overlapping_before (policies_list L) P))"
proof -
  obtain rs where rs: "map_option concat (map_opt (\<lambda>(n, L).
      if gateway_layer n then Some [] else layer_overlaps E O1 (policies_list L)) (layers_of C)) = Some rs"
    "length rs = (\<Sum>(n, L)\<leftarrow>open_layers C. \<Sum>P\<leftarrow>policies_list L. length (overlapping_before (policies_list L) P))"
    using all_overlaps_length [of "layers_of C" E O1] assms unfolding open_layers_def by blast
  have "rs = [] \<longleftrightarrow> (\<forall>(n, L)\<in>set (open_layers C). (\<Sum>P\<leftarrow>policies_list L. length (overlapping_before (policies_list L) P)) = 0)"
    using rs(2) by (auto simp: sum_list_eq_0_iff simp flip: length_0_conv)
  then have "rs = [] \<longleftrightarrow> (\<forall>(n, L)\<in>set (open_layers C). \<forall>P\<in>set (policies_list L). \<forall>Q\<in>set (policies_list L). P \<noteq> Q \<longrightarrow> \<not> overlap P Q)"
    unfolding no_overlap_iff .
  moreover have "\<exists>a. disjointness E O1 C = Some a \<and> (bool_result a \<longleftrightarrow> rs = []) \<and> numerical_result a = int (length rs)"
    unfolding disjointness_def rs(1) by (simp add: answer_def)
  ultimately show ?thesis unfolding rs(2) by (simp only:)
qed

lemma no_conns_eq: "hc_eq M make_empty_props make_empty_props"
  by (simp add: make_empty_props_def new_props_def hc_new_def)

theorem disjointness_decides_witness:
  "\<exists>a. disjointness two_pods_env default_output
          (config_of [synced_policy ''p'' [example_pod ''a''], synced_policy ''q'' [example_pod ''b'', example_pod ''a'']]) = Some a \<and>
     \<not> bool_result a \<and> numerical_result a = 1"
proof -
  let ?P = "synced_policy ''p'' [example_pod ''a'']" and ?Q = "synced_policy ''q'' [example_pod ''b'', example_pod ''a'']"
  have simps: "selects (synced_policy n s) = s" "get_policy_kind (synced_policy n s) = K8sNetworkPolicy" for n s
    by (simp_all add: synced_policy_def)
  have ne: "?P \<noteq> ?Q" by (simp add: synced_policy_def new_policy_def)
  have keys: "peer_key (example_pod x) = Pod_Key (''default/'' @ x)" for x
    by (simp add: example_pod_def mk_pod_def owner_workload_def Let_def example_ns_def k8s_namespace_def)
  have ok: "ps_ok [example_pod ''a'']" "ps_ok [example_pod ''b'', example_pod ''a'']"
    using keys by (auto simp: ps_ok_def peers.ok_distinct example_pod_def)
  have eq: "policy_eq two_pods_env X Y = Some (X = Y)" if "X \<in> {?P, ?Q}" "Y \<in> {?P, ?Q}" for X Y
    using that ne ps_eq_ok [OF ok(1) ok(1)] ps_eq_ok [OF ok(2) ok(2)]
      no_conns_eq by (auto simp: synced_policy_def k8s_sync_props_def base_policy_eq_def new_policy_def props_eq_def ns_option_eq_def)
  have open_l: "open_layers (config_of [?P, ?Q]) = [(K8s_Calico, create_network_layer K8s_Calico [?P, ?Q])]"
    by (simp add: open_layers_def layers_of_def config_of_def gateway_layer_def simps)
  have comp: "\<forall>(n, L)\<in>set (open_layers (config_of [?P, ?Q])). comparable two_pods_env (policies_list L)"
    using eq ok by (simp add: open_l comparable_def create_network_layer_def simps)
  have o: "overlap ?Q ?P" by (simp add: overlap_def simps keys example_pod_def)
  show ?thesis
    using disjointness_decides [OF comp, of default_output] ne o
    by (simp add: open_l create_network_layer_def overlapping_before_def)
qed

end
