(* ===== verification/Service_Finder.thy ===== *)
theory Service_Finder
  imports Network_Config
begin

text \<open>
  Services and namespaces from their resources: the checks of fields in
  \<open>nca/Parsers/GenericYamlParser.py\<close>, \<open>nca/Parsers/K8sServiceYamlParser.py\<close>, and the namespaces and
  services finders of \<open>nca/NetworkConfig/TopologyObjectsFinder.py\<close>. A raised exception is \<open>None\<close>, a
  warning is left out. Values are the loaded documents; a null, or a number as a text, where the
  code goes on with a value that is no text (the name of a port, its protocol, a label) is outside
  the model and is \<open>None\<close> too. The input from a live cluster is left out.
\<close>

section \<open>Checks of fields\<close>

datatype py_type = Py_Str | Py_Int | Py_Dict

text \<open>\<open>isinstance\<close>; a truth value is an integer.\<close>

fun has_type :: "yaml \<Rightarrow> py_type \<Rightarrow> bool" where
  "has_type (Yaml_Str s) Py_Str = True"
| "has_type (Yaml_Int n) Py_Int = True"
| "has_type (Yaml_Bool b) Py_Int = True"
| "has_type (Yaml_Dict kvs) Py_Dict = True"
| "has_type y ty = False"

text \<open>
  The usage code of a key is 0 for optional, 1 for mandatory, 2 for not supported and 3 for ignored
  with a warning, with the type if it is checked.
\<close>

type_synonym key_info = "string \<times> nat \<times> py_type option"

definition key_valid :: "(string \<times> yaml) list \<Rightarrow> (string \<times> string list) list \<Rightarrow> key_info \<Rightarrow> bool" where
  "key_valid kvs allowed_values info =
     (let (key, code, ty) = info in
      case dict_get (=) kvs key of
        None \<Rightarrow> code \<noteq> 1
      | Some v \<Rightarrow>
          code \<noteq> 2 \<and> \<not> (code = 1 \<and> v = Yaml_Null) \<and>
          (case ty of None \<Rightarrow> True | Some t \<Rightarrow> v = Yaml_Null \<or> has_type v t) \<and>
          (case dict_get (=) allowed_values key of
             None \<Rightarrow> True
           | Some vs \<Rightarrow> \<not> yaml_truthy v \<or> list_ex (\<lambda>s. v = Yaml_Str s) vs))"

definition check_fields_validity ::
  "(string \<times> yaml) list \<Rightarrow> key_info list \<Rightarrow> (string \<times> string list) list \<Rightarrow> unit option" where
  "check_fields_validity kvs allowed_keys allowed_values =
     (if list_all (key_valid kvs allowed_values) allowed_keys \<and>
         list_all (\<lambda>(k, _). k \<in> set (map fst allowed_keys)) kvs
      then Some () else None)"

definition metadata_keys :: "key_info list" where
  "metadata_keys =
     [(''name'', 1, Some Py_Str), (''namespace'', 0, Some Py_Str)] @
     map (\<lambda>k. (k, 0, None))
       [''annotations'', ''clusterName'', ''creationTimestamp'', ''deletionGracePeriodSeconds'',
        ''deletionTimestamp'', ''finalizers'', ''generateName'', ''generation'', ''labels'',
        ''managedFields'', ''ownerReferences'', ''resourceVersion'', ''selfLink'', ''uid'']"

definition check_metadata_validity :: "(string \<times> yaml) list \<Rightarrow> unit option" where
  "check_metadata_validity metadata = check_fields_validity metadata metadata_keys []"

text \<open>The keyword of a layer is one text or a list of them.\<close>

datatype layer_keywords = Keyword string | Keywords "string list"

definition keyword_list :: "layer_keywords \<Rightarrow> string list" where
  "keyword_list ks = (case ks of Keyword k \<Rightarrow> [k] | Keywords xs \<Rightarrow> xs)"

definition k8s_in_keywords :: "layer_keywords \<Rightarrow> bool" where
  "k8s_in_keywords ks = (case ks of Keyword k \<Rightarrow> contains_str ''k8s'' k | Keywords xs \<Rightarrow> ''k8s'' \<in> set xs)"

text \<open>\<open>keyword in api_version\<close> raises for values that are no containers.\<close>

definition yaml_contains :: "string \<Rightarrow> yaml \<Rightarrow> bool option" where
  "yaml_contains k y =
     (case y of
        Yaml_Str s \<Rightarrow> Some (contains_str k s)
      | Yaml_List xs \<Rightarrow> Some (Yaml_Str k \<in> set xs)
      | Yaml_Dict kvs \<Rightarrow> Some (k \<in> set (map fst kvs))
      | _ \<Rightarrow> None)"

definition yaml_dict :: "yaml \<Rightarrow> (string \<times> yaml) list option" where
  "yaml_dict y = (case y of Yaml_Dict kvs \<Rightarrow> Some kvs | _ \<Rightarrow> None)"

definition yaml_str :: "yaml \<Rightarrow> string option" where
  "yaml_str y = (case y of Yaml_Str s \<Rightarrow> Some s | _ \<Rightarrow> None)"

definition yaml_int :: "yaml \<Rightarrow> int option" where
  "yaml_int y = (case y of Yaml_Int n \<Rightarrow> Some n | Yaml_Bool b \<Rightarrow> Some (of_bool b) | _ \<Rightarrow> None)"

definition yaml_get_or :: "(string \<times> yaml) list \<Rightarrow> string \<Rightarrow> yaml \<Rightarrow> yaml" where
  "yaml_get_or kvs k d = (case dict_get (=) kvs k of Some v \<Rightarrow> v | None \<Rightarrow> d)"

text \<open>
  The name of an object and the value of its namespace; \<open>Some None\<close> is the answer that the object
  is of another kind or version.
\<close>

definition parse_generic_yaml_objects_fields ::
  "yaml \<Rightarrow> string list \<Rightarrow> string list \<Rightarrow> layer_keywords \<Rightarrow> bool \<Rightarrow> (yaml \<times> yaml) option option" where
  "parse_generic_yaml_objects_fields y kinds versions ks spec_required =
     do { kvs \<leftarrow> yaml_dict y;
          if \<not> list_ex (\<lambda>k. yaml_get kvs ''kind'' = Yaml_Str k) kinds then Some None
          else do {
            bs \<leftarrow> map_opt (\<lambda>k. yaml_contains k (yaml_get kvs ''apiVersion'')) (keyword_list ks);
            if \<not> list_ex id bs then Some None
            else do {
              _ \<leftarrow> check_fields_validity kvs
                     ([(''kind'', 1, Some Py_Str), (''apiVersion'', 1, Some Py_Str),
                       (''metadata'', 1, Some Py_Dict), (''spec'', of_bool spec_required, Some Py_Dict)] @
                      (if k8s_in_keywords ks then [(''status'', 0, Some Py_Dict)] else []))
                     [(''apiVersion'', versions)];
              metadata \<leftarrow> yaml_dict (yaml_get kvs ''metadata'');
              _ \<leftarrow> check_metadata_validity metadata;
              Some (Some (yaml_get metadata ''name'',
                if ks \<noteq> Keyword ''calico'' then yaml_get_or metadata ''namespace'' (Yaml_Str ''default'')
                else yaml_get metadata ''namespace'')) } } }"

section \<open>The parser of services\<close>

definition service_type_of :: "yaml \<Rightarrow> service_type" where
  "service_type_of y =
     (if y = Yaml_Str ''ExternalName'' then ExternalName
      else if y = Yaml_Str ''NodePort'' then NodePort
      else if y = Yaml_Str ''LoadBalancer'' then LoadBalancer
      else ClusterIP)"

definition parse_selector :: "yaml \<Rightarrow> (string \<times> string) list option" where
  "parse_selector y =
     (if \<not> yaml_truthy y then Some []
      else do { kvs \<leftarrow> yaml_dict y; map_opt (\<lambda>(k, v). map_option (Pair k) (yaml_str v)) kvs })"

definition port_keys :: "key_info list" where
  "port_keys =
     [(''port'', 0, Some Py_Int), (''name'', 0, Some Py_Str), (''targetPort'', 0, None), (''protocol'', 0, Some Py_Str),
      (''containerPort'', 3, None), (''nodePort'', 3, None), (''appProtocol'', 3, None)]"

definition parse_target_port :: "yaml \<Rightarrow> port option" where
  "parse_target_port y =
     (case yaml_str y of Some s \<Rightarrow> Some (Port_Name s) | None \<Rightarrow> map_option Port_Num (yaml_int y))"

text \<open>One port; \<open>Some None\<close> for one without a number, which is skipped.\<close>

definition parse_service_port :: "yaml \<Rightarrow> service_port option option" where
  "parse_service_port y =
     do { kvs \<leftarrow> yaml_dict y;
          _ \<leftarrow> check_fields_validity kvs port_keys
                 [(''protocol'', [''TCP'', ''SCTP'', ''UDP'', ''HTTP'', ''HTTPS'', ''TLS''])];
          let num = yaml_get kvs ''port'';
          if \<not> yaml_truthy num then Some None
          else do { n \<leftarrow> yaml_int num;
                    name \<leftarrow> yaml_str (yaml_get_or kvs ''name'' (Yaml_Str ''''));
                    protocol \<leftarrow> yaml_str (yaml_get_or kvs ''protocol'' (Yaml_Str ''TCP''));
                    target \<leftarrow> parse_target_port (yaml_get_or kvs ''targetPort'' num);
                    Some (Some \<lparr>port_num = n, sp_name = name, sp_protocol = protocol, target_port = target\<rparr>) } }"

definition add_parsed_port :: "k8s_service \<Rightarrow> yaml \<Rightarrow> k8s_service option" where
  "add_parsed_port s y =
     do { p \<leftarrow> parse_service_port y;
          Some (case p of None \<Rightarrow> s | Some p \<Rightarrow> fst (svc_add_port s p)) }"

text \<open>\<open>Some None\<close> for an object that is no service or has no specification.\<close>

definition parse_service :: "yaml \<Rightarrow> k8s_service option option" where
  "parse_service y =
     do { found \<leftarrow> parse_generic_yaml_objects_fields y [''Service''] [''v1''] (Keywords [''v1'', ''k8s'']) False;
          case found of
            None \<Rightarrow> Some None
          | Some (name, ns) \<Rightarrow>
              do { kvs \<leftarrow> yaml_dict y;
                   if \<not> yaml_truthy (yaml_get kvs ''spec'') then Some None
                   else do {
                     name \<leftarrow> yaml_str name;
                     ns \<leftarrow> yaml_str ns;
                     spec \<leftarrow> yaml_dict (yaml_get kvs ''spec'');
                     let s = set_type (mk_service name ns)
                               (service_type_of (yaml_get_or spec ''type'' (Yaml_Str ''ClusterIP'')));
                     selector \<leftarrow> parse_selector (yaml_get spec ''selector'');
                     let s = foldl (\<lambda>s (k, v). add_selector s k v) s selector;
                     let port_list = yaml_get spec ''ports'';
                     s \<leftarrow> (if port_list = Yaml_Null then Some s
                           else do { xs \<leftarrow> yaml_iter port_list; fold_opt add_parsed_port s xs });
                     Some (Some s) } } }"

section \<open>The finders\<close>

type_synonym namespace_dict = "(string \<times> namespace) list"

definition get_or_update_namespace :: "namespace_dict \<Rightarrow> string \<Rightarrow> namespace_dict \<times> namespace" where
  "get_or_update_namespace nss name =
     (case dict_get (=) nss name of
        Some n \<Rightarrow> (nss, n)
      | None \<Rightarrow> (dict_set (=) nss name (k8s_namespace name), k8s_namespace name))"

text \<open>A namespace; in a list of the general kind the other resources are passed over.\<close>

definition add_namespace :: "namespace_dict \<Rightarrow> bool \<Rightarrow> yaml \<Rightarrow> namespace_dict option" where
  "add_namespace nss generic_list y =
     do { kvs \<leftarrow> yaml_dict y;
          if generic_list \<and> yaml_get kvs ''kind'' \<noteq> Yaml_Str ''Namespace'' then Some nss
          else do { metadata \<leftarrow> yaml_dict (yaml_get_or kvs ''metadata'' (Yaml_Dict []));
                    name \<leftarrow> yaml_str (yaml_get_or metadata ''name'' (Yaml_Str ''''));
                    ls \<leftarrow> yaml_dict (yaml_get_or metadata ''labels'' (Yaml_Dict []));
                    ls \<leftarrow> map_opt (\<lambda>(k, v). map_option (Pair k) (yaml_str v)) ls;
                    Some (dict_set (=) nss name
                      (foldl (\<lambda>n (k, v). ns_set_label n k v) (k8s_namespace name) ls)) } }"

definition set_namespaces :: "namespace_dict \<Rightarrow> yaml \<Rightarrow> namespace_dict option" where
  "set_namespaces nss y =
     (case y of
        Yaml_Dict kvs \<Rightarrow>
          do { xs \<leftarrow> yaml_iter (yaml_items kvs);
               fold_opt (\<lambda>nss x. add_namespace nss (yaml_get kvs ''kind'' = Yaml_Str ''List'') x) nss xs }
      | _ \<Rightarrow> Some nss)"

text \<open>A kind that cannot be hashed raises when it is looked up in a set.\<close>

definition hashable :: "yaml \<Rightarrow> bool" where
  "hashable y = (case y of Yaml_List _ \<Rightarrow> False | Yaml_Dict _ \<Rightarrow> False | _ \<Rightarrow> True)"

definition parse_yaml_code_for_ns :: "namespace_dict \<Rightarrow> yaml \<Rightarrow> namespace_dict option" where
  "parse_yaml_code_for_ns nss y =
     (case y of
        Yaml_Dict kvs \<Rightarrow>
          (let kind = yaml_get kvs ''kind'' in
           if \<not> hashable kind then None
           else if kind = Yaml_Str ''NamespaceList'' \<or> kind = Yaml_Str ''List'' then set_namespaces nss y
           else if kind = Yaml_Str ''Namespace'' then add_namespace nss False y
           else Some nss)
      | _ \<Rightarrow> Some nss)"

text \<open>The state of the services finder: the namespaces it shares, and its list.\<close>

type_synonym services_state = "namespace_dict \<times> k8s_service list"

definition parse_and_update_services_list :: "services_state \<Rightarrow> yaml \<Rightarrow> services_state option" where
  "parse_and_update_services_list st y =
     do { found \<leftarrow> parse_service y;
          Some (case found of
                  None \<Rightarrow> st
                | Some s \<Rightarrow>
                    (let (nss, ns) = get_or_update_namespace (fst st) (svc_namespace_name s)
                     in (nss, snd st @ [s\<lparr>svc_namespace := Some ns\<rparr>]))) }"

definition parse_yaml_code_for_service :: "services_state \<Rightarrow> yaml \<Rightarrow> services_state option" where
  "parse_yaml_code_for_service st y =
     (case y of
        Yaml_Dict kvs \<Rightarrow>
          (let kind = yaml_get kvs ''kind'' in
           if \<not> hashable kind then None
           else if kind = Yaml_Str ''List'' then
             do { xs \<leftarrow> yaml_iter (yaml_items kvs);
                  fold_opt (\<lambda>st x. case x of
                      Yaml_Dict item \<Rightarrow>
                        if yaml_get item ''kind'' = Yaml_Str ''Service'' then parse_and_update_services_list st x else Some st
                    | _ \<Rightarrow> Some st) st xs }
           else if kind = Yaml_Str ''Service'' then parse_and_update_services_list st y
           else Some st)
      | _ \<Rightarrow> Some st)"

section \<open>The container of the found services\<close>

text \<open>
  A parsed service has no target pods and no namespace yet. A collected one has the namespace
  that the finder has for its name.
\<close>

definition fresh_service :: "k8s_service \<Rightarrow> bool" where
  "fresh_service s \<longleftrightarrow> target_pods s = [] \<and> svc_namespace s = None"

lemma fresh_steps:
  assumes "fresh_service s"
  shows "fresh_service (fst (svc_add_port s p))" and "fresh_service (add_selector s k v)" and "fresh_service (set_type s ty)"
  using assms by (auto simp: fresh_service_def svc_add_port_def add_selector_def set_type_def)

lemma fresh_selectors: "fresh_service s \<Longrightarrow> fresh_service (foldl (\<lambda>s (k, v). add_selector s k v) s kvs)"
  by (induction kvs arbitrary: s) (auto simp: fresh_steps)

lemma fresh_ports: "fresh_service s \<Longrightarrow> fold_opt add_parsed_port s xs = Some r \<Longrightarrow> fresh_service r"
proof (induction xs arbitrary: s)
  case (Cons x xs)
  then obtain s' where s': "add_parsed_port s x = Some s'" "fold_opt add_parsed_port s' xs = Some r"
    by (auto split: option.splits)
  then have "fresh_service s'"
    using Cons.prems(1) fresh_steps(1) by (auto simp: add_parsed_port_def split: bind_splits option.splits)
  then show ?case using Cons.IH s'(2) by blast
qed simp

lemma parsed_fresh:
  assumes "parse_service y = Some (Some s)"
  shows "fresh_service s"
proof -
  have new: "fresh_service (foldl (\<lambda>s (k, v). add_selector s k v) (set_type (mk_service n ns) ty) sel)" for n ns ty sel
    by (intro fresh_selectors fresh_steps) (simp add: fresh_service_def mk_service_def)
  show ?thesis
    using assms new fresh_ports [OF new]
    by (auto simp: parse_service_def Let_def split: bind_splits option.splits if_splits)
qed

definition found_ok :: "services_state \<Rightarrow> bool" where
  "found_ok st \<longleftrightarrow>
     (\<forall>s\<in>set (snd st). target_pods s = [] \<and> svc_namespace s \<noteq> None \<and>
        dict_get (=) (fst st) (svc_namespace_name s) = svc_namespace s)"

lemma get_or_update_ok:
  assumes "get_or_update_namespace nss name = (nss', ns)"
  shows "dict_get (=) nss' name = Some ns" and "dict_get (=) nss k = Some n \<Longrightarrow> dict_get (=) nss' k = Some n"
  using assms by (auto simp: get_or_update_namespace_def dict_get_set_eq split: option.splits if_splits)

lemma found_step:
  assumes "found_ok st" and "parse_and_update_services_list st y = Some st'"
  shows "found_ok st'"
proof -
  obtain found where f: "parse_service y = Some found" using assms(2)
    by (auto simp: parse_and_update_services_list_def split: bind_splits)
  show ?thesis
  proof (cases found)
    case None
    then show ?thesis using assms f by (simp add: parse_and_update_services_list_def)
  next
    case (Some s)
    obtain nss' ns where g: "get_or_update_namespace (fst st) (svc_namespace_name s) = (nss', ns)" by force
    have st': "st' = (nss', snd st @ [s\<lparr>svc_namespace := Some ns\<rparr>])"
      using assms(2) f Some g by (simp add: parse_and_update_services_list_def)
    have "fresh_service s" using parsed_fresh f Some by blast
    then show ?thesis
      using assms(1) get_or_update_ok [OF g] by (fastforce simp: found_ok_def st' fresh_service_def)
  qed
qed

lemma fold_opt_keeps:
  assumes "\<And>st x st'. I st \<Longrightarrow> f st x = Some st' \<Longrightarrow> I st'" and "I st" and "fold_opt f st xs = Some r"
  shows "I r"
  using assms(2,3)
proof (induction xs arbitrary: st)
  case (Cons x xs)
  then obtain st' where "f st x = Some st'" "fold_opt f st' xs = Some r" by (auto split: option.splits)
  then show ?case using Cons assms(1) by blast
qed simp

lemma found_item:
  assumes "found_ok st" and "(case x of Yaml_Dict item \<Rightarrow>
      if yaml_get item ''kind'' = Yaml_Str ''Service'' then parse_and_update_services_list st x else Some st
    | _ \<Rightarrow> Some st) = Some st'"
  shows "found_ok st'"
proof (cases x)
  case (Yaml_Dict item)
  then show ?thesis using assms found_step [of st x st'] by (cases "yaml_get item ''kind'' = Yaml_Str ''Service''") simp_all
qed (use assms in simp_all)

lemma found_document:
  assumes "found_ok st" and "parse_yaml_code_for_service st y = Some st'"
  shows "found_ok st'"
proof (cases y)
  case (Yaml_Dict kvs)
  let ?kind = "yaml_get kvs ''kind''"
  have h: "hashable ?kind" using assms(2) Yaml_Dict by (auto simp: parse_yaml_code_for_service_def Let_def split: if_splits)
  consider (items) "?kind = Yaml_Str ''List''" | (one) "?kind = Yaml_Str ''Service''"
    | (other) "?kind \<noteq> Yaml_Str ''List''" "?kind \<noteq> Yaml_Str ''Service''" by blast
  then show ?thesis
  proof cases
    case items
    then obtain xs where "fold_opt (\<lambda>st x. case x of Yaml_Dict item \<Rightarrow>
        if yaml_get item ''kind'' = Yaml_Str ''Service'' then parse_and_update_services_list st x else Some st
      | _ \<Rightarrow> Some st) st xs = Some st'"
      using assms(2) Yaml_Dict h by (auto simp: parse_yaml_code_for_service_def Let_def split: bind_splits)
    from fold_opt_keeps [where I = found_ok, OF found_item assms(1) this] show ?thesis by simp
  next
    case one
    then show ?thesis using assms Yaml_Dict h found_step [of st y st'] by (simp add: parse_yaml_code_for_service_def)
  next
    case other
    then show ?thesis using assms Yaml_Dict h by (simp add: parse_yaml_code_for_service_def)
  qed
qed (use assms in \<open>simp_all add: parse_yaml_code_for_service_def\<close>)

lemma populate_found:
  assumes s: "target_pods s = []" "svc_namespace s = Some ns" "dict_get (=) (namespaces c) (svc_namespace_name s) = Some ns"
    and peers: "set_ok peer_eq (pc_peers c)" "\<forall>p\<in>set (pc_peers c). \<not> is_ip p \<and> \<not> is_dns p"
  shows "populate_service c s =
    Some (c\<lparr>services := dict_set (=) (services c) (ns_name ns @ ''/'' @ svc_name s)
      (s\<lparr>target_pods := if svc_selector s = [] then [] else filter (service_target ns s) (pc_peers c)\<rparr>)\<rparr>)"
proof (cases "svc_selector s = []")
  case False
  have "get_namespace c (svc_namespace_name s) = (c, ns)" using s(3) by (simp add: get_namespace_def)
  moreover have "s\<lparr>svc_namespace := Some ns\<rparr> = s" using s(2) by (cases s) simp
  ultimately show ?thesis using populate_with_selector [OF False peers] False by fastforce
next
  case True
  have same: "s\<lparr>target_pods := []\<rparr> = s" using s(1) by (cases s) simp
  have "fold_opt drop_pods_without_port s (map snd (svc_ports s)) = Some s"
    using drop_loop [OF peers, of s "\<lambda>_. False"] s(1) same by simp
  then show ?thesis using True s(2) same by (simp add: populate_service_def svc_full_name_def service_full_name_def)
qed

definition stored_one :: "peer_set \<Rightarrow> k8s_service list \<Rightarrow> string \<times> k8s_service \<Rightarrow> bool" where
  "stored_one peers svcs x \<longleftrightarrow>
     (\<exists>s\<in>set svcs. \<exists>ns. svc_namespace s = Some ns \<and> fst x = ns_name ns @ ''/'' @ svc_name s \<and>
        snd x = s\<lparr>target_pods := if svc_selector s = [] then [] else filter (service_target ns s) peers\<rparr>)"

definition stored_ok :: "peer_set \<Rightarrow> k8s_service list \<Rightarrow> (string \<times> k8s_service) list \<Rightarrow> bool" where
  "stored_ok peers svcs stored \<longleftrightarrow> (\<forall>x\<in>set stored. stored_one peers svcs x)"

lemma stored_set:
  "stored_ok peers svcs stored \<Longrightarrow> stored_one peers svcs (k, t) \<Longrightarrow> stored_ok peers svcs (dict_set (=) stored k t)"
  unfolding stored_ok_def by (blast dest: dict_set_mem)

lemma build_found:
  assumes "found_ok (nss, svcs)" and peers: "set_ok peer_eq peers" "\<forall>p\<in>set peers. \<not> is_ip p \<and> \<not> is_dns p"
    and "namespaces c = nss" and "pc_peers c = peers" and "set xs \<subseteq> set svcs" and "stored_ok peers svcs (services c)"
  shows "\<exists>c'. fold_opt populate_service c xs = Some c' \<and> namespaces c' = nss \<and> pc_peers c' = peers \<and>
           stored_ok peers svcs (services c') \<and>
           fst ` set (services c') = fst ` set (services c) \<union> (\<lambda>s. ns_name (the (svc_namespace s)) @ ''/'' @ svc_name s) ` set xs"
  using assms(4-)
proof (induction xs arbitrary: c)
  case (Cons s xs)
  obtain ns where s: "target_pods s = []" "svc_namespace s = Some ns" "dict_get (=) nss (svc_namespace_name s) = Some ns"
    using assms(1) Cons.prems(3) by (force simp: found_ok_def)
  let ?k = "ns_name ns @ ''/'' @ svc_name s"
  let ?t = "s\<lparr>target_pods := if svc_selector s = [] then [] else filter (service_target ns s) peers\<rparr>"
  let ?c = "c\<lparr>services := dict_set (=) (services c) ?k ?t\<rparr>"
  have one: "populate_service c s = Some ?c"
    using populate_found [OF s(1,2)] s(3) peers Cons.prems(1,2) by simp
  have "stored_one peers svcs (?k, ?t)" using Cons.prems(3) s(2) by (auto simp: stored_one_def)
  then have "stored_ok peers svcs (services ?c)"
    using Cons.prems(4) stored_set by simp
  moreover have "fst ` set (dict_set (=) (services c) ?k ?t) = insert ?k (fst ` set (services c))"
    by (rule dict_set_keys)
  ultimately show ?case using one Cons.IH [of ?c] Cons.prems s(2) by auto
qed simp

text \<open>
  C39. The services that the finder collects always have a namespace, with or without a selector,
  so they never make the construction of the container fail: when the finder has read some documents
  without raising, the container of its services with any set of pods and host endpoints is built,
  with these peers and the namespaces of the finder. It holds a service for each full name of a
  collected one, and every service it holds is a collected one with its target pods: none without a
  selector, otherwise the peers of its namespace that match the selector and define its named ports.
\<close>

theorem found_services_build_container:
  assumes "fold_opt parse_yaml_code_for_service (nss, []) docs = Some (nss', svcs)"
    and "set_ok peer_eq peers" and "\<forall>p\<in>set peers. \<not> is_ip p \<and> \<not> is_dns p"
  shows "\<exists>c. mk_peer_container peers nss' svcs representative livesim = Some c \<and>
           pc_peers c = peers \<and> namespaces c = nss' \<and>
           (\<forall>s\<in>set svcs. svc_namespace s \<noteq> None \<and> dict_get (=) nss' (svc_namespace_name s) = svc_namespace s \<and>
              ns_name (the (svc_namespace s)) @ ''/'' @ svc_name s \<in> fst ` set (services c)) \<and>
           (\<forall>(k, t)\<in>set (services c). \<exists>s\<in>set svcs. \<exists>ns.
              svc_namespace s = Some ns \<and> k = ns_name ns @ ''/'' @ svc_name s \<and>
              t = s\<lparr>target_pods := if svc_selector s = [] then [] else filter (service_target ns s) peers\<rparr>)"
proof -
  have "found_ok (nss, [])" by (simp add: found_ok_def)
  from fold_opt_keeps [where I = found_ok, OF found_document this assms(1)] have found: "found_ok (nss', svcs)" .
  let ?c = "\<lparr>pc_peers = peers, representative_peers = representative, livesim_peers = livesim, namespaces = nss', services = []\<rparr>"
  obtain c where c: "fold_opt populate_service ?c svcs = Some c" "namespaces c = nss'" "pc_peers c = peers"
    "stored_ok peers svcs (services c)"
    "fst ` set (services c) = (\<lambda>s. ns_name (the (svc_namespace s)) @ ''/'' @ svc_name s) ` set svcs"
  proof -
    have "stored_ok peers svcs (services ?c)" by (simp add: stored_ok_def)
    from build_found [OF found assms(2,3) _ _ subset_refl this] show thesis using that by (simp add: exI) blast
  qed
  have "\<forall>s\<in>set svcs. svc_namespace s \<noteq> None \<and> dict_get (=) nss' (svc_namespace_name s) = svc_namespace s"
    using found by (auto simp: found_ok_def)
  moreover have "\<forall>s\<in>set svcs. ns_name (the (svc_namespace s)) @ ''/'' @ svc_name s \<in> fst ` set (services c)"
    unfolding c(5) by (rule ballI) (rule imageI)
  moreover have "mk_peer_container peers nss' svcs representative livesim = Some c"
    unfolding mk_peer_container_def set_services_and_populate_target_pods_def by (rule c(1))
  ultimately show ?thesis
    using c(2,3,4) unfolding stored_ok_def stored_one_def case_prod_unfold by (intro exI [of _ c] conjI ballI) blast+
qed

text \<open>A service without a selector, as clusters have one for their own interface.\<close>

definition kubernetes_document :: yaml where
  "kubernetes_document =
     Yaml_Dict [(''kind'', Yaml_Str ''Service''), (''apiVersion'', Yaml_Str ''v1''),
       (''metadata'', Yaml_Dict [(''name'', Yaml_Str ''kubernetes''), (''namespace'', Yaml_Str ''default'')]),
       (''spec'', Yaml_Dict [(''ports'', Yaml_List [Yaml_Dict [(''name'', Yaml_Str ''https''), (''port'', Yaml_Int 443)]])])]"

definition kubernetes_service :: k8s_service where
  "kubernetes_service =
     (mk_service ''kubernetes'' ''default'')\<lparr>svc_namespace := Some example_ns,
        svc_ports := [(''https'', \<lparr>port_num = 443, sp_name = ''https'', sp_protocol = ''TCP'', target_port = Port_Num 443\<rparr>)]\<rparr>"

lemma kubernetes_found:
  "fold_opt parse_yaml_code_for_service ([], []) [kubernetes_document] = Some ([(''default'', example_ns)], [kubernetes_service])"
  unfolding kubernetes_document_def kubernetes_service_def example_ns_def by code_simp

theorem found_services_build_container_witness:
  "\<exists>c. mk_peer_container [example_app ''a'' ''x''] [(''default'', example_ns)] [kubernetes_service] [] [] = Some c \<and>
     ''default/kubernetes'' \<in> fst ` set (services c)"
proof -
  have p: "set_ok peer_eq [example_app ''a'' ''x'']" "\<forall>p\<in>set [example_app ''a'' ''x'']. \<not> is_ip p \<and> \<not> is_dns p"
    by (simp_all add: example_app_def is_ip_def is_dns_def set_ok_def)
  have k: "the (svc_namespace kubernetes_service) = example_ns" "svc_name kubernetes_service = ''kubernetes''"
    by (simp_all add: kubernetes_service_def mk_service_def)
  show ?thesis
    using found_services_build_container [OF kubernetes_found p, of "[]" "[]"] k
    by (auto simp: example_ns_def k8s_namespace_def)
qed

end
