(* ===== verification/Spec2Isabelle.thy ===== *)
theory Spec2Isabelle
  imports Query_Results Service_Finder
begin

text \<open>
  The network configuration analyzer reads the resources of a Kubernetes cluster (pods, services,
  network policies of Kubernetes, Calico, Istio and ingress gateways), computes the connections
  that the policies allow between the peers, and answers queries about them. This development
  models its core, the package \<open>src/nca\<close>, from the bottom up.

  \<^bold>\<open>Values.\<close> \<open>Interval_Sets\<close> models \<open>CoreDS/CanonicalIntervalSet.py\<close>: intervals and sorted lists of
  intervals, for any type of points with a successor, so that integers and addresses share it.
  \<open>Min_DFA\<close> is the wrapper of \<open>CoreDS/MinDFA.py\<close> around the package greenery, a record of functions
  whose documented laws are the hypothesis \<open>fsm_laws\<close>; its last section has the cache of regular
  expressions, which the operations leave out. \<open>Dimensions\<close> is the table of
  \<open>CoreDS/DimensionsManager.py\<close>.

  \<^bold>\<open>Cube sets.\<close> \<open>Hyper_Cubes\<close> models the tree of layers of \<open>CoreDS/CanonicalHyperCubeSet.py\<close>: a
  layer maps disjoint values of one dimension to the rest. \<open>Hyper_Cube_Algebra\<close> proves the
  auxiliary operations on a fixed list of dimensions, \<open>Hyper_Cube_Dims\<close> the operations that
  change the active dimensions, \<open>Hyper_Cube_Canon\<close> that equality of canonical trees decides equality
  of points, \<open>Hyper_Cube_Contain\<close> that containment of canonical, reduced trees decides containment of
  points, and \<open>Cube_Sets\<close> reaches them for the values of the dimensions and shows where the trees
  depend on their history: subtraction from an empty set, and objects of the subclass. An operation
  that raises is \<open>None\<close>.

  \<^bold>\<open>Peers and their numbers.\<close> \<open>Ip_Blocks\<close> and \<open>Peers\<close> are \<open>CoreDS/Peer.py\<close> and
  \<open>OtherResources/K8sNamespace.py\<close>: blocks of addresses, pods, hosts, DNS names, sets of peers, and the
  global numbering that represents sets of peers by sets of integers.

  \<^bold>\<open>Connections.\<close> \<open>Protocols\<close> (\<open>ProtocolNameResolver\<close>, \<open>ProtocolSet\<close>, \<open>MethodSet\<close>), \<open>Port_Sets\<close>
  (\<open>PortSet\<close>) and \<open>Connectivity\<close> (\<open>ConnectivityCube\<close>, \<open>ConnectivityProperties\<close>): cubes with the
  values that policies are written with, and the cube sets they become. \<open>Connection_Sets\<close> states
  what policies rely on as a locale, and proves it for these cube sets.

  \<^bold>\<open>Topology and policies.\<close> \<open>Peer_Container\<close> is \<open>OtherResources/K8sService.py\<close> and
  \<open>NetworkConfig/PeerContainer.py\<close>. \<open>Service_Finder\<close> has the way of services and namespaces from their
  resources into the container: \<open>Parsers/K8sServiceYamlParser.py\<close> with the checks of fields in
  \<open>GenericYamlParser.py\<close>, and the two finders of \<open>NetworkConfig/TopologyObjectsFinder.py\<close>; it shows that
  the container of the services found can always be built. \<open>Policies\<close> and \<open>Policy_Kinds\<close> are the classes of
  \<open>Resources/PolicyResources\<close>; \<open>Policy_Results\<close> shows what their connection sets mean.

  \<^bold>\<open>Layers.\<close> \<open>Network_Layers\<close> is \<open>NetworkConfig/NetworkLayer.py\<close> with the egress rules of sidecars;
  \<open>Layer_Results\<close> has the order of the policies in a layer and the end of the grouping loop;
  \<open>Allow_Layers\<close> shows that a layer whose policies only allow computes its specification by sets of
  connections.

  \<^bold>\<open>Configurations.\<close> \<open>Network_Config\<close> is \<open>NetworkConfig/NetworkConfig.py\<close> with the container and the
  queue of \<open>PoliciesFinder.py\<close>. \<open>Config_Results\<close> has the invariant of the container, the order of
  the queue, what a configuration allows as a specification over its layers, and what goes wrong
  with host endpoints.

  \<^bold>\<open>Queries.\<close> \<open>Query_Answers\<close> is \<open>NetworkConfig/QueryOutputHandler.py\<close>: answers, explanations, and the
  dictionaries and texts made of them. \<open>Queries\<close> is \<open>NetworkConfig/NetworkConfigQuery.py\<close>: one
  definition per query, on one configuration or two. \<open>Query_Results\<close> shows what some answers decide
  and what the explanations lose.

  \<^bold>\<open>Conventions.\<close> Objects that are changed in place are returned updated. Python's dictionaries are
  association lists in insertion order, its sets lists without equal elements. A branch that
  raises is \<open>None\<close>, or an error value where the kind of exception matters. All recursion is
  structural or has a termination proof, except for the grouping loop of sidecars, where not
  returning is \<open>None\<close> too; there is no fuel. Policies that were synchronised are returned.

  \<^bold>\<open>Not modelled.\<close> Printing, hashing and logging; the scanners of files, git, Helm and clusters, the
  command line and the output formats, which are input and output only. The parsers of policies,
  gateways and service entries, the finder of pods, and with them
  the loading of a configuration and rebuilding it for another container; the firewall rules and
  graphs that the connectivity map and the semantic difference are written with, and the texts of
  connections, which are parameters of the answers; the tracker of explanations. Of the
  package greenery and the regular expressions of Python only the calls, as parameters.
\<close>

end
